(* ===== verification/Prelude.thy ===== *)
theory Prelude
  imports Main "HOL-Library.AList"
begin

text \<open>
  Shared ground of the development: the outcome of a Go process and the state-passing programs
  that model effectful Go code, a small program logic for them, Go errors and \<open>errors.Is\<close>,
  64-bit integers, decimal numbers and strings as Go prints and reads them.
\<close>

section \<open>Programs\<close>

named_theorems wp \<open>rules of the program logic\<close>

text \<open>
  A call into effectful code either returns a value, or the process ends (\<open>os.Exit\<close>, an injected
  crash, a kill), or the fuel of a loop bound runs out. The state is whatever the code's
  collaborators keep: it stays a type variable wherever the code only calls interfaces.
\<close>

datatype 'a exec = Done 'a | Halt int | OutOfFuel

type_synonym ('s, 'a) prog = "'s \<Rightarrow> 'a exec \<times> 's"

definition preturn :: "'a \<Rightarrow> ('s, 'a) prog" where
  "preturn a = (\<lambda>s. (Done a, s))"

definition phalt :: "int \<Rightarrow> ('s, 'a) prog" where
  "phalt c = (\<lambda>s. (Halt c, s))"

definition pstuck :: "('s, 'a) prog" where
  "pstuck = (\<lambda>s. (OutOfFuel, s))"

definition pbind :: "('s, 'a) prog \<Rightarrow> ('a \<Rightarrow> ('s, 'b) prog) \<Rightarrow> ('s, 'b) prog" where
  "pbind m f = (\<lambda>s. case m s of
       (Done a, s') \<Rightarrow> f a s'
     | (Halt c, s') \<Rightarrow> (Halt c, s')
     | (OutOfFuel, s') \<Rightarrow> (OutOfFuel, s'))"

text \<open>Sequencing where the first call may return a Go error that the caller passes on unchanged.\<close>

definition pbindE :: "('s, 'e + 'a) prog \<Rightarrow> ('a \<Rightarrow> ('s, 'e + 'b) prog) \<Rightarrow> ('s, 'e + 'b) prog" where
  "pbindE m f = pbind m (\<lambda>r. case r of Inl e \<Rightarrow> preturn (Inl e) | Inr a \<Rightarrow> f a)"

text \<open>Sequencing where the caller rewrites the error first.\<close>

definition pbindM :: "('s, 'e + 'a) prog \<Rightarrow> ('e \<Rightarrow> ('s, 'e) prog) \<Rightarrow> ('a \<Rightarrow> ('s, 'e + 'b) prog)
    \<Rightarrow> ('s, 'e + 'b) prog" where
  "pbindM m h f = pbind m (\<lambda>r. case r of
       Inl e \<Rightarrow> pbind (h e) (\<lambda>e'. preturn (Inl e'))
     | Inr a \<Rightarrow> f a)"

text \<open>A deferred call: it runs when the function returns, whatever it returns.\<close>

definition deferring :: "('s, unit) prog \<Rightarrow> ('s, 'a) prog \<Rightarrow> ('s, 'a) prog" where
  "deferring d m = pbind m (\<lambda>r. pbind d (\<lambda>_. preturn r))"

lemma preturn_apply [simp]: "preturn a s = (Done a, s)"
  by (simp add: preturn_def)

lemma phalt_apply [simp]: "phalt c s = (Halt c, s)"
  by (simp add: phalt_def)

lemma pstuck_apply [simp]: "pstuck s = (OutOfFuel, s)"
  by (simp add: pstuck_def)

lemma pbind_preturn [simp]: "pbind (preturn a) f = f a"
  by (simp add: pbind_def)

lemma pbind_phalt [simp]: "pbind (phalt c) f = phalt c"
  by (simp add: pbind_def phalt_def)

lemma pbind_Done [simp]: "m s = (Done a, s') \<Longrightarrow> pbind m f s = f a s'"
  by (simp add: pbind_def)

lemma pbind_Halt [simp]: "m s = (Halt c, s') \<Longrightarrow> pbind m f s = (Halt c, s')"
  by (simp add: pbind_def)

lemma pbind_OutOfFuel [simp]: "m s = (OutOfFuel, s') \<Longrightarrow> pbind m f s = (OutOfFuel, s')"
  by (simp add: pbind_def)

lemma pbind_assoc: "pbind (pbind m f) g = pbind m (\<lambda>a. pbind (f a) g)"
  by (auto simp: pbind_def fun_eq_iff split: prod.splits exec.splits)

lemma pbind_eq_DoneD:
  "pbind m f s = (Done b, s'') \<Longrightarrow> \<exists>a s'. m s = (Done a, s') \<and> f a s' = (Done b, s'')"
  by (auto simp: pbind_def split: prod.splits exec.splits)

lemma pbindE_apply:
  "pbindE m f s = (case m s of
       (Done (Inl e), s') \<Rightarrow> (Done (Inl e), s')
     | (Done (Inr a), s') \<Rightarrow> f a s'
     | (Halt c, s') \<Rightarrow> (Halt c, s')
     | (OutOfFuel, s') \<Rightarrow> (OutOfFuel, s'))"
  by (simp add: pbindE_def pbind_def split: prod.splits exec.splits sum.splits)


subsection \<open>Program logic\<close>

text \<open>
  \<open>triple P m Q R\<close>: from a state with \<open>P\<close>, if the program returns, \<open>Q\<close> holds of its value and
  state; if the process ends inside it, or fuel runs out, \<open>R\<close> holds of the state left behind.
\<close>

definition triple ::
  "('s \<Rightarrow> bool) \<Rightarrow> ('s, 'a) prog \<Rightarrow> ('a \<Rightarrow> 's \<Rightarrow> bool) \<Rightarrow> ('s \<Rightarrow> bool) \<Rightarrow> bool" where
  "triple P m Q R \<longleftrightarrow> (\<forall>s. P s \<longrightarrow> (case m s of
       (Done a, s') \<Rightarrow> Q a s' | (Halt c, s') \<Rightarrow> R s' | (OutOfFuel, s') \<Rightarrow> R s'))"

lemma tripleI:
  assumes "\<And>s a s'. P s \<Longrightarrow> m s = (Done a, s') \<Longrightarrow> Q a s'"
    and "\<And>s c s'. P s \<Longrightarrow> m s = (Halt c, s') \<Longrightarrow> R s'"
    and "\<And>s s'. P s \<Longrightarrow> m s = (OutOfFuel, s') \<Longrightarrow> R s'"
  shows "triple P m Q R"
  using assms by (force simp: triple_def split: prod.splits exec.splits)

lemma triple_DoneD: "triple P m Q R \<Longrightarrow> P s \<Longrightarrow> m s = (Done a, s') \<Longrightarrow> Q a s'"
  by (auto simp: triple_def)

lemma triple_HaltD: "triple P m Q R \<Longrightarrow> P s \<Longrightarrow> m s = (Halt c, s') \<Longrightarrow> R s'"
  by (auto simp: triple_def)

lemma triple_FuelD: "triple P m Q R \<Longrightarrow> P s \<Longrightarrow> m s = (OutOfFuel, s') \<Longrightarrow> R s'"
  by (auto simp: triple_def)

lemma triple_return: "(\<And>s. P s \<Longrightarrow> Q a s) \<Longrightarrow> triple P (preturn a) Q R"
  by (simp add: triple_def)

lemma triple_halt: "(\<And>s. P s \<Longrightarrow> R s) \<Longrightarrow> triple P (phalt c) Q R"
  by (simp add: triple_def)

lemma triple_stuck: "(\<And>s. P s \<Longrightarrow> R s) \<Longrightarrow> triple P pstuck Q R"
  by (simp add: triple_def)

lemma triple_bind:
  assumes "triple P m Q' R" and "\<And>a. triple (Q' a) (f a) Q R"
  shows "triple P (pbind m f) Q R"
  using assms by (fastforce simp: triple_def pbind_def split: prod.splits exec.splits)

lemma triple_bindE:
  assumes "triple P m Q' R" and "\<And>e s. Q' (Inl e) s \<Longrightarrow> Q (Inl e) s"
    and "\<And>a. triple (Q' (Inr a)) (f a) Q R"
  shows "triple P (pbindE m f) Q R"
  unfolding pbindE_def
proof (rule triple_bind [OF assms(1)])
  fix r
  show "triple (Q' r) (case r of Inl e \<Rightarrow> preturn (Inl e) | Inr a \<Rightarrow> f a) Q R"
    using assms(2,3) by (cases r) (auto intro: triple_return)
qed

lemma triple_bindM:
  assumes "triple P m Q' R"
    and "\<And>e. triple (Q' (Inl e)) (h e) (\<lambda>e'. Q (Inl e')) R"
    and "\<And>a. triple (Q' (Inr a)) (f a) Q R"
  shows "triple P (pbindM m h f) Q R"
  unfolding pbindM_def
proof (rule triple_bind [OF assms(1)])
  fix r
  show "triple (Q' r) (case r of Inl e \<Rightarrow> pbind (h e) (\<lambda>e'. preturn (Inl e')) | Inr a \<Rightarrow> f a) Q R"
    using assms(2,3) by (cases r) (auto intro: triple_bind triple_return)
qed

lemma triple_conseq:
  assumes "triple P' m Q' R'" and "\<And>s. P s \<Longrightarrow> P' s" and "\<And>a s. Q' a s \<Longrightarrow> Q a s"
    and "\<And>s. R' s \<Longrightarrow> R s"
  shows "triple P m Q R"
  using assms by (fastforce simp: triple_def split: prod.splits exec.splits)

lemma triple_pre: "triple P' m Q R \<Longrightarrow> (\<And>s. P s \<Longrightarrow> P' s) \<Longrightarrow> triple P m Q R"
  by (auto simp: triple_def)

lemma triple_post: "triple P m Q' R \<Longrightarrow> (\<And>a s. Q' a s \<Longrightarrow> Q a s) \<Longrightarrow> triple P m Q R"
  by (erule triple_conseq) auto

lemma triple_if:
  assumes "b \<Longrightarrow> triple P m Q R" and "\<not> b \<Longrightarrow> triple P n Q R"
  shows "triple P (if b then m else n) Q R"
  using assms by simp

lemma triple_sum:
  assumes "\<And>e. r = Inl e \<Longrightarrow> triple P (f e) Q R" and "\<And>a. r = Inr a \<Longrightarrow> triple P (g a) Q R"
  shows "triple P (case r of Inl e \<Rightarrow> f e | Inr a \<Rightarrow> g a) Q R"
  using assms by (cases r) auto

lemma triple_option:
  assumes "r = None \<Longrightarrow> triple P m Q R" and "\<And>a. r = Some a \<Longrightarrow> triple P (g a) Q R"
  shows "triple P (case r of None \<Rightarrow> m | Some a \<Rightarrow> g a) Q R"
  using assms by (cases r) auto

lemma triple_fact: "(\<And>s. P s \<Longrightarrow> F) \<Longrightarrow> (F \<Longrightarrow> triple P m Q R) \<Longrightarrow> triple P m Q R"
  by (cases F) (auto simp: triple_def)

lemma triple_ex:
  assumes "\<And>n. triple (P n) m Q R" shows "triple (\<lambda>s. \<exists>n. P n s) m Q R"
proof (rule tripleI)
  show "\<exists>n. P n s \<Longrightarrow> m s = (Done a, s') \<Longrightarrow> Q a s'" for s a s'
    using triple_DoneD [OF assms] by blast
  show "\<exists>n. P n s \<Longrightarrow> m s = (Halt c, s') \<Longrightarrow> R s'" for s c s'
    using triple_HaltD [OF assms] by blast
  show "\<exists>n. P n s \<Longrightarrow> m s = (OutOfFuel, s') \<Longrightarrow> R s'" for s s'
    using triple_FuelD [OF assms] by blast
qed

lemma triple_conj:
  assumes "triple P m Q R" and "triple P' m Q' R'"
  shows "triple (\<lambda>s. P s \<and> P' s) m (\<lambda>a s. Q a s \<and> Q' a s) (\<lambda>s. R s \<and> R' s)"
  using assms by (fastforce simp: triple_def split: prod.splits exec.splits)

lemmas triple_rules [wp] =
  triple_return triple_halt triple_stuck triple_bind triple_bindE triple_bindM triple_if
  triple_sum triple_option


subsection \<open>What a program leaves alone\<close>

definition leaves :: "('s \<Rightarrow> 'c) \<Rightarrow> ('s, 'a) prog \<Rightarrow> bool" where
  "leaves view m \<longleftrightarrow> (\<forall>s. view (snd (m s)) = view s)"

lemma leavesD: "leaves view m \<Longrightarrow> m s = (x, s') \<Longrightarrow> view s' = view s"
  by (metis leaves_def snd_conv)

lemma leaves_return [simp]: "leaves view (preturn a)" and leaves_halt [simp]: "leaves view (phalt c)"
  and leaves_stuck [simp]: "leaves view pstuck"
  by (simp_all add: leaves_def)

lemma leaves_bind: "leaves view m \<Longrightarrow> (\<And>a. leaves view (f a)) \<Longrightarrow> leaves view (pbind m f)"
  unfolding leaves_def pbind_def by (auto split: prod.splits exec.splits) (metis snd_conv)+

lemma leaves_bindE: "leaves view m \<Longrightarrow> (\<And>a. leaves view (f a)) \<Longrightarrow> leaves view (pbindE m f)"
  unfolding pbindE_def by (rule leaves_bind) (simp_all split: sum.split)

lemma leaves_bindM:
  "leaves view m \<Longrightarrow> (\<And>e. leaves view (h e)) \<Longrightarrow> (\<And>a. leaves view (f a)) \<Longrightarrow> leaves view (pbindM m h f)"
  unfolding pbindM_def by (rule leaves_bind) (auto intro!: leaves_bind split: sum.split)

lemma leaves_if: "leaves view m \<Longrightarrow> leaves view n \<Longrightarrow> leaves view (if b then m else n)"
  by simp

lemma leaves_sum:
  "(\<And>e. leaves view (f e)) \<Longrightarrow> (\<And>a. leaves view (g a)) \<Longrightarrow> leaves view (case r of Inl e \<Rightarrow> f e | Inr a \<Rightarrow> g a)"
  by (simp split: sum.split)

lemma leaves_option:
  "leaves view f \<Longrightarrow> (\<And>a. leaves view (g a)) \<Longrightarrow> leaves view (case r of None \<Rightarrow> f | Some a \<Rightarrow> g a)"
  by (simp split: option.split)

lemma leaves_deferring: "leaves view d \<Longrightarrow> leaves view m \<Longrightarrow> leaves view (deferring d m)"
  unfolding deferring_def by (intro leaves_bind leaves_return)

lemmas leaves_rules = leaves_return leaves_halt leaves_stuck leaves_bind leaves_bindE leaves_bindM leaves_if
  leaves_sum leaves_option leaves_deferring

lemma leaves_triple: "leaves view m \<Longrightarrow> triple (\<lambda>s. P (view s)) m (\<lambda>_ s. P (view s)) (\<lambda>s. P (view s))"
  by (rule tripleI) (metis leavesD)+


subsection \<open>Programs that end\<close>

text \<open>
  A program that, from every state with \<open>P\<close>, returns or ends the process on purpose: it neither runs out of
  fuel nor panics (status 2). \<open>total\<close> is the triple together with that.
\<close>

definition finishes :: "('s \<Rightarrow> bool) \<Rightarrow> ('s, 'a) prog \<Rightarrow> bool" where
  "finishes P m \<longleftrightarrow> (\<forall>s. P s \<longrightarrow> (case fst (m s) of Done _ \<Rightarrow> True | Halt c \<Rightarrow> c \<noteq> 2 | OutOfFuel \<Rightarrow> False))"

definition total ::
  "('s \<Rightarrow> bool) \<Rightarrow> ('s, 'a) prog \<Rightarrow> ('a \<Rightarrow> 's \<Rightarrow> bool) \<Rightarrow> ('s \<Rightarrow> bool) \<Rightarrow> bool" where
  "total P m Q R \<longleftrightarrow> triple P m Q R \<and> finishes P m"

lemma totalI:
  assumes "\<And>s a s'. P s \<Longrightarrow> m s = (Done a, s') \<Longrightarrow> Q a s'"
    and "\<And>s c s'. P s \<Longrightarrow> m s = (Halt c, s') \<Longrightarrow> c \<noteq> 2 \<and> R s'"
    and "\<And>s s'. P s \<Longrightarrow> m s \<noteq> (OutOfFuel, s')"
  shows "total P m Q R"
  unfolding total_def finishes_def triple_def
proof (intro conjI allI impI)
  fix s assume p: "P s"
  obtain x s' where m: "m s = (x, s')" by fastforce
  show "case m s of (Done a, s') \<Rightarrow> Q a s' | (Halt c, s') \<Rightarrow> R s' | (OutOfFuel, s') \<Rightarrow> R s'"
    "case fst (m s) of Done _ \<Rightarrow> True | Halt c \<Rightarrow> c \<noteq> 2 | OutOfFuel \<Rightarrow> False"
    using assms(1) [OF p, of _ s'] assms(2) [OF p, of _ s'] assms(3) [OF p, of s'] m by (cases x; simp)+
qed

lemma finishes_pre: "finishes P' m \<Longrightarrow> (\<And>s. P s \<Longrightarrow> P' s) \<Longrightarrow> finishes P m"
  by (simp add: finishes_def)

lemma finishes_fact: "(\<And>s. P s \<Longrightarrow> F) \<Longrightarrow> (F \<Longrightarrow> finishes P m) \<Longrightarrow> finishes P m"
  by (cases F) (auto simp: finishes_def)

lemma finishes_return [simp]: "finishes P (preturn a)"
  by (simp add: finishes_def)

lemma finishes_halt: "c \<noteq> 2 \<Longrightarrow> finishes P (phalt c)"
  by (simp add: finishes_def)

lemma finishes_bind:
  assumes "triple P m Q R" and "finishes P m" and "\<And>a. finishes (Q a) (f a)"
  shows "finishes P (pbind m f)"
  unfolding finishes_def
proof (intro allI impI)
  fix s assume p: "P s"
  obtain x s' where m: "m s = (x, s')" by fastforce
  show "case fst (pbind m f s) of Done _ \<Rightarrow> True | Halt c \<Rightarrow> c \<noteq> 2 | OutOfFuel \<Rightarrow> False"
  proof (cases x)
    case (Done a)
    with triple_DoneD [OF assms(1) p] m assms(3) [of a] show ?thesis by (simp add: finishes_def)
  qed (use m p assms(2) in \<open>auto simp: finishes_def\<close>)
qed

lemma total_return: "(\<And>s. P s \<Longrightarrow> Q a s) \<Longrightarrow> total P (preturn a) Q R"
  by (simp add: total_def triple_return)

lemma total_halt: "c \<noteq> 2 \<Longrightarrow> (\<And>s. P s \<Longrightarrow> R s) \<Longrightarrow> total P (phalt c) Q R"
  by (simp add: total_def triple_halt finishes_halt)

lemma total_bind:
  assumes "total P m Q' R" and "\<And>a. total (Q' a) (f a) Q R" shows "total P (pbind m f) Q R"
  using assms unfolding total_def by (auto intro: triple_bind finishes_bind)

lemma total_bindE:
  assumes "total P m Q' R" and "\<And>e s. Q' (Inl e) s \<Longrightarrow> Q (Inl e) s"
    and "\<And>a. total (Q' (Inr a)) (f a) Q R"
  shows "total P (pbindE m f) Q R"
  unfolding pbindE_def
proof (rule total_bind [OF assms(1)])
  show "total (Q' r) (case r of Inl e \<Rightarrow> preturn (Inl e) | Inr a \<Rightarrow> f a) Q R" for r
    using assms(2,3) by (cases r) (auto intro: total_return)
qed

lemma total_bindM:
  assumes "total P m Q' R"
    and "\<And>e. total (Q' (Inl e)) (h e) (\<lambda>e'. Q (Inl e')) R"
    and "\<And>a. total (Q' (Inr a)) (f a) Q R"
  shows "total P (pbindM m h f) Q R"
  unfolding pbindM_def
proof (rule total_bind [OF assms(1)])
  show "total (Q' r) (case r of Inl e \<Rightarrow> pbind (h e) (\<lambda>e'. preturn (Inl e')) | Inr a \<Rightarrow> f a) Q R" for r
    using assms(2,3) by (cases r) (auto intro: total_bind total_return)
qed

lemma total_conseq:
  assumes "total P' m Q' R'" and "\<And>s. P s \<Longrightarrow> P' s" and "\<And>a s. Q' a s \<Longrightarrow> Q a s" and "\<And>s. R' s \<Longrightarrow> R s"
  shows "total P m Q R"
  using triple_conseq [of P' m Q' R' P Q R] assms by (auto simp: total_def intro: finishes_pre)

lemma total_pre: "total P' m Q R \<Longrightarrow> (\<And>s. P s \<Longrightarrow> P' s) \<Longrightarrow> total P m Q R"
  by (erule total_conseq) auto

lemma total_if:
  "(b \<Longrightarrow> total P m Q R) \<Longrightarrow> (\<not> b \<Longrightarrow> total P n Q R) \<Longrightarrow> total P (if b then m else n) Q R"
  by simp

lemma total_sum:
  "(\<And>e. r = Inl e \<Longrightarrow> total P (f e) Q R) \<Longrightarrow> (\<And>a. r = Inr a \<Longrightarrow> total P (g a) Q R)
    \<Longrightarrow> total P (case r of Inl e \<Rightarrow> f e | Inr a \<Rightarrow> g a) Q R"
  by (cases r) auto

lemma total_option:
  "(r = None \<Longrightarrow> total P m Q R) \<Longrightarrow> (\<And>a. r = Some a \<Longrightarrow> total P (g a) Q R)
    \<Longrightarrow> total P (case r of None \<Rightarrow> m | Some a \<Rightarrow> g a) Q R"
  by (cases r) auto

lemma total_fact: "(\<And>s. P s \<Longrightarrow> F) \<Longrightarrow> (F \<Longrightarrow> total P m Q R) \<Longrightarrow> total P m Q R"
  by (cases F) (auto simp: total_def triple_def finishes_def)

lemma total_conj:
  "triple P m Q R \<Longrightarrow> total P' m Q' R'
    \<Longrightarrow> total (\<lambda>s. P s \<and> P' s) m (\<lambda>a s. Q a s \<and> Q' a s) (\<lambda>s. R s \<and> R' s)"
  by (auto simp: total_def intro: triple_conj finishes_pre)

lemma total_triple: "total P m Q R \<Longrightarrow> triple P m Q R" and total_finishes: "total P m Q R \<Longrightarrow> finishes P m"
  by (simp_all add: total_def)

text \<open>A program that ends and keeps an invariant, wherever it ends.\<close>

definition orderly :: "('s \<Rightarrow> bool) \<Rightarrow> ('s, 'a) prog \<Rightarrow> bool" where
  "orderly ok m \<longleftrightarrow> total ok m (\<lambda>_. ok) ok"

lemma orderly_return [simp]: "orderly ok (preturn a)"
  by (simp add: orderly_def total_return)

lemma orderly_halt: "c \<noteq> 2 \<Longrightarrow> orderly ok (phalt c)"
  by (simp add: orderly_def total_halt)

lemma orderly_bind: "orderly ok m \<Longrightarrow> (\<And>a. orderly ok (f a)) \<Longrightarrow> orderly ok (pbind m f)"
  unfolding orderly_def by (rule total_bind)

lemma orderly_bindE: "orderly ok m \<Longrightarrow> (\<And>a. orderly ok (f a)) \<Longrightarrow> orderly ok (pbindE m f)"
  unfolding orderly_def by (rule total_bindE)

lemma orderly_bindM: "orderly ok m \<Longrightarrow> (\<And>e. orderly ok (h e)) \<Longrightarrow> (\<And>a. orderly ok (f a)) \<Longrightarrow> orderly ok (pbindM m h f)"
  unfolding orderly_def by (rule total_bindM)

lemma orderly_if: "(b \<Longrightarrow> orderly ok m) \<Longrightarrow> (\<not> b \<Longrightarrow> orderly ok n) \<Longrightarrow> orderly ok (if b then m else n)"
  by simp

lemma orderly_sum:
  "(\<And>e. r = Inl e \<Longrightarrow> orderly ok (f e)) \<Longrightarrow> (\<And>a. r = Inr a \<Longrightarrow> orderly ok (g a))
    \<Longrightarrow> orderly ok (case r of Inl e \<Rightarrow> f e | Inr a \<Rightarrow> g a)"
  by (cases r) auto

lemma orderly_option:
  "(r = None \<Longrightarrow> orderly ok m) \<Longrightarrow> (\<And>a. r = Some a \<Longrightarrow> orderly ok (g a))
    \<Longrightarrow> orderly ok (case r of None \<Rightarrow> m | Some a \<Rightarrow> g a)"
  by (cases r) auto

lemmas orderly_rules = orderly_return orderly_bind orderly_bindE orderly_bindM orderly_if orderly_sum orderly_option


section \<open>Go errors\<close>

text \<open>
  A Go error is its message together with the sentinel values that \<open>errors.Is\<close> finds on its
  chain. A \<open>%w\<close> verb keeps the wrapped error's sentinels, a \<open>%v\<close> verb drops them. A Postgres error is
  on the chain with its SQLSTATE code, for \<open>errors.As\<close>.
\<close>

datatype sentinel =
    SUnknownEventType | SMissingField | SInvalidPayload
  | SRunNotFound | SFirstEventNotStart | SSequenceGap | SConflictingEvent | SEventAfterTerminal
  | SRunIDMismatch | SUnknownToolUseID | SToolOrder
  | SToolOutcomeUnknown
  | SFenceUnavailable | SUnresolvable | SRecordMismatch | SOutcomeUnknown | SClaimLost
  | SCorruptRecord | SRestart
  | SPublishFailed
  | SContextCanceled | SContextDeadline | SRedisNil | SNotExist
  | SPgError string

datatype goerror = GoError (err_msg: string) (err_chain: "sentinel list")

definition errors_New :: "sentinel \<Rightarrow> string \<Rightarrow> goerror" where
  "errors_New x m = GoError m [x]"

definition errors_Is :: "goerror \<Rightarrow> sentinel \<Rightarrow> bool" where
  "errors_Is e x \<longleftrightarrow> x \<in> set (err_chain e)"

text \<open>\<open>fmt.Errorf\<close> with no wrapped error, and with a prefix before one \<open>%w\<close>.\<close>

definition Errorf :: "string \<Rightarrow> goerror" where
  "Errorf m = GoError m []"

definition Errorw :: "string \<Rightarrow> goerror \<Rightarrow> goerror" where
  "Errorw pre e = GoError (pre @ err_msg e) (err_chain e)"

text \<open>\<open>fmt.Errorf("%w: ...", e, ...)\<close>: the wrapped error first, more text after it.\<close>

definition Errorws :: "goerror \<Rightarrow> string \<Rightarrow> goerror" where
  "Errorws e post = GoError (err_msg e @ post) (err_chain e)"

lemma errors_Is_simps [simp]:
  "errors_Is (errors_New y m) x \<longleftrightarrow> x = y"
  "errors_Is (Errorf m) x \<longleftrightarrow> False"
  "errors_Is (Errorw pre e) x \<longleftrightarrow> errors_Is e x"
  "errors_Is (Errorws e post) x \<longleftrightarrow> errors_Is e x"
  by (simp_all add: errors_Is_def errors_New_def Errorf_def Errorw_def Errorws_def)


section \<open>64-bit integers\<close>

text \<open>
  Go's \<open>int\<close>, \<open>int64\<close> and \<open>time.Duration\<close> are signed 64-bit values (on the targets the repository
  builds for). They are kept as \<open>int\<close>; every addition the code performs on them goes through
  \<open>wrap64\<close>, and what a parser accepts is bounded by \<open>in64\<close>.
\<close>

definition min64 :: int where "min64 = - 9223372036854775808"

definition max64 :: int where "max64 = 9223372036854775807"

definition in64 :: "int \<Rightarrow> bool" where
  "in64 x \<longleftrightarrow> min64 \<le> x \<and> x \<le> max64"

definition wrap64 :: "int \<Rightarrow> int" where
  "wrap64 x = (x + 9223372036854775808) mod 18446744073709551616 - 9223372036854775808"

lemma wrap64_id: "in64 x \<Longrightarrow> wrap64 x = x"
  by (simp add: in64_def wrap64_def min64_def max64_def)

lemma wrap64_in64 [simp]: "in64 (wrap64 x)"
  unfolding in64_def wrap64_def min64_def max64_def
  using pos_mod_bound [of 18446744073709551616 "x + 9223372036854775808"]
    pos_mod_sign [of 18446744073709551616 "x + 9223372036854775808"]
  by linarith

lemma in64_zero [simp]: "in64 0"
  by (simp add: in64_def min64_def max64_def)

lemma wrap64_nat: "0 \<le> x \<Longrightarrow> x < 9223372036854775808 \<Longrightarrow> wrap64 x = x"
  by (rule wrap64_id) (simp add: in64_def min64_def max64_def)

lemma wrap64_Suc_lt:
  assumes "in64 x" and "in64 y" and "x < y"
  shows "wrap64 (x + 1) = x + 1"
  using assms by (intro wrap64_id) (simp add: in64_def)

text \<open>\<open>time.Time.Sub\<close> saturates instead of wrapping.\<close>

definition sat64 :: "int \<Rightarrow> int" where
  "sat64 x = (if x < min64 then min64 else if max64 < x then max64 else x)"

end
