(* ===== verification/Go_Text.thy ===== *)
theory Go_Text
  imports Prelude
begin

text \<open>
  What the code uses of Go's \<open>strconv\<close>, \<open>strings\<close>, \<open>fmt\<close> and \<open>time\<close> packages: decimal integers,
  quoting, cutting, splitting and joining, durations as the fence log prints them, and the RFC 3339
  text of an instant. A string is its list of bytes. An instant is its number of nanoseconds since
  the Unix epoch (UTC).
\<close>

section \<open>Decimal integers\<close>

definition digit_char :: "nat \<Rightarrow> char" where
  "digit_char n = char_of (48 + n)"

definition digit_of :: "char \<Rightarrow> nat option" where
  "digit_of c = (let n = of_char c in if 48 \<le> n \<and> n \<le> (57::nat) then Some (n - 48) else None)"

fun show_nat :: "nat \<Rightarrow> string" where
  "show_nat n = (if n < 10 then [digit_char n] else show_nat (n div 10) @ [digit_char (n mod 10)])"

declare show_nat.simps [simp del]

definition show_int :: "int \<Rightarrow> string" where
  "show_int i = (if i < 0 then CHR ''-'' # show_nat (nat (- i)) else show_nat (nat i))"

fun digits_val :: "nat \<Rightarrow> string \<Rightarrow> nat option" where
  "digits_val acc [] = Some acc"
| "digits_val acc (c # cs) = (case digit_of c of
     None \<Rightarrow> None
   | Some d \<Rightarrow> digits_val (10 * acc + d) cs)"

definition parse_nat :: "string \<Rightarrow> nat option" where
  "parse_nat s = (if s = [] then None else digits_val 0 s)"

text \<open>\<open>strconv.ParseInt(s, 10, 64)\<close>: syntax and range errors are both \<open>None\<close>.\<close>

definition ParseInt64 :: "string \<Rightarrow> int option" where
  "ParseInt64 s = (case (case s of
       [] \<Rightarrow> None
     | c # cs \<Rightarrow> if c = CHR ''-'' then map_option (\<lambda>n. - int n) (parse_nat cs)
               else if c = CHR ''+'' then map_option int (parse_nat cs)
               else map_option int (parse_nat s)) of
     None \<Rightarrow> None
   | Some i \<Rightarrow> if in64 i then Some i else None)"

lemma digit_of_char [simp]: "d < 10 \<Longrightarrow> digit_of (digit_char d) = Some d"
  by (simp add: digit_of_def digit_char_def Let_def)

lemma digit_of_SomeD:
  assumes "digit_of c = Some d" shows "d < 10" and "c = digit_char d"
proof -
  have n: "48 \<le> (of_char c :: nat)" "(of_char c :: nat) \<le> 57" "d = of_char c - 48"
    using assms by (auto simp: digit_of_def Let_def split: if_splits)
  then show "d < 10" by simp
  from n have "48 + d = of_char c" by simp
  then show "c = digit_char d" by (simp add: digit_char_def)
qed

lemma digit_char_digit [simp]: "d < 10 \<Longrightarrow> digit_of (digit_char d) \<noteq> None"
  by simp

lemma show_nat_nonempty [simp]: "show_nat n \<noteq> []"
  by (subst show_nat.simps) simp

lemma show_nat_digits: "\<forall>c \<in> set (show_nat n). digit_of c \<noteq> None"
proof (induction n rule: show_nat.induct)
  case (1 n)
  then show ?case by (subst show_nat.simps) auto
qed

lemma digits_val_append:
  "digits_val a (xs @ ys) = (case digits_val a xs of None \<Rightarrow> None | Some b \<Rightarrow> digits_val b ys)"
  by (induction xs arbitrary: a) (auto split: option.splits)

lemma digits_val_show: "digits_val 0 (show_nat n) = Some n"
proof (induction n rule: show_nat.induct)
  case (1 n)
  show ?case
  proof (cases "n < 10")
    case True
    then show ?thesis by (subst show_nat.simps) simp
  next
    case False
    with 1 have "digits_val 0 (show_nat (n div 10)) = Some (n div 10)" by simp
    with False show ?thesis by (subst show_nat.simps) (simp add: digits_val_append)
  qed
qed

lemma parse_show_nat [simp]: "parse_nat (show_nat n) = Some n"
  by (simp add: parse_nat_def digits_val_show)

lemma show_nat_inject [simp]: "show_nat m = show_nat n \<longleftrightarrow> m = n"
  by (metis option.inject parse_show_nat)

lemma minus_not_digit [simp]: "digit_of CHR ''-'' = None" "digit_of CHR ''+'' = None"
    "digit_of CHR '':'' = None"
  by (simp_all add: digit_of_def)

lemma show_nat_hd: "show_nat n = c # cs \<Longrightarrow> digit_of c \<noteq> None"
  using show_nat_digits [of n] by simp

text \<open>What \<open>%d\<close> prints, \<open>strconv.ParseInt\<close> reads back.\<close>

lemma ParseInt64_show [simp]:
  assumes "in64 i" shows "ParseInt64 (show_int i) = Some i"
proof (cases "i < 0")
  case True
  with assms show ?thesis by (simp add: ParseInt64_def show_int_def)
next
  case False
  obtain c cs where s: "show_nat (nat i) = c # cs"
    using show_nat_nonempty [of "nat i"] by (cases "show_nat (nat i)") auto
  then have "c \<noteq> CHR ''-''" "c \<noteq> CHR ''+''"
    using show_nat_hd [OF s] by auto
  moreover have "parse_nat (c # cs) = Some (nat i)"
    using parse_show_nat [of "nat i"] s by simp
  ultimately show ?thesis
    using False assms s by (simp add: ParseInt64_def show_int_def)
qed

lemma show_int_inject [simp]: "show_int i = show_int j \<longleftrightarrow> i = j"
proof
  assume e: "show_int i = show_int j"
  have no: "CHR ''-'' # xs \<noteq> show_nat n" for xs n
    using show_nat_hd [of n "CHR ''-''" xs] by auto
  show "i = j"
    using e no no [symmetric] by (auto simp: show_int_def split: if_splits)
qed simp

lemma show_nat_no_colon: "CHR '':'' \<notin> set (show_nat n)"
  using show_nat_digits [of n] by (metis minus_not_digit(3))

lemma show_int_no_colon: "CHR '':'' \<notin> set (show_int i)"
  by (simp add: show_int_def show_nat_no_colon)


section \<open>Strings\<close>

text \<open>\<open>strings.Cut(s, ":")\<close> for a one-byte separator: \<open>None\<close> when it does not occur.\<close>

fun strings_Cut :: "char \<Rightarrow> string \<Rightarrow> (string \<times> string) option" where
  "strings_Cut sep [] = None"
| "strings_Cut sep (c # cs) = (if c = sep then Some ([], cs)
     else map_option (\<lambda>(a, b). (c # a, b)) (strings_Cut sep cs))"

text \<open>\<open>strings.Split(s, ",")\<close>: always at least one part.\<close>

fun strings_Split :: "char \<Rightarrow> string \<Rightarrow> string list" where
  "strings_Split sep [] = [[]]"
| "strings_Split sep (c # cs) = (if c = sep then [] # strings_Split sep cs
     else (case strings_Split sep cs of p # ps \<Rightarrow> (c # p) # ps | [] \<Rightarrow> [[c]]))"

fun strings_Join :: "string \<Rightarrow> string list \<Rightarrow> string" where
  "strings_Join sep [] = []"
| "strings_Join sep [x] = x"
| "strings_Join sep (x # y # ys) = x @ sep @ strings_Join sep (y # ys)"

lemma strings_Cut_None: "strings_Cut sep s = None \<longleftrightarrow> sep \<notin> set s"
  by (induction s) auto

lemma strings_Cut_SomeD: "strings_Cut sep s = Some (a, b) \<Longrightarrow> s = a @ sep # b \<and> sep \<notin> set a"
  by (induction s arbitrary: a) (auto split: if_splits)

lemma strings_Cut_append: "sep \<notin> set a \<Longrightarrow> strings_Cut sep (a @ sep # b) = Some (a, b)"
  by (induction a) auto

lemma strings_Split_nonempty [simp]: "strings_Split sep s \<noteq> []"
  by (induction s) (auto split: list.splits)

lemma strings_Join_Split: "strings_Join [sep] (strings_Split sep s) = s"
proof (induction s)
  case (Cons c cs)
  obtain p ps where "strings_Split sep cs = p # ps"
    using strings_Split_nonempty [of sep cs] by (cases "strings_Split sep cs") auto
  with Cons show ?case by (cases ps) auto
qed simp

lemma strings_Join_empty_sep: "strings_Join [] xs = concat xs"
proof (induction xs)
  case (Cons x xs)
  then show ?case by (cases xs) simp_all
qed simp

text \<open>
  The \<open>%q\<close> verb on a string, for ASCII: bytes from 128 on are taken to spell printable runes and
  are copied.
\<close>

definition hex_digit :: "nat \<Rightarrow> char" where
  "hex_digit n = (if n < 10 then digit_char n else char_of (87 + n))"

definition quote_char :: "char \<Rightarrow> string" where
  "quote_char c = (let n = (of_char c :: nat) in
     if n = 34 then [CHR 92, CHR 34]
     else if n = 92 then [CHR 92, CHR 92]
     else if n = 7 then [CHR 92, CHR ''a'']
     else if n = 8 then [CHR 92, CHR ''b'']
     else if n = 12 then [CHR 92, CHR ''f'']
     else if n = 10 then [CHR 92, CHR ''n'']
     else if n = 13 then [CHR 92, CHR ''r'']
     else if n = 9 then [CHR 92, CHR ''t'']
     else if n = 11 then [CHR 92, CHR ''v'']
     else if n < 32 \<or> n = 127 then [CHR 92, CHR ''x'', hex_digit (n div 16), hex_digit (n mod 16)]
     else [c])"

definition go_quote :: "string \<Rightarrow> string" where
  "go_quote s = [CHR 34] @ concat (map quote_char s) @ [CHR 34]"

definition show_bool :: "bool \<Rightarrow> string" where
  "show_bool b = (if b then ''true'' else ''false'')"

lemma ParseInt64_in64: "ParseInt64 s = Some i \<Longrightarrow> in64 i"
  by (auto simp: ParseInt64_def Let_def split: option.splits if_splits prod.splits)

end
