(* ===== verification/Go_Time.thy ===== *)
theory Go_Time
  imports Go_Text
begin

text \<open>
  Instants, durations and the RFC 3339 text that \<open>encoding/json\<close> gives a \<open>time.Time\<close>: the civil
  calendar with its inverse, printing with trailing zeros of the fraction dropped, and parsing. An
  instant in UTC whose year has four digits is read back unchanged (\<open>parse_format_time\<close>).
\<close>

section \<open>Instants and durations\<close>

type_synonym gotime = int
type_synonym duration = int

definition Microsecond :: duration where "Microsecond = 1000"
definition Millisecond :: duration where "Millisecond = 1000000"
definition Second :: duration where "Second = 1000000000"
definition Minute :: duration where "Minute = 60000000000"
definition Hour :: duration where "Hour = 3600000000000"

lemmas duration_defs = Microsecond_def Millisecond_def Second_def Minute_def Hour_def

text \<open>The zero \<open>time.Time\<close> is the start of year 1.\<close>

definition zero_time :: gotime where "zero_time = - 62135596800000000000"

definition time_Sub :: "gotime \<Rightarrow> gotime \<Rightarrow> duration" where
  "time_Sub a b = sat64 (a - b)"

text \<open>\<open>t.UTC().Truncate(time.Microsecond)\<close>: down to a multiple of a microsecond since \<open>zero_time\<close>.\<close>

definition truncate_us :: "gotime \<Rightarrow> gotime" where
  "truncate_us t = t - (t - zero_time) mod Microsecond"

lemma truncate_us_eq: "truncate_us t = zero_time + 1000 * ((t - zero_time) div 1000)"
  by (simp add: truncate_us_def Microsecond_def minus_mod_eq_mult_div [symmetric])

lemma truncate_us_mod: "truncate_us t mod 1000 = 0"
  unfolding truncate_us_eq by (simp add: zero_time_def)

lemma truncate_us_le: "truncate_us t \<le> t" and truncate_us_gt: "t - 1000 < truncate_us t"
  by (simp_all add: truncate_us_def Microsecond_def)

lemma truncate_us_idem [simp]: "truncate_us (truncate_us t) = truncate_us t"
proof -
  have "(truncate_us t - zero_time) mod Microsecond = 0"
    by (simp add: Microsecond_def truncate_us_eq)
  then show ?thesis by (simp add: truncate_us_def [of "truncate_us t"])
qed


section \<open>The civil calendar\<close>

text \<open>
  Years start on the first of March here, so that a leap day is the last day of its year; day 0 of
  the count is 1970-01-01. An era is 400 years.
\<close>

definition days_from_civil :: "int \<Rightarrow> int \<Rightarrow> int \<Rightarrow> int" where
  "days_from_civil y m d = (let
     y' = (if m \<le> 2 then y - 1 else y);
     yoe = y' mod 400;
     mp = (m + 9) mod 12;
     doy = (153 * mp + 2) div 5 + d - 1;
     doe = yoe * 365 + yoe div 4 - yoe div 100 + doy
   in (y' div 400) * 146097 + doe - 719468)"

definition year_of_era :: "int \<Rightarrow> int \<times> int" where
  "year_of_era doe = (let
     n100 = min 3 (doe div 36524); r = doe - 36524 * n100;
     n4 = r div 1461; r' = r - 1461 * n4;
     n1 = min 3 (r' div 365)
   in (100 * n100 + 4 * n4 + n1, r' - 365 * n1))"

definition civil_from_days :: "int \<Rightarrow> int \<times> int \<times> int" where
  "civil_from_days z = (let
     z' = z + 719468;
     (yoe, doy) = year_of_era (z' mod 146097);
     mp = (5 * doy + 2) div 153;
     d = doy - (153 * mp + 2) div 5 + 1;
     m = (if mp < 10 then mp + 3 else mp - 9);
     y = yoe + (z' div 146097) * 400
   in (if m \<le> 2 then y + 1 else y, m, d))"

definition is_leap :: "int \<Rightarrow> bool" where
  "is_leap y \<longleftrightarrow> y mod 4 = 0 \<and> (y mod 100 \<noteq> 0 \<or> y mod 400 = 0)"

definition days_in :: "int \<Rightarrow> int \<Rightarrow> int" where
  "days_in m y = (if m = 2 then (if is_leap y then 29 else 28)
     else if m \<in> {4, 6, 9, 11} then 30 else 31)"

lemma year_of_era_bounds:
  assumes "0 \<le> doe" and "doe < 146097" and "year_of_era doe = (yoe, doy)"
  shows "0 \<le> yoe" "yoe < 400" "0 \<le> doy" "doy \<le> 365"
    "yoe * 365 + yoe div 4 - yoe div 100 + doy = doe"
    "doy = 365 \<Longrightarrow> (yoe + 1) mod 4 = 0 \<and> ((yoe + 1) mod 100 \<noteq> 0 \<or> yoe + 1 = 400)"
proof -
  define n100 where "n100 = min 3 (doe div 36524)"
  define r where "r = doe - 36524 * n100"
  define n4 where "n4 = r div 1461"
  define r' where "r' = r - 1461 * n4"
  define n1 where "n1 = min 3 (r' div 365)"
  have "n100 < 3 \<Longrightarrow> r = doe mod 36524"
    by (simp add: n100_def r_def min_def minus_mult_div_eq_mod split: if_splits)
  moreover have "doe mod 36524 < 36524" by simp
  moreover have "0 \<le> n100" "n100 \<le> 3" "0 \<le> r" "r \<le> 36524"
    using assms(1,2) by (auto simp: n100_def r_def min_def)
  ultimately have n100: "0 \<le> n100" "n100 \<le> 3" "0 \<le> r" "r \<le> 36524" "r = 36524 \<Longrightarrow> n100 = 3"
    by linarith+
  have n4: "0 \<le> n4" "n4 \<le> 24" "0 \<le> r'" "r' \<le> 1460" "r = 1461 * n4 + r'"
    using n100 by (auto simp: n4_def r'_def)
  have "n1 < 3 \<Longrightarrow> r' - 365 * n1 = r' mod 365"
    by (simp add: n1_def min_def minus_mult_div_eq_mod split: if_splits)
  moreover have "r' mod 365 < 365" by simp
  moreover have "0 \<le> n1" "n1 \<le> 3" "0 \<le> r' - 365 * n1" "r' - 365 * n1 \<le> 365"
    using n4(3,4) by (auto simp: n1_def min_def)
  ultimately have n1: "0 \<le> n1" "n1 \<le> 3" "0 \<le> r' - 365 * n1" "r' - 365 * n1 \<le> 365"
      "r' - 365 * n1 = 365 \<Longrightarrow> n1 = 3 \<and> r' = 1460"
    by linarith+
  have yoe: "yoe = 100 * n100 + 4 * n4 + n1" and doy: "doy = r' - 365 * n1"
    using assms(3) by (simp_all add: year_of_era_def Let_def n100_def r_def n4_def r'_def n1_def)
  have d4: "yoe div 4 = 25 * n100 + n4" and d100: "yoe div 100 = n100"
  proof -
    have "yoe = n1 + (25 * n100 + n4) * 4" and "n1 div 4 = 0" using n1 by (simp_all add: yoe)
    then show "yoe div 4 = 25 * n100 + n4" by simp
    have "yoe = (4 * n4 + n1) + n100 * 100" and "(4 * n4 + n1) div 100 = 0"
      using n4 n1 by (simp_all add: yoe)
    then show "yoe div 100 = n100" by simp
  qed
  show "0 \<le> yoe" "yoe < 400" "0 \<le> doy" "doy \<le> 365"
    using n100 n4 n1 by (simp_all add: yoe doy)
  show "yoe * 365 + yoe div 4 - yoe div 100 + doy = doe"
    using n4(5) unfolding d4 d100 by (simp add: yoe doy r_def)
  assume "doy = 365"
  then have *: "n1 = 3" "r' = 1460" using n1(5) doy by simp_all
  show "(yoe + 1) mod 4 = 0 \<and> ((yoe + 1) mod 100 \<noteq> 0 \<or> yoe + 1 = 400)"
  proof (cases "n4 = 24")
    case True
    with * n4(5) n100 have "n100 = 3" by simp
    with True * show ?thesis by (simp add: yoe)
  next
    case False
    with n4 have "n4 \<le> 23" by simp
    with * n4(1) show ?thesis unfolding yoe by presburger
  qed
qed

lemma civil_from_days_correct:
  assumes "civil_from_days z = (y, m, d)"
  shows "days_from_civil y m d = z" "1 \<le> m" "m \<le> 12" "1 \<le> d" "d \<le> days_in m y" "d \<le> 31"
proof -
  define z' where "z' = z + 719468"
  obtain yoe doy where yd: "year_of_era (z' mod 146097) = (yoe, doy)" by fastforce
  have "0 \<le> z' mod 146097" "z' mod 146097 < 146097" by simp_all
  note b = year_of_era_bounds [OF this yd]
  define mp where "mp = (5 * doy + 2) div 153"
  define y0 where "y0 = yoe + (z' div 146097) * 400"
  have eqs: "d = doy - (153 * mp + 2) div 5 + 1" "m = (if mp < 10 then mp + 3 else mp - 9)"
      "y = (if m \<le> 2 then y0 + 1 else y0)"
    using assms yd by (auto simp: civil_from_days_def Let_def z'_def mp_def y0_def)
  have "0 \<le> mp" "mp < 12" using b(3,4) by (auto simp: mp_def)
  then have mps: "mp \<in> {0,1,2,3,4,5,6,7,8,9,10,11}" unfolding insert_iff empty_iff by presburger
  have dl: "5 * doy + 2 < 153 * mp + 153" "153 * mp \<le> 5 * doy + 2"
    by (simp_all add: mp_def)
  show "1 \<le> m" "m \<le> 12" "1 \<le> d" "d \<le> 31"
    using mps dl eqs by auto
  have y0m: "y0 mod 400 = yoe" "y0 div 400 = z' div 146097"
    using b(1,2) by (simp_all add: y0_def)
  have mm: "(m + 9) mod 12 = mp" "(if m \<le> 2 then y - 1 else y) = y0"
    using mps eqs by auto
  show "days_from_civil y m d = z"
  proof -
    have "days_from_civil y m d
        = (z' div 146097) * 146097 + (yoe * 365 + yoe div 4 - yoe div 100 + doy) - 719468"
      by (simp add: days_from_civil_def Let_def mm y0m eqs(1))
    also have "\<dots> = z' - 719468" unfolding b(5) by simp
    finally show ?thesis by (simp add: z'_def)
  qed
  show "d \<le> days_in m y"
  proof (cases "mp = 11 \<and> doy = 365")
    case True
    with b(6) have l: "(yoe + 1) mod 4 = 0" "(yoe + 1) mod 100 \<noteq> 0 \<or> yoe + 1 = 400" by auto
    define k where "k = z' div 146097"
    have "y0 + 1 = (yoe + 1) + (k * 100) * 4" "y0 + 1 = (yoe + 1) + (k * 4) * 100"
        "y0 + 1 = (yoe + 1) + k * 400"
      by (simp_all add: y0_def k_def)
    then have "(y0 + 1) mod 4 = (yoe + 1) mod 4" "(y0 + 1) mod 100 = (yoe + 1) mod 100"
        "(y0 + 1) mod 400 = (yoe + 1) mod 400"
      by (metis mod_mult_self1)+
    with l have "is_leap (y0 + 1)" unfolding is_leap_def by auto
    then show ?thesis using True eqs by (simp add: days_in_def)
  next
    case False
    with mps dl eqs b(4) show ?thesis by (auto simp: days_in_def)
  qed
qed


section \<open>RFC 3339 text\<close>

fun fixed :: "nat \<Rightarrow> nat \<Rightarrow> string" where
  "fixed 0 n = []"
| "fixed (Suc w) n = fixed w (n div 10) @ [digit_char (n mod 10)]"

definition strip_zeros :: "string \<Rightarrow> string" where
  "strip_zeros s = rev (dropWhile (\<lambda>c. c = CHR ''0'') (rev s))"

definition format_frac :: "nat \<Rightarrow> string" where
  "format_frac n = (if n = 0 then [] else CHR ''.'' # strip_zeros (fixed 9 n))"

text \<open>The layout \<open>2006-01-02T15:04:05.999999999Z07:00\<close> of an instant in UTC.\<close>

definition format_time :: "gotime \<Rightarrow> string" where
  "format_time t = (case civil_from_days (t div 86400000000000) of (y, m, d) \<Rightarrow>
     let n = nat (t mod 86400000000000); s = n div 1000000000 in
       fixed 4 (nat y) @ ''-'' @ fixed 2 (nat m) @ ''-'' @ fixed 2 (nat d) @ ''T''
       @ fixed 2 (s div 3600) @ '':'' @ fixed 2 (s div 60 mod 60) @ '':'' @ fixed 2 (s mod 60)
       @ format_frac (n mod 1000000000) @ ''Z'')"

definition time_year :: "gotime \<Rightarrow> int" where
  "time_year t = fst (civil_from_days (t div 86400000000000))"

text \<open>\<open>time.Time.MarshalJSON\<close> refuses a year outside 0 to 9999.\<close>

definition json_year :: "gotime \<Rightarrow> bool" where
  "json_year t \<longleftrightarrow> 0 \<le> time_year t \<and> time_year t \<le> 9999"

definition num_at :: "string \<Rightarrow> nat \<Rightarrow> nat \<Rightarrow> nat option" where
  "num_at s i w = (if i + w \<le> length s then digits_val 0 (take w (drop i s)) else None)"

definition parse_frac :: "string \<Rightarrow> nat \<times> string" where
  "parse_frac s = (case s of
     c # c' # cs \<Rightarrow> if c = CHR ''.'' \<and> digit_of c' \<noteq> None
       then (let ds = takeWhile (\<lambda>x. digit_of x \<noteq> None) (c' # cs) in
         (the (digits_val 0 (take 9 (ds @ replicate 9 (CHR ''0'')))), drop (length ds) (c' # cs)))
       else (0, s)
   | _ \<Rightarrow> (0, s))"

definition parse_zone :: "string \<Rightarrow> int option" where
  "parse_zone s = (if s = ''Z'' then Some 0
     else if length s = 6 \<and> (s ! 0 = CHR ''-'' \<or> s ! 0 = CHR ''+'') \<and> s ! 3 = CHR '':''
     then (case (num_at s 1 2, num_at s 4 2) of
         (Some hh, Some mm) \<Rightarrow> if hh \<le> 24 \<and> mm \<le> 60
            then Some ((if s ! 0 = CHR ''-'' then - 1 else 1) * ((int hh * 60 + int mm) * 60)) else None
       | _ \<Rightarrow> None)
     else None)"

definition parse_time :: "string \<Rightarrow> gotime option" where
  "parse_time s = (case (num_at s 0 4, num_at s 5 2, num_at s 8 2, num_at s 11 2, num_at s 14 2,
       num_at s 17 2) of
     (Some y, Some m, Some d, Some h, Some mi, Some sec) \<Rightarrow>
       if s ! 4 = CHR ''-'' \<and> s ! 7 = CHR ''-'' \<and> s ! 10 = CHR ''T'' \<and> s ! 13 = CHR '':''
         \<and> s ! 16 = CHR '':'' \<and> 1 \<le> m \<and> m \<le> 12 \<and> 1 \<le> d \<and> int d \<le> days_in (int m) (int y)
         \<and> h < 24 \<and> mi < 60 \<and> sec < 60
       then (case parse_frac (drop 19 s) of (ns, rest) \<Rightarrow> (case parse_zone rest of
           None \<Rightarrow> None
         | Some off \<Rightarrow> Some ((days_from_civil (int y) (int m) (int d) * 86400
             + int (h * 3600 + mi * 60 + sec) - off) * 1000000000 + int ns)))
       else None
   | _ \<Rightarrow> None)"

lemma length_fixed [simp]: "length (fixed w n) = w"
  by (induction w arbitrary: n) auto

lemma digits_val_fixed: "digits_val 0 (fixed w n) = Some (n mod 10 ^ w)"
proof (induction w arbitrary: n)
  case (Suc w)
  have "10 * (n div 10 mod 10 ^ w) + n mod 10 = n mod (10 * 10 ^ w)"
    by (simp add: mod_mult2_eq)
  then show ?case by (simp add: Suc digits_val_append)
qed simp

lemma fixed_digits: "c \<in> set (fixed w n) \<Longrightarrow> digit_of c \<noteq> None"
  by (induction w arbitrary: n) auto

lemma strip_zeros_pad:
  "\<exists>j. s = strip_zeros s @ replicate j (CHR ''0'') \<and> j \<le> length s"
proof -
  have e: "takeWhile (\<lambda>c. c = CHR ''0'') xs
      = replicate (length (takeWhile (\<lambda>c. c = CHR ''0'') xs)) (CHR ''0'')" for xs
    by (induction xs) auto
  let ?j = "length (takeWhile (\<lambda>c. c = CHR ''0'') (rev s))"
  have "s = strip_zeros s @ rev (takeWhile (\<lambda>c. c = CHR ''0'') (rev s))"
    unfolding strip_zeros_def
    by (metis rev_append rev_rev_ident takeWhile_dropWhile_id)
  then have "s = strip_zeros s @ replicate ?j (CHR ''0'')"
    by (metis e rev_replicate)
  moreover have "?j \<le> length s"
    by (metis length_rev length_takeWhile_le)
  ultimately show ?thesis by blast
qed

lemma take_strip_zeros:
  assumes "length s = k" shows "take k (strip_zeros s @ replicate k (CHR ''0'')) = s"
proof -
  obtain j where j: "s = strip_zeros s @ replicate j (CHR ''0'')" "j \<le> length s"
    using strip_zeros_pad by blast
  have "take (k - length (strip_zeros s)) (replicate k (CHR ''0''))
      = replicate j (CHR ''0'')"
  proof -
    have "length s = length (strip_zeros s) + j"
      by (metis j(1) length_append length_replicate)
    then show ?thesis using assms by (simp add: min_def)
  qed
  moreover have "length (strip_zeros s) \<le> k"
    by (metis assms j(1) le_add1 length_append)
  ultimately show ?thesis using j(1) by simp
qed

lemma strip_zeros_subset: "set (strip_zeros s) \<subseteq> set s"
  using set_dropWhileD by (fastforce simp: strip_zeros_def)

lemma strip_zeros_nonempty:
  assumes "digits_val 0 s = Some n" and "n \<noteq> 0" shows "strip_zeros s \<noteq> []"
proof
  assume "strip_zeros s = []"
  then obtain j where "s = replicate j (CHR ''0'')"
    using strip_zeros_pad [of s] by auto
  moreover have "digits_val 0 (replicate j (CHR ''0'')) = Some 0"
    by (induction j) (simp_all add: digit_of_def)
  ultimately show False using assms by simp
qed

lemma Z_not_digit: "digit_of CHR ''Z'' = None"
  by (simp add: digit_of_def)

lemma parse_format_frac:
  assumes "n < 1000000000" shows "parse_frac (format_frac n @ ''Z'') = (n, ''Z'')"
proof (cases "n = 0")
  case True
  then show ?thesis by (simp add: format_frac_def parse_frac_def)
next
  case False
  have dv: "digits_val 0 (fixed 9 n) = Some n"
    using assms digits_val_fixed [of 9 n] by simp
  define z where "z = strip_zeros (fixed 9 n)"
  have zd: "\<forall>c \<in> set z. digit_of c \<noteq> None"
    using strip_zeros_subset [of "fixed 9 n"] fixed_digits by (auto simp: z_def)
  have "z \<noteq> []" using strip_zeros_nonempty [OF dv False] by (simp add: z_def)
  then obtain c cs where c: "z = c # cs" by (cases z) auto
  have tw: "takeWhile (\<lambda>x. digit_of x \<noteq> None) (z @ ''Z'') = z"
    using zd by (simp add: takeWhile_append Z_not_digit)
  have "parse_frac (format_frac n @ ''Z'') = parse_frac (CHR ''.'' # z @ ''Z'')"
    using False by (simp add: format_frac_def z_def)
  also have "\<dots> = (the (digits_val 0 (take 9 (z @ replicate 9 (CHR ''0'')))), ''Z'')"
  proof -
    have dc: "digit_of c \<noteq> None" using zd c by simp
    have tw': "takeWhile (\<lambda>x. digit_of x \<noteq> None) (c # cs @ ''Z'') = z"
      using tw c by simp
    show ?thesis
      unfolding c append_Cons parse_frac_def list.case Let_def tw'
      using dc c by simp
  qed
  also have "take 9 (z @ replicate 9 (CHR ''0'')) = fixed 9 n"
    unfolding z_def by (rule take_strip_zeros) simp
  finally show ?thesis using dv by simp
qed

lemma num_at_fixed:
  assumes "length a = i" and "n < 10 ^ w"
  shows "num_at (a @ fixed w n @ b) i w = Some n"
  using assms by (simp add: num_at_def digits_val_fixed)

text \<open>What \<open>MarshalJSON\<close> prints for an instant with a four-digit year, \<open>UnmarshalJSON\<close> reads back.\<close>

lemma parse_format_time:
  assumes "json_year t" shows "parse_time (format_time t) = Some t"
proof -
  obtain y m d where c: "civil_from_days (t div 86400000000000) = (y, m, d)"
    by (metis prod_cases3)
  note cc = civil_from_days_correct [OF c]
  have y: "0 \<le> y" "y \<le> 9999" using assms c by (simp_all add: json_year_def time_year_def)
  define n where "n = nat (t mod 86400000000000)"
  define s where "s = n div 1000000000"
  define f where "f = format_frac (n mod 1000000000) @ ''Z''"
  have n: "n < 86400000000000" by (simp add: n_def nat_less_iff)
  then have s: "s < 86400" by (simp add: s_def less_mult_imp_div_less)
  define h mi se where "h = s div 3600" and "mi = s div 60 mod 60" and "se = s mod 60"
  have b: "nat y < 10000" "nat m < 100" "nat d < 100" "h < 24" "mi < 60" "se < 60"
    using cc y s by (simp_all add: h_def mi_def se_def less_mult_imp_div_less)
  have sum: "h * 3600 + mi * 60 + se = s"
  proof -
    have "h = s div 60 div 60" by (simp add: h_def div_mult2_eq [symmetric])
    moreover have "s div 60 = s div 60 div 60 * 60 + mi" by (simp add: mi_def)
    moreover have "s = s div 60 * 60 + se" by (simp add: se_def)
    ultimately show ?thesis by linarith
  qed
  define A1 A2 A3 A4 A5 where "A1 = fixed 4 (nat y) @ ''-''" and "A2 = A1 @ fixed 2 (nat m) @ ''-''"
    and "A3 = A2 @ fixed 2 (nat d) @ ''T''" and "A4 = A3 @ fixed 2 h @ '':''"
    and "A5 = A4 @ fixed 2 mi @ '':''"
  have len: "length A1 = 5" "length A2 = 8" "length A3 = 11" "length A4 = 14" "length A5 = 17"
    by (simp_all add: A1_def A2_def A3_def A4_def A5_def)
  define B5 B4 B3 B2 B1 where "B5 = f" and "B4 = '':'' @ fixed 2 se @ B5"
    and "B3 = '':'' @ fixed 2 mi @ B4" and "B2 = ''T'' @ fixed 2 h @ B3"
    and "B1 = ''-'' @ fixed 2 (nat d) @ B2"
  let ?T = "format_time t"
  have T: "?T = A5 @ fixed 2 se @ B5" "?T = A4 @ fixed 2 mi @ B4" "?T = A3 @ fixed 2 h @ B3"
      "?T = A2 @ fixed 2 (nat d) @ B2" "?T = A1 @ fixed 2 (nat m) @ B1"
      "?T = [] @ fixed 4 (nat y) @ (''-'' @ fixed 2 (nat m) @ B1)"
    by (simp_all add: format_time_def c Let_def A1_def A2_def A3_def A4_def A5_def B1_def B2_def
        B3_def B4_def B5_def f_def n_def [symmetric] s_def [symmetric] h_def mi_def se_def)
  have nums: "num_at ?T 0 4 = Some (nat y)" "num_at ?T 5 2 = Some (nat m)"
      "num_at ?T 8 2 = Some (nat d)" "num_at ?T 11 2 = Some h" "num_at ?T 14 2 = Some mi"
      "num_at ?T 17 2 = Some se"
    subgoal unfolding T(6) by (rule num_at_fixed) (use b in simp_all)
    subgoal unfolding T(5) by (rule num_at_fixed) (use b len in simp_all)
    subgoal unfolding T(4) by (rule num_at_fixed) (use b len in simp_all)
    subgoal unfolding T(3) by (rule num_at_fixed) (use b len in simp_all)
    subgoal unfolding T(2) by (rule num_at_fixed) (use b len in simp_all)
    subgoal unfolding T(1) by (rule num_at_fixed) (use b len in simp_all)
    done
  have chars: "?T ! 4 = CHR ''-''" "?T ! 7 = CHR ''-''" "?T ! 10 = CHR ''T''" "?T ! 13 = CHR '':''"
      "?T ! 16 = CHR '':''"
    by (simp_all add: T(1) nth_append A1_def A2_def A3_def A4_def A5_def)
  have rest: "drop 19 ?T = f" by (simp add: T(1) len B5_def)
  have "int n = t mod 86400000000000" by (simp add: n_def)
  moreover have "n = s * 1000000000 + n mod 1000000000" by (simp add: s_def)
  ultimately have "t = (t div 86400000000000) * 86400000000000 + int (s * 1000000000 + n mod 1000000000)"
    by (metis mult_div_mod_eq mult.commute)
  then have val: "86400000000000 * (t div 86400000000000) + int s * 1000000000 + int (n mod 1000000000) = t"
    by simp
  have md: "Suc 0 \<le> nat m" "nat m \<le> 12" "Suc 0 \<le> nat d" using cc by linarith+
  show ?thesis
    using cc y b md
    by (simp add: parse_time_def nums chars rest f_def parse_format_frac parse_zone_def sum val)
qed

end
