(* ===== verification/Go_Json.thy ===== *)
theory Go_Json
  imports Go_Time "HOL-Library.Char_ord" "HOL-Library.List_Lexorder"
begin

text \<open>
  What the code uses of \<open>encoding/json\<close>, on documents: a value with the members of an object in
  their order, duplicates included, and a number as its literal. Decoding into a struct follows Go:
  members are matched by exact name, else by folded name, unknown members are skipped, \<open>null\<close> leaves
  a field alone, and a later duplicate overwrites. The bytes of a document (white space, the spelling
  of escapes) are below this model, but for the canonical text that the argument hash is taken of.
\<close>

section \<open>Documents\<close>

datatype json =
    JNull
  | JBool bool
  | JNum string
  | JStr string
  | JArr "json list"
  | JObj "(string \<times> json) list"

text \<open>A \<open>json.RawMessage\<close>, or any bytes about to be decoded: \<open>None\<close> when they are no document.\<close>

type_synonym raw = "json option"

text \<open>The text of \<open>encoding/json\<close>'s own errors is not modelled.\<close>

definition json_error :: goerror where
  "json_error = Errorf ''json: cannot unmarshal''"


section \<open>Decoding into a struct\<close>

text \<open>
  Folding a member name for the case-insensitive match: ASCII letters to upper case, and the two
  runes beyond ASCII that fold to ASCII letters, U+017F (bytes C5 BF) and U+212A (E2 84 AA).
\<close>

definition upper_char :: "char \<Rightarrow> char" where
  "upper_char c = (let n = (of_char c :: nat) in if 97 \<le> n \<and> n \<le> 122 then char_of (n - 32) else c)"

fun fold_name :: "string \<Rightarrow> string" where
  "fold_name [] = []"
| "fold_name (c # cs) =
     (if of_char c = (197::nat) \<and> (case cs of [] \<Rightarrow> False | d # _ \<Rightarrow> of_char d = (191::nat))
      then CHR ''S'' # fold_name (drop 1 cs)
      else if of_char c = (226::nat) \<and> (case cs of d # e # _ \<Rightarrow>
             of_char d = (132::nat) \<and> of_char e = (170::nat) | _ \<Rightarrow> False)
      then CHR ''K'' # fold_name (drop 2 cs)
      else upper_char c # fold_name cs)"

type_synonym 'r field = "string \<times> (json \<Rightarrow> 'r \<Rightarrow> 'r option)"

definition find_field :: "'r field list \<Rightarrow> string \<Rightarrow> (json \<Rightarrow> 'r \<Rightarrow> 'r option) option" where
  "find_field fs k = (case map_of fs k of
     Some f \<Rightarrow> Some f
   | None \<Rightarrow> map_option snd (find (\<lambda>(n, _). fold_name n = fold_name k) fs))"

fun dec_members :: "'r field list \<Rightarrow> (string \<times> json) list \<Rightarrow> 'r \<Rightarrow> 'r option" where
  "dec_members fs [] r = Some r"
| "dec_members fs ((k, v) # ms) r = (case find_field fs k of
     None \<Rightarrow> dec_members fs ms r
   | Some f \<Rightarrow> (case f v r of None \<Rightarrow> None | Some r' \<Rightarrow> dec_members fs ms r'))"

text \<open>\<open>json.Unmarshal(b, &r)\<close> for a struct \<open>r\<close> with the given fields.\<close>

definition Unmarshal :: "'r field list \<Rightarrow> raw \<Rightarrow> 'r \<Rightarrow> goerror + 'r" where
  "Unmarshal fs b r = (case b of
     Some JNull \<Rightarrow> Inr r
   | Some (JObj ms) \<Rightarrow> (case dec_members fs ms r of None \<Rightarrow> Inl json_error | Some r' \<Rightarrow> Inr r')
   | _ \<Rightarrow> Inl json_error)"

text \<open>Fields by their Go type; \<open>put\<close> stores the decoded value.\<close>

definition dec_string :: "(string \<Rightarrow> 'r \<Rightarrow> 'r) \<Rightarrow> json \<Rightarrow> 'r \<Rightarrow> 'r option" where
  "dec_string put j r = (case j of JNull \<Rightarrow> Some r | JStr s \<Rightarrow> Some (put s r) | _ \<Rightarrow> None)"

definition dec_string_ptr :: "(string option \<Rightarrow> 'r \<Rightarrow> 'r) \<Rightarrow> json \<Rightarrow> 'r \<Rightarrow> 'r option" where
  "dec_string_ptr put j r = (case j of
     JNull \<Rightarrow> Some (put None r) | JStr s \<Rightarrow> Some (put (Some s) r) | _ \<Rightarrow> None)"

definition dec_int :: "(int \<Rightarrow> 'r \<Rightarrow> 'r) \<Rightarrow> json \<Rightarrow> 'r \<Rightarrow> 'r option" where
  "dec_int put j r = (case j of
     JNull \<Rightarrow> Some r
   | JNum l \<Rightarrow> (case ParseInt64 l of None \<Rightarrow> None | Some i \<Rightarrow> Some (put i r))
   | _ \<Rightarrow> None)"

definition dec_bool :: "(bool \<Rightarrow> 'r \<Rightarrow> 'r) \<Rightarrow> json \<Rightarrow> 'r \<Rightarrow> 'r option" where
  "dec_bool put j r = (case j of JNull \<Rightarrow> Some r | JBool b \<Rightarrow> Some (put b r) | _ \<Rightarrow> None)"

definition dec_raw :: "(raw \<Rightarrow> 'r \<Rightarrow> 'r) \<Rightarrow> json \<Rightarrow> 'r \<Rightarrow> 'r option" where
  "dec_raw put j r = Some (put (Some j) r)"

definition dec_time :: "(gotime \<Rightarrow> 'r \<Rightarrow> 'r) \<Rightarrow> json \<Rightarrow> 'r \<Rightarrow> 'r option" where
  "dec_time put j r = (case j of
     JNull \<Rightarrow> Some r
   | JStr s \<Rightarrow> (case parse_time s of None \<Rightarrow> None | Some t \<Rightarrow> Some (put t r))
   | _ \<Rightarrow> None)"

definition dec_time_ptr :: "(gotime option \<Rightarrow> 'r \<Rightarrow> 'r) \<Rightarrow> json \<Rightarrow> 'r \<Rightarrow> 'r option" where
  "dec_time_ptr put j r = (case j of
     JNull \<Rightarrow> Some (put None r)
   | JStr s \<Rightarrow> (case parse_time s of None \<Rightarrow> None | Some t \<Rightarrow> Some (put (Some t) r))
   | _ \<Rightarrow> None)"

text \<open>Decoding into a \<open>map[string]json.RawMessage\<close>: the last of duplicate members is kept.\<close>

definition Unmarshal_map :: "raw \<Rightarrow> goerror + (string \<times> json) list" where
  "Unmarshal_map b = (case b of
     Some JNull \<Rightarrow> Inr [] | Some (JObj ms) \<Rightarrow> Inr (rev ms) | _ \<Rightarrow> Inl json_error)"


section \<open>Encoding\<close>

definition enc_int :: "int \<Rightarrow> json" where "enc_int i = JNum (show_int i)"

definition enc_string_ptr :: "string option \<Rightarrow> json" where
  "enc_string_ptr p = (case p of None \<Rightarrow> JNull | Some s \<Rightarrow> JStr s)"

definition enc_raw :: "raw \<Rightarrow> json" where
  "enc_raw b = (case b of None \<Rightarrow> JNull | Some j \<Rightarrow> j)"

definition enc_time :: "gotime \<Rightarrow> json" where "enc_time t = JStr (format_time t)"

definition enc_time_ptr :: "gotime option \<Rightarrow> json" where
  "enc_time_ptr p = (case p of None \<Rightarrow> JNull | Some t \<Rightarrow> enc_time t)"

text \<open>Every field reads back what the encoder wrote for it.\<close>

named_theorems dec_enc \<open>a field decoder applied to an encoded field\<close>

lemma dec_string_enc [dec_enc]: "dec_string put (JStr s) r = Some (put s r)"
  by (simp add: dec_string_def)

lemma dec_string_ptr_enc [dec_enc]: "dec_string_ptr put (enc_string_ptr p) r = Some (put p r)"
  by (cases p) (simp_all add: dec_string_ptr_def enc_string_ptr_def)

lemma dec_int_enc [dec_enc]: "in64 i \<Longrightarrow> dec_int put (enc_int i) r = Some (put i r)"
  by (simp add: dec_int_def enc_int_def)

lemma dec_bool_enc [dec_enc]: "dec_bool put (JBool b) r = Some (put b r)"
  by (simp add: dec_bool_def)

lemma dec_raw_enc [dec_enc]: "dec_raw put j r = Some (put (Some j) r)"
  by (simp add: dec_raw_def)

lemma dec_time_enc [dec_enc]: "json_year t \<Longrightarrow> dec_time put (enc_time t) r = Some (put t r)"
  by (simp add: dec_time_def enc_time_def parse_format_time)

lemma dec_time_ptr_enc [dec_enc]:
  "(\<And>t. p = Some t \<Longrightarrow> json_year t) \<Longrightarrow> dec_time_ptr put (enc_time_ptr p) r = Some (put p r)"
  by (cases p) (simp_all add: dec_time_ptr_def enc_time_ptr_def enc_time_def parse_format_time)

lemma find_field_here: "find_field ((k, f) # fs) k = Some f"
  by (simp add: find_field_def)

lemma find_field_there: "k' \<noteq> k \<Longrightarrow> map_of fs k' \<noteq> None \<Longrightarrow> find_field ((k, f) # fs) k' = find_field fs k'"
  by (auto simp: find_field_def)

lemma enc_raw_Some [simp]: "enc_raw (Some j) = j"
  by (simp add: enc_raw_def)


section \<open>Canonical text\<close>

text \<open>
  Decoding into an \<open>any\<close> with \<open>UseNumber\<close> and encoding again: objects become maps, which are printed
  with sorted keys (byte order) and without duplicates, the last one kept; numbers keep their literal.
\<close>

fun keep_last :: "(string \<times> 'v) list \<Rightarrow> (string \<times> 'v) list" where
  "keep_last [] = []"
| "keep_last ((k, v) # ms) = (if k \<in> fst ` set ms then keep_last ms else (k, v) # keep_last ms)"

primrec canon :: "json \<Rightarrow> json" where
  "canon JNull = JNull"
| "canon (JBool b) = JBool b"
| "canon (JNum l) = JNum l"
| "canon (JStr s) = JStr s"
| "canon (JArr xs) = JArr (map canon xs)"
| "canon (JObj ms) = JObj (sort_key fst (keep_last (map (map_prod id canon) ms)))"

text \<open>A string as \<open>Encoder\<close> prints it with HTML escaping off.\<close>

definition json_char :: "char \<Rightarrow> string" where
  "json_char c = (let n = (of_char c :: nat) in
     if n = 34 then [CHR 92, CHR 34]
     else if n = 92 then [CHR 92, CHR 92]
     else if n = 8 then [CHR 92, CHR ''b'']
     else if n = 12 then [CHR 92, CHR ''f'']
     else if n = 10 then [CHR 92, CHR ''n'']
     else if n = 13 then [CHR 92, CHR ''r'']
     else if n = 9 then [CHR 92, CHR ''t'']
     else if n < 32 then [CHR 92, CHR ''u'', CHR ''0'', CHR ''0'', hex_digit (n div 16), hex_digit (n mod 16)]
     else [c])"

text \<open>U+2028 and U+2029 (bytes E2 80 A8 and E2 80 A9) are always escaped.\<close>

fun json_chars :: "string \<Rightarrow> string" where
  "json_chars [] = []"
| "json_chars (c # cs) =
     (if of_char c = (226::nat) \<and> (case cs of d # e # _ \<Rightarrow>
           of_char d = (128::nat) \<and> of_char e \<in> {168, 169::nat} | _ \<Rightarrow> False)
      then CHR 92 # ''u202'' @ [digit_char (of_char (cs ! 1) - 160)] @ json_chars (drop 2 cs)
      else json_char c @ json_chars cs)"

definition json_string :: "string \<Rightarrow> string" where
  "json_string s = [CHR 34] @ json_chars s @ [CHR 34]"

primrec json_text :: "json \<Rightarrow> string" where
  "json_text JNull = ''null''"
| "json_text (JBool b) = show_bool b"
| "json_text (JNum l) = l"
| "json_text (JStr s) = json_string s"
| "json_text (JArr xs) = ''['' @ strings_Join '','' (map json_text xs) @ '']''"
| "json_text (JObj ms) = ''{'' @ strings_Join '',''
     (map (\<lambda>(k, t). json_string k @ '':'' @ t) (map (map_prod id json_text) ms)) @ ''}''"

lemma keep_last_subset: "set (keep_last ms) \<subseteq> set ms"
  by (induction ms rule: keep_last.induct) auto

lemma keep_last_fst: "fst ` set (keep_last ms) = fst ` set ms"
  by (induction ms rule: keep_last.induct) (auto simp: insert_absorb)

lemma keep_last_distinct: "distinct (map fst (keep_last ms))"
  by (induction ms rule: keep_last.induct) (auto simp: keep_last_fst)

lemma keep_last_id: "distinct (map fst ms) \<Longrightarrow> keep_last ms = ms"
  by (induction ms rule: keep_last.induct) auto

lemma map_of_keep_last: "map_of (keep_last ms) k = map_of (rev ms) k"
proof (induction ms rule: keep_last.induct)
  case (2 k' v ms)
  have "map_of (rev ms) k \<noteq> None \<longleftrightarrow> k \<in> fst ` set ms"
    by (metis domIff dom_map_of_conv_image_fst set_rev)
  with 2 show ?case by (auto simp: map_add_def split: option.splits)
qed simp

text \<open>
  An object's canonical form depends only on which value each key ends up with: two objects with the
  same final value for every key have the same canonical form, in whatever order they were written.
\<close>

lemma sort_key_fst_eqI:
  assumes "distinct (map fst xs)" and "distinct (map fst ys)" and "set xs = set ys"
  shows "sort_key fst xs = sort_key fst (ys :: (string \<times> 'v) list)"
proof (rule map_sorted_distinct_set_unique)
  show "inj_on fst (set (sort_key fst xs) \<union> set (sort_key fst ys))"
    using assms by (simp add: distinct_map)
  show "sorted (map fst (sort_key fst xs))" "sorted (map fst (sort_key fst ys))"
    by simp_all
  show "distinct (map fst (sort_key fst xs))" "distinct (map fst (sort_key fst ys))"
    using assms by (simp_all add: distinct_map)
  show "set (sort_key fst xs) = set (sort_key fst ys)" using assms by simp
qed

lemma canon_obj_cong:
  assumes "\<And>k. map_option canon (map_of (rev ms) k) = map_option canon (map_of (rev ms') k)"
  shows "canon (JObj ms) = canon (JObj ms')"
proof -
  let ?f = "map (map_prod id canon)"
  have "map_of (keep_last (?f xs)) k = map_option canon (map_of (rev xs) k)" for xs k
    unfolding map_of_keep_last rev_map map_prod_def id_def by (simp add: map_of_map)
  then have "map_of (keep_last (?f ms)) = map_of (keep_last (?f ms'))"
    using assms by (intro ext) simp
  then have "set (keep_last (?f ms)) = set (keep_last (?f ms'))"
    using keep_last_distinct by (metis map_of_inject_set)
  then show ?thesis
    by (simp add: sort_key_fst_eqI keep_last_distinct)
qed

end
