(* ===== verification/Events.thy ===== *)
theory Events
  imports Go_Json
begin

text \<open>
  \<open>internal/events\<close>: the nine payload types, the envelope, and the codec. Every Go struct is a
  record with the struct's fields, the \<open>Payload\<close> interface a datatype with one constructor per
  implementation. The results: what \<open>Encode\<close> writes \<open>Decode\<close> reads back, the payload that
  \<open>NewEnvelope\<close> wraps \<open>DecodePayload\<close> unwraps, and \<open>Decode\<close> fails exactly on the envelopes it must.
\<close>

section \<open>Errors (events/errors.go)\<close>

definition ErrUnknownEventType :: goerror where
  "ErrUnknownEventType = errors_New SUnknownEventType ''unknown event type''"

definition ErrMissingField :: goerror where
  "ErrMissingField = errors_New SMissingField ''missing required field''"

definition ErrInvalidPayload :: goerror where
  "ErrInvalidPayload = errors_New SInvalidPayload ''invalid payload''"

lemmas events_errors = ErrUnknownEventType_def ErrMissingField_def ErrInvalidPayload_def


section \<open>Event types (events/types.go)\<close>

type_synonym EventType = string

definition EventRunStarted :: EventType where "EventRunStarted = ''RunStarted''"
definition EventLLMResponded :: EventType where "EventLLMResponded = ''LLMResponded''"
definition EventToolInvoked :: EventType where "EventToolInvoked = ''ToolInvoked''"
definition EventToolResulted :: EventType where "EventToolResulted = ''ToolResulted''"
definition EventAwaitingApproval :: EventType where "EventAwaitingApproval = ''AwaitingApproval''"
definition EventRunApproved :: EventType where "EventRunApproved = ''RunApproved''"
definition EventRunCompleted :: EventType where "EventRunCompleted = ''RunCompleted''"
definition EventRunFailed :: EventType where "EventRunFailed = ''RunFailed''"
definition EventRunCancelled :: EventType where "EventRunCancelled = ''RunCancelled''"

lemmas EventType_defs = EventRunStarted_def EventLLMResponded_def EventToolInvoked_def
  EventToolResulted_def EventAwaitingApproval_def EventRunApproved_def EventRunCompleted_def
  EventRunFailed_def EventRunCancelled_def

definition knownEventTypes :: "EventType list" where
  "knownEventTypes = [EventRunStarted, EventLLMResponded, EventToolInvoked, EventToolResulted,
     EventAwaitingApproval, EventRunApproved, EventRunCompleted, EventRunFailed, EventRunCancelled]"

record RunStartedPayload =
  rs_WorkloadType :: string
  rs_Input :: raw
  rs_MaxSteps :: int

record LLMRespondedPayload =
  lr_Step :: int
  lr_StopReason :: string
  lr_Content :: raw
  lr_IsTerminal :: bool

record ToolInvokedPayload =
  ti_Step :: int
  ti_ToolUseID :: string
  ti_ToolName :: string
  ti_ToolArgs :: raw
  ti_IdempotencyKey :: "string option"
  ti_HasSideEffect :: bool

definition ResolutionExecuted :: string where "ResolutionExecuted = ''executed''"
definition ResolutionCached :: string where "ResolutionCached = ''cached''"
definition ResolutionReconciled :: string where "ResolutionReconciled = ''reconciled''"
definition ResolutionReexecuted :: string where "ResolutionReexecuted = ''reexecuted''"

lemmas Resolution_defs = ResolutionExecuted_def ResolutionCached_def ResolutionReconciled_def
  ResolutionReexecuted_def

record ToolResultedPayload =
  tr_Step :: int
  tr_ToolUseID :: string
  tr_ToolName :: string
  tr_Result :: string
  tr_Status :: string
  tr_WasReplayedFromCache :: bool
  tr_Resolution :: string

record AwaitingApprovalPayload =
  aa_Step :: int
  aa_Reason :: string
  aa_ApprovalPayload :: raw

record RunApprovedPayload =
  ra_Step :: int
  ra_ApprovedBy :: string
  ra_Decision :: string
  ra_Notes :: string

record RunCompletedPayload =
  rc_FinalOutput :: string
  rc_TotalSteps :: int

record RunFailedPayload =
  rf_Step :: int
  rf_ErrorClass :: string
  rf_ErrorMessage :: string
  rf_Retryable :: bool

record RunCancelledPayload =
  rx_Step :: int
  rx_CancelledBy :: string
  rx_Reason :: string

datatype Payload =
    PRunStarted RunStartedPayload
  | PLLMResponded LLMRespondedPayload
  | PToolInvoked ToolInvokedPayload
  | PToolResulted ToolResultedPayload
  | PAwaitingApproval AwaitingApprovalPayload
  | PRunApproved RunApprovedPayload
  | PRunCompleted RunCompletedPayload
  | PRunFailed RunFailedPayload
  | PRunCancelled RunCancelledPayload

primrec payload_EventType :: "Payload \<Rightarrow> EventType" where
  "payload_EventType (PRunStarted p) = EventRunStarted"
| "payload_EventType (PLLMResponded p) = EventLLMResponded"
| "payload_EventType (PToolInvoked p) = EventToolInvoked"
| "payload_EventType (PToolResulted p) = EventToolResulted"
| "payload_EventType (PAwaitingApproval p) = EventAwaitingApproval"
| "payload_EventType (PRunApproved p) = EventRunApproved"
| "payload_EventType (PRunCompleted p) = EventRunCompleted"
| "payload_EventType (PRunFailed p) = EventRunFailed"
| "payload_EventType (PRunCancelled p) = EventRunCancelled"


subsection \<open>The structs' JSON fields and their zero values\<close>

definition RunStarted_fields :: "RunStartedPayload field list" where
  "RunStarted_fields =
    [(''workload_type'', dec_string (\<lambda>x r. r\<lparr>rs_WorkloadType := x\<rparr>)),
     (''input'', dec_raw (\<lambda>x r. r\<lparr>rs_Input := x\<rparr>)),
     (''max_steps'', dec_int (\<lambda>x r. r\<lparr>rs_MaxSteps := x\<rparr>))]"

definition RunStarted_zero :: RunStartedPayload where
  "RunStarted_zero = \<lparr>rs_WorkloadType = [], rs_Input = None, rs_MaxSteps = 0\<rparr>"

definition LLMResponded_fields :: "LLMRespondedPayload field list" where
  "LLMResponded_fields =
    [(''step'', dec_int (\<lambda>x r. r\<lparr>lr_Step := x\<rparr>)),
     (''stop_reason'', dec_string (\<lambda>x r. r\<lparr>lr_StopReason := x\<rparr>)),
     (''content'', dec_raw (\<lambda>x r. r\<lparr>lr_Content := x\<rparr>)),
     (''is_terminal'', dec_bool (\<lambda>x r. r\<lparr>lr_IsTerminal := x\<rparr>))]"

definition LLMResponded_zero :: LLMRespondedPayload where
  "LLMResponded_zero = \<lparr>lr_Step = 0, lr_StopReason = [], lr_Content = None, lr_IsTerminal = False\<rparr>"

definition ToolInvoked_fields :: "ToolInvokedPayload field list" where
  "ToolInvoked_fields =
    [(''step'', dec_int (\<lambda>x r. r\<lparr>ti_Step := x\<rparr>)),
     (''tool_use_id'', dec_string (\<lambda>x r. r\<lparr>ti_ToolUseID := x\<rparr>)),
     (''tool_name'', dec_string (\<lambda>x r. r\<lparr>ti_ToolName := x\<rparr>)),
     (''tool_args'', dec_raw (\<lambda>x r. r\<lparr>ti_ToolArgs := x\<rparr>)),
     (''idempotency_key'', dec_string_ptr (\<lambda>x r. r\<lparr>ti_IdempotencyKey := x\<rparr>)),
     (''has_side_effect'', dec_bool (\<lambda>x r. r\<lparr>ti_HasSideEffect := x\<rparr>))]"

definition ToolInvoked_zero :: ToolInvokedPayload where
  "ToolInvoked_zero = \<lparr>ti_Step = 0, ti_ToolUseID = [], ti_ToolName = [], ti_ToolArgs = None,
     ti_IdempotencyKey = None, ti_HasSideEffect = False\<rparr>"

definition ToolResulted_fields :: "ToolResultedPayload field list" where
  "ToolResulted_fields =
    [(''step'', dec_int (\<lambda>x r. r\<lparr>tr_Step := x\<rparr>)),
     (''tool_use_id'', dec_string (\<lambda>x r. r\<lparr>tr_ToolUseID := x\<rparr>)),
     (''tool_name'', dec_string (\<lambda>x r. r\<lparr>tr_ToolName := x\<rparr>)),
     (''result'', dec_string (\<lambda>x r. r\<lparr>tr_Result := x\<rparr>)),
     (''status'', dec_string (\<lambda>x r. r\<lparr>tr_Status := x\<rparr>)),
     (''was_replayed_from_cache'', dec_bool (\<lambda>x r. r\<lparr>tr_WasReplayedFromCache := x\<rparr>)),
     (''resolution'', dec_string (\<lambda>x r. r\<lparr>tr_Resolution := x\<rparr>))]"

definition ToolResulted_zero :: ToolResultedPayload where
  "ToolResulted_zero = \<lparr>tr_Step = 0, tr_ToolUseID = [], tr_ToolName = [], tr_Result = [],
     tr_Status = [], tr_WasReplayedFromCache = False, tr_Resolution = []\<rparr>"

definition AwaitingApproval_fields :: "AwaitingApprovalPayload field list" where
  "AwaitingApproval_fields =
    [(''step'', dec_int (\<lambda>x r. r\<lparr>aa_Step := x\<rparr>)),
     (''reason'', dec_string (\<lambda>x r. r\<lparr>aa_Reason := x\<rparr>)),
     (''approval_payload'', dec_raw (\<lambda>x r. r\<lparr>aa_ApprovalPayload := x\<rparr>))]"

definition AwaitingApproval_zero :: AwaitingApprovalPayload where
  "AwaitingApproval_zero = \<lparr>aa_Step = 0, aa_Reason = [], aa_ApprovalPayload = None\<rparr>"

definition RunApproved_fields :: "RunApprovedPayload field list" where
  "RunApproved_fields =
    [(''step'', dec_int (\<lambda>x r. r\<lparr>ra_Step := x\<rparr>)),
     (''approved_by'', dec_string (\<lambda>x r. r\<lparr>ra_ApprovedBy := x\<rparr>)),
     (''decision'', dec_string (\<lambda>x r. r\<lparr>ra_Decision := x\<rparr>)),
     (''notes'', dec_string (\<lambda>x r. r\<lparr>ra_Notes := x\<rparr>))]"

definition RunApproved_zero :: RunApprovedPayload where
  "RunApproved_zero = \<lparr>ra_Step = 0, ra_ApprovedBy = [], ra_Decision = [], ra_Notes = []\<rparr>"

definition RunCompleted_fields :: "RunCompletedPayload field list" where
  "RunCompleted_fields =
    [(''final_output'', dec_string (\<lambda>x r. r\<lparr>rc_FinalOutput := x\<rparr>)),
     (''total_steps'', dec_int (\<lambda>x r. r\<lparr>rc_TotalSteps := x\<rparr>))]"

definition RunCompleted_zero :: RunCompletedPayload where
  "RunCompleted_zero = \<lparr>rc_FinalOutput = [], rc_TotalSteps = 0\<rparr>"

definition RunFailed_fields :: "RunFailedPayload field list" where
  "RunFailed_fields =
    [(''step'', dec_int (\<lambda>x r. r\<lparr>rf_Step := x\<rparr>)),
     (''error_class'', dec_string (\<lambda>x r. r\<lparr>rf_ErrorClass := x\<rparr>)),
     (''error_message'', dec_string (\<lambda>x r. r\<lparr>rf_ErrorMessage := x\<rparr>)),
     (''retryable'', dec_bool (\<lambda>x r. r\<lparr>rf_Retryable := x\<rparr>))]"

definition RunFailed_zero :: RunFailedPayload where
  "RunFailed_zero = \<lparr>rf_Step = 0, rf_ErrorClass = [], rf_ErrorMessage = [], rf_Retryable = False\<rparr>"

definition RunCancelled_fields :: "RunCancelledPayload field list" where
  "RunCancelled_fields =
    [(''step'', dec_int (\<lambda>x r. r\<lparr>rx_Step := x\<rparr>)),
     (''cancelled_by'', dec_string (\<lambda>x r. r\<lparr>rx_CancelledBy := x\<rparr>)),
     (''reason'', dec_string (\<lambda>x r. r\<lparr>rx_Reason := x\<rparr>))]"

definition RunCancelled_zero :: RunCancelledPayload where
  "RunCancelled_zero = \<lparr>rx_Step = 0, rx_CancelledBy = [], rx_Reason = []\<rparr>"

lemmas payload_fields = RunStarted_fields_def LLMResponded_fields_def ToolInvoked_fields_def
  ToolResulted_fields_def AwaitingApproval_fields_def RunApproved_fields_def RunCompleted_fields_def
  RunFailed_fields_def RunCancelled_fields_def

lemmas payload_zeros = RunStarted_zero_def LLMResponded_zero_def ToolInvoked_zero_def
  ToolResulted_zero_def AwaitingApproval_zero_def RunApproved_zero_def RunCompleted_zero_def
  RunFailed_zero_def RunCancelled_zero_def

text \<open>\<open>json.Marshal\<close> of a payload: the struct's members in field order. It cannot fail.\<close>

primrec enc_payload :: "Payload \<Rightarrow> json" where
  "enc_payload (PRunStarted p) = JObj
    [(''workload_type'', JStr (rs_WorkloadType p)), (''input'', enc_raw (rs_Input p)),
     (''max_steps'', enc_int (rs_MaxSteps p))]"
| "enc_payload (PLLMResponded p) = JObj
    [(''step'', enc_int (lr_Step p)), (''stop_reason'', JStr (lr_StopReason p)),
     (''content'', enc_raw (lr_Content p)), (''is_terminal'', JBool (lr_IsTerminal p))]"
| "enc_payload (PToolInvoked p) = JObj
    [(''step'', enc_int (ti_Step p)), (''tool_use_id'', JStr (ti_ToolUseID p)),
     (''tool_name'', JStr (ti_ToolName p)), (''tool_args'', enc_raw (ti_ToolArgs p)),
     (''idempotency_key'', enc_string_ptr (ti_IdempotencyKey p)),
     (''has_side_effect'', JBool (ti_HasSideEffect p))]"
| "enc_payload (PToolResulted p) = JObj
    [(''step'', enc_int (tr_Step p)), (''tool_use_id'', JStr (tr_ToolUseID p)),
     (''tool_name'', JStr (tr_ToolName p)), (''result'', JStr (tr_Result p)),
     (''status'', JStr (tr_Status p)),
     (''was_replayed_from_cache'', JBool (tr_WasReplayedFromCache p)),
     (''resolution'', JStr (tr_Resolution p))]"
| "enc_payload (PAwaitingApproval p) = JObj
    [(''step'', enc_int (aa_Step p)), (''reason'', JStr (aa_Reason p)),
     (''approval_payload'', enc_raw (aa_ApprovalPayload p))]"
| "enc_payload (PRunApproved p) = JObj
    [(''step'', enc_int (ra_Step p)), (''approved_by'', JStr (ra_ApprovedBy p)),
     (''decision'', JStr (ra_Decision p)), (''notes'', JStr (ra_Notes p))]"
| "enc_payload (PRunCompleted p) = JObj
    [(''final_output'', JStr (rc_FinalOutput p)), (''total_steps'', enc_int (rc_TotalSteps p))]"
| "enc_payload (PRunFailed p) = JObj
    [(''step'', enc_int (rf_Step p)), (''error_class'', JStr (rf_ErrorClass p)),
     (''error_message'', JStr (rf_ErrorMessage p)), (''retryable'', JBool (rf_Retryable p))]"
| "enc_payload (PRunCancelled p) = JObj
    [(''step'', enc_int (rx_Step p)), (''cancelled_by'', JStr (rx_CancelledBy p)),
     (''reason'', JStr (rx_Reason p))]"


section \<open>The envelope (events/envelope.go)\<close>

record Envelope =
  EventID :: string
  RunID :: string
  TenantID :: string
  SequenceNumber :: int
  EventType_of :: EventType
  PayloadRaw :: raw
  OccurredAt :: gotime
  IdempotencyKey :: "string option"

definition requiredEnvelopeFields :: "string list" where
  "requiredEnvelopeFields = [''event_id'', ''run_id'', ''event_type'', ''occurred_at'']"

definition Envelope_zero :: Envelope where
  "Envelope_zero = \<lparr>EventID = [], RunID = [], TenantID = [], SequenceNumber = 0, EventType_of = [],
     PayloadRaw = None, OccurredAt = zero_time, IdempotencyKey = None\<rparr>"

definition Envelope_fields :: "Envelope field list" where
  "Envelope_fields =
    [(''event_id'', dec_string (\<lambda>x r. r\<lparr>EventID := x\<rparr>)),
     (''run_id'', dec_string (\<lambda>x r. r\<lparr>RunID := x\<rparr>)),
     (''tenant_id'', dec_string (\<lambda>x r. r\<lparr>TenantID := x\<rparr>)),
     (''sequence_number'', dec_int (\<lambda>x r. r\<lparr>SequenceNumber := x\<rparr>)),
     (''event_type'', dec_string (\<lambda>x r. r\<lparr>EventType_of := x\<rparr>)),
     (''payload'', dec_raw (\<lambda>x r. r\<lparr>PayloadRaw := x\<rparr>)),
     (''occurred_at'', dec_time (\<lambda>x r. r\<lparr>OccurredAt := x\<rparr>)),
     (''idempotency_key'', dec_string_ptr (\<lambda>x r. r\<lparr>IdempotencyKey := x\<rparr>))]"

text \<open>\<open>NewEnvelope\<close>; the fresh UUID and the clock reading are arguments.\<close>

definition NewEnvelope ::
  "string \<Rightarrow> string \<Rightarrow> string \<Rightarrow> int \<Rightarrow> Payload \<Rightarrow> gotime \<Rightarrow> goerror + Envelope" where
  "NewEnvelope uuid runID tenantID seq p now = Inr
    \<lparr>EventID = uuid, RunID = runID, TenantID = tenantID, SequenceNumber = seq,
     EventType_of = payload_EventType p, PayloadRaw = Some (enc_payload p),
     OccurredAt = truncate_us now, IdempotencyKey = None\<rparr>"

definition enc_envelope :: "Envelope \<Rightarrow> json" where
  "enc_envelope e = JObj
    [(''event_id'', JStr (EventID e)), (''run_id'', JStr (RunID e)),
     (''tenant_id'', JStr (TenantID e)), (''sequence_number'', enc_int (SequenceNumber e)),
     (''event_type'', JStr (EventType_of e)), (''payload'', enc_raw (PayloadRaw e)),
     (''occurred_at'', enc_time (OccurredAt e)),
     (''idempotency_key'', enc_string_ptr (IdempotencyKey e))]"

definition Encode :: "Envelope \<Rightarrow> goerror + json" where
  "Encode e = (if json_year (OccurredAt e) then Inr (enc_envelope e)
     else Inl (Errorw ''encoding envelope: '' json_error))"

definition Decode :: "raw \<Rightarrow> goerror + Envelope" where
  "Decode b = (case Unmarshal_map b of
     Inl err \<Rightarrow> Inl (Errorw ''decoding envelope: '' err)
   | Inr members \<Rightarrow>
     (case find (\<lambda>field. case map_of members field of None \<Rightarrow> True | Some v \<Rightarrow> v = JNull)
        requiredEnvelopeFields of
       Some field \<Rightarrow> Inl (Errorw (''decoding envelope: field '' @ go_quote field @ '': '') ErrMissingField)
     | None \<Rightarrow>
       (case Unmarshal Envelope_fields b Envelope_zero of
         Inl err \<Rightarrow> Inl (Errorw ''decoding envelope: '' err)
       | Inr e \<Rightarrow>
         if EventType_of e \<notin> set knownEventTypes
         then Inl (Errorw (''decoding envelope: '' @ go_quote (EventType_of e) @ '': '') ErrUnknownEventType)
         else Inr e)))"

definition unmarshalPayload ::
  "EventType \<Rightarrow> raw \<Rightarrow> 'r field list \<Rightarrow> 'r \<Rightarrow> goerror + 'r" where
  "unmarshalPayload t b flds zero = (case Unmarshal flds b zero of
     Inl err \<Rightarrow> Inl (Errorw (''decoding '' @ t @ '' payload: '')
       (Errorws ErrInvalidPayload ('': '' @ err_msg err)))
   | Inr p \<Rightarrow> Inr p)"

text \<open>
  The payload is the struct after \<open>unmarshalPayload\<close> has filled it, as the compiled code returns it.
\<close>

definition DecodePayload :: "Envelope \<Rightarrow> goerror + Payload" where
  "DecodePayload e = (let t = EventType_of e; b = PayloadRaw e in
     if t = EventRunStarted
     then map_sum id PRunStarted (unmarshalPayload t b RunStarted_fields RunStarted_zero)
     else if t = EventLLMResponded
     then map_sum id PLLMResponded (unmarshalPayload t b LLMResponded_fields LLMResponded_zero)
     else if t = EventToolInvoked
     then map_sum id PToolInvoked (unmarshalPayload t b ToolInvoked_fields ToolInvoked_zero)
     else if t = EventToolResulted
     then map_sum id PToolResulted (unmarshalPayload t b ToolResulted_fields ToolResulted_zero)
     else if t = EventAwaitingApproval
     then map_sum id PAwaitingApproval (unmarshalPayload t b AwaitingApproval_fields AwaitingApproval_zero)
     else if t = EventRunApproved
     then map_sum id PRunApproved (unmarshalPayload t b RunApproved_fields RunApproved_zero)
     else if t = EventRunCompleted
     then map_sum id PRunCompleted (unmarshalPayload t b RunCompleted_fields RunCompleted_zero)
     else if t = EventRunFailed
     then map_sum id PRunFailed (unmarshalPayload t b RunFailed_fields RunFailed_zero)
     else if t = EventRunCancelled
     then map_sum id PRunCancelled (unmarshalPayload t b RunCancelled_fields RunCancelled_zero)
     else Inl (Errorw (''decoding payload: '' @ go_quote t @ '': '') ErrUnknownEventType))"

section \<open>Correctness of the codec\<close>

text \<open>A payload whose integers fit their Go type and whose raw members hold a document.\<close>

primrec wf_payload :: "Payload \<Rightarrow> bool" where
  "wf_payload (PRunStarted p) \<longleftrightarrow> in64 (rs_MaxSteps p) \<and> rs_Input p \<noteq> None"
| "wf_payload (PLLMResponded p) \<longleftrightarrow> in64 (lr_Step p) \<and> lr_Content p \<noteq> None"
| "wf_payload (PToolInvoked p) \<longleftrightarrow> in64 (ti_Step p) \<and> ti_ToolArgs p \<noteq> None"
| "wf_payload (PToolResulted p) \<longleftrightarrow> in64 (tr_Step p)"
| "wf_payload (PAwaitingApproval p) \<longleftrightarrow> in64 (aa_Step p) \<and> aa_ApprovalPayload p \<noteq> None"
| "wf_payload (PRunApproved p) \<longleftrightarrow> in64 (ra_Step p)"
| "wf_payload (PRunCompleted p) \<longleftrightarrow> in64 (rc_TotalSteps p)"
| "wf_payload (PRunFailed p) \<longleftrightarrow> in64 (rf_Step p)"
| "wf_payload (PRunCancelled p) \<longleftrightarrow> in64 (rx_Step p)"

lemma enc_payload_not_null [simp]: "enc_payload p \<noteq> JNull"
  by (cases p) simp_all

lemma unmarshal_members:
  "Unmarshal flds (Some (JObj ms)) r
     = (case dec_members flds ms r of None \<Rightarrow> Inl json_error | Some r' \<Rightarrow> Inr r')"
  by (simp add: Unmarshal_def)

lemma DecodePayload_enc:
  assumes "wf_payload p" and "EventType_of e = payload_EventType p"
    and "PayloadRaw e = Some (enc_payload p)"
  shows "DecodePayload e = Inr p"
  using assms
  by (cases p)
    (auto simp: DecodePayload_def unmarshalPayload_def unmarshal_members payload_fields payload_zeros
      EventType_defs find_field_def dec_enc enc_raw_def)

lemma known_payload_EventType [simp]: "payload_EventType p \<in> set knownEventTypes"
  by (cases p) (simp_all add: knownEventTypes_def)

lemma json_error_chain [simp]: "errors_Is json_error x \<longleftrightarrow> False"
  by (simp add: json_error_def)

lemma enc_raw_null_iff [simp]: "enc_raw b = JNull \<longleftrightarrow> b = None \<or> b = Some JNull"
  by (auto simp: enc_raw_def split: option.splits)

lemma Decode_enc_envelope:
  assumes "json_year (OccurredAt e)" and "in64 (SequenceNumber e)"
    and "PayloadRaw e \<noteq> None" and "EventType_of e \<in> set knownEventTypes"
  shows "Decode (Some (enc_envelope e)) = Inr e"
proof -
  obtain j where j: "PayloadRaw e = Some j" using assms(3) by blast
  have "Unmarshal Envelope_fields (Some (enc_envelope e)) Envelope_zero = Inr e"
    using assms(1,2) j
    by (simp add: enc_envelope_def unmarshal_members Envelope_fields_def Envelope_zero_def
        find_field_def dec_enc enc_raw_def)
  then show ?thesis
    using assms(4)
    by (simp add: Decode_def Unmarshal_map_def enc_envelope_def requiredEnvelopeFields_def
        enc_time_def)
qed

text \<open>What a decoder stores in an integer field fits its Go type.\<close>

primrec payload_in64 :: "Payload \<Rightarrow> bool" where
  "payload_in64 (PRunStarted p) \<longleftrightarrow> in64 (rs_MaxSteps p)"
| "payload_in64 (PLLMResponded p) \<longleftrightarrow> in64 (lr_Step p)"
| "payload_in64 (PToolInvoked p) \<longleftrightarrow> in64 (ti_Step p)"
| "payload_in64 (PToolResulted p) \<longleftrightarrow> in64 (tr_Step p)"
| "payload_in64 (PAwaitingApproval p) \<longleftrightarrow> in64 (aa_Step p)"
| "payload_in64 (PRunApproved p) \<longleftrightarrow> in64 (ra_Step p)"
| "payload_in64 (PRunCompleted p) \<longleftrightarrow> in64 (rc_TotalSteps p)"
| "payload_in64 (PRunFailed p) \<longleftrightarrow> in64 (rf_Step p)"
| "payload_in64 (PRunCancelled p) \<longleftrightarrow> in64 (rx_Step p)"

lemma dec_members_inv:
  "dec_members flds ms r = Some r' \<Longrightarrow> P r
    \<Longrightarrow> (\<And>k f j r r'. (k, f) \<in> set flds \<Longrightarrow> f j r = Some r' \<Longrightarrow> P r \<Longrightarrow> P r') \<Longrightarrow> P r'"
proof (induction flds ms r rule: dec_members.induct)
  case (2 fs k v ms r)
  show ?case
  proof (cases "find_field fs k")
    case None
    with 2 show ?thesis by simp
  next
    case (Some f)
    then obtain k' where k': "(k', f) \<in> set fs"
      by (auto simp: find_field_def find_Some_iff split: option.splits dest: map_of_SomeD nth_mem)
    with Some 2 obtain r1 where r1: "f v r = Some r1" "dec_members fs ms r1 = Some r'"
      by (auto split: option.splits)
    from 2(2) [OF Some r1(1,2)] 2(5) [OF k' r1(1) 2(4)] 2(5) show ?thesis by blast
  qed
qed simp

lemma Unmarshal_inv:
  assumes "Unmarshal flds b r = Inr r'" and "P r"
    and "\<And>k f j r r'. (k, f) \<in> set flds \<Longrightarrow> f j r = Some r' \<Longrightarrow> P r \<Longrightarrow> P r'"
  shows "P r'"
proof -
  from assms(1) consider "r' = r" | ms where "dec_members flds ms r = Some r'"
    by (auto simp: Unmarshal_def split: option.splits json.splits)
  then show ?thesis using dec_members_inv [of flds _ r r' P] assms(2,3) by cases auto
qed

lemma unmarshalPayload_inv:
  assumes "unmarshalPayload t b flds r = Inr r'" and "P r"
    and "\<And>k f j r r'. (k, f) \<in> set flds \<Longrightarrow> f j r = Some r' \<Longrightarrow> P r \<Longrightarrow> P r'"
  shows "P r'"
proof -
  have "Unmarshal flds b r = Inr r'"
    using assms(1) by (auto simp: unmarshalPayload_def split: sum.splits)
  from Unmarshal_inv [of flds b r r' P, OF this assms(2,3)] show ?thesis .
qed

lemmas dec_field_defs = dec_string_def dec_string_ptr_def dec_int_def dec_bool_def dec_raw_def

lemma map_sum_InrE: "map_sum id f x = Inr p \<Longrightarrow> (\<And>q. x = Inr q \<Longrightarrow> p = f q \<Longrightarrow> thesis) \<Longrightarrow> thesis"
  by (cases x) auto

lemma unmarshalPayload_in64:
  "unmarshalPayload t b RunStarted_fields RunStarted_zero = Inr r1 \<Longrightarrow> in64 (rs_MaxSteps r1)"
  "unmarshalPayload t b LLMResponded_fields LLMResponded_zero = Inr r2 \<Longrightarrow> in64 (lr_Step r2)"
  "unmarshalPayload t b ToolInvoked_fields ToolInvoked_zero = Inr r3 \<Longrightarrow> in64 (ti_Step r3)"
  "unmarshalPayload t b ToolResulted_fields ToolResulted_zero = Inr r4 \<Longrightarrow> in64 (tr_Step r4)"
  "unmarshalPayload t b AwaitingApproval_fields AwaitingApproval_zero = Inr r5 \<Longrightarrow> in64 (aa_Step r5)"
  "unmarshalPayload t b RunApproved_fields RunApproved_zero = Inr r6 \<Longrightarrow> in64 (ra_Step r6)"
  "unmarshalPayload t b RunCompleted_fields RunCompleted_zero = Inr r7 \<Longrightarrow> in64 (rc_TotalSteps r7)"
  "unmarshalPayload t b RunFailed_fields RunFailed_zero = Inr r8 \<Longrightarrow> in64 (rf_Step r8)"
  "unmarshalPayload t b RunCancelled_fields RunCancelled_zero = Inr r9 \<Longrightarrow> in64 (rx_Step r9)"
  by (erule unmarshalPayload_inv;
      auto simp: payload_fields payload_zeros dec_field_defs ParseInt64_in64 in64_zero
        split: json.splits option.splits)+

lemma DecodePayload_in64: "DecodePayload e = Inr p \<Longrightarrow> payload_in64 p"
  by (auto simp: DecodePayload_def Let_def split: if_splits
      elim!: map_sum_InrE dest: unmarshalPayload_in64)


definition sample_envelope :: Envelope where
  "sample_envelope = \<lparr>EventID = ''e1'', RunID = ''r1'', TenantID = ''local-dev'', SequenceNumber = 7,
     EventType_of = ''RunCompleted'',
     PayloadRaw = Some (JObj [(''final_output'', JStr ''done''), (''total_steps'', JNum ''3'')]),
     OccurredAt = 1758376931104233000, IdempotencyKey = None\<rparr>"

lemma sample_envelope_year: "json_year (OccurredAt sample_envelope)"
  by code_simp




lemma Decode_Inr_known: "Decode b = Inr e \<Longrightarrow> EventType_of e \<in> set knownEventTypes"
  by (auto simp: Decode_def split: sum.splits option.splits if_splits)

text \<open>
  C22. The presence check: on any JSON object, \<open>Decode\<close> reports \<open>ErrMissingField\<close> exactly when one of
  \<open>event_id\<close>, \<open>run_id\<close>, \<open>event_type\<close>, \<open>occurred_at\<close> is absent or \<open>null\<close>, whatever values the other
  members have, and then returns no envelope.
\<close>

theorem Decode_missing_field:
  "(\<exists>err. Decode (Some (JObj ms)) = Inl err \<and> errors_Is err SMissingField)
    \<longleftrightarrow> (\<exists>f \<in> {''event_id'', ''run_id'', ''event_type'', ''occurred_at''}.
          map_of (rev ms) f = None \<or> map_of (rev ms) f = Some JNull)"
proof -
  let ?P = "\<lambda>f. case map_of (rev ms) f of None \<Rightarrow> True | Some v \<Rightarrow> v = JNull"
  have mf: "find ?P requiredEnvelopeFields \<noteq> None
      \<longleftrightarrow> (\<exists>f \<in> {''event_id'', ''run_id'', ''event_type'', ''occurred_at''}. ?P f)"
    by (auto simp: find_None_iff requiredEnvelopeFields_def)
  have um: "Unmarshal Envelope_fields (Some (JObj ms)) Envelope_zero = Inl err \<Longrightarrow> err = json_error"
    for err by (auto simp: Unmarshal_def split: option.splits)
  have "(\<exists>err. Decode (Some (JObj ms)) = Inl err \<and> errors_Is err SMissingField)
      \<longleftrightarrow> find ?P requiredEnvelopeFields \<noteq> None"
    by (auto simp: Decode_def Unmarshal_map_def events_errors dest: um split: option.splits sum.splits)
  with mf show ?thesis by (auto split: option.splits)
qed

end
