(* ===== verification/Run_State.thy ===== *)
theory Run_State
  imports Events
begin

text \<open>
  \<open>internal/replay\<close>, \<open>state.go\<close> and \<open>errors.go\<close>: the state of a run as the fold keeps it. A Go map is
  an association list with distinct keys, updated with \<open>AList.update\<close> and read with \<open>map_of\<close>. A
  response's content blocks are the SDK's \<open>ContentBlockUnion\<close>, of which the code tells apart text,
  \<open>tool_use\<close> and everything else; decoding them from JSON is the SDK's and a parameter of the fold.
\<close>

section \<open>Errors\<close>

definition ErrRunNotFound :: goerror where
  "ErrRunNotFound = errors_New SRunNotFound ''run not found''"
definition ErrFirstEventNotStart :: goerror where
  "ErrFirstEventNotStart = errors_New SFirstEventNotStart ''first event is not RunStarted at sequence 0''"
definition ErrSequenceGap :: goerror where
  "ErrSequenceGap = errors_New SSequenceGap ''sequence gap''"
definition ErrConflictingEvent :: goerror where
  "ErrConflictingEvent = errors_New SConflictingEvent ''conflicting event at existing sequence number''"
definition ErrEventAfterTerminal :: goerror where
  "ErrEventAfterTerminal = errors_New SEventAfterTerminal ''event after terminal event''"
definition ErrRunIDMismatch :: goerror where
  "ErrRunIDMismatch = errors_New SRunIDMismatch ''event run_id does not match run''"
definition ErrUnknownToolUseID :: goerror where
  "ErrUnknownToolUseID = errors_New SUnknownToolUseID ''tool event references unknown tool_use_id''"
definition ErrToolOrder :: goerror where
  "ErrToolOrder = errors_New SToolOrder ''tool events out of order''"

lemmas replay_errors = ErrRunNotFound_def ErrFirstEventNotStart_def ErrSequenceGap_def
  ErrConflictingEvent_def ErrEventAfterTerminal_def ErrRunIDMismatch_def ErrUnknownToolUseID_def
  ErrToolOrder_def

definition wrapSeq :: "int \<Rightarrow> goerror \<Rightarrow> goerror" where
  "wrapSeq seq err = Errorw (''applying seq '' @ show_int seq @ '': '') err"

lemma errors_Is_wrapSeq [simp]: "errors_Is (wrapSeq seq err) x \<longleftrightarrow> errors_Is err x"
  by (simp add: wrapSeq_def)


section \<open>Statuses and actions\<close>

text \<open>Both Go string types have a zero value, the one of an empty \<open>RunState\<close>.\<close>

datatype RunStatus = StatusUnset | StatusRunning | StatusAwaitingApproval | StatusCompleted
  | StatusFailed | StatusCancelled

datatype NextAction = ActionUnset | ActionCallLLM | ActionExecuteTool | ActionResolveInFlightTool
  | ActionFailMaxSteps | ActionFinishRun | ActionNone

primrec RunStatus_string :: "RunStatus \<Rightarrow> string" where
  "RunStatus_string StatusUnset = ''''"
| "RunStatus_string StatusRunning = ''RUNNING''"
| "RunStatus_string StatusAwaitingApproval = ''AWAITING_APPROVAL''"
| "RunStatus_string StatusCompleted = ''COMPLETED''"
| "RunStatus_string StatusFailed = ''FAILED''"
| "RunStatus_string StatusCancelled = ''CANCELLED''"

primrec NextAction_string :: "NextAction \<Rightarrow> string" where
  "NextAction_string ActionUnset = ''''"
| "NextAction_string ActionCallLLM = ''CALL_LLM''"
| "NextAction_string ActionExecuteTool = ''EXECUTE_TOOL''"
| "NextAction_string ActionResolveInFlightTool = ''RESOLVE_IN_FLIGHT_TOOL''"
| "NextAction_string ActionFailMaxSteps = ''FAIL_MAX_STEPS''"
| "NextAction_string ActionFinishRun = ''FINISH_RUN''"
| "NextAction_string ActionNone = ''NONE''"


section \<open>The state\<close>

text \<open>What \<open>ContentBlockUnion.AsAny\<close> tells apart: text, a tool use (id, name, input), other blocks.\<close>

datatype content_block =
    TextBlock string
  | ToolUseBlock string string raw
  | OtherBlock json

text \<open>The SDK's decoder of a response's content array.\<close>

type_synonym block_decoder = "raw \<Rightarrow> goerror + content_block list"

record ToolCall =
  tc_ToolUseID :: string
  tc_ToolName :: string
  tc_ToolArgs :: raw
  tc_HasSideEffect :: bool
  tc_IdempotencyKey :: "string option"
  tc_InvokedAt :: gotime

record invocation =
  in_hasSideEffect :: bool
  in_idempotencyKey :: "string option"
  in_invokedAt :: gotime

definition invocation_zero :: invocation where
  "invocation_zero = \<lparr>in_hasSideEffect = False, in_idempotencyKey = None, in_invokedAt = zero_time\<rparr>"

record stepRecord =
  sr_content :: "content_block list"
  sr_isTerminal :: bool
  sr_stopReason :: string
  sr_invoked :: "(string \<times> invocation) list"
  sr_order :: "string list"
  sr_invokedOrder :: "string list"
  sr_results :: "(string \<times> ToolResultedPayload) list"

record RunState =
  s_RunID :: string
  s_TenantID :: string
  s_Status :: RunStatus
  s_CurrentStep :: int
  s_MaxSteps :: int
  s_NextSequence :: int
  s_LastEventID :: string
  s_LastEventAt :: gotime
  s_PendingToolCalls :: "ToolCall list"
  s_InFlightTool :: "ToolCall option"
  s_NextAction :: NextAction
  s_FinalOutput :: string
  s_Failure :: "RunFailedPayload option"
  s_prompt :: string
  s_steps :: "stepRecord list"
  s_seen :: "(int \<times> string) list"

text \<open>\<open>RunState{}\<close>.\<close>

definition RunState_zero :: RunState where
  "RunState_zero = \<lparr>s_RunID = [], s_TenantID = [], s_Status = StatusUnset, s_CurrentStep = 0,
     s_MaxSteps = 0, s_NextSequence = 0, s_LastEventID = [], s_LastEventAt = zero_time,
     s_PendingToolCalls = [], s_InFlightTool = None, s_NextAction = ActionUnset,
     s_FinalOutput = [], s_Failure = None, s_prompt = [], s_steps = [], s_seen = []\<rparr>"

end
