(* ===== verification/Go_Duration.thy ===== *)
theory Go_Duration
  imports Go_Time
begin

text \<open>
  \<open>time.Duration\<close>: printing (\<open>String\<close>), rounding (\<open>Round\<close>) and reading (\<open>ParseDuration\<close>). A fraction in
  the text of a duration is scaled exactly here, where Go uses a \<open>float64\<close> product that may differ in
  the last nanosecond for more than about fifteen digits.
\<close>

section \<open>Printing\<close>

text \<open>The fraction \<open>v / 10^prec\<close>: a point and the digits up to the last non-zero one.\<close>

fun fmtFrac :: "int \<Rightarrow> nat \<Rightarrow> bool \<Rightarrow> string \<Rightarrow> string" where
  "fmtFrac v 0 printed acc = (if printed then CHR ''.'' # acc else acc)"
| "fmtFrac v (Suc prec) printed acc =
     (let digit = v mod 10; printed = (printed \<or> digit \<noteq> 0) in
      fmtFrac (v div 10) prec printed (if printed then digit_char (nat digit) # acc else acc))"

definition duration_abs_String :: "int \<Rightarrow> string" where
  "duration_abs_String u =
     (if u < 1000 then show_int u @ ''ns''
      else if u < 1000000 then show_int (u div 1000) @ fmtFrac u 3 False [] @ [CHR 0xC2, CHR 0xB5, CHR ''s'']
      else if u < 1000000000 then show_int (u div 1000000) @ fmtFrac u 6 False [] @ ''ms''
      else let s = u div 1000000000; m = s div 60; h = m div 60;
               secs = show_int (s mod 60) @ fmtFrac u 9 False [] @ ''s''
        in if m = 0 then secs
           else if h = 0 then show_int m @ ''m'' @ secs
           else show_int h @ ''h'' @ show_int (m mod 60) @ ''m'' @ secs)"

definition duration_String :: "duration \<Rightarrow> string" where
  "duration_String d = (if d = 0 then ''0s''
     else if d < 0 then CHR ''-'' # duration_abs_String (- d)
     else duration_abs_String d)"

lemma duration_String_examples:
  "duration_String 90000000000 = ''1m30s''" "duration_String (- 5000000000) = ''-5s''"
  "duration_String 200000000 = ''200ms''" "duration_String 3600000000000 = ''1h0m0s''"
  "duration_String 1500000000 = ''1.5s''"
  by code_simp+


section \<open>Rounding\<close>

text \<open>To the nearest multiple of \<open>m > 0\<close>, half away from zero; the caller's durations are far from overflow.\<close>

definition duration_Round :: "duration \<Rightarrow> duration \<Rightarrow> duration" where
  "duration_Round d m = (if m \<le> 0 then d else
     let r = \<bar>d\<bar> mod m in
     if d < 0 then (if r + r < m then d + r else sat64 (d - m + r))
     else (if r + r < m then d - r else sat64 (d + m - r)))"


section \<open>Reading\<close>

definition unit_of :: "string \<Rightarrow> int option" where
  "unit_of u = map_of
     [(''ns'', 1), (''us'', 1000), ([CHR 0xC2, CHR 0xB5, CHR ''s''], 1000),
      ([CHR 0xCE, CHR 0xBC, CHR ''s''], 1000), (''ms'', 1000000), (''s'', 1000000000),
      (''m'', 60000000000), (''h'', 3600000000000)] u"

definition is_digit :: "char \<Rightarrow> bool" where
  "is_digit c \<longleftrightarrow> digit_of c \<noteq> None"

text \<open>One number with its unit: integer digits, an optional fraction, at least one digit, the unit.\<close>

definition parse_part :: "string \<Rightarrow> (int \<times> string) option" where
  "parse_part s =
     (let ip = takeWhile is_digit s; r1 = dropWhile is_digit s;
          dot = (r1 \<noteq> [] \<and> hd r1 = CHR ''.'');
          fp = (if dot then takeWhile is_digit (tl r1) else []);
          r2 = (if dot then dropWhile is_digit (tl r1) else r1);
          u = takeWhile (\<lambda>c. c \<noteq> CHR ''.'' \<and> \<not> is_digit c) r2;
          r3 = dropWhile (\<lambda>c. c \<noteq> CHR ''.'' \<and> \<not> is_digit c) r2 in
      if ip = [] \<and> fp = [] then None
      else (case (digits_val 0 ip, digits_val 0 fp, unit_of u) of
         (Some v, Some f, Some k) \<Rightarrow>
           let d = int v * k + int f * k div 10 ^ length fp in
           if int v * k > 2 ^ 63 \<or> d > 2 ^ 63 then None else Some (d, r3)
       | _ \<Rightarrow> None))"

fun parse_parts :: "nat \<Rightarrow> int \<Rightarrow> string \<Rightarrow> int option" where
  "parse_parts 0 acc s = (if s = [] then Some acc else None)"
| "parse_parts (Suc n) acc s = (if s = [] then Some acc else (case parse_part s of
     None \<Rightarrow> None
   | Some (d, rest) \<Rightarrow> if acc + d > 2 ^ 63 then None else parse_parts n (acc + d) rest))"

text \<open>Every part takes at least one character, so the length of the text bounds their number.\<close>

definition ParseDuration :: "string \<Rightarrow> duration option" where
  "ParseDuration s =
     (let neg = (s \<noteq> [] \<and> hd s = CHR ''-'');
          s1 = (if s \<noteq> [] \<and> (hd s = CHR ''-'' \<or> hd s = CHR ''+'') then tl s else s) in
      if s1 = ''0'' then Some 0
      else if s1 = [] then None
      else (case parse_parts (length s1) 0 s1 of
         None \<Rightarrow> None
       | Some d \<Rightarrow> if neg then Some (- d) else if d > 2 ^ 63 - 1 then None else Some d))"

lemma ParseDuration_examples:
  "ParseDuration ''30s'' = Some 30000000000" "ParseDuration ''1h5m'' = Some 3900000000000"
  "ParseDuration ''1.5s'' = Some 1500000000" "ParseDuration ''10'' = None" "ParseDuration [] = None"
  "ParseDuration ''-2ms'' = Some (-2000000)"
  by code_simp+

lemma unit_of_pos: "unit_of u = Some k \<Longrightarrow> 0 < k"
  by (auto simp: unit_of_def split: if_splits)

lemma parse_part_nonneg: "parse_part s = Some (d, r) \<Longrightarrow> 0 \<le> d"
  by (auto simp: parse_part_def Let_def split: if_splits option.splits
      dest!: unit_of_pos intro!: add_nonneg_nonneg pos_imp_zdiv_nonneg_iff [THEN iffD2])

lemma parse_parts_bounds:
  "parse_parts n acc t = Some v \<Longrightarrow> 0 \<le> acc \<Longrightarrow> acc \<le> 2 ^ 63 \<Longrightarrow> 0 \<le> v \<and> v \<le> 2 ^ 63"
proof (induction n acc t rule: parse_parts.induct)
  case (2 n acc s)
  then show ?case
    by (auto split: if_splits option.splits dest!: parse_part_nonneg)
qed (auto split: if_splits)

lemma ParseDuration_in64:
  assumes "ParseDuration s = Some d" shows "in64 d"
proof -
  have p: "parse_parts n 0 t = Some v \<Longrightarrow> 0 \<le> v \<and> v \<le> 2 ^ 63" for n t v
    using parse_parts_bounds [of n 0 t v] by simp
  show ?thesis
    using assms by (auto simp: ParseDuration_def Let_def in64_def min64_def max64_def
        split: if_splits option.splits dest!: p)
qed

end
