(* ===== verification/Tools.thy ===== *)
theory Tools
  imports Run_State Go_Duration
begin

text \<open>
  \<open>internal/tools\<close>: the tool interface and registry, the ledger file that stands for the outside world,
  and the four mock tools. What the code asks of the operating system and of the \<open>context\<close> package is
  a record of operations on a state of any type; the state is whatever keeps those answers.
\<close>

section \<open>The process environment\<close>

text \<open>
  A context is the chain of deadlines put on the process's root context. Whether it is done is for the
  environment to say: the root may be cancelled, a deadline may have passed.
\<close>

datatype ctx = Background | Deadline gotime ctx

text \<open>A line of the ledger file: blank, a line with the document on it (if it is one), or too long to scan.\<close>

datatype fline = BlankLine | DocLine raw | LongLine

record 's runtime =
  rt_Now :: "('s, gotime) prog"
  rt_UUID :: "('s, string) prog"
  rt_Err :: "ctx \<Rightarrow> ('s, goerror + unit) prog"
  rt_Sleep :: "ctx \<Rightarrow> duration \<Rightarrow> ('s, goerror + unit) prog"
  rt_Getenv :: "string \<Rightarrow> ('s, string) prog"
  rt_Getpid :: "('s, int) prog"
  rt_MkdirAll :: "string \<Rightarrow> ('s, goerror + unit) prog"
  rt_OpenAppend :: "string \<Rightarrow> ('s, goerror + unit) prog"
  rt_Write :: "string \<Rightarrow> json \<Rightarrow> ('s, (int \<times> goerror) + unit) prog"
  rt_Sync :: "string \<Rightarrow> ('s, goerror + unit) prog"
  rt_Close :: "string \<Rightarrow> ('s, goerror + unit) prog"
  rt_ReadFile :: "string \<Rightarrow> ('s, goerror + fline list) prog"

definition WithTimeout :: "'s runtime \<Rightarrow> ctx \<Rightarrow> duration \<Rightarrow> ('s, ctx) prog" where
  "WithTimeout rt ctx d = pbind (rt_Now rt) (\<lambda>now. preturn (Deadline (now + d) ctx))"

text \<open>\<open>fmt.Errorf(pre + "%w", err)\<close> as the error of a step.\<close>

definition wrapping :: "string \<Rightarrow> goerror \<Rightarrow> ('s, goerror) prog" where
  "wrapping pre err = preturn (Errorw pre err)"


section \<open>Tools and the registry (tool.go)\<close>

record Invocation =
  iv_RunID :: string
  iv_Step :: int
  iv_ToolUseID :: string
  iv_IdempotencyKey :: "string option"

definition ToolErrOutcomeUnknown :: goerror where
  "ToolErrOutcomeUnknown = errors_New SToolOutcomeUnknown ''tool: side effect outcome unknown''"

record ReconcileResult =
  rr_Applied :: bool
  rr_Result :: string

text \<open>
  The \<open>Tool\<close> interface; a tool that also implements \<open>Reconciler\<close> has \<open>t_Reconcile = Some _\<close>. The input
  schema is its properties object and its list of required members.
\<close>

record 's Tool =
  t_Name :: string
  t_Description :: string
  t_InputSchema :: "json \<times> string list"
  t_HasSideEffect :: bool
  t_Execute :: "ctx \<Rightarrow> Invocation \<Rightarrow> raw \<Rightarrow> ('s, goerror + string) prog"
  t_Reconcile :: "(ctx \<Rightarrow> Invocation \<Rightarrow> raw \<Rightarrow> ('s, goerror + ReconcileResult) prog) option"

type_synonym 's Registry = "(string \<times> 's Tool) list"

definition NewRegistry :: "'s Tool list \<Rightarrow> 's Registry" where
  "NewRegistry toolList = fold (\<lambda>t byName. AList.update (t_Name t) t byName) toolList []"

definition Lookup :: "'s Registry \<Rightarrow> string \<Rightarrow> 's Tool option" where
  "Lookup r name = map_of r name"

text \<open>A tool definition as sent to the model: name, description, schema.\<close>

definition Definitions :: "'s Registry \<Rightarrow> (string \<times> string \<times> json \<times> string list) list" where
  "Definitions r = map (\<lambda>name. case map_of r name of
       Some t \<Rightarrow> (t_Name t, t_Description t, t_InputSchema t)
     | None \<Rightarrow> ([], [], JNull, [])) (sort (map fst r))"


section \<open>The ledger (ledger.go)\<close>

record LedgerEntry =
  le_RunID :: string
  le_ToolUseID :: string
  le_ToolName :: string
  le_IdempotencyKey :: string
  le_Result :: string
  le_RecordedAt :: gotime
  le_WriterPID :: int

definition LedgerEntry_zero :: LedgerEntry where
  "LedgerEntry_zero = \<lparr>le_RunID = [], le_ToolUseID = [], le_ToolName = [], le_IdempotencyKey = [],
     le_Result = [], le_RecordedAt = zero_time, le_WriterPID = 0\<rparr>"

definition LedgerEntry_fields :: "LedgerEntry field list" where
  "LedgerEntry_fields =
    [(''run_id'', dec_string (\<lambda>x r. r\<lparr>le_RunID := x\<rparr>)),
     (''tool_use_id'', dec_string (\<lambda>x r. r\<lparr>le_ToolUseID := x\<rparr>)),
     (''tool_name'', dec_string (\<lambda>x r. r\<lparr>le_ToolName := x\<rparr>)),
     (''idempotency_key'', dec_string (\<lambda>x r. r\<lparr>le_IdempotencyKey := x\<rparr>)),
     (''result'', dec_string (\<lambda>x r. r\<lparr>le_Result := x\<rparr>)),
     (''recorded_at'', dec_time (\<lambda>x r. r\<lparr>le_RecordedAt := x\<rparr>)),
     (''writer_pid'', dec_int (\<lambda>x r. r\<lparr>le_WriterPID := x\<rparr>))]"

definition enc_LedgerEntry :: "LedgerEntry \<Rightarrow> json" where
  "enc_LedgerEntry e = JObj
    [(''run_id'', JStr (le_RunID e)), (''tool_use_id'', JStr (le_ToolUseID e)),
     (''tool_name'', JStr (le_ToolName e)), (''idempotency_key'', JStr (le_IdempotencyKey e)),
     (''result'', JStr (le_Result e)), (''recorded_at'', enc_time (le_RecordedAt e)),
     (''writer_pid'', enc_int (le_WriterPID e))]"

definition unknown_outcome :: "string \<Rightarrow> goerror \<Rightarrow> goerror" where
  "unknown_outcome what err = Errorws ToolErrOutcomeUnknown ('': '' @ what @ '': '' @ err_msg err)"

text \<open>The directory of a path: up to its last slash.\<close>

definition filepath_Dir :: "string \<Rightarrow> string" where
  "filepath_Dir p = (let d = rev (dropWhile (\<lambda>c. c \<noteq> CHR ''/'') (rev p)) in
     if d = [] then ''.'' else if length d = 1 then d else butlast d)"

definition Record :: "'s runtime \<Rightarrow> string \<Rightarrow> ctx \<Rightarrow> LedgerEntry \<Rightarrow> ('s, goerror + unit) prog" where
  "Record rt path ctx e =
     pbindM (rt_Err rt ctx) (wrapping ''recording ledger entry: '') (\<lambda>_.
     if \<not> json_year (le_RecordedAt e) then preturn (Inl (Errorw ''encoding ledger entry: '' json_error))
     else let line = enc_LedgerEntry e in
     pbindM (rt_MkdirAll rt (filepath_Dir path)) (wrapping ''creating ledger directory: '') (\<lambda>_.
     pbindM (rt_OpenAppend rt path) (wrapping (''opening ledger '' @ path @ '': '')) (\<lambda>_.
     pbind (rt_Write rt path line) (\<lambda>w. case w of
       Inl (n, err) \<Rightarrow> pbind (rt_Close rt path) (\<lambda>_. preturn (Inl
         (if n > 0 then unknown_outcome ''partial ledger write'' err
          else Errorw ''writing ledger entry: '' err)))
     | Inr _ \<Rightarrow>
       pbind (rt_Sync rt path) (\<lambda>y. case y of
         Inl err \<Rightarrow> pbind (rt_Close rt path) (\<lambda>_. preturn (Inl (unknown_outcome ''syncing ledger'' err)))
       | Inr _ \<Rightarrow>
         pbind (rt_Close rt path) (\<lambda>c. case c of
           Inl err \<Rightarrow> preturn (Inl (unknown_outcome ''closing ledger'' err))
         | Inr _ \<Rightarrow> preturn (Inr ())))))))"

fun parseLedger :: "int \<Rightarrow> fline list \<Rightarrow> goerror + LedgerEntry list" where
  "parseLedger n [] = Inr []"
| "parseLedger n (BlankLine # ls) = parseLedger (n + 1) ls"
| "parseLedger n (LongLine # ls) = Inl (Errorf ''scanning ledger: bufio.Scanner: token too long'')"
| "parseLedger n (DocLine d # ls) = (case Unmarshal LedgerEntry_fields d LedgerEntry_zero of
     Inl err \<Rightarrow> Inl (Errorw (''decoding ledger line '' @ show_int n @ '': '') err)
   | Inr e \<Rightarrow> (case parseLedger (n + 1) ls of Inl err \<Rightarrow> Inl err | Inr es \<Rightarrow> Inr (e # es)))"

definition Entries :: "'s runtime \<Rightarrow> string \<Rightarrow> ctx \<Rightarrow> ('s, goerror + LedgerEntry list) prog" where
  "Entries rt path ctx =
     pbindM (rt_Err rt ctx) (wrapping ''reading ledger: '') (\<lambda>_.
     pbind (rt_ReadFile rt path) (\<lambda>f. case f of
       Inl err \<Rightarrow> if errors_Is err SNotExist then preturn (Inr [])
         else preturn (Inl (Errorw (''reading ledger '' @ path @ '': '') err))
     | Inr raw \<Rightarrow> preturn (parseLedger 1 raw)))"

definition FindByKey :: "'s runtime \<Rightarrow> string \<Rightarrow> ctx \<Rightarrow> string \<Rightarrow> ('s, goerror + LedgerEntry option) prog" where
  "FindByKey rt path ctx idempotencyKey =
     pbindM (Entries rt path ctx) (wrapping ''looking up ledger key: '') (\<lambda>entries.
     preturn (Inr (find (\<lambda>e. le_IdempotencyKey e = idempotencyKey) entries)))"

definition entryKey :: "Invocation \<Rightarrow> string" where
  "entryKey invo = (case iv_IdempotencyKey invo of None \<Rightarrow> [] | Some k \<Rightarrow> k)"


section \<open>The mock tools\<close>

definition mockToolDelay :: "'s runtime \<Rightarrow> ctx \<Rightarrow> ('s, goerror + unit) prog" where
  "mockToolDelay rt ctx = pbind (rt_Getenv rt ''DAE_MOCK_TOOL_DELAY'') (\<lambda>raw.
     if raw = [] then preturn (Inr ())
     else (case ParseDuration raw of
       None \<Rightarrow> preturn (Inr ())
     | Some d \<Rightarrow> if d \<le> 0 then preturn (Inr ()) else rt_Sleep rt ctx d))"

definition string_property :: "string \<Rightarrow> string \<Rightarrow> string \<times> json" where
  "string_property name desc =
     (name, JObj [(''type'', JStr ''string''), (''description'', JStr desc)])"

definition string_arg :: "string \<Rightarrow> string field list" where
  "string_arg name = [(name, dec_string (\<lambda>x _. x))]"

definition CloneRepo_Execute ::
  "'s runtime \<Rightarrow> ctx \<Rightarrow> Invocation \<Rightarrow> raw \<Rightarrow> ('s, goerror + string) prog" where
  "CloneRepo_Execute rt ctx invo rawArgs =
     pbindM (mockToolDelay rt ctx) (wrapping ''waiting out mock delay: '') (\<lambda>_.
     case Unmarshal (string_arg ''repo_url'') rawArgs [] of
       Inl err \<Rightarrow> preturn (Inl (Errorw ''unmarshaling clone_repo args: '' err))
     | Inr url \<Rightarrow> preturn (Inr (''cloned '' @ url @ '' into /workspace/widgets at commit a1b2c3d'')))"

definition CloneRepoTool :: "'s runtime \<Rightarrow> 's Tool" where
  "CloneRepoTool rt = \<lparr>t_Name = ''clone_repo'',
     t_Description = ''Clones a git repository into the local workspace.'',
     t_InputSchema = (JObj [string_property ''repo_url'' ''The URL of the repository to clone.''],
       [''repo_url'']),
     t_HasSideEffect = False, t_Execute = CloneRepo_Execute rt, t_Reconcile = None\<rparr>"

definition countEntries :: "LedgerEntry list \<Rightarrow> string \<Rightarrow> string \<Rightarrow> int" where
  "countEntries entries runID toolName =
     int (length (filter (\<lambda>e. le_RunID e = runID \<and> le_ToolName e = toolName) entries))"

definition RunTests_Execute ::
  "'s runtime \<Rightarrow> string \<Rightarrow> ctx \<Rightarrow> Invocation \<Rightarrow> raw \<Rightarrow> ('s, goerror + string) prog" where
  "RunTests_Execute rt path ctx invo rawArgs =
     pbindM (mockToolDelay rt ctx) (wrapping ''waiting out mock delay: '') (\<lambda>_.
     pbindM (Entries rt path ctx) (wrapping ''checking whether the fix was applied: '') (\<lambda>entries.
     preturn (Inr (if countEntries entries (iv_RunID invo) ''apply_fix'' = 0
       then ''2 tests failed: TestParseWidget, TestWidgetTotal'' else ''all tests passed (2/2)''))))"

definition RunTestsTool :: "'s runtime \<Rightarrow> string \<Rightarrow> 's Tool" where
  "RunTestsTool rt path = \<lparr>t_Name = ''run_tests'',
     t_Description = ''Runs the repository's test suite and reports pass/fail results.'',
     t_InputSchema = (JObj [], []), t_HasSideEffect = False,
     t_Execute = RunTests_Execute rt path, t_Reconcile = None\<rparr>"

text \<open>The entry a mock tool records for one execution, at the time and by the process given.\<close>

definition effect_entry :: "Invocation \<Rightarrow> string \<Rightarrow> string \<Rightarrow> gotime \<Rightarrow> int \<Rightarrow> LedgerEntry" where
  "effect_entry invo name result now pid = \<lparr>le_RunID = iv_RunID invo, le_ToolUseID = iv_ToolUseID invo,
     le_ToolName = name, le_IdempotencyKey = entryKey invo, le_Result = result,
     le_RecordedAt = truncate_us now, le_WriterPID = pid\<rparr>"

definition record_effect :: "'s runtime \<Rightarrow> string \<Rightarrow> ctx \<Rightarrow> Invocation \<Rightarrow> string \<Rightarrow> string
    \<Rightarrow> ('s, goerror + string) prog" where
  "record_effect rt path ctx invo name result =
     pbind (rt_Now rt) (\<lambda>now. pbind (rt_Getpid rt) (\<lambda>pid.
     pbindM (Record rt path ctx (effect_entry invo name result now pid))
       (wrapping (''recording '' @ name @ '' effect: '')) (\<lambda>_. preturn (Inr result))))"

definition ApplyFix_Execute ::
  "'s runtime \<Rightarrow> string \<Rightarrow> ctx \<Rightarrow> Invocation \<Rightarrow> raw \<Rightarrow> ('s, goerror + string) prog" where
  "ApplyFix_Execute rt path ctx invo rawArgs =
     pbindM (mockToolDelay rt ctx) (wrapping ''waiting out mock delay: '') (\<lambda>_.
     case Unmarshal (string_arg ''description'') rawArgs [] of
       Inl err \<Rightarrow> preturn (Inl (Errorw ''unmarshaling apply_fix args: '' err))
     | Inr desc \<Rightarrow> record_effect rt path ctx invo ''apply_fix'' (''applied fix: '' @ desc))"

definition ApplyFixTool :: "'s runtime \<Rightarrow> string \<Rightarrow> 's Tool" where
  "ApplyFixTool rt path = \<lparr>t_Name = ''apply_fix'',
     t_Description = ''Applies a fix to the repository's code.'',
     t_InputSchema = (JObj [string_property ''description'' ''A description of the fix being applied.''],
       [''description'']),
     t_HasSideEffect = True, t_Execute = ApplyFix_Execute rt path, t_Reconcile = None\<rparr>"

definition openPRArgs_fields :: "(string \<times> string) field list" where
  "openPRArgs_fields = [(''title'', dec_string (\<lambda>x (_, b). (x, b))),
     (''body'', dec_string (\<lambda>x (a, _). (a, x)))]"

definition OpenPR_Execute ::
  "'s runtime \<Rightarrow> string \<Rightarrow> ctx \<Rightarrow> Invocation \<Rightarrow> raw \<Rightarrow> ('s, goerror + string) prog" where
  "OpenPR_Execute rt path ctx invo rawArgs =
     pbindM (mockToolDelay rt ctx) (wrapping ''waiting out mock delay: '') (\<lambda>_.
     case Unmarshal openPRArgs_fields rawArgs ([], []) of
       Inl err \<Rightarrow> preturn (Inl (Errorw ''unmarshaling open_pr args: '' err))
     | Inr (title, body) \<Rightarrow>
       pbindM (Entries rt path ctx) (wrapping ''counting existing PRs: '') (\<lambda>existing.
       record_effect rt path ctx invo ''open_pr'' (''opened PR #''
         @ show_int (wrap64 (countEntries existing (iv_RunID invo) ''open_pr'' + 1)) @ '': '' @ title)))"

definition OpenPR_Reconcile ::
  "'s runtime \<Rightarrow> string \<Rightarrow> ctx \<Rightarrow> Invocation \<Rightarrow> raw \<Rightarrow> ('s, goerror + ReconcileResult) prog" where
  "OpenPR_Reconcile rt path ctx invo rawArgs = (case iv_IdempotencyKey invo of
     None \<Rightarrow> preturn (Inl (Errorf ''reconciling open_pr: invocation has no idempotency key''))
   | Some k \<Rightarrow>
     pbindM (FindByKey rt path ctx k) (wrapping ''reconciling open_pr: '') (\<lambda>found.
     case found of
       None \<Rightarrow> preturn (Inr \<lparr>rr_Applied = False, rr_Result = []\<rparr>)
     | Some entry \<Rightarrow> preturn (Inr \<lparr>rr_Applied = True, rr_Result = le_Result entry\<rparr>)))"

definition OpenPRTool :: "'s runtime \<Rightarrow> string \<Rightarrow> 's Tool" where
  "OpenPRTool rt path = \<lparr>t_Name = ''open_pr'',
     t_Description = ''Opens a pull request with the given title and body.'',
     t_InputSchema = (JObj [string_property ''title'' ''The pull request title.'',
         string_property ''body'' ''The pull request body.''], [''title'', ''body'']),
     t_HasSideEffect = True, t_Execute = OpenPR_Execute rt path,
     t_Reconcile = Some (OpenPR_Reconcile rt path)\<rparr>"


section \<open>The registry's promises\<close>

lemma NewRegistry_distinct: "distinct (map fst (NewRegistry ts))"
proof -
  have "distinct (map fst r) \<Longrightarrow> distinct (map fst (fold (\<lambda>t. AList.update (t_Name t) t) ts r))" for r
    by (induction ts arbitrary: r) (simp_all add: distinct_update)
  from this [of "[]"] show ?thesis by (simp add: NewRegistry_def)
qed

lemma map_of_NewRegistry: "map_of (NewRegistry ts) name = find (\<lambda>t. t_Name t = name) (rev ts)"
proof -
  have "map_of (fold (\<lambda>t. AList.update (t_Name t) t) ts r) name
      = (case find (\<lambda>t. t_Name t = name) (rev ts) of None \<Rightarrow> map_of r name | Some t \<Rightarrow> Some t)" for r
  proof (induction ts arbitrary: r)
    case (Cons t ts)
    have "find P (xs @ ys) = (case find P xs of None \<Rightarrow> find P ys | Some x \<Rightarrow> Some x)" for P and xs ys :: "'a Tool list"
      by (induction xs) auto
    with Cons show ?case by (simp add: update_conv' split: option.splits)
  qed simp
  from this [of "[]"] show ?thesis by (simp add: NewRegistry_def split: option.splits)
qed



section \<open>Reading the ledger back\<close>

lemma parseLedger_enc:
  assumes "\<forall>e \<in> set es. json_year (le_RecordedAt e) \<and> in64 (le_WriterPID e)"
  shows "parseLedger n (map (\<lambda>e. DocLine (Some (enc_LedgerEntry e))) es) = Inr es"
  using assms
  by (induction es arbitrary: n)
    (simp_all add: enc_LedgerEntry_def unmarshal_members LedgerEntry_fields_def LedgerEntry_zero_def
      find_field_def dec_enc)

end
