(* ===== verification/Go_Sha256.thy ===== *)
theory Go_Sha256
  imports Go_Text "HOL-Library.Word"
begin

text \<open>
  \<open>crypto/sha256\<close> (FIPS 180-4) and \<open>encoding/hex\<close>, as the argument hash and the state digest use them.
\<close>

unbundle bit_operations_syntax

text \<open>The round constants and the initial value, in decimal.\<close>

definition sha_K :: "32 word list" where
  "sha_K = map word_of_int
    [1116352408, 1899447441, 3049323471, 3921009573, 961987163, 1508970993, 2453635748, 2870763221,
     3624381080, 310598401, 607225278, 1426881987, 1925078388, 2162078206, 2614888103, 3248222580,
     3835390401, 4022224774, 264347078, 604807628, 770255983, 1249150122, 1555081692, 1996064986,
     2554220882, 2821834349, 2952996808, 3210313671, 3336571891, 3584528711, 113926993, 338241895,
     666307205, 773529912, 1294757372, 1396182291, 1695183700, 1986661051, 2177026350, 2456956037,
     2730485921, 2820302411, 3259730800, 3345764771, 3516065817, 3600352804, 4094571909, 275423344,
     430227734, 506948616, 659060556, 883997877, 958139571, 1322822218, 1537002063, 1747873779,
     1955562222, 2024104815, 2227730452, 2361852424, 2428436474, 2756734187, 3204031479, 3329325298]"

definition sha_H0 :: "32 word list" where
  "sha_H0 = map word_of_int
    [1779033703, 3144134277, 1013904242, 2773480762,
     1359893119, 2600822924, 528734635, 1541459225]"

definition rotr :: "nat \<Rightarrow> 32 word \<Rightarrow> 32 word" where
  "rotr n w = drop_bit n w OR push_bit (32 - n) w"

text \<open>The message schedule, with the newest word first.\<close>

fun sha_schedule :: "nat \<Rightarrow> 32 word list \<Rightarrow> 32 word list" where
  "sha_schedule 0 ws = ws"
| "sha_schedule (Suc n) ws =
     (let w15 = ws ! 14; w2 = ws ! 1;
          s0 = rotr 7 w15 XOR rotr 18 w15 XOR drop_bit 3 w15;
          s1 = rotr 17 w2 XOR rotr 19 w2 XOR drop_bit 10 w2
      in sha_schedule n ((ws ! 15 + s0 + ws ! 6 + s1) # ws))"

fun sha_rounds :: "(32 word \<times> 32 word) list \<Rightarrow> 32 word list \<Rightarrow> 32 word list" where
  "sha_rounds ((k, w) # kws) [a, b, c, d, e, f, g, h] =
     (let s1 = rotr 6 e XOR rotr 11 e XOR rotr 25 e;
          ch = (e AND f) XOR ((NOT e) AND g);
          t1 = h + s1 + ch + k + w;
          s0 = rotr 2 a XOR rotr 13 a XOR rotr 22 a;
          maj = (a AND b) XOR (a AND c) XOR (b AND c)
      in sha_rounds kws [t1 + (s0 + maj), a, b, c, d + t1, e, f, g])"
| "sha_rounds _ st = st"

definition sha_block :: "32 word list \<Rightarrow> 32 word list \<Rightarrow> 32 word list" where
  "sha_block st ws = map2 (+) st (sha_rounds (zip sha_K (rev (sha_schedule 48 (rev ws)))) st)"

text \<open>Padding: a one bit, zeros up to 56 bytes modulo 64, the length in bits as eight bytes.\<close>

definition byte_of :: "int \<Rightarrow> nat \<Rightarrow> 32 word" where
  "byte_of n i = word_of_int (n div 256 ^ i mod 256)"

definition sha_pad :: "string \<Rightarrow> 32 word list" where
  "sha_pad m = map (\<lambda>c. word_of_int (of_char c)) m @ [0x80]
     @ replicate ((119 - length m mod 64) mod 64) 0
     @ map (byte_of (8 * int (length m))) (rev [0..<8])"

fun be_words :: "32 word list \<Rightarrow> 32 word list" where
  "be_words (a # b # c # d # bs) =
     (push_bit 24 a OR push_bit 16 b OR push_bit 8 c OR d) # be_words bs"
| "be_words _ = []"

fun sha_blocks :: "nat \<Rightarrow> 32 word list \<Rightarrow> 32 word list \<Rightarrow> 32 word list" where
  "sha_blocks 0 ws st = st"
| "sha_blocks (Suc n) ws st = sha_blocks n (drop 16 ws) (sha_block st (take 16 ws))"

definition hex_word :: "32 word \<Rightarrow> string" where
  "hex_word w = map (\<lambda>i. hex_digit (nat (uint (drop_bit (4 * i) w AND 0xf)))) (rev [0..<8])"

text \<open>\<open>hex.EncodeToString(sha256.Sum256(m))\<close>.\<close>

definition sha256_hex :: "string \<Rightarrow> string" where
  "sha256_hex m = (let ws = be_words (sha_pad m) in
     concat (map hex_word (sha_blocks (length ws div 16) ws sha_H0)))"

lemma sha_block_length: "length st = 8 \<Longrightarrow> length (sha_block st ws) = 8"
proof -
  have r: "length st = 8 \<Longrightarrow> length (sha_rounds kws st) = 8" for kws st
    by (induction kws st rule: sha_rounds.induct) (auto simp: Let_def)
  show "length st = 8 \<Longrightarrow> length (sha_block st ws) = 8" by (simp add: sha_block_def r)
qed

lemma sha256_hex_length: "length (sha256_hex m) = 64"
proof -
  have l: "length st = 8 \<Longrightarrow> length (sha_blocks n ws st) = 8" for n ws st
    by (induction n ws st rule: sha_blocks.induct) (simp_all add: sha_block_length)
  have c: "length (concat (map hex_word xs)) = 8 * length xs" for xs
    by (induction xs) (simp_all add: hex_word_def)
  show ?thesis
    using l [of sha_H0] by (simp add: sha256_hex_def c Let_def sha_H0_def)
qed

end
