(* ===== verification/Idem.thy ===== *)
theory Idem
  imports Tools Go_Sha256
begin

text \<open>
  \<open>internal/idempotency\<close> but for the guard: the key and the argument hash (\<open>key.go\<close>), the stored record
  and its JSON (\<open>record.go\<close>), the errors (\<open>errors.go\<close>), crash injection (\<open>crash.go\<close>), and the store
  interface with its Redis implementation (\<open>store.go\<close>). The Redis client is a third-party package:
  the operations the code calls on it are a record that \<open>RedisStore\<close> takes as an argument.
\<close>

section \<open>Errors\<close>

definition ErrFenceUnavailable :: goerror where
  "ErrFenceUnavailable = errors_New SFenceUnavailable ''idempotency fence unavailable''"
definition ErrUnresolvable :: goerror where
  "ErrUnresolvable = errors_New SUnresolvable ''claimed side effect cannot be resolved''"
definition ErrRecordMismatch :: goerror where
  "ErrRecordMismatch = errors_New SRecordMismatch ''idempotency record does not match invocation''"
definition ErrOutcomeUnknown :: goerror where
  "ErrOutcomeUnknown = errors_New SOutcomeUnknown ''side effect outcome unknown; key left claimed''"
definition ErrClaimLost :: goerror where
  "ErrClaimLost = errors_New SClaimLost ''claim no longer held''"
definition ErrCorruptRecord :: goerror where
  "ErrCorruptRecord = errors_New SCorruptRecord ''idempotency record is not valid json''"
definition errRestart :: goerror where
  "errRestart = errors_New SRestart ''restart decision at claim''"

lemmas idem_errors = ErrFenceUnavailable_def ErrUnresolvable_def ErrRecordMismatch_def
  ErrOutcomeUnknown_def ErrClaimLost_def ErrCorruptRecord_def errRestart_def


section \<open>Key and argument hash (key.go)\<close>

definition Key :: "string \<Rightarrow> int \<Rightarrow> string \<Rightarrow> string" where
  "Key runID step toolUseID = ''idem:'' @ runID @ '':'' @ show_int step @ '':'' @ toolUseID"

definition canonicalJSON :: "raw \<Rightarrow> goerror + string" where
  "canonicalJSON r = (case r of
     None \<Rightarrow> Inl (Errorw ''decoding json: '' json_error)
   | Some v \<Rightarrow> Inr (json_text (canon v)))"

definition ArgsHash :: "string \<Rightarrow> raw \<Rightarrow> goerror + string" where
  "ArgsHash toolName args = (case canonicalJSON args of
     Inl err \<Rightarrow> Inl (Errorw ''canonicalizing tool args: '' err)
   | Inr c \<Rightarrow> Inr (sha256_hex (toolName @ [CHR 0x00] @ c)))"

lemma colon_split:
  "a @ CHR '':'' # b = a' @ CHR '':'' # b' \<Longrightarrow> CHR '':'' \<notin> set a \<Longrightarrow> CHR '':'' \<notin> set a' \<Longrightarrow> a = a' \<and> b = b'"
  by (induction a arbitrary: a') (case_tac a'; auto)+

text \<open>Within a run, the key determines the step and the tool use.\<close>

lemma Key_same_run: "Key r n t = Key r n' t' \<Longrightarrow> n = n' \<and> t = t'"
  using colon_split [of "show_int n" t "show_int n'" t', OF _ show_int_no_colon show_int_no_colon] show_int_inject
  by (auto simp: Key_def)

text \<open>
  C23. No two invocations share a key: for run ids without a colon (they are UUIDs), the key determines
  the run, the step and the tool use.
\<close>

theorem Key_injective:
  assumes "Key r n t = Key r' n' t'" and "CHR '':'' \<notin> set r" and "CHR '':'' \<notin> set r'"
  shows "r = r' \<and> n = n' \<and> t = t'"
proof -
  have "r @ CHR '':'' # show_int n @ CHR '':'' # t = r' @ CHR '':'' # show_int n' @ CHR '':'' # t'"
    using assms(1) by (simp add: Key_def)
  then have "r = r'" using colon_split assms(2,3) by blast
  with assms(1) Key_same_run show ?thesis by blast
qed

theorem Key_injective_witness:
  "Key ''r1'' 2 ''t:1'' = Key ''r1'' 2 ''t:1'' \<and> Key ''r1'' 2 ''t:1'' \<noteq> Key ''r1'' 21 ''t''"
  using Key_injective [of "''r1''" 2 "''t:1''" "''r1''" 21 "''t''"] by auto

text \<open>
  C24. The argument hash does not see how an arguments object was written: two objects in which every
  key ends up with the same value up to the same rewriting inside, in any order and with overwritten
  duplicates or not, hash alike, so a record stays valid when JSONB has reordered the keys.
\<close>

theorem ArgsHash_key_order:
  assumes "\<forall>k. map_option canon (map_of (rev ms) k) = map_option canon (map_of (rev ms') k)"
  shows "ArgsHash tool (Some (JObj ms)) = ArgsHash tool (Some (JObj ms'))"
  using canon_obj_cong [of ms ms'] assms by (simp add: ArgsHash_def canonicalJSON_def del: canon.simps)

theorem ArgsHash_key_order_witness:
  "ArgsHash ''open_pr'' (Some (JObj [(''title'', JStr ''x''), (''body'', JStr ''y'')]))
     = ArgsHash ''open_pr'' (Some (JObj [(''body'', JStr ''y''), (''title'', JStr ''z''), (''title'', JStr ''x'')]))"
  by (rule ArgsHash_key_order) simp


section \<open>The stored record (record.go)\<close>

definition StateClaimed :: string where "StateClaimed = ''claimed''"
definition StateResolved :: string where "StateResolved = ''resolved''"

lemma State_neq [simp]: "StateClaimed \<noteq> StateResolved" "StateResolved \<noteq> StateClaimed"
  by (simp_all add: StateClaimed_def StateResolved_def)

record IdemRecord =
  ir_State :: string
  ir_RunID :: string
  ir_Step :: int
  ir_ToolUseID :: string
  ir_ToolName :: string
  ir_ArgsHash :: string
  ir_ClaimToken :: string
  ir_ClaimedBy :: string
  ir_ClaimedAt :: gotime
  ir_ResolvedAt :: "gotime option"
  ir_Result :: "string option"
  ir_Status :: "string option"
  ir_Resolution :: "string option"

definition IdemRecord_zero :: IdemRecord where
  "IdemRecord_zero = \<lparr>ir_State = [], ir_RunID = [], ir_Step = 0, ir_ToolUseID = [], ir_ToolName = [],
     ir_ArgsHash = [], ir_ClaimToken = [], ir_ClaimedBy = [], ir_ClaimedAt = zero_time,
     ir_ResolvedAt = None, ir_Result = None, ir_Status = None, ir_Resolution = None\<rparr>"

definition IdemRecord_fields :: "IdemRecord field list" where
  "IdemRecord_fields =
    [(''state'', dec_string (\<lambda>x r. r\<lparr>ir_State := x\<rparr>)),
     (''run_id'', dec_string (\<lambda>x r. r\<lparr>ir_RunID := x\<rparr>)),
     (''step'', dec_int (\<lambda>x r. r\<lparr>ir_Step := x\<rparr>)),
     (''tool_use_id'', dec_string (\<lambda>x r. r\<lparr>ir_ToolUseID := x\<rparr>)),
     (''tool_name'', dec_string (\<lambda>x r. r\<lparr>ir_ToolName := x\<rparr>)),
     (''args_hash'', dec_string (\<lambda>x r. r\<lparr>ir_ArgsHash := x\<rparr>)),
     (''claim_token'', dec_string (\<lambda>x r. r\<lparr>ir_ClaimToken := x\<rparr>)),
     (''claimed_by'', dec_string (\<lambda>x r. r\<lparr>ir_ClaimedBy := x\<rparr>)),
     (''claimed_at'', dec_time (\<lambda>x r. r\<lparr>ir_ClaimedAt := x\<rparr>)),
     (''resolved_at'', dec_time_ptr (\<lambda>x r. r\<lparr>ir_ResolvedAt := x\<rparr>)),
     (''result'', dec_string_ptr (\<lambda>x r. r\<lparr>ir_Result := x\<rparr>)),
     (''status'', dec_string_ptr (\<lambda>x r. r\<lparr>ir_Status := x\<rparr>)),
     (''resolution'', dec_string_ptr (\<lambda>x r. r\<lparr>ir_Resolution := x\<rparr>))]"

definition enc_IdemRecord :: "IdemRecord \<Rightarrow> json" where
  "enc_IdemRecord r = JObj
    [(''state'', JStr (ir_State r)), (''run_id'', JStr (ir_RunID r)), (''step'', enc_int (ir_Step r)),
     (''tool_use_id'', JStr (ir_ToolUseID r)), (''tool_name'', JStr (ir_ToolName r)),
     (''args_hash'', JStr (ir_ArgsHash r)), (''claim_token'', JStr (ir_ClaimToken r)),
     (''claimed_by'', JStr (ir_ClaimedBy r)), (''claimed_at'', enc_time (ir_ClaimedAt r)),
     (''resolved_at'', enc_time_ptr (ir_ResolvedAt r)), (''result'', enc_string_ptr (ir_Result r)),
     (''status'', enc_string_ptr (ir_Status r)), (''resolution'', enc_string_ptr (ir_Resolution r))]"

text \<open>\<open>json.Marshal\<close> of a record fails when a time's year does not fit four digits.\<close>

definition json_record :: "IdemRecord \<Rightarrow> bool" where
  "json_record r \<longleftrightarrow> json_year (ir_ClaimedAt r)
     \<and> (case ir_ResolvedAt r of None \<Rightarrow> True | Some t \<Rightarrow> json_year t)"

definition decodeRecord :: "raw \<Rightarrow> goerror + IdemRecord" where
  "decodeRecord b = (case Unmarshal IdemRecord_fields b IdemRecord_zero of
     Inl err \<Rightarrow> Inl (Errorws ErrCorruptRecord ('': '' @ err_msg err))
   | Inr r \<Rightarrow> Inr r)"

lemma dec_ResolvedAt:
  "json_record r \<Longrightarrow> dec_time_ptr put (enc_time_ptr (ir_ResolvedAt r)) x = Some (put (ir_ResolvedAt r) x)"
  by (auto simp: json_record_def intro!: dec_enc split: option.splits)

lemma Unmarshal_enc_IdemRecord:
  assumes "json_record r" and "in64 (ir_Step r)"
  shows "Unmarshal IdemRecord_fields (Some (enc_IdemRecord r)) IdemRecord_zero = Inr r"
proof -
  have "json_year (ir_ClaimedAt r)" using assms(1) by (simp add: json_record_def)
  then show ?thesis
    using assms
    by (simp add: enc_IdemRecord_def unmarshal_members IdemRecord_fields_def IdemRecord_zero_def
        find_field_def dec_ResolvedAt dec_enc)
qed


definition sample_record :: IdemRecord where
  "sample_record = \<lparr>ir_State = StateResolved, ir_RunID = ''r1'', ir_Step = 1, ir_ToolUseID = ''t1'',
     ir_ToolName = ''apply_fix'', ir_ArgsHash = ''00'', ir_ClaimToken = ''tok'', ir_ClaimedBy = ''host-7'',
     ir_ClaimedAt = 1758376931104233000, ir_ResolvedAt = Some 1758376932000000000,
     ir_Result = Some ''ok'', ir_Status = Some ''success'', ir_Resolution = Some ''executed''\<rparr>"

lemma sample_record_json: "json_record sample_record"
  by code_simp



section \<open>Crash injection (crash.go)\<close>

definition CrashAfterClaim :: string where "CrashAfterClaim = ''after_claim''"
definition CrashAfterExecute :: string where "CrashAfterExecute = ''after_execute''"
definition CrashAfterResolve :: string where "CrashAfterResolve = ''after_resolve''"

lemmas Crash_defs = CrashAfterClaim_def CrashAfterExecute_def CrashAfterResolve_def

datatype CrashHook = noCrash | exitCrash string string

definition exitCrashCode :: int where "exitCrashCode = 137"

text \<open>The exit ends the process, so that it happens at most once needs no state.\<close>

definition Crash_At :: "CrashHook \<Rightarrow> string \<Rightarrow> string \<Rightarrow> ('s, unit) prog" where
  "Crash_At h toolName point = (case h of
     noCrash \<Rightarrow> preturn ()
   | exitCrash tool pt \<Rightarrow>
       if toolName \<noteq> tool \<or> point \<noteq> pt then preturn () else phalt exitCrashCode)"

definition ParseCrashSpec :: "string \<Rightarrow> goerror + CrashHook" where
  "ParseCrashSpec spec =
     (if spec = [] then Inr noCrash
      else let bad = Inl (Errorf (''parsing crash spec '' @ go_quote spec @ '': want <tool>:<point>'')) in
      (case strings_Cut (CHR '':'') spec of
        None \<Rightarrow> bad
      | Some (tool, pointStr) \<Rightarrow>
          if tool = [] then bad
          else if pointStr \<notin> {CrashAfterClaim, CrashAfterExecute, CrashAfterResolve}
          then Inl (Errorf (''parsing crash spec '' @ go_quote spec @ '': unknown point ''
            @ go_quote pointStr @ '' (want after_claim, after_execute or after_resolve)''))
          else Inr (exitCrash tool pointStr)))"

text \<open>
  C28. A crash specification is accepted exactly when it is empty or names a tool (without a colon) and
  one of the three points, and its hook ends the process with status 137 at that tool's point and lets
  every other call pass.
\<close>

theorem ParseCrashSpec_spec:
  "ParseCrashSpec spec = Inr h \<longleftrightarrow> spec = [] \<and> h = noCrash
     \<or> (\<exists>tool pt. spec = tool @ '':'' @ pt \<and> tool \<noteq> [] \<and> CHR '':'' \<notin> set tool
          \<and> pt \<in> {''after_claim'', ''after_execute'', ''after_resolve''} \<and> h = exitCrash tool pt
          \<and> (\<forall>t p s. Crash_At h t p s = (if t = tool \<and> p = pt then Halt 137 else Done (), s)))"
proof (cases "spec = []")
  case True
  then show ?thesis by (auto simp: ParseCrashSpec_def)
next
  case False
  have at: "Crash_At (exitCrash tool pt) t p s = (if t = tool \<and> p = pt then Halt 137 else Done (), s)"
    for tool pt t p s by (auto simp: Crash_At_def exitCrashCode_def)
  show ?thesis
  proof (cases "strings_Cut (CHR '':'') spec")
    case None
    then have "CHR '':'' \<notin> set spec" by (simp add: strings_Cut_None [symmetric])
    then have "spec \<noteq> tool @ '':'' @ pt" for tool pt by auto
    moreover have "ParseCrashSpec spec \<noteq> Inr h"
      using False None by (simp add: ParseCrashSpec_def Let_def)
    ultimately show ?thesis using False by metis
  next
    case (Some p)
    then obtain tool pt where p: "strings_Cut (CHR '':'') spec = Some (tool, pt)" by (cases p) auto
    note sp = strings_Cut_SomeD [OF p]
    have uniq: "spec = a @ '':'' @ b \<and> CHR '':'' \<notin> set a \<Longrightarrow> a = tool \<and> b = pt" for a b
      using strings_Cut_append [of "CHR '':''" a b] p by simp
    have "ParseCrashSpec spec = Inr h \<longleftrightarrow>
        tool \<noteq> [] \<and> pt \<in> {''after_claim'', ''after_execute'', ''after_resolve''} \<and> h = exitCrash tool pt"
      using False p by (auto simp: ParseCrashSpec_def Let_def Crash_defs)
    moreover have ex: "(\<exists>a b. spec = a @ '':'' @ b \<and> a \<noteq> [] \<and> CHR '':'' \<notin> set a \<and> P a b)
        \<longleftrightarrow> tool \<noteq> [] \<and> P tool pt" for P
    proof
      assume "\<exists>a b. spec = a @ '':'' @ b \<and> a \<noteq> [] \<and> CHR '':'' \<notin> set a \<and> P a b"
      then obtain a b where ab: "spec = a @ '':'' @ b" "a \<noteq> []" "CHR '':'' \<notin> set a" "P a b" by blast
      with uniq [of a b] show "tool \<noteq> [] \<and> P tool pt" by simp
    next
      assume "tool \<noteq> [] \<and> P tool pt"
      with sp show "\<exists>a b. spec = a @ '':'' @ b \<and> a \<noteq> [] \<and> CHR '':'' \<notin> set a \<and> P a b" by auto
    qed
    ultimately show ?thesis using False ex [of "\<lambda>tool pt. pt \<in> {''after_claim'', ''after_execute'', ''after_resolve''}
        \<and> h = exitCrash tool pt \<and> (\<forall>t p s. Crash_At h t p s = (if t = tool \<and> p = pt then Halt 137 else Done (), s))"] at
      by metis
  qed
qed


section \<open>The store (store.go)\<close>

record ClaimResult =
  cr_Acquired :: bool
  cr_Existing :: "IdemRecord option"

record 's Store =
  st_Claim :: "ctx \<Rightarrow> string \<Rightarrow> IdemRecord \<Rightarrow> ('s, goerror + ClaimResult) prog"
  st_Get :: "ctx \<Rightarrow> string \<Rightarrow> ('s, goerror + IdemRecord option) prog"
  st_Resolve :: "ctx \<Rightarrow> string \<Rightarrow> string \<Rightarrow> IdemRecord \<Rightarrow> ('s, goerror + unit) prog"
  st_TakeOver :: "ctx \<Rightarrow> string \<Rightarrow> string \<Rightarrow> IdemRecord \<Rightarrow> ('s, goerror + unit) prog"

text \<open>
  The Lua script, as a function of the value \<open>GET\<close> finds: its reply and, when it sets the key, the new
  value and the expiry in seconds. \<open>cjson.decode\<close> keeps the last of duplicate members.
\<close>

type_synonym script = "raw option \<Rightarrow> string \<Rightarrow> json \<Rightarrow> int \<Rightarrow> int \<times> (json \<times> int) option"

definition casScript :: script where
  "casScript cur expect val ttl = (case cur of
     None \<Rightarrow> (0, None)
   | Some b \<Rightarrow> (case b of
       Some (JObj ms) \<Rightarrow>
         if map_of (rev ms) ''state'' \<noteq> Some (JStr ''claimed'')
           \<or> map_of (rev ms) ''claim_token'' \<noteq> Some (JStr expect) then (0, None)
         else (1, Some (val, ttl))
     | _ \<Rightarrow> (0, None)))"

text \<open>The client: \<open>SetArgs\<close> with mode NX and GET, \<open>Get\<close>, and running a script on one key.\<close>

record 's redis_client =
  rd_SetNXGet :: "ctx \<Rightarrow> string \<Rightarrow> json \<Rightarrow> duration \<Rightarrow> ('s, goerror + raw) prog"
  rd_Get :: "ctx \<Rightarrow> string \<Rightarrow> ('s, goerror + raw) prog"
  rd_Run :: "ctx \<Rightarrow> script \<Rightarrow> string \<Rightarrow> string \<Rightarrow> json \<Rightarrow> int \<Rightarrow> ('s, goerror + int) prog"

definition Redis_Claim :: "'s redis_client \<Rightarrow> duration \<Rightarrow> ctx \<Rightarrow> string \<Rightarrow> IdemRecord
    \<Rightarrow> ('s, goerror + ClaimResult) prog" where
  "Redis_Claim client ttl ctx key rec =
     (if \<not> json_record rec then preturn (Inl (Errorw ''encoding claim record: '' json_error))
      else pbind (rd_SetNXGet client ctx key (enc_IdemRecord rec) ttl) (\<lambda>old. case old of
        Inl err \<Rightarrow>
          if errors_Is err SRedisNil then preturn (Inr \<lparr>cr_Acquired = True, cr_Existing = None\<rparr>)
          else preturn (Inl (Errorw (''claiming '' @ key @ '': '') err))
      | Inr b \<Rightarrow> (case decodeRecord b of
          Inl err \<Rightarrow> preturn (Inl (Errorw (''reading existing record for '' @ key @ '': '') err))
        | Inr existing \<Rightarrow> preturn (Inr \<lparr>cr_Acquired = False, cr_Existing = Some existing\<rparr>))))"

definition Redis_Get :: "'s redis_client \<Rightarrow> ctx \<Rightarrow> string \<Rightarrow> ('s, goerror + IdemRecord option) prog" where
  "Redis_Get client ctx key = pbind (rd_Get client ctx key) (\<lambda>r. case r of
     Inl err \<Rightarrow> if errors_Is err SRedisNil then preturn (Inr None)
       else preturn (Inl (Errorw (''getting '' @ key @ '': '') err))
   | Inr b \<Rightarrow> (case decodeRecord b of
       Inl err \<Rightarrow> preturn (Inl (Errorw (''reading record for '' @ key @ '': '') err))
     | Inr rec \<Rightarrow> preturn (Inr (Some rec))))"

text \<open>Go's integer division rounds towards zero.\<close>

definition whole_seconds :: "duration \<Rightarrow> int" where
  "whole_seconds d = (if d < 0 then - (- d div Second) else d div Second)"

definition compareAndSet :: "'s redis_client \<Rightarrow> duration \<Rightarrow> ctx \<Rightarrow> string \<Rightarrow> string \<Rightarrow> IdemRecord
    \<Rightarrow> ('s, goerror + unit) prog" where
  "compareAndSet client ttl ctx key expectToken rec =
     (if \<not> json_record rec then preturn (Inl (Errorw ''encoding record: '' json_error))
      else pbind (rd_Run client ctx casScript key expectToken (enc_IdemRecord rec) (whole_seconds ttl))
        (\<lambda>r. case r of
          Inl err \<Rightarrow> preturn (Inl (Errorw (''compare-and-set on '' @ key @ '': '') err))
        | Inr n \<Rightarrow> if n \<noteq> 1 then preturn (Inl (Errorw (''compare-and-set on '' @ key @ '': '') ErrClaimLost))
            else preturn (Inr ())))"

definition RedisStore :: "'s redis_client \<Rightarrow> duration \<Rightarrow> 's Store" where
  "RedisStore client ttl = \<lparr>st_Claim = Redis_Claim client ttl, st_Get = Redis_Get client,
     st_Resolve = compareAndSet client ttl, st_TakeOver = compareAndSet client ttl\<rparr>"



end
