(* ===== verification/Guard.thy ===== *)
theory Guard
  imports Idem
begin

text \<open>
  \<open>internal/idempotency\<close>, \<open>guard.go\<close> and \<open>retry.go\<close>: the one path that runs a side-effecting tool. Every
  call on the store, the tool, the clock and the log is a call on a record of operations, so the guard is
  a program over any state. The waiting loop takes fuel; everything else ends by itself.
\<close>

section \<open>Configuration\<close>

record Outcome =
  oc_Result :: string
  oc_Status :: string
  oc_Resolution :: string

definition DefaultStaleGrace :: duration where "DefaultStaleGrace = 30 * Second"
definition pollInterval :: duration where "pollInterval = Second"
definition waitLogInterval :: duration where "waitLogInterval = 5 * Second"
definition maxClaimRaces :: nat where "maxClaimRaces = 3"
definition ExpiryMargin :: duration where "ExpiryMargin = Minute"

definition retryAttempts :: nat where "retryAttempts = 5"
definition retryAttemptTimeout :: duration where "retryAttemptTimeout = 500 * Millisecond"
definition retryInitialBackoff :: duration where "retryInitialBackoff = 200 * Millisecond"
definition retryMaxBackoff :: duration where "retryMaxBackoff = 2 * Second"

text \<open>\<open>GuardConfig\<close>; an unset field is \<open>None\<close> (or 0).\<close>

record 's GuardConfig =
  gc_ToolTimeout :: duration
  gc_StaleGrace :: duration
  gc_TTL :: duration
  gc_Out :: "(string \<Rightarrow> ('s, unit) prog) option"
  gc_Crash :: "CrashHook option"
  gc_Now :: "('s, gotime) prog option"
  gc_Sleep :: "(ctx \<Rightarrow> duration \<Rightarrow> ('s, goerror + unit) prog) option"

text \<open>A \<open>Guard\<close> with its defaults filled in, and the process environment it runs in.\<close>

record 's Guard =
  g_rt :: "'s runtime"
  g_store :: "'s Store"
  g_ToolTimeout :: duration
  g_StaleGrace :: duration
  g_TTL :: duration
  g_Out :: "string \<Rightarrow> ('s, unit) prog"
  g_Crash :: CrashHook
  g_Now :: "('s, gotime) prog"
  g_Sleep :: "ctx \<Rightarrow> duration \<Rightarrow> ('s, goerror + unit) prog"
  g_claimedBy :: string

text \<open>\<open>os.Hostname\<close> is an argument; \<open>sleepCtx\<close> waits on a timer or the context, as \<open>rt_Sleep\<close> does.\<close>

definition NewGuard :: "'s runtime \<Rightarrow> (goerror + string) \<Rightarrow> 's Store \<Rightarrow> 's GuardConfig \<Rightarrow> ('s, 's Guard) prog" where
  "NewGuard rt hostname store cfg =
     (let host = (case hostname of Inl err \<Rightarrow> ''unknown'' | Inr h \<Rightarrow> h) in
      pbind (rt_Getpid rt) (\<lambda>pid. preturn
        \<lparr>g_rt = rt, g_store = store, g_ToolTimeout = gc_ToolTimeout cfg,
         g_StaleGrace = (if gc_StaleGrace cfg = 0 then DefaultStaleGrace else gc_StaleGrace cfg),
         g_TTL = gc_TTL cfg,
         g_Out = (case gc_Out cfg of None \<Rightarrow> \<lambda>_. preturn () | Some w \<Rightarrow> w),
         g_Crash = (case gc_Crash cfg of None \<Rightarrow> noCrash | Some h \<Rightarrow> h),
         g_Now = (case gc_Now cfg of None \<Rightarrow> rt_Now rt | Some f \<Rightarrow> f),
         g_Sleep = (case gc_Sleep cfg of None \<Rightarrow> rt_Sleep rt | Some f \<Rightarrow> f),
         g_claimedBy = host @ ''-'' @ show_int pid\<rparr>))"

text \<open>The inputs of one \<open>Guard.Run\<close> call.\<close>

record 's run =
  r_g :: "'s Guard"
  r_inv :: Invocation
  r_tc :: ToolCall
  r_tool :: "'s Tool"
  r_key :: string
  r_argsHash :: string

definition log :: "'s run \<Rightarrow> string \<Rightarrow> string \<Rightarrow> ('s, unit) prog" where
  "log r decision extra = g_Out (r_g r) (''fence key='' @ r_key r @ '' tool='' @ tc_ToolName (r_tc r)
     @ '' decision='' @ decision @ (if extra \<noteq> [] then '' '' @ extra else extra) @ [CHR 0x0A])"

definition fail_with :: "'s run \<Rightarrow> string \<Rightarrow> string \<Rightarrow> goerror \<Rightarrow> ('s, goerror + 'a) prog" where
  "fail_with r decision extra err = pbind (log r decision extra) (\<lambda>_. preturn (Inl err))"

definition newRecord :: "'s run \<Rightarrow> ('s, IdemRecord) prog" where
  "newRecord r = pbind (rt_UUID (g_rt (r_g r))) (\<lambda>token. pbind (g_Now (r_g r)) (\<lambda>now. preturn
     \<lparr>ir_State = StateClaimed, ir_RunID = iv_RunID (r_inv r), ir_Step = iv_Step (r_inv r),
      ir_ToolUseID = iv_ToolUseID (r_inv r), ir_ToolName = tc_ToolName (r_tc r),
      ir_ArgsHash = r_argsHash r, ir_ClaimToken = token, ir_ClaimedBy = g_claimedBy (r_g r),
      ir_ClaimedAt = truncate_us now, ir_ResolvedAt = None, ir_Result = None, ir_Status = None,
      ir_Resolution = None\<rparr>))"

definition staleAfter :: "'s run \<Rightarrow> duration" where
  "staleAfter r = wrap64 (g_ToolTimeout (r_g r) + g_StaleGrace (r_g r))"

definition isStale :: "'s run \<Rightarrow> IdemRecord \<Rightarrow> ('s, bool) prog" where
  "isStale r rec = pbind (g_Now (r_g r)) (\<lambda>now.
     preturn (time_Sub now (ir_ClaimedAt rec) \<ge> staleAfter r))"

definition keyMayHaveExpired :: "'s run \<Rightarrow> ('s, bool) prog" where
  "keyMayHaveExpired r = pbind (g_Now (r_g r)) (\<lambda>now.
     preturn (time_Sub now (tc_InvokedAt (r_tc r)) \<ge> wrap64 (g_TTL (r_g r) - ExpiryMargin)))"


section \<open>Retrying (retry.go)\<close>

text \<open>
  One attempt of \<open>retry\<close>; \<open>again\<close> is what follows when the attempt failed for a reason that may pass and
  the context is still alive.
\<close>

definition gave_up :: "goerror \<Rightarrow> goerror" where
  "gave_up err = Errorws ErrFenceUnavailable ('': '' @ err_msg err)"

definition retry_attempt :: "ctx \<Rightarrow> 's run \<Rightarrow> (ctx \<Rightarrow> ('s, goerror + 'a) prog) \<Rightarrow> nat
    \<Rightarrow> (goerror \<Rightarrow> ('s, goerror + 'a) prog) \<Rightarrow> ('s, goerror + 'a) prog" where
  "retry_attempt ctx r operation attempt again =
     pbind (WithTimeout (g_rt (r_g r)) ctx retryAttemptTimeout) (\<lambda>attemptCtx.
     pbind (operation attemptCtx) (\<lambda>res. case res of
       Inr val \<Rightarrow> preturn (Inr val)
     | Inl err \<Rightarrow>
         if errors_Is err SClaimLost \<or> errors_Is err SCorruptRecord then preturn (Inl err)
         else pbind (log r ''redis_retry'' (''attempt='' @ show_nat attempt @ ''/'' @ show_nat retryAttempts
             @ '' err='' @ go_quote (err_msg err))) (\<lambda>_.
           pbind (rt_Err (g_rt (r_g r)) ctx) (\<lambda>dead. case dead of
             Inl _ \<Rightarrow> preturn (Inl (gave_up err))
           | Inr _ \<Rightarrow> again err))))"

text \<open>\<open>left\<close> counts the attempts after this one.\<close>

primrec retry_loop :: "ctx \<Rightarrow> 's run \<Rightarrow> (ctx \<Rightarrow> ('s, goerror + 'a) prog) \<Rightarrow> nat \<Rightarrow> duration
    \<Rightarrow> ('s, goerror + 'a) prog" where
  "retry_loop ctx r operation 0 = (\<lambda>backoff. retry_attempt ctx r operation retryAttempts
     (\<lambda>err. preturn (Inl (gave_up err))))"
| "retry_loop ctx r operation (Suc left) = (\<lambda>backoff.
     retry_attempt ctx r operation (retryAttempts - Suc left) (\<lambda>err.
       pbind (g_Sleep (r_g r) ctx backoff) (\<lambda>slept. case slept of
         Inl err' \<Rightarrow> preturn (Inl (gave_up err'))
       | Inr _ \<Rightarrow> retry_loop ctx r operation left
           (if backoff * 2 > retryMaxBackoff then retryMaxBackoff else backoff * 2))))"

definition retry :: "ctx \<Rightarrow> 's run \<Rightarrow> (ctx \<Rightarrow> ('s, goerror + 'a) prog) \<Rightarrow> ('s, goerror + 'a) prog" where
  "retry ctx r operation = retry_loop ctx r operation (retryAttempts - 1) retryInitialBackoff"


section \<open>The decision table (guard.go)\<close>

definition mismatchErr :: "'s run \<Rightarrow> string \<Rightarrow> goerror" where
  "mismatchErr r why = Errorws ErrRecordMismatch ('': key='' @ r_key r @ '' tool='' @ tc_ToolName (r_tc r)
     @ '' tool_use_id='' @ tc_ToolUseID (r_tc r) @ '': '' @ why)"

text \<open>Whether a record describes this invocation.\<close>

definition record_matches :: "'s run \<Rightarrow> IdemRecord \<Rightarrow> bool" where
  "record_matches r rec \<longleftrightarrow> (ir_State rec = StateClaimed \<or> ir_State rec = StateResolved)
     \<and> ir_RunID rec = iv_RunID (r_inv r) \<and> ir_ToolUseID rec = iv_ToolUseID (r_inv r)
     \<and> ir_ToolName rec = tc_ToolName (r_tc r) \<and> ir_ArgsHash rec = r_argsHash r"

definition verify :: "'s run \<Rightarrow> IdemRecord \<Rightarrow> ('s, goerror + unit) prog" where
  "verify r rec = (if record_matches r rec then preturn (Inr ())
     else fail_with r ''record_mismatch'' [] (mismatchErr r ''record identity or args_hash differs''))"

definition storeErr :: "'s run \<Rightarrow> goerror \<Rightarrow> ('s, goerror) prog" where
  "storeErr r err =
     (if errors_Is err SRestart then preturn err
      else if errors_Is err SCorruptRecord then
        pbind (log r ''record_mismatch'' ''reason=corrupt_json'') (\<lambda>_.
          preturn (Errorws ErrRecordMismatch ('': key='' @ r_key r @ '': '' @ err_msg err)))
      else if errors_Is err SFenceUnavailable then
        pbind (log r ''fence_unavailable'' []) (\<lambda>_. preturn err)
      else pbind (log r ''fence_unavailable'' (''err='' @ go_quote (err_msg err))) (\<lambda>_.
          preturn (Errorws ErrFenceUnavailable ('': '' @ err_msg err))))"

text \<open>A store or reconcile call under \<open>retry\<close>, whose final error goes through \<open>storeErr\<close>.\<close>

definition fenced :: "ctx \<Rightarrow> 's run \<Rightarrow> (ctx \<Rightarrow> ('s, goerror + 'a) prog) \<Rightarrow> ('a \<Rightarrow> ('s, goerror + 'b) prog)
    \<Rightarrow> ('s, goerror + 'b) prog" where
  "fenced ctx r operation k = pbindM (retry ctx r operation) (storeErr r) k"

definition resolve :: "ctx \<Rightarrow> 's run \<Rightarrow> IdemRecord \<Rightarrow> string \<Rightarrow> string \<Rightarrow> string
    \<Rightarrow> ('s, goerror + Outcome) prog" where
  "resolve ctx r held result status res =
     pbind (g_Now (r_g r)) (\<lambda>t. let now = truncate_us t;
       resolved = held\<lparr>ir_State := StateResolved, ir_ResolvedAt := Some now, ir_Result := Some result,
         ir_Status := Some status, ir_Resolution := Some res\<rparr> in
     pbind (retry ctx r (\<lambda>c. st_Resolve (g_store (r_g r)) c (r_key r) (ir_ClaimToken held) resolved)) (\<lambda>x.
     pbind (case x of Inl err \<Rightarrow> log r ''resolve_failed'' (''err='' @ go_quote (err_msg err))
       | Inr _ \<Rightarrow> preturn ()) (\<lambda>_.
     pbind (Crash_At (g_Crash (r_g r)) (tc_ToolName (r_tc r)) CrashAfterResolve) (\<lambda>_.
     preturn (Inr \<lparr>oc_Result = result, oc_Status = status, oc_Resolution = res\<rparr>)))))"

definition execute :: "ctx \<Rightarrow> 's run \<Rightarrow> IdemRecord \<Rightarrow> string \<Rightarrow> ('s, goerror + Outcome) prog" where
  "execute ctx r held res =
     pbind (Crash_At (g_Crash (r_g r)) (tc_ToolName (r_tc r)) CrashAfterClaim) (\<lambda>_.
     pbind (WithTimeout (g_rt (r_g r)) ctx (g_ToolTimeout (r_g r))) (\<lambda>execCtx.
     pbind (t_Execute (r_tool r) execCtx (r_inv r) (tc_ToolArgs (r_tc r))) (\<lambda>x.
     pbind (case x of Inr _ \<Rightarrow> preturn False
       | Inl execErr \<Rightarrow> if errors_Is execErr SToolOutcomeUnknown then preturn True
           else pbind (rt_Err (g_rt (r_g r)) execCtx) (\<lambda>e. preturn (isl e))) (\<lambda>unknown.
     if unknown then fail_with r ''outcome_unknown'' []
       (Errorws ErrOutcomeUnknown ('': key='' @ r_key r @ '' tool='' @ tc_ToolName (r_tc r)))
     else pbind (Crash_At (g_Crash (r_g r)) (tc_ToolName (r_tc r)) CrashAfterExecute) (\<lambda>_.
       case x of
         Inl execErr \<Rightarrow> resolve ctx r held (''error: '' @ err_msg execErr) ''error'' res
       | Inr result \<Rightarrow> resolve ctx r held result ''success'' res)))))"

definition recheckOwnTakeOver :: "ctx \<Rightarrow> 's run \<Rightarrow> IdemRecord \<Rightarrow> ('s, goerror + IdemRecord) prog" where
  "recheckOwnTakeOver ctx r mine =
     fenced ctx r (\<lambda>c. st_Get (g_store (r_g r)) c (r_key r)) (\<lambda>cur.
       case cur of
         Some rec \<Rightarrow> if ir_State rec = StateClaimed \<and> ir_ClaimToken rec = ir_ClaimToken mine
           then preturn (Inr mine) else preturn (Inl errRestart)
       | None \<Rightarrow> preturn (Inl errRestart))"

definition takeOver :: "ctx \<Rightarrow> 's run \<Rightarrow> IdemRecord \<Rightarrow> ('s, goerror + IdemRecord) prog" where
  "takeOver ctx r stale =
     pbind (newRecord r) (\<lambda>mine.
     pbind (retry ctx r (\<lambda>c. st_TakeOver (g_store (r_g r)) c (r_key r) (ir_ClaimToken stale) mine)) (\<lambda>x.
       case x of
         Inl err \<Rightarrow> if errors_Is err SClaimLost then recheckOwnTakeOver ctx r mine
           else pbind (storeErr r err) (\<lambda>e. preturn (Inl e))
       | Inr _ \<Rightarrow> preturn (Inr mine)))"

definition reconcile :: "ctx \<Rightarrow> 's run \<Rightarrow> IdemRecord \<Rightarrow> bool \<Rightarrow> ('s, goerror + Outcome) prog" where
  "reconcile ctx r held tover = (case t_Reconcile (r_tool r) of
     None \<Rightarrow> fail_with r ''unresolvable'' [] (Errorws ErrUnresolvable ('': key='' @ r_key r @ '' tool=''
       @ tc_ToolName (r_tc r) @ '' tool_use_id='' @ tc_ToolUseID (r_tc r)
       @ '': stale claim and the tool cannot check whether it took effect''))
   | Some rc \<Rightarrow>
       fenced ctx r (\<lambda>c. rc c (r_inv r) (tc_ToolArgs (r_tc r))) (\<lambda>rr.
       pbindE (if tover then takeOver ctx r held else preturn (Inr held)) (\<lambda>held.
       if rr_Applied rr
       then pbind (log r ''reconciled_found'' []) (\<lambda>_.
         resolve ctx r held (rr_Result rr) ''success'' ResolutionReconciled)
       else pbind (log r ''reconciled_not_found'' []) (\<lambda>_.
         execute ctx r held ResolutionReexecuted))))"

definition acquired :: "ctx \<Rightarrow> 's run \<Rightarrow> IdemRecord \<Rightarrow> ('s, goerror + Outcome) prog" where
  "acquired ctx r mine = pbind (keyMayHaveExpired r) (\<lambda>expired.
     if expired then reconcile ctx r mine False
     else pbind (log r ''acquired'' []) (\<lambda>_. execute ctx r mine ResolutionExecuted))"

definition cacheHit :: "'s run \<Rightarrow> IdemRecord \<Rightarrow> ('s, goerror + Outcome) prog" where
  "cacheHit r rec = (case (ir_Result rec, ir_Status rec) of
     (Some result, Some status) \<Rightarrow> pbind (log r ''cache_hit'' []) (\<lambda>_.
       preturn (Inr \<lparr>oc_Result = result, oc_Status = status, oc_Resolution = ResolutionCached\<rparr>))
   | _ \<Rightarrow> fail_with r ''record_mismatch'' ''reason=resolved_without_result''
       (mismatchErr r ''resolved record has no result''))"

definition wait_extra :: "'s run \<Rightarrow> duration \<Rightarrow> string" where
  "wait_extra r age = ''claim_age='' @ duration_String (duration_Round age Second) @ '' stale_in=''
     @ duration_String (duration_Round (wrap64 (staleAfter r - age)) Second)"

primrec waitUntilSettled :: "nat \<Rightarrow> ctx \<Rightarrow> 's run \<Rightarrow> IdemRecord \<Rightarrow> gotime
    \<Rightarrow> ('s, goerror + IdemRecord) prog" where
  "waitUntilSettled 0 ctx r = (\<lambda>cur lastLog. pstuck)"
| "waitUntilSettled (Suc fuel) ctx r = (\<lambda>cur lastLog.
     pbind (isStale r cur) (\<lambda>stale.
     if stale then preturn (Inr cur)
     else pbind (g_Now (r_g r)) (\<lambda>now.
     let due = (lastLog = zero_time \<or> time_Sub now lastLog \<ge> waitLogInterval) in
     pbind (if due then log r ''waiting'' (wait_extra r (time_Sub now (ir_ClaimedAt cur))) else preturn ()) (\<lambda>_.
     let lastLog = (if due then now else lastLog) in
     pbind (g_Sleep (r_g r) ctx pollInterval) (\<lambda>slept. case slept of
       Inl err \<Rightarrow> fail_with r ''fence_unavailable'' ''reason=wait_interrupted''
         (Errorws ErrFenceUnavailable ('': waiting for claim: '' @ err_msg err))
     | Inr _ \<Rightarrow>
       fenced ctx r (\<lambda>c. st_Get (g_store (r_g r)) c (r_key r)) (\<lambda>nxt. case nxt of
         None \<Rightarrow> preturn (Inl errRestart)
       | Some rec \<Rightarrow>
           pbindE (verify r rec) (\<lambda>_.
           if ir_State rec = StateResolved then preturn (Inr rec)
           else waitUntilSettled fuel ctx r rec lastLog)))))))"

definition existing :: "nat \<Rightarrow> ctx \<Rightarrow> 's run \<Rightarrow> IdemRecord \<Rightarrow> IdemRecord \<Rightarrow> ('s, goerror + Outcome) prog" where
  "existing fuel ctx r mine ex =
     (if ir_State ex = StateClaimed \<and> ir_ClaimToken ex = ir_ClaimToken mine then acquired ctx r mine
      else pbindE (verify r ex) (\<lambda>_.
        if ir_State ex = StateResolved then cacheHit r ex
        else pbindE (waitUntilSettled fuel ctx r ex zero_time) (\<lambda>settled.
          if ir_State settled = StateResolved then cacheHit r settled
          else reconcile ctx r settled True)))"

definition attempt :: "nat \<Rightarrow> ctx \<Rightarrow> 's run \<Rightarrow> ('s, goerror + Outcome) prog" where
  "attempt fuel ctx r = pbind (newRecord r) (\<lambda>mine.
     fenced ctx r (\<lambda>c. st_Claim (g_store (r_g r)) c (r_key r) mine) (\<lambda>res.
       if cr_Acquired res then acquired ctx r mine
       else (case cr_Existing res of
         None \<Rightarrow> fail_with r ''fence_unavailable'' ''reason=claim_neither_acquired_nor_existing''
           (Errorws ErrFenceUnavailable
             '': store returned neither an acquired claim nor an existing record'')
       | Some ex \<Rightarrow> existing fuel ctx r mine ex)))"

primrec race_loop :: "nat \<Rightarrow> nat \<Rightarrow> ctx \<Rightarrow> 's run \<Rightarrow> ('s, goerror + Outcome) prog" where
  "race_loop 0 fuel ctx r = fail_with r ''fence_unavailable'' ''reason=lost_claim_races''
     (Errorws ErrFenceUnavailable ('': lost the claim race '' @ show_nat maxClaimRaces @ '' times''))"
| "race_loop (Suc races) fuel ctx r = pbind (attempt fuel ctx r) (\<lambda>out. case out of
     Inl err \<Rightarrow> if errors_Is err SRestart then race_loop races fuel ctx r else preturn (Inl err)
   | Inr oc \<Rightarrow> preturn (Inr oc))"

definition Guard_Run :: "nat \<Rightarrow> 's Guard \<Rightarrow> ctx \<Rightarrow> Invocation \<Rightarrow> ToolCall \<Rightarrow> 's Tool
    \<Rightarrow> ('s, goerror + Outcome) prog" where
  "Guard_Run fuel g ctx invo tc tool = (case iv_IdempotencyKey invo of
     None \<Rightarrow> preturn (Inl (Errorf ''guard run: invocation has no idempotency key''))
   | Some key \<Rightarrow> (case ArgsHash (tc_ToolName tc) (tc_ToolArgs tc) of
       Inl err \<Rightarrow> preturn (Inl (Errorw ''guard run: hashing tool args: '' err))
     | Inr hash \<Rightarrow> race_loop maxClaimRaces fuel ctx
         \<lparr>r_g = g, r_inv = invo, r_tc = tc, r_tool = tool, r_key = key, r_argsHash = hash\<rparr>))"

end
