(* ===== verification/Fence.thy ===== *)
theory Fence
  imports Guard
begin

text \<open>
  What the guard promises, proved once against an interface. The interface (\<open>fence_world\<close>) is the view
  of a world that the guard acts on: the record under its key with its expiry, how often the tool's effect
  has been recorded under the key, the clock, and the claim tokens handed out. Its assumptions are the
  contracts of the store, the tool and the clock, each of them for a call that returns as for one the
  process dies in.
\<close>

section \<open>Views\<close>

record fview =
  fv_key :: "(IdemRecord option \<times> gotime) option"
  fv_effects :: nat
  fv_clock :: gotime
  fv_issued :: "string set"

text \<open>Time passes and tokens are handed out; a calm step does nothing else.\<close>

definition later :: "fview \<Rightarrow> fview \<Rightarrow> bool" where
  "later v v' \<longleftrightarrow> fv_clock v \<le> fv_clock v' \<and> fv_issued v \<subseteq> fv_issued v'"

definition calm :: "fview \<Rightarrow> fview \<Rightarrow> bool" where
  "calm v v' \<longleftrightarrow> later v v' \<and> fv_key v' = fv_key v \<and> fv_effects v' = fv_effects v"

text \<open>The key is written at some instant of the step, with an expiry at most a second short of the TTL.\<close>

definition writes_key :: "duration \<Rightarrow> IdemRecord \<Rightarrow> gotime \<Rightarrow> fview \<Rightarrow> fview \<Rightarrow> bool" where
  "writes_key ttl rec t v v' \<longleftrightarrow> later v v' \<and> fv_effects v' = fv_effects v
     \<and> fv_clock v \<le> t \<and> t \<le> fv_clock v'
     \<and> (\<exists>e. fv_key v' = Some (Some rec, e) \<and> t + ttl - Second \<le> e)"

definition key_absent :: "gotime \<Rightarrow> fview \<Rightarrow> bool" where
  "key_absent t v \<longleftrightarrow> (case fv_key v of None \<Rightarrow> True | Some (b, e) \<Rightarrow> e \<le> t)"

definition key_holds :: "fview \<Rightarrow> IdemRecord \<Rightarrow> bool" where
  "key_holds v rec \<longleftrightarrow> (\<exists>e. fv_key v = Some (Some rec, e))"

text \<open>The contracts of the store's calls, of the tool's \<open>Execute\<close> and of its \<open>Reconcile\<close>.\<close>

definition claim_contract ::
  "duration \<Rightarrow> IdemRecord \<Rightarrow> fview \<Rightarrow> (goerror + ClaimResult) exec \<Rightarrow> fview \<Rightarrow> bool" where
  "claim_contract ttl rec v x v' \<longleftrightarrow>
     calm v v' \<and> (\<forall>cr. x = Done (Inr cr) \<longrightarrow> \<not> cr_Acquired cr
        \<and> (\<forall>ex. cr_Existing cr = Some ex \<longrightarrow> key_holds v ex))
     \<or> (\<exists>t. writes_key ttl rec t v v' \<and> key_absent t v)
        \<and> (\<forall>cr. x = Done (Inr cr) \<longrightarrow> cr_Acquired cr)"

definition get_contract :: "fview \<Rightarrow> (goerror + IdemRecord option) exec \<Rightarrow> fview \<Rightarrow> bool" where
  "get_contract v x v' \<longleftrightarrow> calm v v' \<and> (\<forall>rec. x = Done (Inr (Some rec)) \<longrightarrow> key_holds v rec)"

definition cas_contract :: "duration \<Rightarrow> IdemRecord \<Rightarrow> fview \<Rightarrow> (goerror + unit) exec \<Rightarrow> fview \<Rightarrow> bool" where
  "cas_contract ttl rec v x v' \<longleftrightarrow>
     calm v v' \<and> x \<noteq> Done (Inr ())
     \<or> (\<exists>t. writes_key ttl rec t v v' \<and> fv_key v \<noteq> None)"

definition execute_contract :: "fview \<Rightarrow> (goerror + 'a) exec \<Rightarrow> fview \<Rightarrow> bool" where
  "execute_contract v x v' \<longleftrightarrow> later v v' \<and> fv_key v' = fv_key v
     \<and> fv_effects v \<le> fv_effects v' \<and> fv_effects v' \<le> fv_effects v + 1
     \<and> (\<forall>res. x = Done (Inr res) \<longrightarrow> fv_effects v' = fv_effects v + 1)
     \<and> (\<forall>err. x = Done (Inl err) \<longrightarrow> \<not> errors_Is err SToolOutcomeUnknown \<longrightarrow> fv_effects v' = fv_effects v)"

definition reconcile_contract :: "fview \<Rightarrow> (goerror + ReconcileResult) exec \<Rightarrow> fview \<Rightarrow> bool" where
  "reconcile_contract v x v' \<longleftrightarrow> calm v v'
     \<and> (\<forall>rr. x = Done (Inr rr) \<longrightarrow> (rr_Applied rr \<longleftrightarrow> 0 < fv_effects v))"

text \<open>A predicate that calm steps keep.\<close>

definition stable :: "(fview \<Rightarrow> bool) \<Rightarrow> bool" where
  "stable A \<longleftrightarrow> (\<forall>v v'. calm v v' \<longrightarrow> A v \<longrightarrow> A v')"

lemma stableI: "(\<And>v v'. calm v v' \<Longrightarrow> A v \<Longrightarrow> A v') \<Longrightarrow> stable A"
  by (auto simp: stable_def)

lemma stable_conj: "stable A \<Longrightarrow> stable B \<Longrightarrow> stable (\<lambda>v. A v \<and> B v)"
  by (auto simp: stable_def)

lemma key_holds_unique: "key_holds v a \<Longrightarrow> key_holds v b \<Longrightarrow> a = b"
  by (auto simp: key_holds_def)

lemma key_holds_calm: "calm v v' \<Longrightarrow> key_holds v' = key_holds v"
  by (auto simp: calm_def key_holds_def)


section \<open>The invariant\<close>

text \<open>
  \<open>safe\<close> is what must hold at every instant, a crash included: the effect happened at most once, and if it
  did the key was claimed; whatever is under the key expires late; a resolved record tells whether the
  effect happened.
\<close>

definition honest :: "nat \<Rightarrow> IdemRecord \<Rightarrow> bool" where
  "honest n rec \<longleftrightarrow> (ir_State rec = StateResolved
     \<longrightarrow> (ir_Status rec = Some ''success'' \<and> n = 1) \<or> (ir_Status rec = Some ''error'' \<and> n = 0))"

definition safe :: "duration \<Rightarrow> gotime \<Rightarrow> fview \<Rightarrow> bool" where
  "safe ttl invokedAt v \<longleftrightarrow> fv_effects v \<le> 1 \<and> (0 < fv_effects v \<longrightarrow> fv_key v \<noteq> None)
     \<and> invokedAt \<le> fv_clock v
     \<and> (\<forall>b e. fv_key v = Some (b, e) \<longrightarrow> invokedAt + ttl - Second \<le> e)
     \<and> (\<forall>rec. key_holds v rec \<longrightarrow> ir_ClaimToken rec \<in> fv_issued v \<and> honest (fv_effects v) rec)"

definition late :: "duration \<Rightarrow> gotime \<Rightarrow> fview \<Rightarrow> bool" where
  "late ttl invokedAt v \<longleftrightarrow> invokedAt + ttl - ExpiryMargin \<le> fv_clock v"

text \<open>Our claim: the key holds a claimed record under our token.\<close>

definition claimed :: "string \<Rightarrow> fview \<Rightarrow> bool" where
  "claimed tok v \<longleftrightarrow> (\<exists>rec. key_holds v rec \<and> ir_State rec = StateClaimed \<and> ir_ClaimToken rec = tok)"

lemma stable_safe: "stable (safe ttl t)"
  by (rule stableI) (auto simp: safe_def calm_def later_def key_holds_def)

lemma stable_claimed: "stable (claimed tok)"
  by (rule stableI) (auto simp: claimed_def key_holds_calm)

lemma stable_late: "stable (late ttl t)"
  by (rule stableI) (auto simp: late_def calm_def later_def)

lemma stable_effects: "stable (\<lambda>v. P (fv_effects v))"
  by (rule stableI) (auto simp: calm_def)

lemma stable_issued: "stable (\<lambda>v. tok \<in> fv_issued v)"
  by (rule stableI) (auto simp: calm_def later_def)

text \<open>An invariant of calm steps that implies what must hold in a crash.\<close>

definition lasting :: "(fview \<Rightarrow> bool) \<Rightarrow> (fview \<Rightarrow> bool) \<Rightarrow> bool" where
  "lasting R A \<longleftrightarrow> stable A \<and> (\<forall>v. A v \<longrightarrow> R v)"

abbreviation keeps :: "duration \<Rightarrow> gotime \<Rightarrow> (fview \<Rightarrow> bool) \<Rightarrow> bool" where
  "keeps ttl t \<equiv> lasting (safe ttl t)"

lemma keeps_safe: "keeps ttl t (safe ttl t)"
  by (simp add: lasting_def stable_safe)

lemma keeps_conj: "keeps ttl t A \<Longrightarrow> stable B \<Longrightarrow> keeps ttl t (\<lambda>v. A v \<and> B v)"
  by (auto simp: lasting_def stable_conj)

text \<open>What a fresh token means: if the key holds it, the effect had not happened, or the key is old.\<close>

definition fresh_claim :: "duration \<Rightarrow> gotime \<Rightarrow> string \<Rightarrow> fview \<Rightarrow> bool" where
  "fresh_claim ttl t tok v \<longleftrightarrow> safe ttl t v \<and> tok \<in> fv_issued v
     \<and> (\<forall>rec. key_holds v rec \<and> ir_ClaimToken rec = tok
          \<longrightarrow> ir_State rec = StateClaimed \<and> (fv_effects v = 0 \<or> late ttl t v))"

lemma stable_fresh_claim: "stable (fresh_claim ttl t tok)"
  unfolding fresh_claim_def
  by (intro stable_conj stable_safe stable_issued stableI)
    (auto simp: key_holds_calm calm_def later_def late_def)

lemma keeps_fresh_claim: "keeps ttl t (fresh_claim ttl t tok)"
  using stable_fresh_claim by (simp add: lasting_def fresh_claim_def)

lemma claim_step:
  assumes "claim_contract ttl rec v x v'" and "fresh_claim ttl t (ir_ClaimToken rec) v"
    and "ir_State rec = StateClaimed"
  shows "fresh_claim ttl t (ir_ClaimToken rec) v'"
    and "x = Done (Inr cr) \<Longrightarrow> cr_Acquired cr \<Longrightarrow> claimed (ir_ClaimToken rec) v'"
    and "x = Done (Inr cr) \<Longrightarrow> \<not> cr_Acquired cr \<Longrightarrow> cr_Existing cr = Some ex \<Longrightarrow> key_holds v' ex"
proof -
  have a: "fresh_claim ttl t (ir_ClaimToken rec) v' \<and> claimed (ir_ClaimToken rec) v'"
    if w: "writes_key ttl rec u v v'" and ab: "key_absent u v" for u
  proof -
    have s: "safe ttl t v" and i: "ir_ClaimToken rec \<in> fv_issued v"
      using assms(2) by (auto simp: fresh_claim_def)
    obtain e where e: "fv_key v' = Some (Some rec, e)" "u + ttl - Second \<le> e"
      "fv_clock v \<le> u" "u \<le> fv_clock v'" "fv_effects v' = fv_effects v" "later v v'"
      using w by (auto simp: writes_key_def)
    have old: "fv_effects v = 0 \<or> late ttl t v'"
    proof (cases "fv_key v")
      case None
      with s show ?thesis by (auto simp: safe_def)
    next
      case (Some p)
      obtain b e' where "fv_key v = Some (b, e')" using Some by (cases p) auto
      with ab s e show ?thesis
        by (auto simp: key_absent_def safe_def late_def ExpiryMargin_def Minute_def Second_def)
    qed
    have "safe ttl t v'"
      using s i e assms(3) by (auto simp: safe_def key_holds_def later_def honest_def)
    with i e old assms(3) show ?thesis
      by (auto simp: fresh_claim_def claimed_def key_holds_def later_def)
  qed
  have c: "fresh_claim ttl t (ir_ClaimToken rec) v'" if "calm v v'"
    using that assms(2) stable_fresh_claim by (auto simp: stable_def)
  show "fresh_claim ttl t (ir_ClaimToken rec) v'"
    using assms(1) a c by (auto simp: claim_contract_def)
  show "x = Done (Inr cr) \<Longrightarrow> cr_Acquired cr \<Longrightarrow> claimed (ir_ClaimToken rec) v'"
    using assms(1) a by (auto simp: claim_contract_def)
  show "x = Done (Inr cr) \<Longrightarrow> \<not> cr_Acquired cr \<Longrightarrow> cr_Existing cr = Some ex \<Longrightarrow> key_holds v' ex"
    using assms(1) by (auto simp: claim_contract_def key_holds_calm)
qed

lemma cas_step:
  assumes "cas_contract ttl rec v x v'" and "safe ttl t v"
    and "ir_ClaimToken rec \<in> fv_issued v" and "honest (fv_effects v) rec"
  shows "safe ttl t v' \<and> fv_effects v' = fv_effects v \<and> later v v'
    \<and> (x = Done (Inr ()) \<longrightarrow> key_holds v' rec)"
proof (cases "calm v v' \<and> x \<noteq> Done (Inr ())")
  case True
  then show ?thesis using assms(2) stable_safe by (auto simp: stable_def) (auto simp: calm_def)
next
  case False
  with assms(1) obtain u e where "later v v'" "fv_effects v' = fv_effects v" "fv_clock v \<le> u"
      "fv_key v' = Some (Some rec, e)" "u + ttl - Second \<le> e"
    by (auto simp: cas_contract_def writes_key_def)
  then show ?thesis using assms(2-4) by (auto simp: safe_def key_holds_def later_def)
qed

lemma execute_step:
  assumes "execute_contract v x v'" and "safe ttl t v" and "claimed tok v" and "fv_effects v = 0"
  shows "safe ttl t v'" "claimed tok v'" "later v v'"
    "x = Done (Inr res) \<Longrightarrow> fv_effects v' = 1"
    "x = Done (Inl err) \<Longrightarrow> \<not> errors_Is err SToolOutcomeUnknown \<Longrightarrow> fv_effects v' = 0"
proof -
  have k: "key_holds v' = key_holds v"
    using assms(1) by (simp add: execute_contract_def key_holds_def fun_eq_iff)
  then show "claimed tok v'" using assms(3) by (simp add: claimed_def)
  have "key_holds v' rec \<Longrightarrow> ir_State rec = StateClaimed" for rec
    using assms(3) k key_holds_unique by (auto simp: claimed_def)
  with assms k show "safe ttl t v'"
    by (auto simp: execute_contract_def safe_def later_def honest_def claimed_def key_holds_def)
  show "later v v'" "x = Done (Inr res) \<Longrightarrow> fv_effects v' = 1"
    "x = Done (Inl err) \<Longrightarrow> \<not> errors_Is err SToolOutcomeUnknown \<Longrightarrow> fv_effects v' = 0"
    using assms(1,4) by (auto simp: execute_contract_def)
qed


section \<open>The interface\<close>

definition calm_prog :: "('s \<Rightarrow> fview) \<Rightarrow> ('s, 'a) prog \<Rightarrow> bool" where
  "calm_prog view m \<longleftrightarrow> (\<forall>s. calm (view s) (view (snd (m s))))"

lemma calm_refl [simp]: "calm v v" and later_refl [simp]: "later v v"
  by (simp_all add: calm_def later_def)

lemma later_trans: "later u v \<Longrightarrow> later v w \<Longrightarrow> later u w"
  by (auto simp: later_def)

lemma calm_trans: "calm u v \<Longrightarrow> calm v w \<Longrightarrow> calm u w"
  by (auto simp: calm_def intro: later_trans)

lemma calm_prog_return [simp]: "calm_prog view (preturn a)" "calm_prog view (phalt c)" "calm_prog view pstuck"
  by (simp_all add: calm_prog_def)

lemma calm_prog_bind: "calm_prog view m \<Longrightarrow> (\<And>a. calm_prog view (f a)) \<Longrightarrow> calm_prog view (pbind m f)"
  unfolding calm_prog_def pbind_def
  by (auto split: prod.splits exec.splits) (metis calm_trans snd_conv)+

lemma calm_prog_Crash [simp]: "calm_prog view (Crash_At h tool p)"
  by (simp add: Crash_At_def split: CrashHook.splits)

locale fence_store =
  fixes r :: "'s run" and view :: "'s \<Rightarrow> fview"
  assumes calm_out: "calm_prog view (g_Out (r_g r) txt)"
    and calm_sleep: "calm_prog view (g_Sleep (r_g r) c d)"
    and calm_err: "calm_prog view (rt_Err (g_rt (r_g r)) c)"
    and calm_clock: "calm_prog view (rt_Now (g_rt (r_g r)))"
    and calm_now: "calm_prog view (g_Now (r_g r))"
    and now_value: "g_Now (r_g r) s = (Done t, s') \<Longrightarrow> fv_clock (view s) \<le> t \<and> t \<le> fv_clock (view s')"
    and calm_uuid: "calm_prog view (rt_UUID (g_rt (r_g r)))"
    and uuid_value: "rt_UUID (g_rt (r_g r)) s = (Done tok, s')
      \<Longrightarrow> tok \<notin> fv_issued (view s) \<and> tok \<in> fv_issued (view s')"
    and claim: "ir_Step rec = iv_Step (r_inv r) \<Longrightarrow> st_Claim (g_store (r_g r)) c (r_key r) rec s = (x, s')
      \<Longrightarrow> claim_contract (g_TTL (r_g r)) rec (view s) x (view s')"
    and get: "st_Get (g_store (r_g r)) c (r_key r) s = (y, s') \<Longrightarrow> get_contract (view s) y (view s')"
    and resolve_cas: "ir_Step rec = iv_Step (r_inv r)
      \<Longrightarrow> st_Resolve (g_store (r_g r)) c (r_key r) tk rec s = (z, s')
      \<Longrightarrow> cas_contract (g_TTL (r_g r)) rec (view s) z (view s')"
    and takeOver_cas: "ir_Step rec = iv_Step (r_inv r)
      \<Longrightarrow> st_TakeOver (g_store (r_g r)) c (r_key r) tk rec s = (z, s')
      \<Longrightarrow> cas_contract (g_TTL (r_g r)) rec (view s) z (view s')"
begin

lemma calm_triple:
  assumes "calm_prog view m" and keeps: "lasting R A"
  shows "triple (\<lambda>s. A (view s)) m (\<lambda>_ s. A (view s)) (\<lambda>s. R (view s))"
proof (rule tripleI)
  have A: "stable A" "\<And>v. A v \<Longrightarrow> R v" using keeps by (auto simp: lasting_def)
  note assms = assms(1) A
  fix s a s'
  have c: "calm (view s) (view (snd (m s)))" using assms(1) by (simp add: calm_prog_def)
  show "A (view s) \<Longrightarrow> m s = (Done a, s') \<Longrightarrow> A (view s')" using c assms(2) by (auto simp: stable_def)
next
  fix s n s' assume "A (view s)" "m s = (Halt n, s')"
  then show "R (view s')" using assms unfolding calm_prog_def stable_def lasting_def by (metis snd_conv)
next
  fix s s' assume "A (view s)" "m s = (OutOfFuel, s')"
  then show "R (view s')" using assms unfolding calm_prog_def stable_def lasting_def by (metis snd_conv)
qed

lemma calm_bind:
  assumes "calm_prog view m" and "lasting R A" and "\<And>a. triple (\<lambda>s. A (view s)) (f a) Q (\<lambda>s. R (view s))"
  shows "triple (\<lambda>s. A (view s)) (pbind m f) Q (\<lambda>s. R (view s))"
  by (rule triple_bind [OF calm_triple [OF assms(1,2)] assms(3)])

lemma calm_log: "calm_prog view (log r d e)"
  by (simp add: log_def calm_out)

lemma calm_storeErr: "calm_prog view (storeErr r err)"
  by (simp add: storeErr_def calm_prog_bind calm_log)

lemma calm_fail: "calm_prog view (fail_with r d e err)"
  by (simp add: fail_with_def calm_prog_bind calm_log)

lemma calm_WithTimeout: "calm_prog view (WithTimeout (g_rt (r_g r)) c d)"
  by (simp add: WithTimeout_def calm_prog_bind calm_clock)

lemma calm_verify: "calm_prog view (verify r rec)"
  by (simp add: verify_def calm_fail)

lemma calm_isStale: "calm_prog view (isStale r rec)"
  by (simp add: isStale_def calm_prog_bind calm_now)

lemmas calm_progs = calm_log calm_storeErr calm_fail calm_WithTimeout calm_verify calm_isStale calm_err
  calm_now calm_sleep

lemma retry_triple:
  assumes I: "lasting R I"
    and opn: "\<And>c. triple (\<lambda>s. I (view s)) (operation c)
      (\<lambda>res s. case res of Inl _ \<Rightarrow> I (view s) | Inr a \<Rightarrow> Q a (view s)) (\<lambda>s. R (view s))"
  shows "triple (\<lambda>s. I (view s)) (retry ctx r operation)
      (\<lambda>res s. case res of Inl _ \<Rightarrow> I (view s) | Inr a \<Rightarrow> Q a (view s)) (\<lambda>s. R (view s))"
proof -
  let ?Q = "\<lambda>res s. case res of Inl _ \<Rightarrow> I (view s) | Inr a \<Rightarrow> Q a (view s)"
  note c = calm_bind [where A = I, OF _ I]
  have att: "triple (\<lambda>s. I (view s)) (retry_attempt ctx r operation n again) ?Q (\<lambda>s. R (view s))"
    if again: "\<And>err. triple (\<lambda>s. I (view s)) (again err) ?Q (\<lambda>s. R (view s))" for n again
  proof -
    have fails: "triple (\<lambda>s. I (view s))
        (if errors_Is err SClaimLost \<or> errors_Is err SCorruptRecord then preturn (Inl err)
         else pbind (log r d e) (\<lambda>_. pbind (rt_Err (g_rt (r_g r)) ctx) (\<lambda>dead. case dead of
             Inl _ \<Rightarrow> preturn (Inl (gave_up err)) | Inr _ \<Rightarrow> again err))) ?Q (\<lambda>s. R (view s))" for err d e
    proof (rule triple_if)
      show "triple (\<lambda>s. I (view s)) (preturn (Inl err)) ?Q (\<lambda>s. R (view s))" by (rule triple_return) simp
      show "triple (\<lambda>s. I (view s)) (pbind (log r d e) (\<lambda>_. pbind (rt_Err (g_rt (r_g r)) ctx)
          (\<lambda>dead. case dead of Inl _ \<Rightarrow> preturn (Inl (gave_up err)) | Inr _ \<Rightarrow> again err))) ?Q (\<lambda>s. R (view s))"
      proof (rule c [OF calm_log], rule c [OF calm_err])
        fix dead :: "goerror + unit"
        show "triple (\<lambda>s. I (view s)) (case dead of
            Inl _ \<Rightarrow> preturn (Inl (gave_up err)) | Inr _ \<Rightarrow> again err) ?Q (\<lambda>s. R (view s))"
          by (cases dead) (auto intro: triple_return again)
      qed
    qed
    show ?thesis
      unfolding retry_attempt_def
    proof (rule c [OF calm_WithTimeout], rule triple_bind [OF opn])
      fix res
      show "triple (\<lambda>s. case res of Inl _ \<Rightarrow> I (view s) | Inr a \<Rightarrow> Q a (view s)) (case res of
          Inr val \<Rightarrow> preturn (Inr val)
        | Inl err \<Rightarrow> if errors_Is err SClaimLost \<or> errors_Is err SCorruptRecord then preturn (Inl err)
            else pbind (log r ''redis_retry'' (''attempt='' @ show_nat n @ ''/'' @ show_nat retryAttempts
             @ '' err='' @ go_quote (err_msg err))) (\<lambda>_.
             pbind (rt_Err (g_rt (r_g r)) ctx) (\<lambda>dead. case dead of
               Inl _ \<Rightarrow> preturn (Inl (gave_up err)) | Inr _ \<Rightarrow> again err))) ?Q (\<lambda>s. R (view s))"
      proof (cases res)
        case (Inl err)
        then show ?thesis by (simp only: sum.case fails)
      qed (auto intro: triple_return)
    qed
  qed
  have "triple (\<lambda>s. I (view s)) (retry_loop ctx r operation n b) ?Q (\<lambda>s. R (view s))" for n b
  proof (induction n arbitrary: b)
    case 0
    show ?case by (simp, rule att) (auto intro: triple_return)
  next
    case (Suc n)
    show ?case
      unfolding retry_loop.simps
      by (rule att, rule c [OF calm_sleep], rule triple_sum) (auto intro: triple_return Suc.IH)
  qed
  then show ?thesis by (simp add: retry_def)
qed

lemma fenced_triple:
  assumes I: "lasting R I"
    and opn: "\<And>c. triple (\<lambda>s. I (view s)) (operation c)
      (\<lambda>res s. case res of Inl _ \<Rightarrow> I (view s) | Inr a \<Rightarrow> Q a (view s)) (\<lambda>s. R (view s))"
    and err: "\<And>e s. I (view s) \<Longrightarrow> Post (Inl e) s"
    and k: "\<And>a. triple (\<lambda>s. Q a (view s)) (k a) Post (\<lambda>s. R (view s))"
  shows "triple (\<lambda>s. I (view s)) (fenced ctx r operation k) Post (\<lambda>s. R (view s))"
  unfolding fenced_def
  by (rule triple_bindM [OF retry_triple [OF I opn]])
    (auto intro!: triple_post [OF calm_triple [OF calm_storeErr I]] err k)

lemma calm_newRecord: "calm_prog view (newRecord r)"
  by (simp add: newRecord_def calm_prog_bind calm_uuid calm_now)

lemma stable_key_holds: "stable (\<lambda>v. key_holds v rec)"
  by (rule stableI) (simp add: key_holds_calm)

lemma get_triple:
  assumes "lasting R I"
  shows "triple (\<lambda>s. I (view s)) (st_Get (g_store (r_g r)) c (r_key r))
    (\<lambda>res s. case res of Inl _ \<Rightarrow> I (view s)
      | Inr cur \<Rightarrow> I (view s) \<and> (\<forall>rec. cur = Some rec \<longrightarrow> key_holds (view s) rec)) (\<lambda>s. R (view s))"
proof (rule tripleI)
  fix s x s' assume s: "I (view s)" "st_Get (g_store (r_g r)) c (r_key r) s = (Done x, s')"
  with get [OF s(2)] assms show "case x of Inl _ \<Rightarrow> I (view s')
      | Inr cur \<Rightarrow> I (view s') \<and> (\<forall>rec. cur = Some rec \<longrightarrow> key_holds (view s') rec)"
    by (auto simp: get_contract_def lasting_def stable_def key_holds_calm split: sum.splits)
next
  fix s n s' assume s: "I (view s)" "st_Get (g_store (r_g r)) c (r_key r) s = (Halt n, s')"
  with get [OF s(2)] assms show "R (view s')" by (auto simp: get_contract_def lasting_def stable_def)
next
  fix s s' assume s: "I (view s)" "st_Get (g_store (r_g r)) c (r_key r) s = (OutOfFuel, s')"
  with get [OF s(2)] assms show "R (view s')" by (auto simp: get_contract_def lasting_def stable_def)
qed

lemma fenced_get_triple:
  assumes "lasting R I" and "\<And>e s. I (view s) \<Longrightarrow> Post (Inl e) s"
    and "triple (\<lambda>s. I (view s)) (k None) Post (\<lambda>s. R (view s))"
    and "\<And>rec. triple (\<lambda>s. I (view s) \<and> key_holds (view s) rec) (k (Some rec)) Post (\<lambda>s. R (view s))"
  shows "triple (\<lambda>s. I (view s)) (fenced ctx r (\<lambda>c. st_Get (g_store (r_g r)) c (r_key r)) k) Post (\<lambda>s. R (view s))"
proof (rule fenced_triple [OF assms(1), where Q = "\<lambda>cur v. I v \<and> (\<forall>rec. cur = Some rec \<longrightarrow> key_holds v rec)",
      OF get_triple [OF assms(1)]])
  fix e s assume "I (view s)" then show "Post (Inl e) s" by (rule assms(2))
next
  fix cur
  show "triple (\<lambda>s. I (view s) \<and> (\<forall>rec. cur = Some rec \<longrightarrow> key_holds (view s) rec)) (k cur) Post (\<lambda>s. R (view s))"
    using assms(3,4) by (cases cur) simp_all
qed

end


locale fence_world = fence_store r view
  for r :: "'s run" and view :: "'s \<Rightarrow> fview" +
  assumes tool: "t_Execute (r_tool r) c (r_inv r) (tc_ToolArgs (r_tc r)) s = (w, s')
      \<Longrightarrow> execute_contract (view s) w (view s')"
    and reconciler: "t_Reconcile (r_tool r) = Some rc \<Longrightarrow> rc c (r_inv r) (tc_ToolArgs (r_tc r)) s = (q, s')
      \<Longrightarrow> reconcile_contract (view s) q (view s')"
    and ttl_range: "ExpiryMargin < g_TTL (r_g r)" "g_TTL (r_g r) \<le> max64"
begin

abbreviation (input) "ttl \<equiv> g_TTL (r_g r)"
abbreviation (input) "invokedAt \<equiv> tc_InvokedAt (r_tc r)"
abbreviation (input) "Safe \<equiv> \<lambda>s. safe ttl invokedAt (view s)"

lemma newRecord_triple:
  "triple Safe (newRecord r) (\<lambda>rec s. fresh_claim ttl invokedAt (ir_ClaimToken rec) (view s)
     \<and> (\<forall>old. key_holds (view s) old \<longrightarrow> ir_ClaimToken old \<noteq> ir_ClaimToken rec)
     \<and> ir_State rec = StateClaimed \<and> ir_Step rec = iv_Step (r_inv r)) Safe"
proof -
  have f: "keeps ttl invokedAt (\<lambda>v. safe ttl invokedAt v \<and> tok \<in> fv_issued v
      \<and> (\<forall>old. key_holds v old \<longrightarrow> ir_ClaimToken old \<noteq> tok))" for tok
    by (intro keeps_conj keeps_safe stable_conj stable_issued stableI) (simp add: key_holds_calm)
  have u: "triple Safe (rt_UUID (g_rt (r_g r))) (\<lambda>tok s. safe ttl invokedAt (view s) \<and> tok \<in> fv_issued (view s)
      \<and> (\<forall>old. key_holds (view s) old \<longrightarrow> ir_ClaimToken old \<noteq> tok)) Safe"
  proof (rule tripleI)
    fix s tok s' assume s: "Safe s" "rt_UUID (g_rt (r_g r)) s = (Done tok, s')"
    have c: "calm (view s) (view s')" using calm_uuid s(2) by (metis calm_prog_def snd_conv)
    with s(1) stable_safe have "safe ttl invokedAt (view s')" by (auto simp: stable_def)
    moreover have "key_holds (view s') old \<Longrightarrow> ir_ClaimToken old \<noteq> tok" for old
      using uuid_value [OF s(2)] s(1) c by (auto simp: safe_def key_holds_calm)
    ultimately show "safe ttl invokedAt (view s') \<and> tok \<in> fv_issued (view s')
        \<and> (\<forall>old. key_holds (view s') old \<longrightarrow> ir_ClaimToken old \<noteq> tok)"
      using uuid_value [OF s(2)] by blast
  next
    fix s n s' assume "Safe s" "rt_UUID (g_rt (r_g r)) s = (Halt n, s')"
    then show "Safe s'" using calm_uuid stable_safe unfolding calm_prog_def stable_def by (metis snd_conv)
  next
    fix s s' assume "Safe s" "rt_UUID (g_rt (r_g r)) s = (OutOfFuel, s')"
    then show "Safe s'" using calm_uuid stable_safe unfolding calm_prog_def stable_def by (metis snd_conv)
  qed
  show ?thesis
    unfolding newRecord_def
    by (rule triple_bind [OF u], rule triple_bind [OF calm_triple [OF calm_now f]])
      (auto intro!: triple_return simp: fresh_claim_def)
qed


text \<open>What the guard's answer tells: a success exactly one effect, an error none.\<close>

definition truthful :: "(goerror + Outcome) \<Rightarrow> fview \<Rightarrow> bool" where
  "truthful res v \<longleftrightarrow> safe ttl invokedAt v \<and> (\<forall>oc. res = Inr oc \<longrightarrow>
     oc_Status oc = ''success'' \<and> fv_effects v = 1 \<or> oc_Status oc = ''error'' \<and> fv_effects v = 0)"

lemma truthful_Inl [simp]: "truthful (Inl err) v \<longleftrightarrow> safe ttl invokedAt v"
  by (simp add: truthful_def)

lemma fail_triple: "triple Safe (fail_with r d e err) (\<lambda>res s. truthful res (view s)) Safe"
  unfolding fail_with_def by (rule calm_bind [OF calm_log keeps_safe]) (auto intro: triple_return)

lemma cas_triple:
  assumes op: "\<And>s z s'. operation s = (z, s') \<Longrightarrow> cas_contract ttl rec (view s) z (view s')"
    and h: "honest n rec"
  shows "triple (\<lambda>s. safe ttl invokedAt (view s) \<and> ir_ClaimToken rec \<in> fv_issued (view s) \<and> fv_effects (view s) = n)
    operation
    (\<lambda>res s. safe ttl invokedAt (view s) \<and> ir_ClaimToken rec \<in> fv_issued (view s) \<and> fv_effects (view s) = n
       \<and> (res = Inr () \<longrightarrow> key_holds (view s) rec)) Safe"
proof (rule tripleI; (elim conjE)?)
  fix s a s' assume "Safe s" "ir_ClaimToken rec \<in> fv_issued (view s)" "fv_effects (view s) = n"
    "operation s = (Done a, s')"
  with cas_step [OF op [OF this(4)]] h
  show "safe ttl invokedAt (view s') \<and> ir_ClaimToken rec \<in> fv_issued (view s') \<and> fv_effects (view s') = n
       \<and> (a = Inr () \<longrightarrow> key_holds (view s') rec)" by (auto simp: later_def)
next
  fix s c s' assume "Safe s" "ir_ClaimToken rec \<in> fv_issued (view s)" "fv_effects (view s) = n"
    "operation s = (Halt c, s')"
  with cas_step [OF op [OF this(4)]] h show "Safe s'" by auto
next
  fix s s' assume "Safe s" "ir_ClaimToken rec \<in> fv_issued (view s)" "fv_effects (view s) = n"
    "operation s = (OutOfFuel, s')"
  with cas_step [OF op [OF this(4)]] h show "Safe s'" by auto
qed

lemma keeps_owned: "keeps ttl invokedAt (\<lambda>v. safe ttl invokedAt v \<and> tok \<in> fv_issued v \<and> fv_effects v = n)"
  by (intro keeps_conj keeps_safe stable_conj stable_issued stable_effects)

lemma resolve_triple:
  assumes "ir_Step held = iv_Step (r_inv r)"
    and "status = ''success'' \<and> n = 1 \<or> status = ''error'' \<and> n = 0"
  shows "triple (\<lambda>s. safe ttl invokedAt (view s) \<and> ir_ClaimToken held \<in> fv_issued (view s) \<and> fv_effects (view s) = n)
    (resolve ctx r held result status res) (\<lambda>res s. truthful res (view s)) Safe"
  (is "triple ?I _ _ _")
  unfolding resolve_def
proof (rule calm_bind [OF calm_now keeps_owned], unfold Let_def)
  fix t
  let ?rec = "held\<lparr>ir_State := StateResolved, ir_ResolvedAt := Some (truncate_us t), ir_Result := Some result,
    ir_Status := Some status, ir_Resolution := Some res\<rparr>"
  have h: "honest n ?rec" using assms(2) by (auto simp: honest_def)
  have cas: "triple ?I (st_Resolve (g_store (r_g r)) c (r_key r) (ir_ClaimToken held) ?rec)
      (\<lambda>res s. case res of Inl _ \<Rightarrow> ?I s | Inr _ \<Rightarrow> ?I s) Safe" for c
  proof -
    have "cas_contract ttl ?rec (view s) z (view s')"
      if "st_Resolve (g_store (r_g r)) c (r_key r) (ir_ClaimToken held) ?rec s = (z, s')" for s z s'
      by (rule resolve_cas [OF _ that]) (simp add: assms(1))
    from cas_triple [OF this h] show ?thesis
      by (rule triple_conseq) (auto split: sum.splits)
  qed
  show "triple ?I (pbind (retry ctx r (\<lambda>c. st_Resolve (g_store (r_g r)) c (r_key r) (ir_ClaimToken held) ?rec))
      (\<lambda>x. pbind (case x of Inl err \<Rightarrow> log r ''resolve_failed'' (''err='' @ go_quote (err_msg err))
          | Inr _ \<Rightarrow> preturn ())
       (\<lambda>_. pbind (Crash_At (g_Crash (r_g r)) (tc_ToolName (r_tc r)) CrashAfterResolve)
       (\<lambda>_. preturn (Inr \<lparr>oc_Result = result, oc_Status = status, oc_Resolution = res\<rparr>)))))
    (\<lambda>res s. truthful res (view s)) Safe"
  proof (rule triple_bind [OF retry_triple [OF keeps_owned, where Q = "\<lambda>_ v. safe ttl invokedAt v
        \<and> ir_ClaimToken held \<in> fv_issued v \<and> fv_effects v = n", OF cas]])
    fix x :: "goerror + unit"
    have c: "calm_prog view (case x of Inl err \<Rightarrow> log r ''resolve_failed'' (''err='' @ go_quote (err_msg err))
          | Inr _ \<Rightarrow> preturn ())" by (cases x) (simp_all add: calm_log)
    have "triple ?I (pbind (case x of Inl err \<Rightarrow> log r ''resolve_failed'' (''err='' @ go_quote (err_msg err))
          | Inr _ \<Rightarrow> preturn ())
       (\<lambda>_. pbind (Crash_At (g_Crash (r_g r)) (tc_ToolName (r_tc r)) CrashAfterResolve)
       (\<lambda>_. preturn (Inr \<lparr>oc_Result = result, oc_Status = status, oc_Resolution = res\<rparr>))))
       (\<lambda>res s. truthful res (view s)) Safe"
      by (rule calm_bind [OF c keeps_owned], rule calm_bind [OF calm_prog_Crash keeps_owned], rule triple_return)
        (use assms(2) in \<open>auto simp: truthful_def\<close>)
    then show "triple (\<lambda>s. case x of Inl _ \<Rightarrow> ?I s | Inr _ \<Rightarrow> ?I s)
      (pbind (case x of Inl err \<Rightarrow> log r ''resolve_failed'' (''err='' @ go_quote (err_msg err))
          | Inr _ \<Rightarrow> preturn ())
       (\<lambda>_. pbind (Crash_At (g_Crash (r_g r)) (tc_ToolName (r_tc r)) CrashAfterResolve)
       (\<lambda>_. preturn (Inr \<lparr>oc_Result = result, oc_Status = status, oc_Resolution = res\<rparr>))))
       (\<lambda>res s. truthful res (view s)) Safe"
      by (cases x) simp_all
  qed
qed

text \<open>Ready to execute: we hold the claim and the effect has not happened.\<close>

definition ready :: "string \<Rightarrow> fview \<Rightarrow> bool" where
  "ready tok v \<longleftrightarrow> safe ttl invokedAt v \<and> claimed tok v \<and> fv_effects v = 0"

lemma keeps_ready: "keeps ttl invokedAt (ready tok)"
  unfolding ready_def by (intro keeps_conj keeps_safe stable_conj stable_claimed stable_effects)

lemma ready_owned: "ready tok v \<Longrightarrow> safe ttl invokedAt v \<and> tok \<in> fv_issued v \<and> fv_effects v = 0"
  by (auto simp: ready_def claimed_def safe_def)

lemma execute_triple:
  assumes "ir_Step held = iv_Step (r_inv r)"
  shows "triple (\<lambda>s. ready (ir_ClaimToken held) (view s)) (execute ctx r held res)
    (\<lambda>res s. truthful res (view s)) Safe"
  unfolding execute_def
proof (rule calm_bind [OF calm_prog_Crash keeps_ready], rule calm_bind [OF calm_WithTimeout keeps_ready])
  fix c
  let ?own = "\<lambda>n v. safe ttl invokedAt v \<and> ir_ClaimToken held \<in> fv_issued v \<and> fv_effects v = n"
  let ?ran = "\<lambda>x v. case x of Inr _ \<Rightarrow> ?own 1 v
    | Inl err \<Rightarrow> if errors_Is err SToolOutcomeUnknown then safe ttl invokedAt v else ?own 0 v"
  have run: "triple (\<lambda>s. ready (ir_ClaimToken held) (view s))
      (t_Execute (r_tool r) c (r_inv r) (tc_ToolArgs (r_tc r))) (\<lambda>x s. ?ran x (view s)) Safe"
  proof (rule tripleI)
    fix s x s' assume s: "ready (ir_ClaimToken held) (view s)"
      "t_Execute (r_tool r) c (r_inv r) (tc_ToolArgs (r_tc r)) s = (Done x, s')"
    note e = execute_step [OF tool [OF s(2)], of ttl invokedAt "ir_ClaimToken held"]
    have v: "Safe s" "claimed (ir_ClaimToken held) (view s)" "fv_effects (view s) = 0"
      using s(1) by (auto simp: ready_def)
    have "ir_ClaimToken held \<in> fv_issued (view s')"
      using ready_owned [OF s(1)] e(3) [OF v] by (auto simp: later_def)
    with e(1,4,5) [OF v] show "?ran x (view s')" by (auto split: sum.splits)
  next
    fix s n s' assume s: "ready (ir_ClaimToken held) (view s)"
      "t_Execute (r_tool r) c (r_inv r) (tc_ToolArgs (r_tc r)) s = (Halt n, s')"
    with execute_step(1) [OF tool [OF s(2)]] show "Safe s'" by (auto simp: ready_def)
  next
    fix s s' assume s: "ready (ir_ClaimToken held) (view s)"
      "t_Execute (r_tool r) c (r_inv r) (tc_ToolArgs (r_tc r)) s = (OutOfFuel, s')"
    with execute_step(1) [OF tool [OF s(2)]] show "Safe s'" by (auto simp: ready_def)
  qed
  let ?rest = "\<lambda>x b. if b then fail_with r ''outcome_unknown'' []
       (Errorws ErrOutcomeUnknown ('': key='' @ r_key r @ '' tool='' @ tc_ToolName (r_tc r)))
     else pbind (Crash_At (g_Crash (r_g r)) (tc_ToolName (r_tc r)) CrashAfterExecute) (\<lambda>_.
       case x of
         Inl execErr \<Rightarrow> resolve ctx r held (''error: '' @ err_msg execErr) ''error'' res
       | Inr result \<Rightarrow> resolve ctx r held result ''success'' res)"
  show "triple (\<lambda>s. ready (ir_ClaimToken held) (view s))
    (pbind (t_Execute (r_tool r) c (r_inv r) (tc_ToolArgs (r_tc r))) (\<lambda>x.
     pbind (case x of Inr _ \<Rightarrow> preturn False
       | Inl execErr \<Rightarrow> if errors_Is execErr SToolOutcomeUnknown then preturn True
           else pbind (rt_Err (g_rt (r_g r)) c) (\<lambda>e. preturn (isl e))) (\<lambda>b. ?rest x b)))
    (\<lambda>res s. truthful res (view s)) Safe"
  proof (rule triple_bind [OF run])
    fix x
    show "triple (\<lambda>s. ?ran x (view s)) (pbind (case x of Inr _ \<Rightarrow> preturn False
       | Inl execErr \<Rightarrow> if errors_Is execErr SToolOutcomeUnknown then preturn True
           else pbind (rt_Err (g_rt (r_g r)) c) (\<lambda>e. preturn (isl e))) (\<lambda>b. ?rest x b))
       (\<lambda>res s. truthful res (view s)) Safe"
    proof (cases x)
      case (Inr result)
      have "triple (\<lambda>s. ?own 1 (view s)) (?rest x False) (\<lambda>res s. truthful res (view s)) Safe"
        unfolding Inr if_False sum.case
        by (rule calm_bind [OF calm_prog_Crash keeps_owned], rule resolve_triple [OF assms]) simp
      then show ?thesis unfolding Inr sum.case pbind_preturn .
    next
      case (Inl err)
      have f: "triple Safe (?rest x True) (\<lambda>res s. truthful res (view s)) Safe"
        unfolding if_True by (rule fail_triple)
      have o: "triple (\<lambda>s. ?own 0 (view s)) (?rest x b) (\<lambda>res s. truthful res (view s)) Safe" for b
      proof (cases b)
        case True
        have "triple (\<lambda>s. ?own 0 (view s)) (?rest x True) (\<lambda>res s. truthful res (view s)) Safe"
          by (rule triple_pre [OF f]) simp
        with True show ?thesis by simp
      next
        case False
        have "triple (\<lambda>s. ?own 0 (view s)) (?rest x False) (\<lambda>res s. truthful res (view s)) Safe"
          unfolding Inl if_False sum.case
          by (rule calm_bind [OF calm_prog_Crash keeps_owned], rule resolve_triple [OF assms]) simp
        with False show ?thesis by simp
      qed
      show ?thesis
      proof (cases "errors_Is err SToolOutcomeUnknown")
        case True
        with f show ?thesis unfolding Inl by simp
      next
        case False
        have "triple (\<lambda>s. ?own 0 (view s)) (pbind (pbind (rt_Err (g_rt (r_g r)) c) (\<lambda>e. preturn (isl e)))
            (\<lambda>b. ?rest x b)) (\<lambda>res s. truthful res (view s)) Safe"
          unfolding pbind_assoc pbind_preturn by (rule calm_bind [OF calm_err keeps_owned o])
        with False show ?thesis unfolding Inl by simp
      qed
    qed
  qed
qed


text \<open>What a takeover gives: a claim of our own, with the effect count untouched.\<close>

definition taken :: "nat \<Rightarrow> (goerror + IdemRecord) \<Rightarrow> fview \<Rightarrow> bool" where
  "taken n res v \<longleftrightarrow> safe ttl invokedAt v \<and> (\<forall>h. res = Inr h \<longrightarrow> claimed (ir_ClaimToken h) v
     \<and> fv_effects v = n \<and> ir_Step h = iv_Step (r_inv r))"

lemma recheck_triple:
  assumes "ir_Step mine = iv_Step (r_inv r)"
  shows "triple (\<lambda>s. safe ttl invokedAt (view s) \<and> fv_effects (view s) = n) (recheckOwnTakeOver ctx r mine)
    (\<lambda>res s. taken n res (view s)) Safe"
proof -
  have k: "keeps ttl invokedAt (\<lambda>v. safe ttl invokedAt v \<and> fv_effects v = n)"
    by (intro keeps_conj keeps_safe stable_effects)
  show ?thesis
    unfolding recheckOwnTakeOver_def
    by (rule fenced_get_triple [OF k])
      (use assms in \<open>auto intro!: triple_return triple_if simp: taken_def claimed_def\<close>)
qed

lemma takeOver_triple:
  "triple (\<lambda>s. safe ttl invokedAt (view s) \<and> fv_effects (view s) = n) (takeOver ctx r old)
    (\<lambda>res s. taken n res (view s)) Safe"
proof -
  have k: "keeps ttl invokedAt (\<lambda>v. safe ttl invokedAt v \<and> fv_effects v = n)"
    by (intro keeps_conj keeps_safe stable_effects)
  have nr: "triple (\<lambda>s. safe ttl invokedAt (view s) \<and> fv_effects (view s) = n) (newRecord r)
      (\<lambda>mine s. (safe ttl invokedAt (view s) \<and> ir_ClaimToken mine \<in> fv_issued (view s) \<and> fv_effects (view s) = n)
        \<and> ir_State mine = StateClaimed \<and> ir_Step mine = iv_Step (r_inv r)) Safe"
    by (rule triple_conseq [OF triple_conj [OF newRecord_triple calm_triple [OF calm_newRecord k]]])
      (auto simp: fresh_claim_def)
  show ?thesis
    unfolding takeOver_def
  proof (rule triple_bind [OF nr])
    fix mine :: IdemRecord
    let ?I = "\<lambda>v. safe ttl invokedAt v \<and> ir_ClaimToken mine \<in> fv_issued v \<and> fv_effects v = n"
    show "triple (\<lambda>s. ?I (view s) \<and> ir_State mine = StateClaimed \<and> ir_Step mine = iv_Step (r_inv r))
      (pbind (retry ctx r (\<lambda>c. st_TakeOver (g_store (r_g r)) c (r_key r) (ir_ClaimToken old) mine)) (\<lambda>x.
       case x of
         Inl err \<Rightarrow> if errors_Is err SClaimLost then recheckOwnTakeOver ctx r mine
           else pbind (storeErr r err) (\<lambda>e. preturn (Inl e))
       | Inr _ \<Rightarrow> preturn (Inr mine))) (\<lambda>res s. taken n res (view s)) Safe"
    proof (rule triple_fact [where F = "ir_State mine = StateClaimed \<and> ir_Step mine = iv_Step (r_inv r)"])
      assume m: "ir_State mine = StateClaimed \<and> ir_Step mine = iv_Step (r_inv r)"
      have h: "honest n mine" using m by (simp add: honest_def)
      have op: "triple (\<lambda>s. ?I (view s)) (st_TakeOver (g_store (r_g r)) c (r_key r) (ir_ClaimToken old) mine)
          (\<lambda>res s. case res of Inl _ \<Rightarrow> ?I (view s)
             | Inr _ \<Rightarrow> ?I (view s) \<and> claimed (ir_ClaimToken mine) (view s)) Safe" for c
      proof -
        have "cas_contract ttl mine (view s) z (view s')"
          if "st_TakeOver (g_store (r_g r)) c (r_key r) (ir_ClaimToken old) mine s = (z, s')" for s z s'
          using takeOver_cas [OF _ that] m by blast
        from cas_triple [OF this h] show ?thesis
          by (rule triple_conseq) (use m in \<open>auto simp: claimed_def split: sum.splits\<close>)
      qed
      have "triple (\<lambda>s. ?I (view s))
        (pbind (retry ctx r (\<lambda>c. st_TakeOver (g_store (r_g r)) c (r_key r) (ir_ClaimToken old) mine)) (\<lambda>x.
         case x of
           Inl err \<Rightarrow> if errors_Is err SClaimLost then recheckOwnTakeOver ctx r mine
             else pbind (storeErr r err) (\<lambda>e. preturn (Inl e))
         | Inr _ \<Rightarrow> preturn (Inr mine))) (\<lambda>res s. taken n res (view s)) Safe"
      proof (rule triple_bind [OF retry_triple [OF keeps_owned, where Q = "\<lambda>_ v. ?I v \<and> claimed (ir_ClaimToken mine) v",
              OF op]])
        fix x :: "goerror + unit"
        have "triple (\<lambda>s. ?I (view s)) (if errors_Is err SClaimLost then recheckOwnTakeOver ctx r mine
             else pbind (storeErr r err) (\<lambda>e. preturn (Inl e))) (\<lambda>res s. taken n res (view s)) Safe" for err
        proof (rule triple_if)
          show "triple (\<lambda>s. ?I (view s)) (recheckOwnTakeOver ctx r mine) (\<lambda>res s. taken n res (view s)) Safe"
            by (rule triple_pre [OF recheck_triple [where n = n]]) (use m in simp_all)
          show "triple (\<lambda>s. ?I (view s)) (pbind (storeErr r err) (\<lambda>e. preturn (Inl e)))
              (\<lambda>res s. taken n res (view s)) Safe"
            by (rule calm_bind [OF calm_storeErr keeps_owned], rule triple_return) (simp add: taken_def)
        qed
        then show "triple (\<lambda>s. case x of Inl _ \<Rightarrow> ?I (view s) | Inr _ \<Rightarrow> ?I (view s) \<and> claimed (ir_ClaimToken mine) (view s))
          (case x of
             Inl err \<Rightarrow> if errors_Is err SClaimLost then recheckOwnTakeOver ctx r mine
               else pbind (storeErr r err) (\<lambda>e. preturn (Inl e))
           | Inr _ \<Rightarrow> preturn (Inr mine)) (\<lambda>res s. taken n res (view s)) Safe"
          using m by (cases x) (auto intro!: triple_return simp: taken_def)
      qed
      then show ?thesis by (rule triple_pre) simp
    qed simp
  qed
qed

lemma reconcile_triple:
  assumes "\<not> tover \<Longrightarrow> ir_Step held = iv_Step (r_inv r)"
  shows "triple (\<lambda>s. safe ttl invokedAt (view s) \<and> (\<not> tover \<longrightarrow> claimed (ir_ClaimToken held) (view s)))
    (reconcile ctx r held tover) (\<lambda>res s. truthful res (view s)) Safe"
proof (cases "t_Reconcile (r_tool r)")
  case None
  then show ?thesis by (auto simp: reconcile_def intro: triple_pre [OF fail_triple])
next
  case (Some rc)
  let ?I = "\<lambda>v. safe ttl invokedAt v \<and> (\<not> tover \<longrightarrow> claimed (ir_ClaimToken held) v)"
  let ?n = "\<lambda>rr. if rr_Applied rr then 1 else 0 :: nat"
  let ?Q = "\<lambda>rr v. ?I v \<and> fv_effects v = ?n rr"
  have k: "keeps ttl invokedAt ?I"
    using stable_claimed by (intro keeps_conj keeps_safe) (auto simp: stable_def)
  have kq: "keeps ttl invokedAt (?Q rr)" for rr
    by (rule keeps_conj [OF k stable_effects [where P = "\<lambda>n. n = ?n rr"]])
  have op: "triple (\<lambda>s. ?I (view s)) (rc c (r_inv r) (tc_ToolArgs (r_tc r)))
      (\<lambda>res s. case res of Inl _ \<Rightarrow> ?I (view s) | Inr rr \<Rightarrow> ?Q rr (view s)) Safe" for c
  proof (rule tripleI)
    fix s x s' assume s: "?I (view s)" "rc c (r_inv r) (tc_ToolArgs (r_tc r)) s = (Done x, s')"
    have c: "calm (view s) (view s')" "x = Inr rr \<Longrightarrow> rr_Applied rr \<longleftrightarrow> 0 < fv_effects (view s')" for rr
      using reconciler [OF Some s(2)] by (auto simp: reconcile_contract_def calm_def)
    have "?I (view s')" using k c(1) s(1) unfolding lasting_def stable_def by blast
    with c(2) show "case x of Inl _ \<Rightarrow> ?I (view s') | Inr rr \<Rightarrow> ?Q rr (view s')"
      by (auto simp: safe_def split: sum.splits)
  next
    fix s n s' assume s: "?I (view s)" "rc c (r_inv r) (tc_ToolArgs (r_tc r)) s = (Halt n, s')"
    have "calm (view s) (view s')" using reconciler [OF Some s(2)] by (simp add: reconcile_contract_def)
    with s(1) k show "Safe s'" unfolding lasting_def stable_def by blast
  next
    fix s s' assume s: "?I (view s)" "rc c (r_inv r) (tc_ToolArgs (r_tc r)) s = (OutOfFuel, s')"
    have "calm (view s) (view s')" using reconciler [OF Some s(2)] by (simp add: reconcile_contract_def)
    with s(1) k show "Safe s'" unfolding lasting_def stable_def by blast
  qed
  have own: "triple (\<lambda>s. ?Q rr (view s)) (if tover then takeOver ctx r held else preturn (Inr held))
      (\<lambda>res s. taken (?n rr) res (view s)) Safe" for rr
  proof (cases tover)
    case True
    then show ?thesis using triple_pre [OF takeOver_triple [of "?n rr"]] by simp
  next
    case False
    with assms show ?thesis by (auto intro!: triple_return simp: taken_def)
  qed
  have go: "triple (\<lambda>s. taken (?n rr) (Inr h) (view s))
      (if rr_Applied rr
       then pbind (log r ''reconciled_found'' []) (\<lambda>_.
         resolve ctx r h (rr_Result rr) ''success'' ResolutionReconciled)
       else pbind (log r ''reconciled_not_found'' []) (\<lambda>_. execute ctx r h ResolutionReexecuted))
      (\<lambda>res s. truthful res (view s)) Safe" for rr h
  proof (rule triple_fact [where F = "ir_Step h = iv_Step (r_inv r)"])
    assume st: "ir_Step h = iv_Step (r_inv r)"
    show ?thesis
    proof (cases "rr_Applied rr")
      case True
      have "triple (\<lambda>s. safe ttl invokedAt (view s) \<and> ir_ClaimToken h \<in> fv_issued (view s) \<and> fv_effects (view s) = 1)
          (pbind (log r ''reconciled_found'' []) (\<lambda>_.
           resolve ctx r h (rr_Result rr) ''success'' ResolutionReconciled)) (\<lambda>res s. truthful res (view s)) Safe"
        by (rule calm_bind [OF calm_log keeps_owned], rule resolve_triple [OF st]) simp
      then have "triple (\<lambda>s. taken (?n rr) (Inr h) (view s)) (pbind (log r ''reconciled_found'' []) (\<lambda>_.
           resolve ctx r h (rr_Result rr) ''success'' ResolutionReconciled)) (\<lambda>res s. truthful res (view s)) Safe"
        by (rule triple_pre) (auto simp: taken_def True claimed_def safe_def)
      with True show ?thesis by simp
    next
      case False
      have "triple (\<lambda>s. ready (ir_ClaimToken h) (view s)) (pbind (log r ''reconciled_not_found'' []) (\<lambda>_.
           execute ctx r h ResolutionReexecuted)) (\<lambda>res s. truthful res (view s)) Safe"
        by (rule calm_bind [OF calm_log keeps_ready], rule execute_triple [OF st])
      then have "triple (\<lambda>s. taken (?n rr) (Inr h) (view s)) (pbind (log r ''reconciled_not_found'' []) (\<lambda>_.
           execute ctx r h ResolutionReexecuted)) (\<lambda>res s. truthful res (view s)) Safe"
        by (rule triple_pre) (simp add: taken_def False ready_def)
      with False show ?thesis by simp
    qed
  qed (simp add: taken_def)
  have "triple (\<lambda>s. ?I (view s)) (fenced ctx r (\<lambda>c. rc c (r_inv r) (tc_ToolArgs (r_tc r))) (\<lambda>rr.
       pbindE (if tover then takeOver ctx r held else preturn (Inr held)) (\<lambda>held.
       if rr_Applied rr
       then pbind (log r ''reconciled_found'' []) (\<lambda>_.
         resolve ctx r held (rr_Result rr) ''success'' ResolutionReconciled)
       else pbind (log r ''reconciled_not_found'' []) (\<lambda>_. execute ctx r held ResolutionReexecuted))))
      (\<lambda>res s. truthful res (view s)) Safe"
    by (rule fenced_triple [OF k op], simp, rule triple_bindE [OF own _ go]) (simp add: taken_def)
  then show ?thesis unfolding reconcile_def Some option.case .
qed


lemma not_late:
  assumes "g_Now (r_g r) s = (Done t, s')"
    and "\<not> time_Sub t invokedAt \<ge> wrap64 (ttl - ExpiryMargin)"
  shows "\<not> late ttl invokedAt (view s)"
proof -
  have "in64 (ttl - ExpiryMargin)"
    using ttl_range by (simp add: in64_def min64_def max64_def ExpiryMargin_def Minute_def)
  then have w: "wrap64 (ttl - ExpiryMargin) = ttl - ExpiryMargin" by (rule wrap64_id)
  have "sat64 (t - invokedAt) < ttl - ExpiryMargin" using assms(2) w by (simp add: time_Sub_def)
  moreover have "ttl - ExpiryMargin \<le> max64" using ttl_range by (simp add: ExpiryMargin_def Minute_def)
  ultimately have "t - invokedAt < ttl - ExpiryMargin"
    using ttl_range by (auto simp: sat64_def min64_def ExpiryMargin_def Minute_def split: if_splits)
  with now_value [OF assms(1)] show ?thesis by (simp add: late_def)
qed

lemma keeps_claimed: "keeps ttl invokedAt (\<lambda>v. fresh_claim ttl invokedAt tok v \<and> claimed tok v)"
  by (intro keeps_conj keeps_fresh_claim stable_claimed)

lemma expired_triple:
  "triple (\<lambda>s. fresh_claim ttl invokedAt tok (view s) \<and> claimed tok (view s)) (keyMayHaveExpired r)
    (\<lambda>expired s. (safe ttl invokedAt (view s) \<and> claimed tok (view s))
       \<and> (\<not> expired \<longrightarrow> ready tok (view s))) Safe"
proof (rule tripleI)
  let ?A = "\<lambda>s. fresh_claim ttl invokedAt tok (view s) \<and> claimed tok (view s)"
  have calm: "calm_prog view (keyMayHaveExpired r)" by (simp add: keyMayHaveExpired_def calm_prog_bind calm_now)
  note c = calm_triple [OF calm keeps_claimed]
  {
    fix s b s' assume s: "?A s" "keyMayHaveExpired r s = (Done b, s')"
    from triple_DoneD [OF c s] have A: "?A s'" .
    have ef: "fv_effects (view s') = fv_effects (view s)"
      using calm s(2) unfolding calm_prog_def by (metis calm_def snd_conv)
    obtain t u where t: "g_Now (r_g r) s = (Done t, u)"
      "b = (time_Sub t invokedAt \<ge> wrap64 (ttl - ExpiryMargin))"
      using pbind_eq_DoneD [OF s(2) [unfolded keyMayHaveExpired_def]] by auto
    have "fv_effects (view s') = 0" if "\<not> b"
    proof -
      have "\<not> late ttl invokedAt (view s)" using not_late [OF t(1)] t(2) that by simp
      with s(1) ef show ?thesis by (auto simp: fresh_claim_def claimed_def)
    qed
    with A show "(safe ttl invokedAt (view s') \<and> claimed tok (view s')) \<and> (\<not> b \<longrightarrow> ready tok (view s'))"
      by (auto simp: fresh_claim_def ready_def)
  next
    fix s n s' assume "?A s" "keyMayHaveExpired r s = (Halt n, s')"
    with triple_HaltD [OF c] show "Safe s'" by blast
  next
    fix s s' assume "?A s" "keyMayHaveExpired r s = (OutOfFuel, s')"
    with triple_FuelD [OF c] show "Safe s'" by blast
  }
qed

lemma acquired_triple:
  assumes "ir_Step mine = iv_Step (r_inv r)"
  shows "triple (\<lambda>s. fresh_claim ttl invokedAt (ir_ClaimToken mine) (view s) \<and> claimed (ir_ClaimToken mine) (view s))
    (acquired ctx r mine) (\<lambda>res s. truthful res (view s)) Safe"
  unfolding acquired_def
proof (rule triple_bind [OF expired_triple], rule triple_if)
  fix b :: bool
  assume b: b
  show "triple (\<lambda>s. (safe ttl invokedAt (view s) \<and> claimed (ir_ClaimToken mine) (view s))
      \<and> (\<not> b \<longrightarrow> ready (ir_ClaimToken mine) (view s))) (reconcile ctx r mine False)
      (\<lambda>res s. truthful res (view s)) Safe"
    by (rule triple_pre [OF reconcile_triple [where tover = False, OF assms]]) simp
next
  fix b :: bool
  assume b: "\<not> b"
  have "triple (\<lambda>s. ready (ir_ClaimToken mine) (view s)) (pbind (log r ''acquired'' [])
      (\<lambda>_. execute ctx r mine ResolutionExecuted)) (\<lambda>res s. truthful res (view s)) Safe"
    by (rule calm_bind [OF calm_log keeps_ready], rule execute_triple [OF assms])
  then show "triple (\<lambda>s. (safe ttl invokedAt (view s) \<and> claimed (ir_ClaimToken mine) (view s))
      \<and> (\<not> b \<longrightarrow> ready (ir_ClaimToken mine) (view s)))
      (pbind (log r ''acquired'' []) (\<lambda>_. execute ctx r mine ResolutionExecuted))
      (\<lambda>res s. truthful res (view s)) Safe"
    by (rule triple_pre) (use b in simp)
qed

lemma keeps_held: "keeps ttl invokedAt (\<lambda>v. safe ttl invokedAt v \<and> key_holds v rec)"
  by (intro keeps_conj keeps_safe stable_key_holds)

lemma cacheHit_triple:
  assumes "ir_State rec = StateResolved"
  shows "triple (\<lambda>s. safe ttl invokedAt (view s) \<and> key_holds (view s) rec) (cacheHit r rec)
    (\<lambda>res s. truthful res (view s)) Safe"
proof (cases "ir_Result rec = None \<or> ir_Status rec = None")
  case True
  then show ?thesis
    by (cases "ir_Result rec"; cases "ir_Status rec")
      (auto simp: cacheHit_def intro: triple_pre [OF fail_triple])
next
  case False
  then obtain result status where rs: "ir_Result rec = Some result" "ir_Status rec = Some status" by auto
  show ?thesis
    unfolding cacheHit_def rs
    by (simp, rule calm_bind [OF calm_log keeps_held], rule triple_return)
      (use assms rs in \<open>auto simp: truthful_def safe_def honest_def\<close>)
qed

lemma verify_triple:
  "keeps ttl invokedAt I \<Longrightarrow> (\<And>e s. I (view s) \<Longrightarrow> Post (Inl e) s)
    \<Longrightarrow> triple (\<lambda>s. I (view s)) m Post Safe
    \<Longrightarrow> triple (\<lambda>s. I (view s)) (pbindE (verify r rec) (\<lambda>_. m)) Post Safe"
  by (rule triple_bindE [OF calm_triple [OF calm_verify]]) auto

definition settled :: "(goerror + IdemRecord) \<Rightarrow> fview \<Rightarrow> bool" where
  "settled res v \<longleftrightarrow> safe ttl invokedAt v \<and> (\<forall>rec. res = Inr rec \<longrightarrow> key_holds v rec)"

lemma wait_triple:
  "triple (\<lambda>s. safe ttl invokedAt (view s) \<and> key_holds (view s) cur)
    (waitUntilSettled fuel ctx r cur lastLog) (\<lambda>res s. settled res (view s)) Safe"
proof (induction fuel arbitrary: cur lastLog)
  case 0
  show ?case unfolding waitUntilSettled.simps by (rule triple_stuck) simp
next
  case (Suc fuel)
  let ?P = "\<lambda>cur s. safe ttl invokedAt (view s) \<and> key_holds (view s) cur"
  have stop: "triple (?P cur) (preturn (Inr cur)) (\<lambda>res s. settled res (view s)) Safe" for cur
    by (rule triple_return) (simp add: settled_def)
  have got: "triple (?P rec) (pbindE (verify r rec) (\<lambda>_.
         if ir_State rec = StateResolved then preturn (Inr rec) else waitUntilSettled fuel ctx r rec l))
       (\<lambda>res s. settled res (view s)) Safe" for rec l
    by (rule verify_triple [OF keeps_held], simp add: settled_def, rule triple_if, rule stop, rule Suc.IH)
  have restart: "triple Safe (preturn (Inl errRestart)) (\<lambda>res s. settled res (view s)) Safe"
    by (rule triple_return) (simp add: settled_def)
  have poll: "triple Safe (fenced ctx r (\<lambda>c. st_Get (g_store (r_g r)) c (r_key r)) (\<lambda>nxt. case nxt of
         None \<Rightarrow> preturn (Inl errRestart)
       | Some rec \<Rightarrow> pbindE (verify r rec) (\<lambda>_.
           if ir_State rec = StateResolved then preturn (Inr rec) else waitUntilSettled fuel ctx r rec l)))
       (\<lambda>res s. settled res (view s)) Safe" for l
    by (rule fenced_get_triple [OF keeps_safe], simp add: settled_def, unfold option.case, rule restart, rule got)
  have failed: "triple Safe (fail_with r d e err) (\<lambda>res s. settled res (view s)) Safe" for d e err
    unfolding fail_with_def
    by (rule calm_bind [OF calm_log keeps_safe], rule triple_return) (simp add: settled_def)
  have sleep: "triple (?P cur) (pbind (g_Sleep (r_g r) ctx pollInterval) (\<lambda>slept. case slept of
       Inl err \<Rightarrow> fail_with r ''fence_unavailable'' ''reason=wait_interrupted''
         (Errorws ErrFenceUnavailable ('': waiting for claim: '' @ err_msg err))
     | Inr _ \<Rightarrow> fenced ctx r (\<lambda>c. st_Get (g_store (r_g r)) c (r_key r)) (\<lambda>nxt. case nxt of
         None \<Rightarrow> preturn (Inl errRestart)
       | Some rec \<Rightarrow> pbindE (verify r rec) (\<lambda>_.
           if ir_State rec = StateResolved then preturn (Inr rec) else waitUntilSettled fuel ctx r rec l))))
       (\<lambda>res s. settled res (view s)) Safe" for l
    by (rule calm_bind [OF calm_sleep keeps_held])
      (auto intro: triple_pre [OF poll] triple_pre [OF failed] split: sum.splits)
  have c: "calm_prog view (if due then log r ''waiting'' x else preturn ())" for due x
    by (simp add: calm_log)
  show ?case
    unfolding waitUntilSettled.simps Let_def
    by (rule calm_bind [OF calm_isStale keeps_held], rule triple_if, rule stop,
        rule calm_bind [OF calm_now keeps_held], rule calm_bind [OF c keeps_held], rule sleep)
qed

lemma existing_triple:
  assumes "ir_Step mine = iv_Step (r_inv r)"
  shows "triple (\<lambda>s. fresh_claim ttl invokedAt (ir_ClaimToken mine) (view s) \<and> key_holds (view s) ex)
    (existing fuel ctx r mine ex) (\<lambda>res s. truthful res (view s)) Safe"
proof (cases "ir_State ex = StateClaimed \<and> ir_ClaimToken ex = ir_ClaimToken mine")
  case True
  then show ?thesis
    unfolding existing_def
    by (simp, intro triple_pre [OF acquired_triple [OF assms]]) (auto simp: claimed_def)
next
  case False
  have after: "triple (\<lambda>s. safe ttl invokedAt (view s) \<and> key_holds (view s) rec)
      (if ir_State rec = StateResolved then cacheHit r rec else reconcile ctx r rec True)
      (\<lambda>res s. truthful res (view s)) Safe" for rec
    by (rule triple_if, erule cacheHit_triple)
      (intro triple_pre [OF reconcile_triple [where tover = True]], simp_all)
  have wait: "triple (\<lambda>s. safe ttl invokedAt (view s) \<and> key_holds (view s) ex)
      (pbindE (waitUntilSettled fuel ctx r ex zero_time) (\<lambda>rec.
         if ir_State rec = StateResolved then cacheHit r rec else reconcile ctx r rec True))
      (\<lambda>res s. truthful res (view s)) Safe"
    by (rule triple_bindE [OF wait_triple], simp add: settled_def, rule triple_pre [OF after])
      (simp add: settled_def)
  have "triple (\<lambda>s. safe ttl invokedAt (view s) \<and> key_holds (view s) ex) (existing fuel ctx r mine ex)
      (\<lambda>res s. truthful res (view s)) Safe"
    unfolding existing_def if_not_P [OF False]
    by (rule verify_triple [OF keeps_held], simp, rule triple_if, erule cacheHit_triple, rule wait)
  then show ?thesis by (rule triple_pre) (simp add: fresh_claim_def)
qed

lemma attempt_triple: "triple Safe (attempt fuel ctx r) (\<lambda>res s. truthful res (view s)) Safe"
  unfolding attempt_def
proof (rule triple_bind [OF newRecord_triple])
  fix mine :: IdemRecord
  let ?I = "fresh_claim ttl invokedAt (ir_ClaimToken mine)"
  let ?Q = "\<lambda>cr v. ?I v \<and> (cr_Acquired cr \<longrightarrow> claimed (ir_ClaimToken mine) v)
    \<and> (\<forall>ex. \<not> cr_Acquired cr \<longrightarrow> cr_Existing cr = Some ex \<longrightarrow> key_holds v ex)"
  let ?k = "\<lambda>res. if cr_Acquired res then acquired ctx r mine
       else (case cr_Existing res of
         None \<Rightarrow> fail_with r ''fence_unavailable'' ''reason=claim_neither_acquired_nor_existing''
           (Errorws ErrFenceUnavailable
             '': store returned neither an acquired claim nor an existing record'')
       | Some ex \<Rightarrow> existing fuel ctx r mine ex)"
  show "triple (\<lambda>s. ?I (view s) \<and> (\<forall>old. key_holds (view s) old \<longrightarrow> ir_ClaimToken old \<noteq> ir_ClaimToken mine)
      \<and> ir_State mine = StateClaimed \<and> ir_Step mine = iv_Step (r_inv r))
    (fenced ctx r (\<lambda>c. st_Claim (g_store (r_g r)) c (r_key r) mine) ?k) (\<lambda>res s. truthful res (view s)) Safe"
  proof (rule triple_fact [where F = "ir_State mine = StateClaimed \<and> ir_Step mine = iv_Step (r_inv r)"])
    assume m: "ir_State mine = StateClaimed \<and> ir_Step mine = iv_Step (r_inv r)"
    have op: "triple (\<lambda>s. ?I (view s)) (st_Claim (g_store (r_g r)) c (r_key r) mine)
        (\<lambda>res s. case res of Inl _ \<Rightarrow> ?I (view s) | Inr cr \<Rightarrow> ?Q cr (view s)) Safe" for c
    proof (rule tripleI)
      fix s x s' assume s: "?I (view s)" "st_Claim (g_store (r_g r)) c (r_key r) mine s = (Done x, s')"
      have cl: "claim_contract ttl mine (view s) (Done x) (view s')" using claim [OF _ s(2)] m by blast
      note st = claim_step [OF cl s(1)]
      show "case x of Inl _ \<Rightarrow> ?I (view s') | Inr cr \<Rightarrow> ?Q cr (view s')"
        using st m by (auto split: sum.splits)
    next
      fix s n s' assume s: "?I (view s)" "st_Claim (g_store (r_g r)) c (r_key r) mine s = (Halt n, s')"
      have "claim_contract ttl mine (view s) (Halt n) (view s')" using claim [OF _ s(2)] m by blast
      from claim_step(1) [OF this s(1)] m show "Safe s'" by (simp add: fresh_claim_def)
    next
      fix s s' assume s: "?I (view s)" "st_Claim (g_store (r_g r)) c (r_key r) mine s = (OutOfFuel, s')"
      have "claim_contract ttl mine (view s) OutOfFuel (view s')" using claim [OF _ s(2)] m by blast
      from claim_step(1) [OF this s(1)] m show "Safe s'" by (simp add: fresh_claim_def)
    qed
    have k: "triple (\<lambda>s. ?Q cr (view s)) (?k cr) (\<lambda>res s. truthful res (view s)) Safe" for cr
    proof (rule triple_if)
      assume "cr_Acquired cr"
      then show "triple (\<lambda>s. ?Q cr (view s)) (acquired ctx r mine) (\<lambda>res s. truthful res (view s)) Safe"
        using m by (intro triple_pre [OF acquired_triple]) auto
    next
      assume na: "\<not> cr_Acquired cr"
      show "triple (\<lambda>s. ?Q cr (view s)) (case cr_Existing cr of
         None \<Rightarrow> fail_with r ''fence_unavailable'' ''reason=claim_neither_acquired_nor_existing''
           (Errorws ErrFenceUnavailable
             '': store returned neither an acquired claim nor an existing record'')
       | Some ex \<Rightarrow> existing fuel ctx r mine ex) (\<lambda>res s. truthful res (view s)) Safe"
      proof (rule triple_option)
        show "triple (\<lambda>s. ?Q cr (view s)) (fail_with r ''fence_unavailable'' ''reason=claim_neither_acquired_nor_existing''
           (Errorws ErrFenceUnavailable
             '': store returned neither an acquired claim nor an existing record''))
           (\<lambda>res s. truthful res (view s)) Safe"
          by (rule triple_pre [OF fail_triple]) (simp add: fresh_claim_def)
        fix ex assume "cr_Existing cr = Some ex"
        then show "triple (\<lambda>s. ?Q cr (view s)) (existing fuel ctx r mine ex) (\<lambda>res s. truthful res (view s)) Safe"
          using m na by (intro triple_pre [OF existing_triple]) auto
      qed
    qed
    have "triple (\<lambda>s. ?I (view s)) (fenced ctx r (\<lambda>c. st_Claim (g_store (r_g r)) c (r_key r) mine) ?k)
        (\<lambda>res s. truthful res (view s)) Safe"
      by (rule fenced_triple [OF keeps_fresh_claim, where Q = ?Q, OF op _ k]) (simp add: fresh_claim_def)
    then show ?thesis by (rule triple_pre) simp
  qed simp
qed

lemma race_triple: "triple Safe (race_loop n fuel ctx r) (\<lambda>res s. truthful res (view s)) Safe"
proof (induction n)
  case 0
  show ?case by (simp add: fail_triple)
next
  case (Suc n)
  show ?case
    unfolding race_loop.simps
  proof (rule triple_bind [OF attempt_triple])
    fix out
    show "triple (\<lambda>s. truthful out (view s)) (case out of
        Inl err \<Rightarrow> if errors_Is err SRestart then race_loop n fuel ctx r else preturn (Inl err)
      | Inr oc \<Rightarrow> preturn (Inr oc)) (\<lambda>res s. truthful res (view s)) Safe"
      by (cases out) (auto intro: triple_return Suc.IH)
  qed
qed

text \<open>The guard as the loop calls it.\<close>

lemma Guard_Run_triple:
  assumes "iv_IdempotencyKey (r_inv r) = Some (r_key r)"
    and "ArgsHash (tc_ToolName (r_tc r)) (tc_ToolArgs (r_tc r)) = Inr (r_argsHash r)"
  shows "triple Safe (Guard_Run fuel (r_g r) ctx (r_inv r) (r_tc r) (r_tool r))
    (\<lambda>res s. truthful res (view s)) Safe"
proof -
  have r: "\<lparr>r_g = r_g r, r_inv = r_inv r, r_tc = r_tc r, r_tool = r_tool r, r_key = r_key r,
      r_argsHash = r_argsHash r\<rparr> = r" by simp
  show ?thesis unfolding Guard_Run_def assms option.case sum.case r by (rule race_triple)
qed

end

end
