(* ===== verification/Fold.thy ===== *)
theory Fold
  imports Run_State
begin

text \<open>
  \<open>internal/replay\<close>, \<open>fold.go\<close> and \<open>replay.go\<close>: \<open>Apply\<close> folds one event onto a state, \<open>Fold\<close> a whole
  log. \<open>Apply\<close> copies the state before it changes anything; here states are values, which is right because
  the copy is deep (\<open>State_Heap\<close>), and \<open>Inl\<close> stands for the error together with the caller's unchanged state.
\<close>

section \<open>Definitions\<close>

definition isEmpty :: "RunState \<Rightarrow> bool" where
  "isEmpty s \<longleftrightarrow> length (s_seen s) = 0"

fun isTerminalStatus :: "RunStatus \<Rightarrow> bool" where
  "isTerminalStatus StatusCompleted = True"
| "isTerminalStatus StatusFailed = True"
| "isTerminalStatus StatusCancelled = True"
| "isTerminalStatus _ = False"

definition contains :: "string list \<Rightarrow> string \<Rightarrow> bool" where
  "contains tids tid \<longleftrightarrow> tid \<in> set tids"

definition allResulted :: "stepRecord \<Rightarrow> bool" where
  "allResulted step \<longleftrightarrow> list_all (\<lambda>tid. map_of (sr_results step) tid \<noteq> None) (sr_order step)"

text \<open>Replacing the last step, as a write through the pointer \<open>&next.steps[len-1]\<close> does.\<close>

definition set_last_step :: "RunState \<Rightarrow> stepRecord \<Rightarrow> RunState" where
  "set_last_step s step = s\<lparr>s_steps := butlast (s_steps s) @ [step]\<rparr>"

text \<open>\<open>runStartedInput\<close> is a struct of one string, decoded to that string.\<close>

definition runStartedInput_fields :: "string field list" where
  "runStartedInput_fields = [(''prompt'', dec_string (\<lambda>x _. x))]"

definition applyRunStarted :: "RunState \<Rightarrow> RunStartedPayload \<Rightarrow> goerror + RunState" where
  "applyRunStarted s p =
     (case Unmarshal runStartedInput_fields (rs_Input p) [] of
        Inl err \<Rightarrow> Inl (Errorw ''decoding RunStarted input: '' err)
      | Inr prompt \<Rightarrow> Inr (s\<lparr>s_Status := StatusRunning, s_CurrentStep := 0,
          s_MaxSteps := rs_MaxSteps p, s_prompt := prompt\<rparr>))"

fun tool_use_ids :: "content_block list \<Rightarrow> string list" where
  "tool_use_ids [] = []"
| "tool_use_ids (ToolUseBlock tid name input # bs) = tid # tool_use_ids bs"
| "tool_use_ids (_ # bs) = tool_use_ids bs"

definition applyLLMResponded ::
  "block_decoder \<Rightarrow> RunState \<Rightarrow> LLMRespondedPayload \<Rightarrow> goerror + RunState" where
  "applyLLMResponded blocks s p =
     (if s_steps s \<noteq> [] \<and> sr_order (last (s_steps s)) \<noteq> [] \<and> \<not> allResulted (last (s_steps s))
      then Inl ErrToolOrder
      else (case blocks (lr_Content p) of
        Inl err \<Rightarrow> Inl (Errorw ''decoding LLMResponded content: '' err)
      | Inr content \<Rightarrow>
          let step = \<lparr>sr_content = content, sr_isTerminal = lr_IsTerminal p,
                sr_stopReason = lr_StopReason p, sr_invoked = [], sr_order = tool_use_ids content,
                sr_invokedOrder = [], sr_results = []\<rparr>
          in Inr (s\<lparr>s_CurrentStep := lr_Step p, s_steps := s_steps s @ [step]\<rparr>)))"

definition currentStepFor :: "RunState \<Rightarrow> string \<Rightarrow> goerror + stepRecord" where
  "currentStepFor s toolUseID =
     (if s_steps s = [] then Inl ErrUnknownToolUseID
      else if \<not> contains (sr_order (last (s_steps s))) toolUseID then Inl ErrUnknownToolUseID
      else Inr (last (s_steps s)))"

definition applyToolInvoked :: "RunState \<Rightarrow> ToolInvokedPayload \<Rightarrow> gotime \<Rightarrow> goerror + RunState" where
  "applyToolInvoked s p occurredAt = (case currentStepFor s (ti_ToolUseID p) of
     Inl err \<Rightarrow> Inl err
   | Inr step \<Rightarrow>
       if contains (sr_invokedOrder step) (ti_ToolUseID p) then Inl ErrToolOrder
       else Inr (set_last_step s (step\<lparr>
         sr_invokedOrder := sr_invokedOrder step @ [ti_ToolUseID p],
         sr_invoked := AList.update (ti_ToolUseID p)
           \<lparr>in_hasSideEffect = ti_HasSideEffect p, in_idempotencyKey = ti_IdempotencyKey p,
            in_invokedAt = occurredAt\<rparr> (sr_invoked step)\<rparr>)))"

definition applyToolResulted :: "RunState \<Rightarrow> ToolResultedPayload \<Rightarrow> goerror + RunState" where
  "applyToolResulted s p = (case currentStepFor s (tr_ToolUseID p) of
     Inl err \<Rightarrow> Inl err
   | Inr step \<Rightarrow>
       if \<not> contains (sr_invokedOrder step) (tr_ToolUseID p) then Inl ErrToolOrder
       else if map_of (sr_results step) (tr_ToolUseID p) \<noteq> None then Inl ErrToolOrder
       else Inr (set_last_step s (step\<lparr>
         sr_results := AList.update (tr_ToolUseID p) p (sr_results step)\<rparr>)))"

primrec applyPayload ::
  "block_decoder \<Rightarrow> RunState \<Rightarrow> Payload \<Rightarrow> gotime \<Rightarrow> goerror + RunState" where
  "applyPayload blocks s (PRunStarted p) = (\<lambda>occurredAt. applyRunStarted s p)"
| "applyPayload blocks s (PLLMResponded p) = (\<lambda>occurredAt. applyLLMResponded blocks s p)"
| "applyPayload blocks s (PToolInvoked p) = (\<lambda>occurredAt. applyToolInvoked s p occurredAt)"
| "applyPayload blocks s (PToolResulted p) = (\<lambda>occurredAt. applyToolResulted s p)"
| "applyPayload blocks s (PAwaitingApproval p) =
     (\<lambda>occurredAt. Inr (s\<lparr>s_Status := StatusAwaitingApproval\<rparr>))"
| "applyPayload blocks s (PRunApproved p) = (\<lambda>occurredAt. Inr (s\<lparr>s_Status := StatusRunning\<rparr>))"
| "applyPayload blocks s (PRunCompleted p) =
     (\<lambda>occurredAt. Inr (s\<lparr>s_Status := StatusCompleted, s_FinalOutput := rc_FinalOutput p\<rparr>))"
| "applyPayload blocks s (PRunFailed p) =
     (\<lambda>occurredAt. Inr (s\<lparr>s_Status := StatusFailed, s_Failure := Some p\<rparr>))"
| "applyPayload blocks s (PRunCancelled p) =
     (\<lambda>occurredAt. Inr (s\<lparr>s_Status := StatusCancelled\<rparr>))"

fun toolCallFromContent :: "content_block list \<Rightarrow> string \<Rightarrow> ToolCall option" where
  "toolCallFromContent [] toolUseID = None"
| "toolCallFromContent (b # bs) toolUseID = (case b of
     ToolUseBlock tid name input \<Rightarrow>
       if tid \<noteq> toolUseID then toolCallFromContent bs toolUseID
       else Some \<lparr>tc_ToolUseID = tid, tc_ToolName = name, tc_ToolArgs = input,
         tc_HasSideEffect = False, tc_IdempotencyKey = None, tc_InvokedAt = zero_time\<rparr>
   | _ \<Rightarrow> toolCallFromContent bs toolUseID)"

text \<open>The loop of \<open>deriveToolState\<close> over the tool uses of the last step.\<close>

fun derive_loop :: "stepRecord \<Rightarrow> string list \<Rightarrow> RunState \<Rightarrow> RunState" where
  "derive_loop step [] s = s"
| "derive_loop step (tid # tids) s = derive_loop step tids
     (if map_of (sr_results step) tid \<noteq> None then s
      else (case toolCallFromContent (sr_content step) tid of
        None \<Rightarrow> s
      | Some tc \<Rightarrow>
          if contains (sr_invokedOrder step) tid
          then (if s_InFlightTool s = None
            then (let inv = (case map_of (sr_invoked step) tid of None \<Rightarrow> invocation_zero | Some i \<Rightarrow> i)
                  in s\<lparr>s_InFlightTool := Some (tc\<lparr>tc_HasSideEffect := in_hasSideEffect inv,
                       tc_IdempotencyKey := in_idempotencyKey inv,
                       tc_InvokedAt := in_invokedAt inv\<rparr>)\<rparr>)
            else s)
          else s\<lparr>s_PendingToolCalls := s_PendingToolCalls s @ [tc]\<rparr>))"

definition deriveToolState :: "RunState \<Rightarrow> RunState" where
  "deriveToolState s = (let s' = s\<lparr>s_PendingToolCalls := [], s_InFlightTool := None\<rparr> in
     if s_steps s' = [] then s'
     else derive_loop (last (s_steps s')) (sr_order (last (s_steps s'))) s')"

definition computeNextAction :: "RunState \<Rightarrow> NextAction" where
  "computeNextAction s =
     (if isTerminalStatus (s_Status s) then ActionNone
      else if s_Status s = StatusAwaitingApproval then ActionNone
      else if s_steps s = [] then ActionCallLLM
      else if s_InFlightTool s \<noteq> None then ActionResolveInFlightTool
      else if sr_isTerminal (last (s_steps s)) then ActionFinishRun
      else if length (s_PendingToolCalls s) > 0 then ActionExecuteTool
      else if length (sr_order (last (s_steps s))) = 0 then ActionFinishRun
      else if s_CurrentStep s < s_MaxSteps s then ActionCallLLM
      else ActionFailMaxSteps)"

definition Apply :: "block_decoder \<Rightarrow> RunState \<Rightarrow> Envelope \<Rightarrow> goerror + RunState" where
  "Apply blocks s e = (let seq = SequenceNumber e in
     case map_of (s_seen s) seq of
       Some existingID \<Rightarrow>
         if existingID = EventID e then Inr s else Inl (wrapSeq seq ErrConflictingEvent)
     | None \<Rightarrow>
       if isEmpty s \<and> (seq \<noteq> 0 \<or> EventType_of e \<noteq> EventRunStarted)
         then Inl (wrapSeq seq ErrFirstEventNotStart)
       else if \<not> isEmpty s \<and> RunID e \<noteq> s_RunID s then Inl (wrapSeq seq ErrRunIDMismatch)
       else if \<not> isEmpty s \<and> isTerminalStatus (s_Status s) then Inl (wrapSeq seq ErrEventAfterTerminal)
       else if \<not> isEmpty s \<and> seq \<noteq> s_NextSequence s then Inl (wrapSeq seq ErrSequenceGap)
       else (case DecodePayload e of
         Inl err \<Rightarrow> Inl (wrapSeq seq err)
       | Inr payload \<Rightarrow>
         (let next = (if isEmpty s then s\<lparr>s_RunID := RunID e, s_TenantID := TenantID e\<rparr> else s) in
          case applyPayload blocks next payload (OccurredAt e) of
            Inl err \<Rightarrow> Inl (wrapSeq seq err)
          | Inr next \<Rightarrow>
            (let next = deriveToolState next;
                 next = next\<lparr>s_NextAction := computeNextAction next\<rparr>
             in Inr (next\<lparr>s_NextSequence := wrap64 (seq + 1), s_LastEventID := EventID e,
                  s_LastEventAt := OccurredAt e,
                  s_seen := AList.update seq (EventID e) (s_seen next)\<rparr>)))))"

fun fold_loop :: "block_decoder \<Rightarrow> RunState \<Rightarrow> Envelope list \<Rightarrow> goerror + RunState" where
  "fold_loop blocks s [] = Inr s"
| "fold_loop blocks s (e # evs) = (case Apply blocks s e of
     Inl err \<Rightarrow> Inl err
   | Inr s' \<Rightarrow> fold_loop blocks s' evs)"

definition Fold :: "block_decoder \<Rightarrow> Envelope list \<Rightarrow> goerror + RunState" where
  "Fold blocks evs = (if length evs = 0 then Inl ErrRunNotFound else fold_loop blocks RunState_zero evs)"

text \<open>\<open>Replay\<close> reads the events from a source first; the source's answer is an argument.\<close>

definition Replay :: "block_decoder \<Rightarrow> (string \<Rightarrow> goerror + Envelope list) \<Rightarrow> string \<Rightarrow> goerror + RunState" where
  "Replay blocks source runID = (case source runID of
     Inl err \<Rightarrow> Inl (Errorw (''reading events for run '' @ runID @ '': '') err)
   | Inr evs \<Rightarrow> (case Fold blocks evs of
       Inl err \<Rightarrow> Inl (Errorw (''folding events for run '' @ runID @ '': '') err)
     | Inr s \<Rightarrow> Inr s))"

fun truncate_events :: "Envelope list \<Rightarrow> int \<Rightarrow> Envelope list" where
  "truncate_events [] upToSeq = []"
| "truncate_events (e # evs) upToSeq =
     (if SequenceNumber e > upToSeq then [] else e # truncate_events evs upToSeq)"

definition FoldUpTo :: "block_decoder \<Rightarrow> Envelope list \<Rightarrow> int \<Rightarrow> goerror + RunState" where
  "FoldUpTo blocks evs upToSeq = Fold blocks (truncate_events evs upToSeq)"

end
