(* ===== verification/Fold_Facts.thy ===== *)
theory Fold_Facts
  imports Fold
begin

text \<open>
  The library of facts about the fold: how one \<open>Apply\<close> decomposes, what each payload leaves alone,
  what the derived fields are as functions of the last step, and the well-formedness invariant that
  every \<open>Apply\<close> keeps. The named properties of the fold are in \<open>Fold_Properties\<close>.
\<close>

section \<open>One event\<close>

text \<open>The structural checks of \<open>Apply\<close> on an event whose sequence number is new, as one condition.\<close>

definition admitted :: "RunState \<Rightarrow> Envelope \<Rightarrow> bool" where
  "admitted s e \<longleftrightarrow> map_of (s_seen s) (SequenceNumber e) = None
     \<and> (if isEmpty s then SequenceNumber e = 0 \<and> EventType_of e = EventRunStarted
        else RunID e = s_RunID s \<and> \<not> isTerminalStatus (s_Status s)
          \<and> SequenceNumber e = s_NextSequence s)"

definition start_event :: "RunState \<Rightarrow> Envelope \<Rightarrow> RunState" where
  "start_event s e = (if isEmpty s then s\<lparr>s_RunID := RunID e, s_TenantID := TenantID e\<rparr> else s)"

definition finish_event :: "Envelope \<Rightarrow> RunState \<Rightarrow> RunState" where
  "finish_event e next = (let next = deriveToolState next;
       next = next\<lparr>s_NextAction := computeNextAction next\<rparr>
     in next\<lparr>s_NextSequence := wrap64 (SequenceNumber e + 1), s_LastEventID := EventID e,
         s_LastEventAt := OccurredAt e,
         s_seen := AList.update (SequenceNumber e) (EventID e) (s_seen next)\<rparr>)"

lemma Apply_seen:
  "map_of (s_seen s) (SequenceNumber e) = Some i \<Longrightarrow> Apply blocks s e
    = (if i = EventID e then Inr s else Inl (wrapSeq (SequenceNumber e) ErrConflictingEvent))"
  by (simp add: Apply_def)

lemma Apply_admitted:
  "admitted s e \<Longrightarrow> Apply blocks s e = (case DecodePayload e of
      Inl err \<Rightarrow> Inl (wrapSeq (SequenceNumber e) err)
    | Inr p \<Rightarrow> (case applyPayload blocks (start_event s e) p (OccurredAt e) of
        Inl err \<Rightarrow> Inl (wrapSeq (SequenceNumber e) err)
      | Inr next \<Rightarrow> Inr (finish_event e next)))"
  by (auto simp: Apply_def admitted_def start_event_def finish_event_def Let_def
      split: if_splits sum.splits)

lemma Apply_rejected:
  assumes "map_of (s_seen s) (SequenceNumber e) = None" and "\<not> admitted s e"
  shows "Apply blocks s e = Inl (wrapSeq (SequenceNumber e)
    (if isEmpty s then ErrFirstEventNotStart
     else if RunID e \<noteq> s_RunID s then ErrRunIDMismatch
     else if isTerminalStatus (s_Status s) then ErrEventAfterTerminal else ErrSequenceGap))"
  using assms by (auto simp: Apply_def admitted_def Let_def)

lemma Apply_InrE:
  assumes "Apply blocks s e = Inr s'"
  obtains (redelivered) "map_of (s_seen s) (SequenceNumber e) = Some (EventID e)" "s' = s"
  | (applied) p n where "admitted s e" "DecodePayload e = Inr p"
      "applyPayload blocks (start_event s e) p (OccurredAt e) = Inr n" "s' = finish_event e n"
proof (cases "map_of (s_seen s) (SequenceNumber e)")
  case None
  have "admitted s e"
  proof (rule ccontr)
    assume "\<not> admitted s e"
    from Apply_rejected [OF None this] assms show False by simp
  qed
  with assms that(2) show ?thesis by (auto simp: Apply_admitted split: sum.splits)
next
  case (Some i)
  with assms that(1) show ?thesis by (auto simp: Apply_seen split: if_splits)
qed


section \<open>Frames\<close>

lemma set_last_step_simps [simp]:
  "s_seen (set_last_step s st) = s_seen s" "s_RunID (set_last_step s st) = s_RunID s"
  "s_TenantID (set_last_step s st) = s_TenantID s" "s_Status (set_last_step s st) = s_Status s"
  "s_steps (set_last_step s st) = butlast (s_steps s) @ [st]"
  "s_CurrentStep (set_last_step s st) = s_CurrentStep s"
  "s_MaxSteps (set_last_step s st) = s_MaxSteps s" "s_prompt (set_last_step s st) = s_prompt s"
  "s_FinalOutput (set_last_step s st) = s_FinalOutput s" "s_Failure (set_last_step s st) = s_Failure s"
  by (simp_all add: set_last_step_def)

lemmas apply_defs = applyRunStarted_def applyLLMResponded_def applyToolInvoked_def applyToolResulted_def

lemma applyPayload_frame:
  assumes "applyPayload blocks s p t = Inr s'"
  shows "s_seen s' = s_seen s" "s_RunID s' = s_RunID s" "s_TenantID s' = s_TenantID s"
  using assms by (cases p; auto simp: apply_defs Let_def split: sum.splits if_splits)+

lemma applyPayload_status:
  assumes "applyPayload blocks s p t = Inr s'"
  shows "s_Status s' = (case p of
      PRunStarted _ \<Rightarrow> StatusRunning | PLLMResponded _ \<Rightarrow> s_Status s | PToolInvoked _ \<Rightarrow> s_Status s
    | PToolResulted _ \<Rightarrow> s_Status s | PAwaitingApproval _ \<Rightarrow> StatusAwaitingApproval
    | PRunApproved _ \<Rightarrow> StatusRunning | PRunCompleted _ \<Rightarrow> StatusCompleted
    | PRunFailed _ \<Rightarrow> StatusFailed | PRunCancelled _ \<Rightarrow> StatusCancelled)"
  using assms by (cases p; auto simp: apply_defs Let_def split: sum.splits if_splits)


section \<open>The derived fields\<close>

definition pending_in :: "stepRecord \<Rightarrow> string list \<Rightarrow> ToolCall list" where
  "pending_in st tids = List.map_filter (\<lambda>tid.
     if map_of (sr_results st) tid \<noteq> None \<or> contains (sr_invokedOrder st) tid then None
     else toolCallFromContent (sr_content st) tid) tids"

definition journaled_call :: "stepRecord \<Rightarrow> string \<Rightarrow> ToolCall option" where
  "journaled_call st tid = map_option (\<lambda>tc.
     let inv = (case map_of (sr_invoked st) tid of None \<Rightarrow> invocation_zero | Some i \<Rightarrow> i)
     in tc\<lparr>tc_HasSideEffect := in_hasSideEffect inv, tc_IdempotencyKey := in_idempotencyKey inv,
           tc_InvokedAt := in_invokedAt inv\<rparr>) (toolCallFromContent (sr_content st) tid)"

fun in_flight_in :: "stepRecord \<Rightarrow> string list \<Rightarrow> ToolCall option" where
  "in_flight_in st [] = None"
| "in_flight_in st (tid # tids) =
     (if map_of (sr_results st) tid = None \<and> contains (sr_invokedOrder st) tid
         \<and> journaled_call st tid \<noteq> None
      then journaled_call st tid else in_flight_in st tids)"

definition pending_of :: "RunState \<Rightarrow> ToolCall list" where
  "pending_of s = (if s_steps s = [] then []
     else pending_in (last (s_steps s)) (sr_order (last (s_steps s))))"

definition in_flight_of :: "RunState \<Rightarrow> ToolCall option" where
  "in_flight_of s = (if s_steps s = [] then None
     else in_flight_in (last (s_steps s)) (sr_order (last (s_steps s))))"

lemma derive_loop_eq:
  "derive_loop st tids s = s\<lparr>s_PendingToolCalls := s_PendingToolCalls s @ pending_in st tids,
     s_InFlightTool := (case s_InFlightTool s of Some x \<Rightarrow> Some x | None \<Rightarrow> in_flight_in st tids)\<rparr>"
proof (induction tids arbitrary: s)
  case Nil
  then show ?case by (simp add: pending_in_def List.map_filter_def split: option.splits)
next
  case (Cons tid tids)
  have p: "pending_in st (tid # tids) =
      (if map_of (sr_results st) tid \<noteq> None \<or> contains (sr_invokedOrder st) tid then []
       else (case toolCallFromContent (sr_content st) tid of None \<Rightarrow> [] | Some tc \<Rightarrow> [tc]))
      @ pending_in st tids"
    by (simp add: pending_in_def List.map_filter_def split: option.splits)
  show ?case
  proof (cases "map_of (sr_results st) tid = None")
    case False
    then obtain r where "map_of (sr_results st) tid = Some r" by blast
    then show ?thesis by (cases "s_InFlightTool s") (simp_all add: Cons.IH p)
  next
    case True
    then show ?thesis
      by (cases "toolCallFromContent (sr_content st) tid";
          cases "contains (sr_invokedOrder st) tid"; cases "s_InFlightTool s")
        (simp_all add: Cons.IH p journaled_call_def Let_def)
  qed
qed

lemma deriveToolState_eq:
  "deriveToolState s = s\<lparr>s_PendingToolCalls := pending_of s, s_InFlightTool := in_flight_of s\<rparr>"
  by (simp add: deriveToolState_def derive_loop_eq pending_of_def in_flight_of_def Let_def)

lemma finish_event_simps [simp]:
  "s_RunID (finish_event e n) = s_RunID n" "s_TenantID (finish_event e n) = s_TenantID n"
  "s_Status (finish_event e n) = s_Status n" "s_CurrentStep (finish_event e n) = s_CurrentStep n"
  "s_MaxSteps (finish_event e n) = s_MaxSteps n" "s_steps (finish_event e n) = s_steps n"
  "s_prompt (finish_event e n) = s_prompt n" "s_FinalOutput (finish_event e n) = s_FinalOutput n"
  "s_Failure (finish_event e n) = s_Failure n"
  "s_PendingToolCalls (finish_event e n) = pending_of n"
  "s_InFlightTool (finish_event e n) = in_flight_of n"
  "s_NextSequence (finish_event e n) = wrap64 (SequenceNumber e + 1)"
  "s_LastEventID (finish_event e n) = EventID e" "s_LastEventAt (finish_event e n) = OccurredAt e"
  "s_seen (finish_event e n) = AList.update (SequenceNumber e) (EventID e) (s_seen n)"
  by (simp_all add: finish_event_def deriveToolState_eq Let_def)

lemma computeNextAction_cong:
  assumes "s_Status s = s_Status t" "s_steps s = s_steps t" "s_InFlightTool s = s_InFlightTool t"
    "s_PendingToolCalls s = s_PendingToolCalls t" "s_CurrentStep s = s_CurrentStep t"
    "s_MaxSteps s = s_MaxSteps t"
  shows "computeNextAction s = computeNextAction t"
  using assms by (simp add: computeNextAction_def)

text \<open>The derived fields agree with the rest of the state.\<close>

definition derived :: "RunState \<Rightarrow> bool" where
  "derived s \<longleftrightarrow> s_PendingToolCalls s = pending_of s \<and> s_InFlightTool s = in_flight_of s
     \<and> s_NextAction s = computeNextAction s"

lemma derived_finish [simp]: "derived (finish_event e n)"
proof -
  have "s_NextAction (finish_event e n) = computeNextAction (deriveToolState n)"
    by (simp add: finish_event_def Let_def)
  also have "\<dots> = computeNextAction (finish_event e n)"
    by (rule computeNextAction_cong) (simp_all add: deriveToolState_eq)
  finally show ?thesis by (simp add: derived_def pending_of_def in_flight_of_def)
qed


section \<open>The invariant\<close>

definition wf_step :: "stepRecord \<Rightarrow> bool" where
  "wf_step st \<longleftrightarrow> sr_order st = tool_use_ids (sr_content st)
     \<and> distinct (sr_invokedOrder st) \<and> set (sr_invokedOrder st) \<subseteq> set (sr_order st)
     \<and> map fst (sr_invoked st) = sr_invokedOrder st
     \<and> distinct (map fst (sr_results st)) \<and> fst ` set (sr_results st) \<subseteq> set (sr_invokedOrder st)
     \<and> (\<forall>(k, r) \<in> set (sr_results st). tr_ToolUseID r = k)"

definition wf_steps :: "stepRecord list \<Rightarrow> bool" where
  "wf_steps sts \<longleftrightarrow> list_all wf_step sts \<and> list_all allResulted (butlast sts)"

definition wf_seen :: "RunState \<Rightarrow> bool" where
  "wf_seen s \<longleftrightarrow> map fst (s_seen s) = map (\<lambda>i. wrap64 (int i)) [0..<length (s_seen s)]
     \<and> s_NextSequence s = wrap64 (int (length (s_seen s)))"

definition wf_run :: "RunState \<Rightarrow> bool" where
  "wf_run s \<longleftrightarrow> wf_seen s \<and> wf_steps (s_steps s)
     \<and> (if isEmpty s then s = RunState_zero else derived s \<and> s_Status s \<noteq> StatusUnset)"

lemma update_fresh: "map_of al k = None \<Longrightarrow> AList.update k v al = al @ [(k, v)]"
  by (induction al) auto

lemma wrap64_wrap64_add: "wrap64 (wrap64 x + y) = wrap64 (x + y)" "wrap64 (y + wrap64 x) = wrap64 (y + x)"
  by (simp_all add: wrap64_def mod_simps algebra_simps)

lemma wf_run_zero [simp]: "wf_run RunState_zero"
  by (simp add: wf_run_def wf_seen_def wf_steps_def isEmpty_def RunState_zero_def wrap64_def)

lemma wf_steps_snoc: "wf_steps (sts @ [st]) \<longleftrightarrow> list_all wf_step sts \<and> list_all allResulted sts \<and> wf_step st"
  by (auto simp: wf_steps_def)

lemma wf_steps_last:
  assumes "wf_steps sts" and "sts \<noteq> []"
  shows "wf_step (last sts)" "list_all wf_step (butlast sts)" "list_all allResulted (butlast sts)"
  using assms by (auto simp: wf_steps_def list_all_iff dest: in_set_butlastD)

lemma currentStepFor_InrD:
  "currentStepFor s tid = Inr st \<Longrightarrow> s_steps s \<noteq> [] \<and> st = last (s_steps s) \<and> tid \<in> set (sr_order st)"
  by (auto simp: currentStepFor_def contains_def split: if_splits)

lemma wf_step_invoke:
  assumes "wf_step st" and "tid \<in> set (sr_order st)" and "\<not> contains (sr_invokedOrder st) tid"
  shows "wf_step (st\<lparr>sr_invokedOrder := sr_invokedOrder st @ [tid],
    sr_invoked := AList.update tid i (sr_invoked st)\<rparr>)"
proof -
  have "map_of (sr_invoked st) tid = None"
    using assms(1,3) unfolding wf_step_def contains_def map_of_eq_None_iff by (metis set_map)
  with assms show ?thesis
    by (auto simp: wf_step_def update_fresh contains_def)
qed

lemma wf_step_result:
  assumes "wf_step st" and "contains (sr_invokedOrder st) (tr_ToolUseID p)"
    and "map_of (sr_results st) (tr_ToolUseID p) = None"
  shows "wf_step (st\<lparr>sr_results := AList.update (tr_ToolUseID p) p (sr_results st)\<rparr>)"
  using assms by (auto simp: wf_step_def update_fresh contains_def map_of_eq_None_iff)

lemma applyPayload_wf_steps:
  assumes "applyPayload blocks s p t = Inr s'" and "wf_steps (s_steps s)"
  shows "wf_steps (s_steps s')"
proof (cases p)
  case (PLLMResponded q)
  with assms have "s_steps s = [] \<or> sr_order (last (s_steps s)) = [] \<or> allResulted (last (s_steps s))"
    by (auto simp: applyLLMResponded_def split: if_splits)
  then have "list_all allResulted (s_steps s)"
    using wf_steps_last(3) [OF assms(2)]
    by (cases "s_steps s" rule: rev_cases) (auto simp: allResulted_def)
  with PLLMResponded assms show ?thesis
    by (auto simp: applyLLMResponded_def Let_def wf_steps_snoc wf_step_def wf_steps_def
        split: if_splits sum.splits)
next
  case (PToolInvoked q)
  with assms obtain st where st: "currentStepFor s (ti_ToolUseID q) = Inr st"
    "\<not> contains (sr_invokedOrder st) (ti_ToolUseID q)"
    by (auto simp: applyToolInvoked_def split: sum.splits if_splits)
  note c = currentStepFor_InrD [OF st(1)]
  note l = wf_steps_last [OF assms(2)]
  have "wf_step (st\<lparr>sr_invokedOrder := sr_invokedOrder st @ [ti_ToolUseID q],
      sr_invoked := AList.update (ti_ToolUseID q) i (sr_invoked st)\<rparr>)" for i
    using wf_step_invoke c l(1) st(2) by metis
  with PToolInvoked assms st c l show ?thesis
    by (auto simp: applyToolInvoked_def wf_steps_snoc)
next
  case (PToolResulted q)
  with assms obtain st where st: "currentStepFor s (tr_ToolUseID q) = Inr st"
    "contains (sr_invokedOrder st) (tr_ToolUseID q)" "map_of (sr_results st) (tr_ToolUseID q) = None"
    by (auto simp: applyToolResulted_def split: sum.splits if_splits)
  note c = currentStepFor_InrD [OF st(1)]
  note l = wf_steps_last [OF assms(2)]
  have "wf_step (st\<lparr>sr_results := AList.update (tr_ToolUseID q) q (sr_results st)\<rparr>)"
    using wf_step_result c l(1) st(2,3) by metis
  with PToolResulted assms st c l show ?thesis
    by (auto simp: applyToolResulted_def wf_steps_snoc)
qed (use assms in \<open>auto simp: applyRunStarted_def split: sum.splits\<close>)

lemma isEmpty_iff: "isEmpty s \<longleftrightarrow> s_seen s = []"
  by (simp add: isEmpty_def)

lemma start_event_simps [simp]:
  "s_seen (start_event s e) = s_seen s" "s_steps (start_event s e) = s_steps s"
  "s_Status (start_event s e) = s_Status s" "s_prompt (start_event s e) = s_prompt s"
  "s_MaxSteps (start_event s e) = s_MaxSteps s" "s_CurrentStep (start_event s e) = s_CurrentStep s"
  by (simp_all add: start_event_def)

lemma DecodePayload_type:
  assumes "DecodePayload e = Inr p" shows "payload_EventType p = EventType_of e"
proof -
  have *: "map_sum id f r = Inr p \<Longrightarrow> \<exists>q. p = f q" for f and r :: "goerror + 'q"
    by (cases r) auto
  show ?thesis
    using assms by (auto simp: DecodePayload_def Let_def dest!: * split: if_splits)
qed

lemma admitted_fresh: "admitted s e \<Longrightarrow> map_of (s_seen s) (SequenceNumber e) = None"
  by (simp add: admitted_def)

lemma admitted_seq:
  assumes "admitted s e" and "wf_run s" shows "SequenceNumber e = s_NextSequence s"
  using assms by (auto simp: admitted_def wf_run_def RunState_zero_def split: if_splits)

lemma Apply_wf_run:
  assumes "Apply blocks s e = Inr s'" and "wf_run s" shows "wf_run s'"
  using assms(1)
proof (cases rule: Apply_InrE)
  case redelivered
  with assms(2) show ?thesis by simp
next
  case (applied p n)
  note fr = applyPayload_frame [OF applied(3)]
  have seq: "SequenceNumber e = wrap64 (int (length (s_seen s)))"
    using admitted_seq [OF applied(1) assms(2)] assms(2) by (simp add: wf_run_def wf_seen_def)
  have seen: "s_seen s' = s_seen s @ [(SequenceNumber e, EventID e)]"
    using applied fr admitted_fresh [OF applied(1)] by (simp add: update_fresh)
  have nxt: "s_NextSequence s' = wrap64 (SequenceNumber e + 1)"
    using applied(4) by simp
  have "wf_seen s'"
    using assms(2) seq by (simp add: wf_run_def wf_seen_def seen nxt wrap64_wrap64_add add.commute [of _ 1])
  moreover have "wf_steps (s_steps s')"
    using applyPayload_wf_steps [OF applied(3)] assms(2) applied(4) by (simp add: wf_run_def)
  moreover have "s_Status s' \<noteq> StatusUnset"
  proof (cases "isEmpty s")
    case True
    with applied(1) DecodePayload_type [OF applied(2)] have "payload_EventType p = EventRunStarted"
      by (simp add: admitted_def)
    then show ?thesis
      using applyPayload_status [OF applied(3)] applied(4)
      by (cases p) (simp_all add: EventType_defs)
  next
    case False
    with assms(2) have "s_Status s \<noteq> StatusUnset" by (simp add: wf_run_def)
    then show ?thesis
      using applyPayload_status [OF applied(3)] applied(4) by (cases p) simp_all
  qed
  ultimately show ?thesis
    using applied(4) by (simp add: wf_run_def isEmpty_iff seen)
qed

lemma fold_loop_append:
  "fold_loop blocks s (xs @ ys) = (case fold_loop blocks s xs of
     Inl err \<Rightarrow> Inl err | Inr s' \<Rightarrow> fold_loop blocks s' ys)"
  by (induction xs arbitrary: s) (auto split: sum.splits)

lemma fold_loop_wf_run: "fold_loop blocks s evs = Inr s' \<Longrightarrow> wf_run s \<Longrightarrow> wf_run s'"
  by (induction evs arbitrary: s) (auto split: sum.splits dest: Apply_wf_run)

lemma Fold_loopD: "Fold blocks evs = Inr s \<Longrightarrow> evs \<noteq> [] \<and> fold_loop blocks RunState_zero evs = Inr s"
  by (auto simp: Fold_def split: if_splits)

lemma Fold_wf_run: "Fold blocks evs = Inr s \<Longrightarrow> wf_run s"
  using Fold_loopD fold_loop_wf_run wf_run_zero by blast

end
