(* ===== verification/Sample_Run.thy ===== *)
theory Sample_Run
  imports Fold_Facts
begin

text \<open>
  A concrete run that the theorems about logs are applied to: one prompt, one model turn that asks for
  one tool, its invocation and result, a final turn and the completion. \<open>sample_blocks\<close> is a concrete
  decoder of a response's content array.
\<close>

fun sample_block :: "json \<Rightarrow> content_block" where
  "sample_block (JObj ms) = (case (map_of ms ''type'', map_of ms ''text'', map_of ms ''id'', map_of ms ''name'') of
     (Some (JStr t), Some (JStr x), _, _) \<Rightarrow> if t = ''text'' then TextBlock x else OtherBlock (JObj ms)
   | (Some (JStr t), _, Some (JStr i), Some (JStr n)) \<Rightarrow>
       if t = ''tool_use'' then ToolUseBlock i n (map_of ms ''input'') else OtherBlock (JObj ms)
   | _ \<Rightarrow> OtherBlock (JObj ms))"
| "sample_block j = OtherBlock j"

definition sample_blocks :: block_decoder where
  "sample_blocks r = (case r of
     Some (JArr js) \<Rightarrow> Inr (map sample_block js)
   | _ \<Rightarrow> Inl (Errorf ''content is not an array''))"

definition sample_event :: "int \<Rightarrow> Payload \<Rightarrow> Envelope" where
  "sample_event seq p = \<lparr>EventID = ''e'' @ show_int seq, RunID = ''r1'', TenantID = ''local-dev'',
     SequenceNumber = seq, EventType_of = payload_EventType p, PayloadRaw = Some (enc_payload p),
     OccurredAt = 1000 * seq, IdempotencyKey = None\<rparr>"

definition sample_tool_use :: json where
  "sample_tool_use = JObj [(''type'', JStr ''tool_use''), (''id'', JStr ''t1''),
     (''name'', JStr ''apply_fix''), (''input'', JObj [(''pr'', JNum ''1'')])]"

definition sample_invoked :: ToolInvokedPayload where
  "sample_invoked = \<lparr>ti_Step = 1, ti_ToolUseID = ''t1'', ti_ToolName = ''apply_fix'',
     ti_ToolArgs = Some (JObj [(''pr'', JNum ''1'')]), ti_IdempotencyKey = Some ''r1:1:t1'',
     ti_HasSideEffect = True\<rparr>"

definition sample_resulted :: ToolResultedPayload where
  "sample_resulted = \<lparr>tr_Step = 1, tr_ToolUseID = ''t1'', tr_ToolName = ''apply_fix'',
     tr_Result = ''ok'', tr_Status = ''success'', tr_WasReplayedFromCache = False,
     tr_Resolution = ''executed''\<rparr>"

definition sample_log :: "Envelope list" where
  "sample_log =
    [sample_event 0 (PRunStarted \<lparr>rs_WorkloadType = ''ci'', rs_Input = Some (JObj [(''prompt'', JStr ''fix it'')]),
       rs_MaxSteps = 3\<rparr>),
     sample_event 1 (PLLMResponded \<lparr>lr_Step = 1, lr_StopReason = ''tool_use'',
       lr_Content = Some (JArr [sample_tool_use]), lr_IsTerminal = False\<rparr>),
     sample_event 2 (PToolInvoked sample_invoked),
     sample_event 3 (PToolResulted sample_resulted),
     sample_event 4 (PLLMResponded \<lparr>lr_Step = 2, lr_StopReason = ''end_turn'',
       lr_Content = Some (JArr [JObj [(''type'', JStr ''text''), (''text'', JStr ''done'')]]), lr_IsTerminal = True\<rparr>),
     sample_event 5 (PRunCompleted \<lparr>rc_FinalOutput = ''done'', rc_TotalSteps = 2\<rparr>)]"

definition sample_state :: "nat \<Rightarrow> RunState" where
  "sample_state n = (case Fold sample_blocks (take n sample_log) of Inl _ \<Rightarrow> RunState_zero | Inr s \<Rightarrow> s)"

lemma sample_fold:
  "Fold sample_blocks (take 3 sample_log) = Inr (sample_state 3)"
  "Fold sample_blocks (take 4 sample_log) = Inr (sample_state 4)"
  "Fold sample_blocks (take 6 sample_log) = Inr (sample_state 6)"
  by code_simp+

lemma sample_take:
  "take 3 sample_log = [sample_log ! 0, sample_log ! 1, sample_log ! 2]"
  "take 6 sample_log = sample_log"
  "take 6 sample_log = take 4 sample_log @ [sample_log ! 4, sample_log ! 5]"
  by (simp_all add: sample_log_def)

end
