(* ===== verification/Fold_Properties.thy ===== *)
theory Fold_Properties
  imports Sample_Run
begin

text \<open>
  What the fold promises of a log: redelivered events change nothing, conflicting ones are refused,
  sequence numbers have no gaps, a terminal run never changes again, every prefix of a replayable log
  is replayable, tool events follow their protocol, and the next action always has what it needs.
\<close>

section \<open>What a fold remembers of its log\<close>

lemma Apply_seen_mono:
  assumes "Apply blocks s e = Inr s'" and "map_of (s_seen s) k = Some v"
  shows "map_of (s_seen s') k = Some v"
  using assms(1)
proof (cases rule: Apply_InrE)
  case (applied p n)
  then have "s_seen s' = s_seen s @ [(SequenceNumber e, EventID e)]"
    by (simp add: applyPayload_frame(1) [OF applied(3)] update_fresh admitted_fresh)
  with assms(2) show ?thesis by simp
qed (use assms in simp)

lemma Apply_sees:
  assumes "Apply blocks s e = Inr s'"
  shows "map_of (s_seen s') (SequenceNumber e) = Some (EventID e)"
  using assms
proof (cases rule: Apply_InrE)
  case (applied p n)
  then have "s_seen s' = s_seen s @ [(SequenceNumber e, EventID e)]"
    by (simp add: applyPayload_frame(1) [OF applied(3)] update_fresh admitted_fresh)
  with admitted_fresh [OF applied(1)] show ?thesis by (simp add: map_add_Some_iff)
qed simp

lemma Apply_seen_keys:
  assumes "Apply blocks s e = Inr s'"
  shows "fst ` set (s_seen s') = insert (SequenceNumber e) (fst ` set (s_seen s))"
  using assms
proof (cases rule: Apply_InrE)
  case redelivered
  then show ?thesis by (auto simp: insert_absorb dest!: map_of_SomeD intro: rev_image_eqI)
next
  case (applied p n)
  then show ?thesis
    by (simp add: applyPayload_frame(1) [OF applied(3)] update_fresh admitted_fresh)
qed

lemma fold_loop_seen_mono:
  "fold_loop blocks s evs = Inr s' \<Longrightarrow> map_of (s_seen s) k = Some v \<Longrightarrow> map_of (s_seen s') k = Some v"
  by (induction evs arbitrary: s) (auto split: sum.splits dest: Apply_seen_mono)

lemma fold_loop_sees:
  "fold_loop blocks s evs = Inr s' \<Longrightarrow> e \<in> set evs
    \<Longrightarrow> map_of (s_seen s') (SequenceNumber e) = Some (EventID e)"
  by (induction evs arbitrary: s) (auto split: sum.splits dest: Apply_sees fold_loop_seen_mono)

lemma fold_loop_seen_keys:
  "fold_loop blocks s evs = Inr s'
    \<Longrightarrow> fst ` set (s_seen s') = fst ` set (s_seen s) \<union> SequenceNumber ` set evs"
  by (induction evs arbitrary: s) (auto split: sum.splits dest!: Apply_seen_keys)

lemma fold_loop_redelivered:
  "\<forall>e \<in> set evs. map_of (s_seen s) (SequenceNumber e) = Some (EventID e)
    \<Longrightarrow> fold_loop blocks s evs = Inr s"
  by (induction evs) (simp_all add: Apply_seen)

lemma Fold_appendE:
  assumes "Fold blocks (xs @ ys) = Inr s" and "xs \<noteq> []"
  obtains s1 where "Fold blocks xs = Inr s1" "fold_loop blocks s1 ys = Inr s" "wf_run s1"
proof -
  from Fold_loopD [OF assms(1)] obtain s1 where s1: "fold_loop blocks RunState_zero xs = Inr s1"
      "fold_loop blocks s1 ys = Inr s"
    by (auto simp: fold_loop_append split: sum.splits)
  from s1(1) assms(2) have f: "Fold blocks xs = Inr s1" by (simp add: Fold_def)
  show ?thesis by (rule that [OF f s1(2) Fold_wf_run [OF f]])
qed

lemma Fold_appendI:
  "Fold blocks xs = Inr s1 \<Longrightarrow> fold_loop blocks s1 ys = r \<Longrightarrow> Fold blocks (xs @ ys) = r"
  by (frule Fold_loopD) (simp add: Fold_def fold_loop_append)

lemma Fold_sees:
  "Fold blocks evs = Inr s \<Longrightarrow> e \<in> set evs \<Longrightarrow> map_of (s_seen s) (SequenceNumber e) = Some (EventID e)"
  using Fold_loopD fold_loop_sees by blast

lemma Fold_seen_length_le:
  assumes "Fold blocks evs = Inr s" shows "length (s_seen s) \<le> length evs"
proof -
  have "fold_loop blocks t evs = Inr s' \<Longrightarrow> length (s_seen s') \<le> length (s_seen t) + length evs" for t s'
  proof (induction evs arbitrary: t)
    case (Cons e evs)
    then obtain t' where t': "Apply blocks t e = Inr t'" "fold_loop blocks t' evs = Inr s'"
      by (auto split: sum.splits)
    have "length (s_seen t') \<le> Suc (length (s_seen t))"
      using t'(1) by (cases rule: Apply_InrE)
        (auto simp: applyPayload_frame(1) update_fresh admitted_fresh)
    with Cons.IH [OF t'(2)] show ?case by simp
  qed simp
  from this [OF conjunct2 [OF Fold_loopD [OF assms]]] show ?thesis
    by (simp add: RunState_zero_def)
qed

lemma wf_run_seen_small:
  assumes "wf_run s" and "length (s_seen s) < 2 ^ 63"
  shows "fst ` set (s_seen s) = {0..<s_NextSequence s}" "s_NextSequence s = int (length (s_seen s))"
proof -
  let ?n = "length (s_seen s)"
  have w: "wrap64 (int i) = int i" if "i \<le> ?n" for i
    using that assms(2) by (intro wrap64_nat) auto
  have m: "map fst (s_seen s) = map (\<lambda>i. wrap64 (int i)) [0..<?n]" "s_NextSequence s = wrap64 (int ?n)"
    using assms(1) by (auto simp: wf_run_def wf_seen_def)
  show nx: "s_NextSequence s = int ?n" using m(2) w [of ?n] by simp
  have "fst ` set (s_seen s) = (\<lambda>i. wrap64 (int i)) ` {0..<?n}"
    using arg_cong [OF m(1), of set] by simp
  also have "\<dots> = int ` {0..<?n}" using w by auto
  also have "\<dots> = {0..<s_NextSequence s}" unfolding nx by (simp add: image_int_atLeastLessThan)
  finally show "fst ` set (s_seen s) = {0..<s_NextSequence s}" .
qed


lemma Fold_next_unseen:
  assumes "Fold blocks evs = Inr s" and "length evs < 2 ^ 63"
  shows "map_of (s_seen s) (s_NextSequence s) = None"
proof -
  have "length (s_seen s) < 2 ^ 63" using Fold_seen_length_le [OF assms(1)] assms(2) by linarith
  from wf_run_seen_small(1) [OF Fold_wf_run [OF assms(1)] this] show ?thesis
    by (simp add: map_of_eq_None_iff)
qed

lemma Apply_in64:
  assumes "Apply blocks s e = Inr s'" and "in64 (s_CurrentStep s)" and "in64 (s_MaxSteps s)"
  shows "in64 (s_CurrentStep s') \<and> in64 (s_MaxSteps s')"
  using assms(1)
proof (cases rule: Apply_InrE)
  case (applied p n)
  from DecodePayload_in64 [OF applied(2)] applied(3,4) assms(2,3) show ?thesis
    by (cases p) (auto simp: apply_defs Let_def split: sum.splits if_splits)
qed (use assms in simp)

lemma Fold_in64:
  assumes "Fold blocks evs = Inr s" shows "in64 (s_CurrentStep s) \<and> in64 (s_MaxSteps s)"
proof -
  have "fold_loop blocks t evs = Inr s' \<Longrightarrow> in64 (s_CurrentStep t) \<and> in64 (s_MaxSteps t)
      \<Longrightarrow> in64 (s_CurrentStep s') \<and> in64 (s_MaxSteps s')" for t s'
    by (induction evs arbitrary: t) (auto split: sum.splits dest: Apply_in64)
  from this [OF conjunct2 [OF Fold_loopD [OF assms]]] show ?thesis
    by (simp add: RunState_zero_def)
qed

lemmas Fold_CurrentStep_in64 = conjunct1 [OF Fold_in64]


section \<open>Redelivery and conflicts\<close>

text \<open>
  C8. At-least-once delivery is harmless: delivering any event of a replayable log a second time, at
  any later place in the log, does not change the state the log folds to.
\<close>

theorem Fold_redelivery:
  assumes "Fold blocks (xs @ ys) = Inr s" and "e \<in> set xs"
  shows "Fold blocks (xs @ e # ys) = Inr s"
proof -
  from assms(2) have "xs \<noteq> []" by auto
  with assms(1) obtain s1 where s1: "Fold blocks xs = Inr s1" "fold_loop blocks s1 ys = Inr s"
    by (rule Fold_appendE)
  from Fold_sees [OF s1(1) assms(2)] have "Apply blocks s1 e = Inr s1" by (simp add: Apply_seen)
  with s1(2) have "fold_loop blocks s1 (e # ys) = Inr s" by simp
  with s1(1) show ?thesis by (rule Fold_appendI)
qed

text \<open>
  C9. A second event with another \<open>event_id\<close> at a sequence number the log already holds makes the
  replay fail with \<open>ErrConflictingEvent\<close>, whatever follows it.
\<close>

theorem Fold_conflict:
  assumes "Fold blocks xs = Inr s" and "e \<in> set xs"
    and "SequenceNumber e' = SequenceNumber e" and "EventID e' \<noteq> EventID e"
  shows "\<exists>err. Fold blocks (xs @ e' # ys) = Inl err \<and> errors_Is err SConflictingEvent"
proof -
  have "Apply blocks s e' = Inl (wrapSeq (SequenceNumber e') ErrConflictingEvent)"
    using Fold_sees [OF assms(1,2)] assms(3,4) by (simp add: Apply_seen)
  then have "fold_loop blocks s (e' # ys) = Inl (wrapSeq (SequenceNumber e') ErrConflictingEvent)"
    by simp
  from Fold_appendI [OF assms(1) this] show ?thesis by (simp add: replay_errors)
qed

text \<open>
  C10. No gaps: the sequence numbers of a replayable log (of fewer than \<open>2 ^ 63\<close> messages) are exactly
  \<open>0, \<dots>, NextSequence - 1\<close>, and two messages with the same number carry the same event.
\<close>

theorem Fold_gapless:
  assumes "Fold blocks evs = Inr s" and "length evs < 2 ^ 63"
  shows "SequenceNumber ` set evs = {0..<s_NextSequence s}
    \<and> (\<forall>e \<in> set evs. \<forall>e' \<in> set evs. SequenceNumber e = SequenceNumber e' \<longrightarrow> EventID e = EventID e')"
proof
  have "fst ` set (s_seen s) = SequenceNumber ` set evs"
    using fold_loop_seen_keys [OF conjunct2 [OF Fold_loopD [OF assms(1)]]]
    by (simp add: RunState_zero_def)
  moreover have "length (s_seen s) < 2 ^ 63"
    using Fold_seen_length_le [OF assms(1)] assms(2) by linarith
  ultimately show "SequenceNumber ` set evs = {0..<s_NextSequence s}"
    using wf_run_seen_small(1) [OF Fold_wf_run [OF assms(1)]] by simp
  show "\<forall>e \<in> set evs. \<forall>e' \<in> set evs. SequenceNumber e = SequenceNumber e' \<longrightarrow> EventID e = EventID e'"
  proof (intro ballI impI)
    fix e e' assume "e \<in> set evs" "e' \<in> set evs" "SequenceNumber e = SequenceNumber e'"
    then show "EventID e = EventID e'"
      using Fold_sees [OF assms(1), of e] Fold_sees [OF assms(1), of e'] by simp
  qed
qed


section \<open>Terminal runs and prefixes\<close>

lemma fold_loop_terminal:
  assumes "fold_loop blocks s evs = Inr s'" and "isTerminalStatus (s_Status s)" and "wf_run s"
  shows "s' = s"
  using assms(1)
proof (induction evs)
  case (Cons e evs)
  then obtain t where t: "Apply blocks s e = Inr t" "fold_loop blocks t evs = Inr s'"
    by (auto split: sum.splits)
  have "\<not> isEmpty s" using assms(2,3) by (auto simp: wf_run_def RunState_zero_def)
  with t(1) assms(2) have "t = s" by (cases rule: Apply_InrE) (auto simp: admitted_def)
  with t(2) Cons.IH show ?case by simp
qed simp


lemma truncate_prefix: "\<exists>zs. evs = truncate_events evs n @ zs
    \<and> (zs \<noteq> [] \<longrightarrow> SequenceNumber (hd zs) > n) \<and> (\<forall>e \<in> set (truncate_events evs n). SequenceNumber e \<le> n)"
proof (induction evs)
  case (Cons e evs)
  then obtain zs where "evs = truncate_events evs n @ zs"
    "zs \<noteq> [] \<longrightarrow> SequenceNumber (hd zs) > n" "\<forall>e \<in> set (truncate_events evs n). SequenceNumber e \<le> n"
    by blast
  then show ?case by (cases "SequenceNumber e > n") auto
qed simp

lemma truncate_length: "length (truncate_events evs n) \<le> length evs"
  by (induction evs) auto

lemma Apply_new_seq:
  assumes "Apply blocks s e = Inr s'" and "wf_run s" and "SequenceNumber e \<notin> fst ` set (s_seen s)"
  shows "SequenceNumber e = s_NextSequence s"
  using assms(1)
proof (cases rule: Apply_InrE)
  case redelivered
  with assms(3) show ?thesis by (auto dest!: map_of_SomeD intro: rev_image_eqI)
qed (use assms(2) admitted_seq in blast)

lemma Fold_seqs:
  assumes "Fold blocks evs = Inr s" and "length evs < 2 ^ 63"
  shows "SequenceNumber ` set evs = {0..<s_NextSequence s}" and "fst ` set (s_seen s) = {0..<s_NextSequence s}"
    and "0 \<le> s_NextSequence s"
proof -
  have "length (s_seen s) < 2 ^ 63" using Fold_seen_length_le [OF assms(1)] assms(2) by linarith
  note k = wf_run_seen_small [OF Fold_wf_run [OF assms(1)] this]
  from k show "fst ` set (s_seen s) = {0..<s_NextSequence s}" "0 \<le> s_NextSequence s" by simp_all
  then show "SequenceNumber ` set evs = {0..<s_NextSequence s}"
    using fold_loop_seen_keys [OF conjunct2 [OF Fold_loopD [OF assms(1)]]] by (simp add: RunState_zero_def)
qed

lemma truncate_Fold_nonempty:
  assumes "Fold blocks evs = Inr s" and "0 \<le> n" shows "truncate_events evs n \<noteq> []"
proof
  assume x: "truncate_events evs n = []"
  obtain e r where ev: "evs = e # r" using Fold_loopD [OF assms(1)] by (cases evs) auto
  with x have er: "evs = e # r" "SequenceNumber e > n" by (simp_all split: if_splits)
  with assms(1) obtain t where "Apply blocks RunState_zero e = Inr t" by (auto simp: Fold_def split: sum.splits)
  from Apply_new_seq [OF this wf_run_zero] er(2) assms(2) show False by (simp add: RunState_zero_def)
qed

text \<open>
  C19. Replaying up to a sequence number: for a replayable log (fewer than \<open>2 ^ 63\<close> messages) and any
  number from 0 on, \<open>FoldUpTo\<close> succeeds, on a state that has seen exactly the events up to that
  number (all of them when the log is shorter).
\<close>

theorem FoldUpTo_prefix:
  assumes "Fold blocks evs = Inr s" and "length evs < 2 ^ 63" and "0 \<le> n"
  shows "\<exists>s'. FoldUpTo blocks evs n = Inr s' \<and> s_NextSequence s' = min (n + 1) (s_NextSequence s)"
proof -
  let ?xs = "truncate_events evs n"
  obtain zs where zs: "evs = ?xs @ zs" "zs \<noteq> [] \<longrightarrow> SequenceNumber (hd zs) > n" "\<forall>e \<in> set ?xs. SequenceNumber e \<le> n"
    using truncate_prefix by blast
  have "Fold blocks (?xs @ zs) = Inr s" using assms(1) by (subst zs(1) [symmetric])
  then obtain s1 where s1: "Fold blocks ?xs = Inr s1" "fold_loop blocks s1 zs = Inr s" "wf_run s1"
    using truncate_Fold_nonempty [OF assms(1,3)] by (rule Fold_appendE)
  have "length ?xs < 2 ^ 63" using truncate_length [of evs n] assms(2) by linarith
  note k1 = Fold_seqs [OF s1(1) this]
  have le: "s_NextSequence s1 \<le> n + 1"
  proof (rule ccontr)
    assume "\<not> ?thesis"
    then have "n + 1 \<in> SequenceNumber ` set ?xs" using k1(1) assms(3) by auto
    with zs(3) show False by auto
  qed
  have "s_NextSequence s1 = min (n + 1) (s_NextSequence s)"
  proof (cases zs)
    case Nil
    with s1(2) le show ?thesis by simp
  next
    case (Cons e r)
    then obtain t where t: "Apply blocks s1 e = Inr t" using s1(2) by (auto split: sum.splits)
    have gt: "SequenceNumber e > n" using zs(2) Cons by simp
    then have "SequenceNumber e \<notin> fst ` set (s_seen s1)" using k1(2) le by auto
    from Apply_new_seq [OF t s1(3) this] gt le have eq: "s_NextSequence s1 = n + 1" by simp
    have "e \<in> set evs" by (subst zs(1)) (simp add: Cons)
    with Fold_seqs(1) [OF assms(1,2)] have "SequenceNumber e < s_NextSequence s" by fastforce
    with eq gt show ?thesis by simp
  qed
  with s1(1) show ?thesis by (simp add: FoldUpTo_def)
qed


section \<open>Next action and the tool protocol\<close>

lemma toolCallFromContent_Some:
  "tid \<in> set (tool_use_ids bs) \<Longrightarrow> \<exists>tc. toolCallFromContent bs tid = Some tc"
  by (induction bs rule: tool_use_ids.induct) auto

lemma toolCallFromContent_id: "toolCallFromContent bs tid = Some tc \<Longrightarrow> tc_ToolUseID tc = tid"
  by (induction bs) (auto split: content_block.splits if_splits)

lemma in_flight_inD:
  "in_flight_in st tids = Some tc \<Longrightarrow> \<exists>tid \<in> set tids. map_of (sr_results st) tid = None
     \<and> tid \<in> set (sr_invokedOrder st) \<and> journaled_call st tid = Some tc \<and> tc_ToolUseID tc = tid"
  by (induction tids) (auto simp: contains_def journaled_call_def Let_def split: if_splits
      dest: toolCallFromContent_id)

lemma in_map_filter: "y \<in> set (List.map_filter f xs) \<longleftrightarrow> (\<exists>x \<in> set xs. f x = Some y)"
  by (force simp: List.map_filter_def)

lemma pending_inD:
  "tc \<in> set (pending_in st tids) \<Longrightarrow> tc_ToolUseID tc \<in> set tids \<and> map_of (sr_results st) (tc_ToolUseID tc) = None
     \<and> tc_ToolUseID tc \<notin> set (sr_invokedOrder st)"
  by (auto simp: pending_in_def in_map_filter contains_def split: if_splits dest!: toolCallFromContent_id)

lemma nothing_open:
  assumes "wf_step st" and "in_flight_in st (sr_order st) = None" and "pending_in st (sr_order st) = []"
  shows "allResulted st"
proof -
  have "map_of (sr_results st) tid \<noteq> None" if t: "tid \<in> set (sr_order st)" for tid
  proof
    assume n: "map_of (sr_results st) tid = None"
    obtain tc where tc: "toolCallFromContent (sr_content st) tid = Some tc"
      using toolCallFromContent_Some [of tid "sr_content st"] t assms(1) by (auto simp: wf_step_def)
    have inv: "in_flight_in st tids \<noteq> None" if "contains (sr_invokedOrder st) tid" "tid \<in> set tids" for tids
      using that(2)
    proof (induction tids)
      case (Cons t ts)
      then show ?case
        using n tc that(1) by (cases "t = tid") (simp_all add: journaled_call_def)
    qed simp
    have "tc \<in> set (pending_in st (sr_order st))" if "\<not> contains (sr_invokedOrder st) tid"
    proof -
      have "(if map_of (sr_results st) tid \<noteq> None \<or> contains (sr_invokedOrder st) tid then None
          else toolCallFromContent (sr_content st) tid) = Some tc" using n tc that by simp
      with t show ?thesis unfolding pending_in_def in_map_filter by blast
    qed
    with assms(2,3) inv [OF _ t] show False by fastforce
  qed
  then show ?thesis by (simp add: allResulted_def list_all_iff)
qed

lemma wf_run_derived: "wf_run s \<Longrightarrow> \<not> isEmpty s \<Longrightarrow> derived s \<and> s_Status s \<noteq> StatusUnset"
  by (simp add: wf_run_def)

lemma Fold_nonempty:
  assumes "Fold blocks evs = Inr s" shows "\<not> isEmpty s"
proof -
  obtain e where "e \<in> set evs" using Fold_loopD [OF assms] by (cases evs) auto
  from Fold_sees [OF assms this] show ?thesis by (auto simp: isEmpty_def)
qed

lemma Fold_derived: "Fold blocks evs = Inr s \<Longrightarrow> derived s \<and> \<not> isEmpty s \<and> s_Status s \<noteq> StatusUnset"
  using Fold_nonempty Fold_wf_run wf_run_derived by blast

lemma next_action_ready:
  assumes "wf_run s" and "\<not> isEmpty s"
  shows "case s_NextAction s of
      ActionUnset \<Rightarrow> False
    | ActionNone \<Rightarrow> isTerminalStatus (s_Status s) \<or> s_Status s = StatusAwaitingApproval
    | ActionCallLLM \<Rightarrow> s_Status s = StatusRunning
        \<and> (s_steps s = [] \<or> allResulted (last (s_steps s)) \<and> s_CurrentStep s < s_MaxSteps s)
    | ActionExecuteTool \<Rightarrow> s_Status s = StatusRunning \<and> s_InFlightTool s = None
        \<and> (\<exists>tc rest. s_PendingToolCalls s = tc # rest
             \<and> tc_ToolUseID tc \<in> set (sr_order (last (s_steps s)))
             \<and> tc_ToolUseID tc \<notin> set (sr_invokedOrder (last (s_steps s))))
    | ActionResolveInFlightTool \<Rightarrow> s_Status s = StatusRunning
        \<and> (\<exists>tc. s_InFlightTool s = Some tc
             \<and> tc_ToolUseID tc \<in> set (sr_invokedOrder (last (s_steps s)))
             \<and> map_of (sr_results (last (s_steps s))) (tc_ToolUseID tc) = None)
    | ActionFinishRun \<Rightarrow> s_Status s = StatusRunning \<and> s_steps s \<noteq> [] \<and> s_InFlightTool s = None
        \<and> (sr_isTerminal (last (s_steps s)) \<or> sr_order (last (s_steps s)) = [])
    | ActionFailMaxSteps \<Rightarrow> s_Status s = StatusRunning \<and> s_MaxSteps s \<le> s_CurrentStep s
        \<and> s_steps s \<noteq> [] \<and> allResulted (last (s_steps s))"
proof -
  note d = wf_run_derived [OF assms]
  have act: "s_NextAction s = computeNextAction s" and pe: "s_PendingToolCalls s = pending_of s"
    and fl: "s_InFlightTool s = in_flight_of s" using d by (auto simp: derived_def)
  show ?thesis
  proof (cases "isTerminalStatus (s_Status s) \<or> s_Status s = StatusAwaitingApproval")
    case True
    then show ?thesis by (auto simp: act computeNextAction_def)
  next
    case False
    with d have run: "s_Status s = StatusRunning" by (cases "s_Status s") auto
    show ?thesis
    proof (cases "s_steps s = []")
      case True
      with run show ?thesis by (simp add: act computeNextAction_def)
    next
      case ne: False
      let ?st = "last (s_steps s)"
      have wf: "wf_step ?st" using assms(1) ne wf_steps_last(1) by (auto simp: wf_run_def)
      have fl': "s_InFlightTool s = in_flight_in ?st (sr_order ?st)" using fl ne by (simp add: in_flight_of_def)
      have pe': "s_PendingToolCalls s = pending_in ?st (sr_order ?st)" using pe ne by (simp add: pending_of_def)
      show ?thesis
      proof (cases "s_InFlightTool s")
        case (Some tc)
        with run ne in_flight_inD [of ?st "sr_order ?st" tc] fl' show ?thesis
          by (auto simp: act computeNextAction_def)
      next
        case None
        show ?thesis
        proof (cases "s_PendingToolCalls s")
          case Nil
          with nothing_open [OF wf] None fl' pe' have "allResulted ?st" by simp
          with run ne None Nil show ?thesis by (simp add: act computeNextAction_def)
        next
          case (Cons tc rest)
          have "tc_ToolUseID tc \<in> set (sr_order ?st)" "tc_ToolUseID tc \<notin> set (sr_invokedOrder ?st)"
            using pending_inD [of tc ?st "sr_order ?st"] Cons pe' by simp_all
          with Cons run ne None show ?thesis by (auto simp: act computeNextAction_def)
        qed
      qed
    qed
  qed
qed




section \<open>Where the fold's knowledge comes from\<close>

text \<open>The invocation record that an event journals for a tool use.\<close>

definition invokes :: "Envelope \<Rightarrow> string \<Rightarrow> invocation \<Rightarrow> bool" where
  "invokes e tid i \<longleftrightarrow> (case DecodePayload e of
     Inr (PToolInvoked p) \<Rightarrow> ti_ToolUseID p = tid
       \<and> i = \<lparr>in_hasSideEffect = ti_HasSideEffect p, in_idempotencyKey = ti_IdempotencyKey p,
              in_invokedAt = OccurredAt e\<rparr>
   | _ \<Rightarrow> False)"

definition invocations :: "RunState \<Rightarrow> (string \<times> invocation) set" where
  "invocations s = (\<Union>st \<in> set (s_steps s). set (sr_invoked st))"

lemma set_update_subset: "set (AList.update k v al) \<subseteq> insert (k, v) (set al)"
  by (induction al) auto

lemma Apply_invocations:
  assumes "Apply blocks s e = Inr s'" and "(tid, i) \<in> invocations s'"
  shows "(tid, i) \<in> invocations s \<or> invokes e tid i"
  using assms(1)
proof (cases rule: Apply_InrE)
  case redelivered
  with assms(2) show ?thesis by simp
next
  case (applied p n)
  have inv: "(tid, i) \<in> invocations n" using assms(2) applied(4) by (simp add: invocations_def)
  let ?s = "start_event s e"
  have st: "invocations ?s = invocations s" by (simp add: invocations_def)
  show ?thesis
  proof (cases p)
    case (PToolInvoked q)
    with applied(3) obtain st where s: "currentStepFor ?s (ti_ToolUseID q) = Inr st"
      and n: "s_steps n = butlast (s_steps s) @ [st\<lparr>sr_invokedOrder := sr_invokedOrder st @ [ti_ToolUseID q],
         sr_invoked := AList.update (ti_ToolUseID q) \<lparr>in_hasSideEffect = ti_HasSideEffect q,
           in_idempotencyKey = ti_IdempotencyKey q, in_invokedAt = OccurredAt e\<rparr> (sr_invoked st)\<rparr>]"
      by (auto simp: applyToolInvoked_def split: sum.splits if_splits)
    have l: "st \<in> set (s_steps s)" using currentStepFor_InrD [OF s] by auto
    let ?i = "\<lparr>in_hasSideEffect = ti_HasSideEffect q, in_idempotencyKey = ti_IdempotencyKey q,
      in_invokedAt = OccurredAt e\<rparr>"
    have "(tid, i) \<in> invocations s \<union> set (AList.update (ti_ToolUseID q) ?i (sr_invoked st))"
      using inv by (auto simp: invocations_def n dest: in_set_butlastD)
    then have "(tid, i) \<in> insert (ti_ToolUseID q, ?i) (invocations s)"
      using set_update_subset [of "ti_ToolUseID q" ?i "sr_invoked st"] l by (auto simp: invocations_def)
    then show ?thesis using applied(2) PToolInvoked by (auto simp: invokes_def)
  next
    case (PToolResulted q)
    with applied(3) obtain st where s: "currentStepFor ?s (tr_ToolUseID q) = Inr st"
      and n: "s_steps n = butlast (s_steps s)
        @ [st\<lparr>sr_results := AList.update (tr_ToolUseID q) q (sr_results st)\<rparr>]"
      by (auto simp: applyToolResulted_def split: sum.splits if_splits)
    have l: "st \<in> set (s_steps s)" using currentStepFor_InrD [OF s] by auto
    from inv n l show ?thesis by (auto simp: invocations_def dest: in_set_butlastD)
  qed (use applied(3) inv st in
      \<open>auto simp: invocations_def apply_defs Let_def split: sum.splits if_splits\<close>)
qed

lemma fold_loop_invocations:
  "fold_loop blocks s evs = Inr s' \<Longrightarrow> (tid, i) \<in> invocations s'
    \<Longrightarrow> (tid, i) \<in> invocations s \<or> (\<exists>e \<in> set evs. invokes e tid i)"
proof (induction evs arbitrary: s)
  case (Cons e evs)
  then obtain t where t: "Apply blocks s e = Inr t" "fold_loop blocks t evs = Inr s'"
    by (auto split: sum.splits)
  from Cons.IH [OF t(2) Cons.prems(2)] Apply_invocations [OF t(1)] show ?case by auto
qed simp

lemma Fold_invocations:
  assumes "Fold blocks evs = Inr s" and "st \<in> set (s_steps s)" and "(tid, i) \<in> set (sr_invoked st)"
  shows "\<exists>e \<in> set evs. invokes e tid i"
proof -
  have "(tid, i) \<in> invocations s" using assms(2,3) by (auto simp: invocations_def)
  with fold_loop_invocations [OF conjunct2 [OF Fold_loopD [OF assms(1)]]] show ?thesis
    by (simp add: invocations_def RunState_zero_def)
qed

lemma invokesE:
  assumes "invokes e tid i"
  obtains p where "DecodePayload e = Inr (PToolInvoked p)" "ti_ToolUseID p = tid"
    "i = \<lparr>in_hasSideEffect = ti_HasSideEffect p, in_idempotencyKey = ti_IdempotencyKey p,
          in_invokedAt = OccurredAt e\<rparr>"
  using assms by (auto simp: invokes_def split: sum.splits Payload.splits)

lemma wf_step_invokedE:
  assumes "wf_step st" and "tid \<in> set (sr_invokedOrder st)"
  obtains i where "map_of (sr_invoked st) tid = Some i"
proof -
  have "sr_invokedOrder st = map fst (sr_invoked st)" using assms(1) by (simp add: wf_step_def)
  with assms(2) have "tid \<in> fst ` set (sr_invoked st)" by simp
  then have "map_of (sr_invoked st) tid \<noteq> None" by (simp only: map_of_eq_None_iff not_not)
  with that show thesis by blast
qed

text \<open>
  C13. What a resumed run acts on is what the log says: the in-flight call of a folded run carries the
  idempotency key, the side-effect flag and the time of a \<open>ToolInvoked\<close> event of the log for that tool
  use, never a recomputed one, and the name and arguments of the model's own request.
\<close>

theorem Fold_in_flight_journaled:
  assumes "Fold blocks evs = Inr s" and "s_InFlightTool s = Some tc"
  shows "(\<exists>e \<in> set evs. \<exists>p. DecodePayload e = Inr (PToolInvoked p)
      \<and> ti_ToolUseID p = tc_ToolUseID tc \<and> ti_IdempotencyKey p = tc_IdempotencyKey tc
      \<and> ti_HasSideEffect p = tc_HasSideEffect tc \<and> OccurredAt e = tc_InvokedAt tc)
    \<and> (\<exists>req. toolCallFromContent (sr_content (last (s_steps s))) (tc_ToolUseID tc) = Some req
        \<and> tc_ToolName req = tc_ToolName tc \<and> tc_ToolArgs req = tc_ToolArgs tc)"
proof -
  let ?st = "last (s_steps s)"
  have fl: "s_InFlightTool s = in_flight_of s" using Fold_derived [OF assms(1)] by (simp add: derived_def)
  with assms(2) have ne: "s_steps s \<noteq> []" and "in_flight_in ?st (sr_order ?st) = Some tc"
    by (auto simp: in_flight_of_def split: if_splits)
  from in_flight_inD [OF this(2)] have t: "tc_ToolUseID tc \<in> set (sr_invokedOrder ?st)"
    and j: "journaled_call ?st (tc_ToolUseID tc) = Some tc" by auto
  have "wf_step ?st" using Fold_wf_run [OF assms(1)] ne wf_steps_last(1) by (auto simp: wf_run_def)
  then obtain i where i: "map_of (sr_invoked ?st) (tc_ToolUseID tc) = Some i"
    using t by (rule wf_step_invokedE)
  from Fold_invocations [OF assms(1) _ map_of_SomeD [OF i]] ne
  obtain e p where e: "e \<in> set evs" "DecodePayload e = Inr (PToolInvoked p)"
      "ti_ToolUseID p = tc_ToolUseID tc"
      "i = \<lparr>in_hasSideEffect = ti_HasSideEffect p, in_idempotencyKey = ti_IdempotencyKey p,
          in_invokedAt = OccurredAt e\<rparr>"
    by (auto elim: invokesE)
  from j i obtain req where "toolCallFromContent (sr_content ?st) (tc_ToolUseID tc) = Some req"
      "tc = req\<lparr>tc_HasSideEffect := in_hasSideEffect i, tc_IdempotencyKey := in_idempotencyKey i,
           tc_InvokedAt := in_invokedAt i\<rparr>"
    by (auto simp: journaled_call_def Let_def)
  with e show ?thesis by (intro conjI bexI [of _ e] exI [of _ p] exI [of _ req]) simp_all
qed

text \<open>
  C14. Ordering of tool events: in a replayable log, every new \<open>ToolResulted\<close> event comes after a
  \<open>ToolInvoked\<close> event for the same tool use.
\<close>

theorem Fold_result_after_invocation:
  assumes "Fold blocks (xs @ e # ys) = Inr s" and "DecodePayload e = Inr (PToolResulted p)"
    and "SequenceNumber e \<notin> SequenceNumber ` set xs"
  shows "\<exists>e' \<in> set xs. \<exists>q. DecodePayload e' = Inr (PToolInvoked q) \<and> ti_ToolUseID q = tr_ToolUseID p"
proof -
  have xs: "xs \<noteq> []"
  proof
    assume "xs = []"
    with assms(1) obtain t where "Apply blocks RunState_zero e = Inr t"
      by (auto simp: Fold_def split: sum.splits)
    then show False
    proof (cases rule: Apply_InrE)
      case (applied q n)
      have "EventType_of e = EventRunStarted"
        using applied(1) by (simp add: admitted_def isEmpty_def RunState_zero_def)
      with DecodePayload_type [OF assms(2)] show False by (simp add: EventType_defs)
    qed (simp add: RunState_zero_def)
  qed
  from assms(1) xs obtain s1 where s1: "Fold blocks xs = Inr s1" "fold_loop blocks s1 (e # ys) = Inr s"
    by (rule Fold_appendE)
  from s1(2) obtain t where t: "Apply blocks s1 e = Inr t" by (auto split: sum.splits)
  have "SequenceNumber e \<notin> fst ` set (s_seen s1)"
    using fold_loop_seen_keys [OF conjunct2 [OF Fold_loopD [OF s1(1)]]] assms(3)
    by (simp add: RunState_zero_def)
  then have new: "map_of (s_seen s1) (SequenceNumber e) = None" by (simp add: map_of_eq_None_iff)
  from t show ?thesis
  proof (cases rule: Apply_InrE)
    case (applied q n)
    with assms(2) obtain st where st: "currentStepFor (start_event s1 e) (tr_ToolUseID p) = Inr st"
      "contains (sr_invokedOrder st) (tr_ToolUseID p)"
      by (auto simp: applyToolResulted_def split: sum.splits if_splits)
    have l: "st \<in> set (s_steps s1)" using currentStepFor_InrD [OF st(1)] by auto
    then have "wf_step st" using Fold_wf_run [OF s1(1)]
      by (auto simp: wf_run_def wf_steps_def list_all_iff)
    moreover have "tr_ToolUseID p \<in> set (sr_invokedOrder st)" using st(2) by (simp add: contains_def)
    ultimately obtain i where "map_of (sr_invoked st) (tr_ToolUseID p) = Some i"
      by (rule wf_step_invokedE)
    from Fold_invocations [OF s1(1) l map_of_SomeD [OF this]] show ?thesis by (metis invokesE)
  qed (use new in simp)
qed


section \<open>Instances\<close>

theorem Fold_redelivery_witness:
  "Fold sample_blocks (take 4 sample_log @ sample_log ! 2 # [sample_log ! 4, sample_log ! 5])
     = Inr (sample_state 6)"
  by (rule Fold_redelivery) (use sample_fold(3) in \<open>simp_all add: sample_log_def\<close>)

theorem Fold_conflict_witness:
  "\<exists>err. Fold sample_blocks (take 4 sample_log @ (sample_log ! 2)\<lparr>EventID := ''other''\<rparr> # [])
     = Inl err \<and> errors_Is err SConflictingEvent"
  by (rule Fold_conflict [OF sample_fold(2), of "sample_log ! 2"])
    (simp_all add: sample_log_def sample_event_def)

theorem Fold_gapless_witness:
  "SequenceNumber ` set (take 6 sample_log) = {0..<s_NextSequence (sample_state 6)}"
  by (rule conjunct1 [OF Fold_gapless [OF sample_fold(3)]]) (simp add: sample_log_def)

lemma sample_terminal: "isTerminalStatus (s_Status (sample_state 6))"
  by code_simp

lemma sample_redelivered_end: "Fold sample_blocks (take 6 sample_log @ [sample_log ! 0]) = Inr (sample_state 6)"
  by code_simp


theorem FoldUpTo_prefix_witness:
  "\<exists>s'. FoldUpTo sample_blocks (take 6 sample_log) 2 = Inr s'
     \<and> s_NextSequence s' = min (2 + 1) (s_NextSequence (sample_state 6))"
  by (rule FoldUpTo_prefix [OF sample_fold(3)]) (simp_all add: sample_log_def)

lemma sample_in_flight: "s_NextAction (sample_state 3) = ActionResolveInFlightTool"
  by code_simp


lemma sample_in_flight_call: "s_InFlightTool (sample_state 3) = Some \<lparr>tc_ToolUseID = ''t1'',
    tc_ToolName = ''apply_fix'', tc_ToolArgs = Some (JObj [(''pr'', JNum ''1'')]), tc_HasSideEffect = True,
    tc_IdempotencyKey = Some ''r1:1:t1'', tc_InvokedAt = 2000\<rparr>"
  by code_simp

theorem Fold_in_flight_journaled_witness:
  "\<exists>e \<in> set (take 3 sample_log). \<exists>p. DecodePayload e = Inr (PToolInvoked p)
     \<and> ti_IdempotencyKey p = Some ''r1:1:t1''"
  using Fold_in_flight_journaled [OF sample_fold(1) sample_in_flight_call] by auto

lemma sample_split:
  "Fold sample_blocks (take 3 sample_log @ sample_log ! 3 # []) = Inr (sample_state 4)"
  "DecodePayload (sample_log ! 3) = Inr (PToolResulted sample_resulted)"
  by code_simp+

theorem Fold_result_after_invocation_witness:
  "\<exists>e' \<in> set (take 3 sample_log). \<exists>q. DecodePayload e' = Inr (PToolInvoked q)
     \<and> ti_ToolUseID q = tr_ToolUseID sample_resulted"
  by (rule Fold_result_after_invocation [OF sample_split])
    (simp add: sample_log_def sample_event_def)

end
