(* ===== verification/Messages.thy ===== *)
theory Messages
  imports Fold_Properties
begin

text \<open>
  \<open>internal/replay\<close>, \<open>messages.go\<close> and \<open>terminal.go\<close>: what a run's state is turned into, the conversation
  the model is shown, the terminal event, and the list of results. The message constructors of the SDK
  are kept free: a block of the model's own turn (\<open>ToParam\<close>), a text, and a tool result.
\<close>

section \<open>Definitions\<close>

datatype block_param =
    ToParam content_block
  | NewTextBlock string
  | NewToolResultBlock string string bool

datatype MessageParam =
    NewUserMessage "block_param list"
  | NewAssistantMessage "block_param list"

text \<open>A missing key reads as the zero struct.\<close>

definition result_of :: "stepRecord \<Rightarrow> string \<Rightarrow> ToolResultedPayload" where
  "result_of step tid = (case map_of (sr_results step) tid of
     None \<Rightarrow> ToolResulted_zero | Some r \<Rightarrow> r)"

fun messages_loop :: "stepRecord list \<Rightarrow> MessageParam list \<Rightarrow> MessageParam list" where
  "messages_loop [] msgs = msgs"
| "messages_loop (step # steps) msgs =
     (let msgs = msgs @ [NewAssistantMessage (map ToParam (sr_content step))] in
      if length (sr_order step) = 0 then messages_loop steps msgs
      else if \<not> allResulted step then msgs
      else messages_loop steps (msgs @ [NewUserMessage (map (\<lambda>tid.
        let r = result_of step tid in NewToolResultBlock tid (tr_Result r) (tr_Status r = ''error''))
        (sr_order step))]))"

definition Messages :: "RunState \<Rightarrow> goerror + MessageParam list" where
  "Messages s = Inr (messages_loop (s_steps s) [NewUserMessage [NewTextBlock (s_prompt s)]])"

fun text_parts :: "content_block list \<Rightarrow> string list" where
  "text_parts [] = []"
| "text_parts (TextBlock x # bs) = x # text_parts bs"
| "text_parts (_ # bs) = text_parts bs"

definition LastStepText :: "RunState \<Rightarrow> string" where
  "LastStepText s = (if length (s_steps s) = 0 then []
     else strings_Join [] (text_parts (sr_content (last (s_steps s)))))"

text \<open>
  \<open>TerminalPayload\<close>; \<open>None\<close> is the index panic on a state without steps.
\<close>

definition TerminalPayload :: "RunState \<Rightarrow> (goerror + Payload) option" where
  "TerminalPayload s =
     (if s_NextAction s \<noteq> ActionFinishRun
      then Some (Inl (Errorf (''terminal payload: next_action is '' @ NextAction_string (s_NextAction s)
        @ '', not '' @ NextAction_string ActionFinishRun)))
      else if s_steps s = [] then None
      else let final = last (s_steps s) in Some (Inr
        (if \<not> sr_isTerminal final
         then PRunFailed \<lparr>rf_Step = s_CurrentStep s, rf_ErrorClass = ''malformed_llm_response'',
           rf_ErrorMessage = ''llm reported stop_reason=tool_use but the response had no tool_use content block'',
           rf_Retryable = False\<rparr>
         else if sr_stopReason final = ''max_tokens''
         then PRunFailed \<lparr>rf_Step = s_CurrentStep s, rf_ErrorClass = ''llm_output_truncated'',
           rf_ErrorMessage = ''llm response was truncated (stop_reason=max_tokens)'',
           rf_Retryable = False\<rparr>
         else PRunCompleted \<lparr>rc_FinalOutput = LastStepText s, rc_TotalSteps = s_CurrentStep s\<rparr>)))"

record ToolResult =
  trs_ToolUseID :: string
  trs_ToolName :: string
  trs_Status :: string
  trs_Resolution :: string
  trs_WasReplayedFromCache :: bool

fun results_loop :: "stepRecord \<Rightarrow> string list \<Rightarrow> ToolResult list" where
  "results_loop step [] = []"
| "results_loop step (tid # tids) = (case map_of (sr_results step) tid of
     None \<Rightarrow> results_loop step tids
   | Some r \<Rightarrow> \<lparr>trs_ToolUseID = tid, trs_ToolName = tr_ToolName r, trs_Status = tr_Status r,
       trs_Resolution = tr_Resolution r, trs_WasReplayedFromCache = tr_WasReplayedFromCache r\<rparr>
       # results_loop step tids)"

definition ToolResults :: "RunState \<Rightarrow> ToolResult list" where
  "ToolResults s = concat (map (\<lambda>step. results_loop step (sr_order step)) (s_steps s))"

definition lastStepIsTerminal :: "RunState \<Rightarrow> bool" where
  "lastStepIsTerminal s = (if length (s_steps s) = 0 then False else sr_isTerminal (last (s_steps s)))"


section \<open>The conversation\<close>

text \<open>The reference: a step's assistant turn, and the user turn that answers all of its tool uses.\<close>

definition assistant_turn :: "stepRecord \<Rightarrow> MessageParam" where
  "assistant_turn step = NewAssistantMessage (map ToParam (sr_content step))"

definition answers :: "stepRecord \<Rightarrow> MessageParam list" where
  "answers step = (if sr_order step = [] then [] else [NewUserMessage (map (\<lambda>tid.
     NewToolResultBlock tid (tr_Result (result_of step tid)) (tr_Status (result_of step tid) = ''error''))
     (tool_use_ids (sr_content step)))])"

definition full_turn :: "stepRecord \<Rightarrow> MessageParam list" where
  "full_turn step = assistant_turn step # answers step"

definition conversation :: "RunState \<Rightarrow> MessageParam list" where
  "conversation s = NewUserMessage [NewTextBlock (s_prompt s)]
     # concat (map full_turn (filter allResulted (s_steps s)))
     @ (if s_steps s = [] \<or> allResulted (last (s_steps s)) then [] else [assistant_turn (last (s_steps s))])"

lemma messages_loop_closed:
  assumes "\<forall>st \<in> set sts. wf_step st \<and> allResulted st"
  shows "messages_loop (sts @ rest) msgs = messages_loop rest (msgs @ concat (map full_turn sts))"
  using assms
proof (induction sts arbitrary: msgs)
  case (Cons st sts)
  then have "sr_order st = tool_use_ids (sr_content st)" by (simp add: wf_step_def)
  with Cons show ?case by (simp add: full_turn_def assistant_turn_def answers_def Let_def)
qed simp

text \<open>
  C15. The conversation shown to the model loses no turn: for a replayable log it is the prompt, then
  for every step whose tool uses are all answered the assistant turn and (when it has tool uses) one user
  turn with all of their results in the order of the requests, and for a last step with a tool use still
  open only the assistant turn.
\<close>

theorem Messages_conversation:
  assumes "Fold blocks evs = Inr s"
  shows "Messages s = Inr (conversation s)"
proof (cases "s_steps s" rule: rev_cases)
  case Nil
  then show ?thesis by (simp add: Messages_def conversation_def)
next
  case (snoc sts st)
  then have c: "\<forall>st \<in> set sts. wf_step st \<and> allResulted st" and w: "wf_step st"
    using Fold_wf_run [OF assms] by (auto simp: wf_run_def wf_steps_snoc list_all_iff)
  have f: "filter allResulted sts = sts" using c by simp
  have "messages_loop [st] m = m @ (if allResulted st then full_turn st else [assistant_turn st])" for m
    using w by (auto simp: full_turn_def assistant_turn_def answers_def Let_def wf_step_def allResulted_def)
  with messages_loop_closed [OF c, of "[st]"] f show ?thesis
    by (simp add: Messages_def conversation_def snoc del: messages_loop.simps)
qed

theorem Messages_conversation_witness:
  "Messages (sample_state 4) = Inr (conversation (sample_state 4))"
  by (rule Messages_conversation [OF sample_fold(2)])

text \<open>The tool uses of a turn, and the tool uses a turn answers.\<close>

fun asked :: "MessageParam \<Rightarrow> string list" where
  "asked (NewAssistantMessage bs) = tool_use_ids (List.map_filter (\<lambda>b. case b of ToParam c \<Rightarrow> Some c | _ \<Rightarrow> None) bs)"
| "asked (NewUserMessage bs) = []"

fun answered :: "MessageParam \<Rightarrow> string list" where
  "answered (NewUserMessage bs) = List.map_filter (\<lambda>b. case b of NewToolResultBlock tid r er \<Rightarrow> Some tid | _ \<Rightarrow> None) bs"
| "answered (NewAssistantMessage bs) = []"

text \<open>What the Messages API asks of a conversation: each turn's tool uses are answered by the next turn.\<close>

fun api_valid :: "MessageParam list \<Rightarrow> bool" where
  "api_valid [] = True"
| "api_valid [m] = (asked m = [])"
| "api_valid (m # m' # ms) = (answered m' = asked m \<and> api_valid (m' # ms))"


lemma callLLM_closed:
  assumes "Fold blocks evs = Inr s" and "s_NextAction s = ActionCallLLM"
  shows "\<forall>st \<in> set (s_steps s). wf_step st \<and> allResulted st"
proof (cases "s_steps s" rule: rev_cases)
  case (snoc sts st)
  have d: "derived s" using Fold_derived [OF assms(1)] by simp
  have w: "wf_step st" "\<forall>t \<in> set sts. wf_step t \<and> allResulted t"
    using Fold_wf_run [OF assms(1)] snoc by (auto simp: wf_run_def wf_steps_snoc list_all_iff)
  have n: "computeNextAction s = ActionCallLLM" using d assms(2) by (simp add: derived_def)
  then have fl: "s_InFlightTool s = None" and pe: "s_PendingToolCalls s = []"
    by (auto simp: computeNextAction_def snoc split: if_splits)
  have "in_flight_in st (sr_order st) = None" "pending_in st (sr_order st) = []"
    using d fl pe snoc by (simp_all add: derived_def in_flight_of_def pending_of_def)
  with nothing_open [OF w(1)] w snoc show ?thesis by auto
qed simp

lemma map_filter_Some_map: "List.map_filter f (map g xs) = List.map_filter (\<lambda>x. f (g x)) xs"
  by (induction xs) (simp_all add: List.map_filter_def)

lemma map_filter_total: "List.map_filter (\<lambda>x. Some (h x)) xs = map h xs"
  by (induction xs) (simp_all add: List.map_filter_def)

lemma asked_turn [simp]: "asked (assistant_turn st) = tool_use_ids (sr_content st)"
  "answered (assistant_turn st) = []"
  by (simp_all add: assistant_turn_def map_filter_Some_map map_filter_total)

lemma answers_step:
  assumes "wf_step st"
  shows "answers st = [] \<and> tool_use_ids (sr_content st) = []
    \<or> (\<exists>m. answers st = [m] \<and> asked m = [] \<and> answered m = tool_use_ids (sr_content st))"
  using assms by (auto simp: answers_def wf_step_def map_filter_Some_map map_filter_total)

lemma api_valid_turns:
  assumes "\<forall>st \<in> set sts. wf_step st" and "asked m = []"
  shows "api_valid (m # concat (map full_turn sts))"
  using assms
proof (induction sts arbitrary: m)
  case (Cons st sts)
  from answers_step [of st] Cons.prems(1)
  consider "answers st = []" "tool_use_ids (sr_content st) = []"
    | r where "answers st = [r]" "asked r = []" "answered r = tool_use_ids (sr_content st)" by auto
  then show ?case
  proof cases
    case 1
    with Cons.IH [of "assistant_turn st"] Cons.prems show ?thesis by (simp add: full_turn_def)
  next
    case 2
    with Cons.IH [of r] Cons.prems show ?thesis by (simp add: full_turn_def)
  qed
qed simp

text \<open>
  C16. Whenever a replayed run is about to call the model, the conversation it sends is one the Messages
  API accepts: every turn's tool uses are answered, all of them and in order, by the very next message,
  and nothing is answered that was not asked.
\<close>

theorem Messages_api_valid:
  assumes "Fold blocks evs = Inr s" and "s_NextAction s = ActionCallLLM"
  shows "\<exists>ms. Messages s = Inr ms \<and> api_valid ms"
proof -
  let ?p = "NewUserMessage [NewTextBlock (s_prompt s)]"
  note c = callLLM_closed [OF assms]
  have "messages_loop (s_steps s) [?p] = ?p # concat (map full_turn (s_steps s))"
    using messages_loop_closed [OF c, of "[]" "[?p]"] by simp
  moreover have "asked ?p = []" by simp
  ultimately show ?thesis
    using api_valid_turns [of "s_steps s" ?p] c by (simp add: Messages_def)
qed

lemma sample_call_llm: "s_NextAction (sample_state 4) = ActionCallLLM"
  by code_simp

theorem Messages_api_valid_witness:
  "\<exists>ms. Messages (sample_state 4) = Inr ms \<and> api_valid ms"
  by (rule Messages_api_valid [OF sample_fold(2) sample_call_llm])


section \<open>Finishing\<close>

text \<open>
  C17. A run whose next action is \<open>FINISH_RUN\<close> can always be finished: \<open>TerminalPayload\<close> returns a payload
  (it neither fails nor panics), and appending the event that carries it, with the next sequence number,
  to the log gives a log that folds to a COMPLETED or FAILED run with no next action.
\<close>

theorem TerminalPayload_finishes:
  assumes "Fold blocks evs = Inr s" and "s_NextAction s = ActionFinishRun" and "length evs < 2 ^ 63"
  shows "\<exists>p e s'. TerminalPayload s = Some (Inr p)
    \<and> NewEnvelope uuid (s_RunID s) (s_TenantID s) (s_NextSequence s) p now = Inr e
    \<and> Fold blocks (evs @ [e]) = Inr s' \<and> s_Status s' \<in> {StatusCompleted, StatusFailed}
    \<and> s_NextAction s' = ActionNone"
proof -
  note d = Fold_derived [OF assms(1)]
  then have ne: "s_steps s \<noteq> []" and nt: "\<not> isTerminalStatus (s_Status s)"
    using assms(2) by (auto simp: derived_def computeNextAction_def split: if_splits)
  obtain p where p: "TerminalPayload s = Some (Inr p)" "wf_payload p"
      "payload_EventType p = EventRunCompleted \<or> payload_EventType p = EventRunFailed"
    using assms(2) Fold_CurrentStep_in64 [OF assms(1)] ne by (auto simp: TerminalPayload_def Let_def)
  obtain e where e: "NewEnvelope uuid (s_RunID s) (s_TenantID s) (s_NextSequence s) p now = Inr e"
    by (simp add: NewEnvelope_def)
  then have f: "RunID e = s_RunID s" "SequenceNumber e = s_NextSequence s"
      "EventType_of e = payload_EventType p" "PayloadRaw e = Some (enc_payload p)"
    by (auto simp: NewEnvelope_def)
  have adm: "admitted s e"
    using f d nt Fold_next_unseen [OF assms(1,3)] by (simp add: admitted_def)
  obtain n where n: "applyPayload blocks (start_event s e) p (OccurredAt e) = Inr n"
      "isTerminalStatus (s_Status n)" "s_Status n \<in> {StatusCompleted, StatusFailed}"
    using p(3) by (cases p) (auto simp: EventType_defs)
  have "Apply blocks s e = Inr (finish_event e n)"
    by (simp add: Apply_admitted [OF adm] DecodePayload_enc [OF p(2) f(3,4)] n(1))
  then have "Fold blocks (evs @ [e]) = Inr (finish_event e n)"
    by (intro Fold_appendI [OF assms(1)]) simp
  moreover have "s_NextAction (finish_event e n) = ActionNone"
    using n(2) derived_finish [of e n] by (simp add: derived_def computeNextAction_def)
  ultimately show ?thesis
    using p(1) e n(3) by (intro exI conjI) auto
qed


lemma sample_finish:
  "Fold sample_blocks (take 5 sample_log) = Inr (sample_state 5)"
  "s_NextAction (sample_state 5) = ActionFinishRun"
  by code_simp+

theorem TerminalPayload_finishes_witness:
  "\<exists>p. TerminalPayload (sample_state 5) = Some (Inr p)"
  using TerminalPayload_finishes [OF sample_finish] by (fastforce simp: sample_log_def)

end
