(* ===== verification/Digest.thy ===== *)
theory Digest
  imports Messages Go_Sha256
begin

text \<open>
  \<open>internal/replay\<close>, \<open>messages.go\<close>: the state digest. A state is projected to a struct, the struct is
  encoded, read back into an \<open>any\<close> and encoded again, so that the order of an object's members does not
  matter, and the text is hashed. Two things are kept free: \<open>sdk\<close>, the SDK's encoder of the messages,
  and \<open>num\<close>, what a number's literal turns into on its way through a \<open>float64\<close> (\<open>None\<close> when it is out of
  range).
\<close>

section \<open>Decoding into an any and encoding again\<close>

type_synonym number_text = "string \<Rightarrow> string option"

primrec any_of :: "number_text \<Rightarrow> json \<Rightarrow> json option" where
  "any_of num JNull = Some JNull"
| "any_of num (JBool b) = Some (JBool b)"
| "any_of num (JNum l) = map_option JNum (num l)"
| "any_of num (JStr s) = Some (JStr s)"
| "any_of num (JArr xs) = map_option JArr (those (map (any_of num) xs))"
| "any_of num (JObj ms) = map_option (\<lambda>ms. JObj (sort_key fst (keep_last ms)))
     (those (map (\<lambda>(k, v). map_option (Pair k) v) (map (map_prod id (any_of num)) ms)))"

text \<open>\<open>json.Marshal\<close> prints as \<open>json_text\<close> does, and escapes \<open><\<close>, \<open>>\<close> and \<open>&\<close> too.\<close>

definition html_char :: "char \<Rightarrow> string" where
  "html_char c = (if c \<in> {CHR 0x3C, CHR 0x3E, CHR 0x26}
     then [CHR 92, CHR ''u'', CHR ''0'', CHR ''0'', hex_digit (of_char c div 16), hex_digit (of_char c mod 16)]
     else [c])"

text \<open>Outside of strings a document has none of the three characters, so the whole text can be escaped.\<close>

definition Marshal_text :: "json \<Rightarrow> string" where
  "Marshal_text j = concat (map html_char (json_text j))"

definition unmarshal_any :: "number_text \<Rightarrow> json \<Rightarrow> goerror + json" where
  "unmarshal_any num j = (case any_of num j of None \<Rightarrow> Inl json_error | Some a \<Rightarrow> Inr a)"


section \<open>The digest\<close>

type_synonym message_encoder = "MessageParam list \<Rightarrow> goerror + json"

record digestView =
  dv_RunID :: string
  dv_TenantID :: string
  dv_Status :: RunStatus
  dv_CurrentStep :: int
  dv_MaxSteps :: int
  dv_NextSequence :: int
  dv_Messages :: "MessageParam list"
  dv_PendingToolCalls :: "ToolCall list"
  dv_InFlightTool :: "ToolCall option"
  dv_NextAction :: NextAction
  dv_FinalOutput :: string
  dv_Failure :: "RunFailedPayload option"
  dv_LastStepIsTerminal :: bool

definition enc_ToolCall :: "ToolCall \<Rightarrow> json" where
  "enc_ToolCall tc = JObj
    [(''ToolUseID'', JStr (tc_ToolUseID tc)), (''ToolName'', JStr (tc_ToolName tc)),
     (''ToolArgs'', enc_raw (tc_ToolArgs tc)), (''HasSideEffect'', JBool (tc_HasSideEffect tc)),
     (''IdempotencyKey'', enc_string_ptr (tc_IdempotencyKey tc)),
     (''InvokedAt'', enc_time (tc_InvokedAt tc))]"

text \<open>A nil slice is written as \<open>null\<close>.\<close>

definition enc_ToolCalls :: "ToolCall list \<Rightarrow> json" where
  "enc_ToolCalls tcs = (if tcs = [] then JNull else JArr (map enc_ToolCall tcs))"

definition enc_digestView :: "message_encoder \<Rightarrow> digestView \<Rightarrow> goerror + json" where
  "enc_digestView sdk v = (case sdk (dv_Messages v) of
     Inl err \<Rightarrow> Inl err
   | Inr msgs \<Rightarrow>
      if \<not> list_all (\<lambda>tc. json_year (tc_InvokedAt tc))
          (dv_PendingToolCalls v @ (case dv_InFlightTool v of None \<Rightarrow> [] | Some tc \<Rightarrow> [tc]))
      then Inl json_error
      else Inr (JObj
        [(''RunID'', JStr (dv_RunID v)), (''TenantID'', JStr (dv_TenantID v)),
         (''Status'', JStr (RunStatus_string (dv_Status v))), (''CurrentStep'', enc_int (dv_CurrentStep v)),
         (''MaxSteps'', enc_int (dv_MaxSteps v)), (''NextSequence'', enc_int (dv_NextSequence v)),
         (''Messages'', msgs), (''PendingToolCalls'', enc_ToolCalls (dv_PendingToolCalls v)),
         (''InFlightTool'', case dv_InFlightTool v of None \<Rightarrow> JNull | Some tc \<Rightarrow> enc_ToolCall tc),
         (''NextAction'', JStr (NextAction_string (dv_NextAction v))),
         (''FinalOutput'', JStr (dv_FinalOutput v)),
         (''Failure'', case dv_Failure v of None \<Rightarrow> JNull | Some p \<Rightarrow> enc_payload (PRunFailed p)),
         (''LastStepIsTerminal'', JBool (dv_LastStepIsTerminal v))]))"

definition canonicalize :: "number_text \<Rightarrow> message_encoder \<Rightarrow> digestView \<Rightarrow> goerror + string" where
  "canonicalize num sdk v = (case enc_digestView sdk v of
     Inl err \<Rightarrow> Inl (Errorw ''marshaling for canonicalization: '' err)
   | Inr b \<Rightarrow> (case unmarshal_any num b of
       Inl err \<Rightarrow> Inl (Errorw ''round-tripping through any: '' err)
     | Inr generic \<Rightarrow> Inr (Marshal_text generic)))"

definition normalizeToolCall :: "number_text \<Rightarrow> ToolCall \<Rightarrow> goerror + ToolCall" where
  "normalizeToolCall num tc = (case tc_ToolArgs tc of
     None \<Rightarrow> Inr tc
   | Some args \<Rightarrow> (case unmarshal_any num args of
       Inl err \<Rightarrow> Inl (Errorw (''normalizing tool_args for '' @ tc_ToolUseID tc @ '': '') err)
     | Inr generic \<Rightarrow> Inr (tc\<lparr>tc_ToolArgs := Some generic\<rparr>)))"

fun normalize_calls :: "number_text \<Rightarrow> ToolCall list \<Rightarrow> goerror + ToolCall list" where
  "normalize_calls num [] = Inr []"
| "normalize_calls num (tc # tcs) = (case normalizeToolCall num tc of
     Inl err \<Rightarrow> Inl (Errorw ''computing digest: '' err)
   | Inr normalized \<Rightarrow> map_sum id ((#) normalized) (normalize_calls num tcs))"

definition normalize_in_flight :: "number_text \<Rightarrow> ToolCall option \<Rightarrow> goerror + ToolCall option" where
  "normalize_in_flight num t = (case t of
     None \<Rightarrow> Inr None
   | Some tc \<Rightarrow> (case normalizeToolCall num tc of
       Inl err \<Rightarrow> Inl (Errorw ''computing digest: '' err)
     | Inr normalized \<Rightarrow> Inr (Some normalized)))"

definition RunState_Digest :: "number_text \<Rightarrow> message_encoder \<Rightarrow> RunState \<Rightarrow> goerror + string" where
  "RunState_Digest num sdk s = (case Messages s of
     Inl err \<Rightarrow> Inl (Errorw ''computing digest: '' err)
   | Inr msgs \<Rightarrow> (case normalize_calls num (s_PendingToolCalls s) of
       Inl err \<Rightarrow> Inl err
     | Inr pending \<Rightarrow> (case normalize_in_flight num (s_InFlightTool s) of
         Inl err \<Rightarrow> Inl err
       | Inr in_flight \<Rightarrow>
           (let view = \<lparr>dv_RunID = s_RunID s, dv_TenantID = s_TenantID s, dv_Status = s_Status s,
                 dv_CurrentStep = s_CurrentStep s, dv_MaxSteps = s_MaxSteps s,
                 dv_NextSequence = s_NextSequence s, dv_Messages = msgs,
                 dv_PendingToolCalls = pending, dv_InFlightTool = in_flight,
                 dv_NextAction = s_NextAction s, dv_FinalOutput = s_FinalOutput s,
                 dv_Failure = s_Failure s, dv_LastStepIsTerminal = lastStepIsTerminal s\<rparr>
            in (case canonicalize num sdk view of
                Inl err \<Rightarrow> Inl (Errorw ''computing digest: '' err)
              | Inr canonical \<Rightarrow> Inr (sha256_hex canonical))))))"

end
