(* ===== verification/Agent_Loop.thy ===== *)
theory Agent_Loop
  imports Guard Digest
begin

text \<open>
  \<open>internal/agent\<close>, \<open>loop.go\<close>, \<open>types.go\<close> and \<open>llmclient.go\<close>: the loop that drives a run by its folded
  state, publishing every step before acting on it. The model client, the event publisher, the fence and
  the log are interfaces, as in the code; a Go panic ends the process with status 2.
\<close>

section \<open>Interfaces and configuration\<close>

record Task =
  tk_Prompt :: string

text \<open>\<open>agent.Outcome\<close>.\<close>

record RunOutcome =
  ro_Terminal :: bool
  ro_MaxStepsExceeded :: bool
  ro_Steps :: int
  ro_FinalText :: string
  ro_Truncated :: bool
  ro_Failed :: bool

definition RunOutcome_zero :: RunOutcome where
  "RunOutcome_zero = \<lparr>ro_Terminal = False, ro_MaxStepsExceeded = False, ro_Steps = 0, ro_FinalText = [],
     ro_Truncated = False, ro_Failed = False\<rparr>"

definition systemPrompt :: string where
  "systemPrompt = ''You are a repo-maintenance agent. Use the available tools to complete the user's task, step by step. When the task is complete, respond with a final summary and do not call any more tools.''"

definition ErrPublishFailed :: goerror where
  "ErrPublishFailed = errors_New SPublishFailed ''publishing event: retries exhausted after all attempts''"

definition publishMaxAttempts :: nat where "publishMaxAttempts = 5"
definition publishInitialBackoff :: duration where "publishInitialBackoff = 200 * Millisecond"
definition publishMaxBackoff :: duration where "publishMaxBackoff = 2 * Second"

definition noCrashInjection :: int where "noCrashInjection = -1"

definition StopReasonToolUse :: string where "StopReasonToolUse = ''tool_use''"

record MessageNewParams =
  mp_Model :: string
  mp_MaxTokens :: int
  mp_System :: string
  mp_Messages :: "MessageParam list"
  mp_Tools :: "(string \<times> string \<times> json \<times> string list) list"

text \<open>
  What the loop reads of a response: the bytes of each content block (\<open>RawJSON\<close>) and the stop reason. What it
  asks of a failed call: its text, the status code if an \<open>anthropic.Error\<close> is on its chain, and whether a
  \<open>net.Error\<close> is.
\<close>

record Message =
  msg_Content :: "raw list"
  msg_StopReason :: string

record llm_error =
  ll_err :: goerror
  ll_StatusCode :: "int option"
  ll_NetError :: bool

type_synonym 's LLMClient = "ctx \<Rightarrow> MessageNewParams \<Rightarrow> ('s, llm_error + Message option) prog"

type_synonym 's EventPublisher = "ctx \<Rightarrow> Envelope \<Rightarrow> ('s, goerror + unit) prog"

type_synonym 's Fence = "ctx \<Rightarrow> Invocation \<Rightarrow> ToolCall \<Rightarrow> 's Tool \<Rightarrow> ('s, goerror + Outcome) prog"

record 's JournalConfig =
  jc_Publisher :: "'s EventPublisher"
  jc_RunID :: string
  jc_TenantID :: string
  jc_WorkloadType :: string
  jc_CrashAfterSeq :: int

definition NewJournalConfig :: "'s EventPublisher \<Rightarrow> string \<Rightarrow> string \<Rightarrow> string \<Rightarrow> 's JournalConfig" where
  "NewJournalConfig publisher runID tenantID workloadType = \<lparr>jc_Publisher = publisher, jc_RunID = runID,
     jc_TenantID = tenantID, jc_WorkloadType = workloadType, jc_CrashAfterSeq = noCrashInjection\<rparr>"

text \<open>
  A \<open>Loop\<close>, with the process environment it runs in: the clock and timers, the SDK's decoder of content
  blocks and encoder of messages, and the number conversion of \<open>encoding/json\<close>.
\<close>

record 's Loop =
  lp_llm :: "'s LLMClient"
  lp_registry :: "'s Registry"
  lp_model :: string
  lp_maxTokens :: int
  lp_maxSteps :: int
  lp_out :: "string \<Rightarrow> ('s, unit) prog"
  lp_journal :: "'s JournalConfig"
  lp_fence :: "'s Fence option"
  lp_rt :: "'s runtime"
  lp_blocks :: block_decoder
  lp_sdk :: message_encoder
  lp_num :: number_text

definition go_panic :: "('s, 'a) prog" where "go_panic = phalt 2"

definition NewLoop :: "'s runtime \<Rightarrow> block_decoder \<Rightarrow> message_encoder \<Rightarrow> number_text \<Rightarrow> 's LLMClient \<Rightarrow> 's Registry
    \<Rightarrow> string \<Rightarrow> int \<Rightarrow> int \<Rightarrow> (string \<Rightarrow> ('s, unit) prog) \<Rightarrow> 's JournalConfig \<Rightarrow> 's Fence option \<Rightarrow> ('s, 's Loop) prog" where
  "NewLoop rt blocks sdk num llm registry model maxTokens maxSteps out journal fence =
     (if maxSteps \<le> 0 then go_panic
      else preturn \<lparr>lp_llm = llm, lp_registry = registry, lp_model = model, lp_maxTokens = maxTokens,
        lp_maxSteps = maxSteps, lp_out = out, lp_journal = journal, lp_fence = fence,
        lp_rt = rt, lp_blocks = blocks, lp_sdk = sdk, lp_num = num\<rparr>)"

text \<open>The production client, over the SDK's \<open>Messages.New\<close>.\<close>

definition anthropic_CreateMessage ::
  "(ctx \<Rightarrow> MessageNewParams \<Rightarrow> ('s, llm_error + Message option) prog) \<Rightarrow> 's LLMClient" where
  "anthropic_CreateMessage messages_New ctx params = pbind (messages_New ctx params) (\<lambda>r. case r of
     Inl e \<Rightarrow> preturn (Inl (e\<lparr>ll_err := Errorw ''calling anthropic messages api: '' (ll_err e)\<rparr>))
   | Inr msg \<Rightarrow> preturn (Inr msg))"


section \<open>Publishing\<close>

text \<open>\<open>left\<close> counts the attempts after this one.\<close>

primrec publish_loop :: "'s Loop \<Rightarrow> ctx \<Rightarrow> Envelope \<Rightarrow> nat \<Rightarrow> duration \<Rightarrow> ('s, goerror + unit) prog" where
  "publish_loop l ctx env 0 = (\<lambda>backoff. jc_Publisher (lp_journal l) ctx env)"
| "publish_loop l ctx env (Suc left) = (\<lambda>backoff.
     pbind (jc_Publisher (lp_journal l) ctx env) (\<lambda>r. case r of
       Inr _ \<Rightarrow> preturn (Inr ())
     | Inl _ \<Rightarrow> pbind (rt_Sleep (lp_rt l) ctx backoff) (\<lambda>slept. case slept of
         Inl ctxErr \<Rightarrow> preturn (Inl ctxErr)
       | Inr _ \<Rightarrow> publish_loop l ctx env left
           (if backoff * 2 > publishMaxBackoff then publishMaxBackoff else backoff * 2))))"

definition publishWithRetry :: "'s Loop \<Rightarrow> ctx \<Rightarrow> Envelope \<Rightarrow> ('s, goerror + unit) prog" where
  "publishWithRetry l ctx env = publish_loop l ctx env (publishMaxAttempts - 1) publishInitialBackoff"

definition log_line :: "Envelope \<Rightarrow> RunState \<Rightarrow> string \<Rightarrow> string" where
  "log_line env s digest = ''seq='' @ show_int (SequenceNumber env) @ '' event='' @ EventType_of env
     @ '' step='' @ show_int (s_CurrentStep s) @ '' next_action='' @ NextAction_string (s_NextAction s)
     @ '' state_digest='' @ digest @ [CHR 0x0A]"

definition at_seq :: "Payload \<Rightarrow> Envelope \<Rightarrow> string" where
  "at_seq payload env = payload_EventType payload @ '' (seq '' @ show_int (SequenceNumber env) @ '')''"

definition publishApplyPrint :: "'s Loop \<Rightarrow> ctx \<Rightarrow> RunState \<Rightarrow> Payload \<Rightarrow> ('s, goerror + RunState) prog" where
  "publishApplyPrint l ctx state payload =
     pbind (rt_Now (lp_rt l)) (\<lambda>now.
     pbind (rt_UUID (lp_rt l)) (\<lambda>uuid.
     case NewEnvelope uuid (jc_RunID (lp_journal l)) (jc_TenantID (lp_journal l)) (s_NextSequence state) payload now of
       Inl err \<Rightarrow> preturn (Inl (Errorw (''building envelope for '' @ payload_EventType payload @ '': '') err))
     | Inr env0 \<Rightarrow>
       let env = (case payload of PToolInvoked p \<Rightarrow> env0\<lparr>IdempotencyKey := ti_IdempotencyKey p\<rparr> | _ \<Rightarrow> env0) in
       pbind (publishWithRetry l ctx env) (\<lambda>r. case r of
         Inl err \<Rightarrow> preturn (Inl (Errorw (''publishing '' @ at_seq payload env @ '': '')
           (Errorws ErrPublishFailed ('': '' @ err_msg err))))
       | Inr _ \<Rightarrow> (case Apply (lp_blocks l) state env of
           Inl err \<Rightarrow> preturn (Inl (Errorw (''applying '' @ at_seq payload env @ '' to state: '') err))
         | Inr new \<Rightarrow>
           if jc_CrashAfterSeq (lp_journal l) \<noteq> noCrashInjection
             \<and> SequenceNumber env = jc_CrashAfterSeq (lp_journal l) then phalt 137
           else (case RunState_Digest (lp_num l) (lp_sdk l) new of
             Inl err \<Rightarrow> preturn (Inl (Errorw (''computing digest after '' @ at_seq payload env @ '': '') err))
           | Inr digest \<Rightarrow> pbind (lp_out l (log_line env new digest)) (\<lambda>_. preturn (Inr new)))))))"


section \<open>The steps\<close>

definition isRetryableLLMError :: "llm_error \<Rightarrow> bool" where
  "isRetryableLLMError e = (case ll_StatusCode e of
     Some code \<Rightarrow> code = 429 \<or> code \<ge> 500
   | None \<Rightarrow> ll_NetError e)"

text \<open>A block without valid bytes makes the encoding of the array fail.\<close>

definition marshalContentVerbatim :: "raw list \<Rightarrow> goerror + raw" where
  "marshalContentVerbatim content = (case those content of
     None \<Rightarrow> Inl json_error
   | Some blocks \<Rightarrow> Inr (Some (JArr blocks)))"

definition next_step :: "RunState \<Rightarrow> int" where
  "next_step state = wrap64 (s_CurrentStep state + 1)"

definition callLLMAndJournal :: "'s Loop \<Rightarrow> ctx \<Rightarrow> RunState \<Rightarrow> ('s, goerror + RunState) prog" where
  "callLLMAndJournal l ctx state = (case Messages state of
     Inl err \<Rightarrow> preturn (Inl (Errorw ''computing messages from state: '' err))
   | Inr messages \<Rightarrow>
     pbind (lp_llm l ctx \<lparr>mp_Model = lp_model l, mp_MaxTokens = lp_maxTokens l, mp_System = systemPrompt,
         mp_Messages = messages, mp_Tools = Definitions (lp_registry l)\<rparr>) (\<lambda>r. case r of
       Inl callErr \<Rightarrow>
         pbindE (publishApplyPrint l ctx state (PRunFailed \<lparr>rf_Step = s_CurrentStep state,
             rf_ErrorClass = ''llm_call_failed'', rf_ErrorMessage = err_msg (ll_err callErr),
             rf_Retryable = isRetryableLLMError callErr\<rparr>)) (\<lambda>_.
         preturn (Inl (Errorw (''step '' @ show_int (next_step state) @ '': calling llm: '') (ll_err callErr))))
     | Inr None \<Rightarrow> preturn (Inl (Errorf (''step '' @ show_int (next_step state)
         @ '': llm returned a nil response with no error'')))
     | Inr (Some resp) \<Rightarrow> (case marshalContentVerbatim (msg_Content resp) of
         Inl err \<Rightarrow> preturn (Inl (Errorw ''marshaling llm response content: '' err))
       | Inr contentJSON \<Rightarrow> publishApplyPrint l ctx state (PLLMResponded \<lparr>lr_Step = next_step state,
           lr_StopReason = msg_StopReason resp, lr_Content = contentJSON,
           lr_IsTerminal = (msg_StopReason resp \<noteq> StopReasonToolUse)\<rparr>))))"

definition finish_outcome :: "RunState \<Rightarrow> RunState \<Rightarrow> Payload \<Rightarrow> RunOutcome" where
  "finish_outcome state final payload = (let outcome = RunOutcome_zero\<lparr>ro_Steps := s_CurrentStep final\<rparr> in
     case payload of
       PRunCompleted p \<Rightarrow> outcome\<lparr>ro_Terminal := True, ro_FinalText := rc_FinalOutput p\<rparr>
     | PRunFailed p \<Rightarrow>
         (if rf_ErrorClass p = ''llm_output_truncated''
          then outcome\<lparr>ro_Failed := True, ro_Truncated := True, ro_FinalText := LastStepText state\<rparr>
          else outcome\<lparr>ro_Failed := True\<rparr>)
     | _ \<Rightarrow> outcome)"

definition finishRun :: "'s Loop \<Rightarrow> ctx \<Rightarrow> RunState \<Rightarrow> ('s, goerror + RunOutcome) prog" where
  "finishRun l ctx state = (case TerminalPayload state of
     None \<Rightarrow> go_panic
   | Some (Inl err) \<Rightarrow> preturn (Inl (Errorw ''finishing run: '' err))
   | Some (Inr payload) \<Rightarrow> pbindE (publishApplyPrint l ctx state payload) (\<lambda>final.
       preturn (Inr (finish_outcome state final payload))))"

definition failMaxSteps :: "'s Loop \<Rightarrow> ctx \<Rightarrow> RunState \<Rightarrow> ('s, goerror + RunOutcome) prog" where
  "failMaxSteps l ctx state = pbindE (publishApplyPrint l ctx state (PRunFailed \<lparr>rf_Step = s_CurrentStep state,
       rf_ErrorClass = ''max_steps_exceeded'', rf_ErrorMessage = ''exceeded max_steps='' @ show_int (s_MaxSteps state)
         @ '' without reaching a terminal state'', rf_Retryable = False\<rparr>)) (\<lambda>final.
     preturn (Inr (RunOutcome_zero\<lparr>ro_MaxStepsExceeded := True, ro_Failed := True, ro_Steps := s_CurrentStep final\<rparr>)))"

text \<open>The tool steps return a state to go on from, and an outcome when the run is over.\<close>

type_synonym step_result = "RunState \<times> RunOutcome option"

definition failRun :: "'s Loop \<Rightarrow> ctx \<Rightarrow> RunState \<Rightarrow> string \<Rightarrow> string \<Rightarrow> ('s, goerror + step_result) prog" where
  "failRun l ctx state errorClass message = pbindE (publishApplyPrint l ctx state (PRunFailed
       \<lparr>rf_Step = s_CurrentStep state, rf_ErrorClass = errorClass, rf_ErrorMessage = message, rf_Retryable = False\<rparr>))
     (\<lambda>final. preturn (Inr (final, Some (RunOutcome_zero\<lparr>ro_Failed := True, ro_Steps := s_CurrentStep final\<rparr>))))"

definition journalToolResult :: "'s Loop \<Rightarrow> ctx \<Rightarrow> RunState \<Rightarrow> ToolCall \<Rightarrow> Outcome \<Rightarrow> ('s, goerror + step_result) prog" where
  "journalToolResult l ctx state call oc = pbindE (publishApplyPrint l ctx state (PToolResulted
       \<lparr>tr_Step = s_CurrentStep state, tr_ToolUseID = tc_ToolUseID call, tr_ToolName = tc_ToolName call,
        tr_Result = oc_Result oc, tr_Status = oc_Status oc,
        tr_WasReplayedFromCache = (oc_Resolution oc = ResolutionCached), tr_Resolution = oc_Resolution oc\<rparr>))
     (\<lambda>new. preturn (Inr (new, None)))"

definition executeUnfenced :: "'s Loop \<Rightarrow> ctx \<Rightarrow> RunState \<Rightarrow> ToolCall \<Rightarrow> Invocation \<Rightarrow> 's Tool option
    \<Rightarrow> ('s, goerror + step_result) prog" where
  "executeUnfenced l ctx state call invo found =
     pbind (case found of
         None \<Rightarrow> preturn (''error: unknown tool '' @ go_quote (tc_ToolName call), ''error'')
       | Some tool \<Rightarrow> pbind (t_Execute tool ctx invo (tc_ToolArgs call)) (\<lambda>r. preturn (case r of
           Inl execErr \<Rightarrow> (''error: '' @ err_msg execErr, ''error'')
         | Inr result \<Rightarrow> (result, ''success'')))) (\<lambda>(result, status).
     journalToolResult l ctx state call
       \<lparr>oc_Result = result, oc_Status = status, oc_Resolution = ResolutionExecuted\<rparr>)"

definition executeFenced :: "'s Loop \<Rightarrow> ctx \<Rightarrow> RunState \<Rightarrow> ToolCall \<Rightarrow> Invocation \<Rightarrow> 's Tool \<Rightarrow> 's Fence
    \<Rightarrow> ('s, goerror + step_result) prog" where
  "executeFenced l ctx state call invo tool fence =
     pbind (fence ctx invo call tool) (\<lambda>r. case r of
       Inl err \<Rightarrow>
         if errors_Is err SUnresolvable then failRun l ctx state ''unresolved_side_effect'' (err_msg err)
         else if errors_Is err SRecordMismatch then failRun l ctx state ''idempotency_record_mismatch'' (err_msg err)
         else preturn (Inl (Errorw (''running side-effecting tool '' @ go_quote (tc_ToolName call) @ '': '') err))
     | Inr oc \<Rightarrow> journalToolResult l ctx state call oc)"

definition call_invocation :: "'s Loop \<Rightarrow> RunState \<Rightarrow> ToolCall \<Rightarrow> Invocation" where
  "call_invocation l state call = \<lparr>iv_RunID = jc_RunID (lp_journal l), iv_Step = s_CurrentStep state,
     iv_ToolUseID = tc_ToolUseID call, iv_IdempotencyKey = tc_IdempotencyKey call\<rparr>"

definition runInFlightTool :: "'s Loop \<Rightarrow> ctx \<Rightarrow> RunState \<Rightarrow> ('s, goerror + step_result) prog" where
  "runInFlightTool l ctx state = (case s_InFlightTool state of
     None \<Rightarrow> go_panic
   | Some call \<Rightarrow>
     let found = Lookup (lp_registry l) (tc_ToolName call); invo = call_invocation l state call in
     if \<not> tc_HasSideEffect call then executeUnfenced l ctx state call invo found
     else (case found of
       None \<Rightarrow> failRun l ctx state ''unresolved_side_effect'' (''tool '' @ go_quote (tc_ToolName call)
         @ '' (tool_use_id='' @ tc_ToolUseID call
         @ '') was journaled with has_side_effect=true but is not registered, so whether it ran cannot be checked'')
     | Some tool \<Rightarrow>
       if tc_IdempotencyKey call = None
       then failRun l ctx state ''unresolved_side_effect'' (''tool '' @ go_quote (tc_ToolName call)
         @ '' (tool_use_id='' @ tc_ToolUseID call
         @ '') has a side effect but its ToolInvoked has no idempotency key, so whether it ran cannot be checked'')
       else (case lp_fence l of
         None \<Rightarrow> preturn (Inl (Errorf (''running side-effecting tool '' @ go_quote (tc_ToolName call)
           @ '': no idempotency fence configured'')))
       | Some fence \<Rightarrow> executeFenced l ctx state call invo tool fence)))"

definition invokeToolAndJournal :: "'s Loop \<Rightarrow> ctx \<Rightarrow> RunState \<Rightarrow> ('s, goerror + step_result) prog" where
  "invokeToolAndJournal l ctx state = (case s_PendingToolCalls state of
     [] \<Rightarrow> go_panic
   | call # _ \<Rightarrow>
     let hasSideEffect = (case Lookup (lp_registry l) (tc_ToolName call) of
           None \<Rightarrow> False | Some tool \<Rightarrow> t_HasSideEffect tool);
         key = (if hasSideEffect then Some (Key (jc_RunID (lp_journal l)) (s_CurrentStep state) (tc_ToolUseID call))
           else None)
     in pbindE (publishApplyPrint l ctx state (PToolInvoked
          \<lparr>ti_Step = s_CurrentStep state, ti_ToolUseID = tc_ToolUseID call, ti_ToolName = tc_ToolName call,
           ti_ToolArgs = tc_ToolArgs call, ti_IdempotencyKey = key, ti_HasSideEffect = hasSideEffect\<rparr>)) (\<lambda>state.
        runInFlightTool l ctx state))"


section \<open>Driving a run\<close>

text \<open>One round of the loop per unit of fuel.\<close>

primrec drive :: "nat \<Rightarrow> 's Loop \<Rightarrow> ctx \<Rightarrow> RunState \<Rightarrow> ('s, goerror + RunOutcome) prog" where
  "drive 0 l ctx state = pstuck"
| "drive (Suc fuel) l ctx state =
     (let go_on = (\<lambda>(state, finished). case finished of
            Some outcome \<Rightarrow> preturn (Inr outcome) | None \<Rightarrow> drive fuel l ctx state) in
      case s_NextAction state of
        ActionCallLLM \<Rightarrow> pbindE (callLLMAndJournal l ctx state) (drive fuel l ctx)
      | ActionExecuteTool \<Rightarrow> pbindE (invokeToolAndJournal l ctx state) go_on
      | ActionResolveInFlightTool \<Rightarrow> pbindE (runInFlightTool l ctx state) go_on
      | ActionFinishRun \<Rightarrow> finishRun l ctx state
      | ActionFailMaxSteps \<Rightarrow> failMaxSteps l ctx state
      | a \<Rightarrow> preturn (Inl (Errorf (''run: state produced unexpected next_action='' @ NextAction_string a))))"

definition Loop_Run :: "nat \<Rightarrow> 's Loop \<Rightarrow> ctx \<Rightarrow> Task \<Rightarrow> ('s, goerror + RunOutcome) prog" where
  "Loop_Run fuel l ctx task =
     pbindE (publishApplyPrint l ctx RunState_zero (PRunStarted \<lparr>rs_WorkloadType = jc_WorkloadType (lp_journal l),
         rs_Input = Some (JObj [(''prompt'', JStr (tk_Prompt task))]), rs_MaxSteps = lp_maxSteps l\<rparr>))
       (drive fuel l ctx)"

definition Resume :: "nat \<Rightarrow> 's Loop \<Rightarrow> ctx \<Rightarrow> RunState \<Rightarrow> ('s, goerror + RunOutcome) prog" where
  "Resume fuel l ctx state = drive fuel l ctx state"

end
