(* ===== verification/Sim_World.thy ===== *)
theory Sim_World
  imports Fence Agent_Loop
begin

text \<open>
  A concrete world for the fence and the loop to run in: a Redis server with expiring keys, a ledger file, the
  event topic with its partitions, a model that answers from a script, a clock, and an adversary. The
  adversary's schedule decides, call by call, how much time passes, whether a call is refused, takes effect
  but loses its reply, writes garbage, or the process is killed before or after it. The Redis client and the
  operating system behave here as they are documented to.
\<close>

section \<open>The world\<close>

datatype mishap = Smooth | Refuse | LoseReply | Garble | KillBefore | KillAfter

record world =
  w_now :: gotime
  w_fresh :: nat
  w_env :: "string \<Rightarrow> string"
  w_pid :: nat
  w_files :: "string \<Rightarrow> fline list option"
  w_redis :: "string \<Rightarrow> (raw \<times> gotime) option"
  w_out :: "string list"
  w_schedule :: "(mishap \<times> nat \<times> nat) list"
  w_topic :: "nat \<Rightarrow> (string \<times> json) list"
  w_reader :: "nat \<Rightarrow> int"
  w_model :: "(int option + Message) list"

definition tick :: "nat \<Rightarrow> world \<Rightarrow> world" where
  "tick n w = w\<lparr>w_now := w_now w + int n\<rparr>"

definition next_event :: "world \<Rightarrow> (mishap \<times> nat \<times> nat) \<times> world" where
  "next_event w = (case w_schedule w of
     [] \<Rightarrow> ((Smooth, 0, 0), w) | e # es \<Rightarrow> (e, w\<lparr>w_schedule := es\<rparr>))"

text \<open>
  A call out of the process: what it does and answers, what a refused call and a lost reply look like to
  the caller, and what the call leaves behind when it is garbled.
\<close>

definition external :: "(world \<Rightarrow> 'a \<times> world) \<Rightarrow> 'a \<Rightarrow> 'a \<Rightarrow> (world \<Rightarrow> world) \<Rightarrow> (world, 'a) prog" where
  "external act refused lost garbled w = (case next_event w of ((m, lead, lag), w0) \<Rightarrow>
     let w1 = tick lead w0; (res, w2) = act w1 in
     case m of
       Smooth \<Rightarrow> (Done res, tick lag w2)
     | Refuse \<Rightarrow> (Done refused, tick lag w1)
     | LoseReply \<Rightarrow> (Done lost, tick lag w2)
     | Garble \<Rightarrow> (Done lost, tick lag (garbled w1))
     | KillBefore \<Rightarrow> (Halt 137, w1)
     | KillAfter \<Rightarrow> (Halt 137, tick lag w2))"

text \<open>A step inside the process: it cannot fail, but time passes and the process may be killed.\<close>

definition internal :: "(world \<Rightarrow> 'a \<times> world) \<Rightarrow> (world, 'a) prog" where
  "internal act w = (case next_event w of ((m, lead, lag), w0) \<Rightarrow>
     let w1 = tick lead w0; (res, w2) = act w1 in
     if m = KillBefore then (Halt 137, w1)
     else if m = KillAfter then (Halt 137, tick lag w2)
     else (Done res, tick lag w2))"


section \<open>Clock, contexts, files\<close>

definition token :: "nat \<Rightarrow> string" where
  "token n = ''token-'' @ show_int (int n)"

fun earliest :: "ctx \<Rightarrow> gotime option" where
  "earliest Background = None"
| "earliest (Deadline t c) = (case earliest c of None \<Rightarrow> Some t | Some u \<Rightarrow> Some (min t u))"

definition ctx_canceled :: goerror where
  "ctx_canceled = errors_New SContextCanceled ''context canceled''"

definition ctx_deadline :: goerror where
  "ctx_deadline = errors_New SContextDeadline ''context deadline exceeded''"

definition io_error :: goerror where "io_error = Errorf ''i/o timeout''"

definition not_exist :: goerror where "not_exist = errors_New SNotExist ''file does not exist''"

definition sim_Err :: "ctx \<Rightarrow> (world, goerror + unit) prog" where
  "sim_Err c = external (\<lambda>w. (case earliest c of
       None \<Rightarrow> Inr () | Some t \<Rightarrow> if t \<le> w_now w then Inl ctx_deadline else Inr (), w))
     (Inl ctx_canceled) (Inl ctx_canceled) (\<lambda>w. w)"

definition sim_Sleep :: "ctx \<Rightarrow> duration \<Rightarrow> (world, goerror + unit) prog" where
  "sim_Sleep c d = external (\<lambda>w. (case earliest c of
       None \<Rightarrow> (Inr (), tick (nat d) w)
     | Some t \<Rightarrow> if t < w_now w + d then (Inl ctx_deadline, tick (nat (t - w_now w)) w)
         else (Inr (), tick (nat d) w)))
     (Inl ctx_canceled) (Inl ctx_canceled) (\<lambda>w. w)"

definition sim_append :: "string \<Rightarrow> fline \<Rightarrow> world \<Rightarrow> world" where
  "sim_append p l w = w\<lparr>w_files := (w_files w)(p \<mapsto>
     (case w_files w p of None \<Rightarrow> [] | Some ls \<Rightarrow> ls) @ [l])\<rparr>"

definition sim_open :: "string \<Rightarrow> world \<Rightarrow> world" where
  "sim_open p w = (case w_files w p of None \<Rightarrow> w\<lparr>w_files := (w_files w)(p \<mapsto> [])\<rparr> | Some _ \<Rightarrow> w)"

definition sim_runtime :: "world runtime" where
  "sim_runtime = \<lparr>
     rt_Now = internal (\<lambda>w. (w_now w, w)),
     rt_UUID = internal (\<lambda>w. (token (w_fresh w), w\<lparr>w_fresh := w_fresh w + 1\<rparr>)),
     rt_Err = sim_Err, rt_Sleep = sim_Sleep,
     rt_Getenv = (\<lambda>n. internal (\<lambda>w. (w_env w n, w))),
     rt_Getpid = internal (\<lambda>w. (int (w_pid w mod 4194304), w)),
     rt_MkdirAll = (\<lambda>d. external (\<lambda>w. (Inr (), w)) (Inl io_error) (Inl io_error) (\<lambda>w. w)),
     rt_OpenAppend = (\<lambda>p. external (\<lambda>w. (Inr (), sim_open p w)) (Inl io_error) (Inl io_error) (\<lambda>w. w)),
     rt_Write = (\<lambda>p j. external (\<lambda>w. (Inr (), sim_append p (DocLine (Some j)) w))
       (Inl (0, io_error)) (Inl (1, io_error)) (sim_append p (DocLine None))),
     rt_Sync = (\<lambda>p. external (\<lambda>w. (Inr (), w)) (Inl io_error) (Inl io_error) (\<lambda>w. w)),
     rt_Close = (\<lambda>p. external (\<lambda>w. (Inr (), w)) (Inl io_error) (Inl io_error) (\<lambda>w. w)),
     rt_ReadFile = (\<lambda>p. external (\<lambda>w. (case w_files w p of None \<Rightarrow> Inl not_exist | Some ls \<Rightarrow> Inr ls, w))
       (Inl io_error) (Inl io_error) (\<lambda>w. w))\<rparr>"


section \<open>The Redis server\<close>

definition redisNil :: goerror where "redisNil = errors_New SRedisNil ''redis: nil''"

definition redis_live :: "world \<Rightarrow> string \<Rightarrow> raw option" where
  "redis_live w k = (case w_redis w k of
     None \<Rightarrow> None | Some (b, e) \<Rightarrow> if e \<le> w_now w then None else Some b)"

definition redis_set :: "string \<Rightarrow> json \<Rightarrow> duration \<Rightarrow> world \<Rightarrow> world" where
  "redis_set k v ttl w = w\<lparr>w_redis := (w_redis w)(k \<mapsto> (Some v, w_now w + ttl))\<rparr>"

text \<open>The client sends a TTL in whole milliseconds.\<close>

definition sim_redis :: "world redis_client" where
  "sim_redis = \<lparr>
     rd_SetNXGet = (\<lambda>c k v ttl. external (\<lambda>w. case redis_live w k of
         Some b \<Rightarrow> (Inr b, w)
       | None \<Rightarrow> (Inl redisNil, redis_set k v (ttl div Millisecond * Millisecond) w))
       (Inl io_error) (Inl io_error) (\<lambda>w. w)),
     rd_Get = (\<lambda>c k. external (\<lambda>w. (case redis_live w k of
         Some b \<Rightarrow> Inr b | None \<Rightarrow> Inl redisNil, w)) (Inl io_error) (Inl io_error) (\<lambda>w. w)),
     rd_Run = (\<lambda>c script k tok v ttl. external (\<lambda>w. case script (redis_live w k) tok v ttl of
         (n, None) \<Rightarrow> (Inr n, w)
       | (n, Some (v, secs)) \<Rightarrow> (Inr n, redis_set k v (secs * Second) w))
       (Inl io_error) (Inl io_error) (\<lambda>w. w))\<rparr>"


section \<open>The guard in the world\<close>

text \<open>A guard as \<open>NewGuard\<close> builds it for the worker: Redis store, log on standard output.\<close>

definition sim_Stdout :: "string \<Rightarrow> (world, unit) prog" where
  "sim_Stdout txtline = internal (\<lambda>w. ((), w\<lparr>w_out := w_out w @ [txtline]\<rparr>))"

definition sim_guard :: "duration \<Rightarrow> duration \<Rightarrow> duration \<Rightarrow> CrashHook \<Rightarrow> world Guard" where
  "sim_guard toolTimeout grace ttl crash =
     \<lparr>g_rt = sim_runtime, g_store = RedisStore sim_redis ttl, g_ToolTimeout = toolTimeout,
      g_StaleGrace = grace, g_TTL = ttl,
      g_Out = sim_Stdout,
      g_Crash = crash, g_Now = rt_Now sim_runtime, g_Sleep = sim_Sleep, g_claimedBy = ''worker-1''\<rparr>"

text \<open>The entries recorded under a key, in the ledger at a path.\<close>

definition line_key :: "fline \<Rightarrow> string option" where
  "line_key l = (case l of
     DocLine d \<Rightarrow> (case Unmarshal LedgerEntry_fields d LedgerEntry_zero of
        Inl _ \<Rightarrow> None | Inr e \<Rightarrow> Some (le_IdempotencyKey e))
   | _ \<Rightarrow> None)"

definition effects_under :: "string \<Rightarrow> string \<Rightarrow> world \<Rightarrow> nat" where
  "effects_under path key w = length (filter (\<lambda>l. line_key l = Some key)
     (case w_files w path of None \<Rightarrow> [] | Some ls \<Rightarrow> ls))"

definition decoded :: "raw \<Rightarrow> IdemRecord option" where
  "decoded b = (case decodeRecord b of Inl _ \<Rightarrow> None | Inr rec \<Rightarrow> Some rec)"

definition sim_view :: "string \<Rightarrow> string \<Rightarrow> world \<Rightarrow> fview" where
  "sim_view path key w = \<lparr>fv_key = map_option (\<lambda>(b, e). (decoded b, e)) (w_redis w key),
     fv_effects = effects_under path key w, fv_clock = w_now w, fv_issued = token ` {..<w_fresh w}\<rparr>"


section \<open>The world keeps the contracts\<close>

lemma next_event_view: "next_event w = (e, w0) \<Longrightarrow> sim_view path key w0 = sim_view path key w"
  by (auto simp: next_event_def sim_view_def effects_under_def split: list.splits)

lemma tick_view:
  "fv_key (sim_view path key (tick n w)) = fv_key (sim_view path key w)"
  "fv_effects (sim_view path key (tick n w)) = fv_effects (sim_view path key w)"
  "fv_clock (sim_view path key (tick n w)) = fv_clock (sim_view path key w) + int n"
  "fv_issued (sim_view path key (tick n w)) = fv_issued (sim_view path key w)"
  by (simp_all add: sim_view_def effects_under_def tick_def)

lemma tick_calm: "calm (sim_view path key w) (sim_view path key (tick n w))"
  by (simp add: calm_def later_def tick_view)

text \<open>The shape of every call out of the process.\<close>

lemma external_cases:
  assumes "external act refused lost garbled w = (x, w')"
  obtains (idle) w1 where "calm (sim_view path key w) (sim_view path key w1)"
      "x = Done refused \<or> x = Halt 137"
      "calm (sim_view path key w1) (sim_view path key w')" "w_now w \<le> w_now w1"
  | (acts) w1 res w2 where "calm (sim_view path key w) (sim_view path key w1)" "act w1 = (res, w2)"
      "calm (sim_view path key w2) (sim_view path key w')" "x = Done res \<or> x = Done lost \<or> x = Halt 137"
  | (garbles) w1 where "calm (sim_view path key w) (sim_view path key w1)"
      "calm (sim_view path key (garbled w1)) (sim_view path key w')" "x = Done lost"
proof -
  obtain m lead lag w0 where n: "next_event w = ((m, lead, lag), w0)"
    by (cases "next_event w") auto
  let ?w1 = "tick lead w0"
  obtain res w2 where a: "act ?w1 = (res, w2)" by fastforce
  have c1: "calm (sim_view path key w) (sim_view path key ?w1)"
    using tick_calm next_event_view [OF n] by metis
  have le: "w_now w \<le> w_now ?w1" using n by (auto simp: next_event_def tick_def split: list.splits)
  show ?thesis
    using assms n a c1 le idle [OF c1] acts [OF c1 a] garbles [OF c1]
    by (cases m) (auto simp: external_def tick_calm)
qed

lemma internal_cases:
  assumes "internal act w = (x, w')"
  obtains (killed) "calm (sim_view path key w) (sim_view path key w')" "x = Halt 137"
  | (acts) w1 res w2 where "calm (sim_view path key w) (sim_view path key w1)" "act w1 = (res, w2)"
      "calm (sim_view path key w2) (sim_view path key w')" "x = Done res \<or> x = Halt 137"
proof -
  obtain m lead lag w0 where n: "next_event w = ((m, lead, lag), w0)"
    by (cases "next_event w") auto
  let ?w1 = "tick lead w0"
  obtain res w2 where a: "act ?w1 = (res, w2)" by fastforce
  have c1: "calm (sim_view path key w) (sim_view path key ?w1)"
    using tick_calm next_event_view [OF n] by metis
  show ?thesis
    using assms n a c1 killed acts [OF c1 a]
    by (cases m) (auto simp: internal_def tick_calm)
qed


lemma external_calm:
  assumes "\<And>w. calm (sim_view path key w) (sim_view path key (snd (act w)))"
    and "\<And>w. calm (sim_view path key w) (sim_view path key (garbled w))"
  shows "calm_prog (sim_view path key) (external act refused lost garbled)"
  unfolding calm_prog_def
proof
  fix w
  obtain x w' where x: "external act refused lost garbled w = (x, w')" by fastforce
  then have "calm (sim_view path key w) (sim_view path key w')"
  proof (cases rule: external_cases [where path = path and key = key])
    case (acts w1 res w2)
    then show ?thesis using assms(1) [of w1] by (auto intro: calm_trans)
  next
    case (garbles w1)
    then show ?thesis using assms(2) [of w1] by (auto intro: calm_trans)
  qed (auto intro: calm_trans)
  with x show "calm (sim_view path key w) (sim_view path key (snd (external act refused lost garbled w)))"
    by simp
qed

lemma internal_calm:
  assumes "\<And>w. calm (sim_view path key w) (sim_view path key (snd (act w)))"
  shows "calm_prog (sim_view path key) (internal act)"
  unfolding calm_prog_def
proof
  fix w
  obtain x w' where x: "internal act w = (x, w')" by fastforce
  then have "calm (sim_view path key w) (sim_view path key w')"
  proof (cases rule: internal_cases [where path = path and key = key])
    case (acts w1 res w2)
    then show ?thesis using assms [of w1] by (auto intro: calm_trans)
  qed auto
  with x show "calm (sim_view path key w) (sim_view path key (snd (internal act w)))" by simp
qed

lemma view_out [simp]: "sim_view path key (w\<lparr>w_out := x\<rparr>) = sim_view path key w"
  by (simp add: sim_view_def effects_under_def)

lemma view_open [simp]: "sim_view path key (sim_open p w) = sim_view path key w"
  by (simp add: sim_view_def effects_under_def sim_open_def split: option.splits)

lemma line_key_garbage [simp]: "line_key (DocLine None) = None"
  by (simp add: line_key_def Unmarshal_def)

lemma view_append:
  "sim_view path key (sim_append p l w) = (sim_view path key w)\<lparr>fv_effects :=
     effects_under path key w + (if p = path \<and> line_key l = Some key then 1 else 0)\<rparr>"
  by (auto simp: sim_view_def effects_under_def sim_append_def split: option.splits)

lemma view_garble [simp]: "sim_view path key (sim_append p (DocLine None) w) = sim_view path key w"
  by (simp add: view_append) (simp add: sim_view_def)

lemma token_inject [simp]: "token m = token n \<longleftrightarrow> m = n"
  by (simp add: token_def)

lemma sim_calm:
  "calm_prog (sim_view path key) (sim_Err c)" "calm_prog (sim_view path key) (sim_Sleep c d)"
  "calm_prog (sim_view path key) (rt_Now sim_runtime)" "calm_prog (sim_view path key) (rt_UUID sim_runtime)"
  "calm_prog (sim_view path key) (rt_Err sim_runtime c)" "calm_prog (sim_view path key) (rt_Sleep sim_runtime c d)"
  "calm_prog (sim_view path key) (rt_Getenv sim_runtime n)" "calm_prog (sim_view path key) (rt_Getpid sim_runtime)"
  "calm_prog (sim_view path key) (rt_MkdirAll sim_runtime p)" "calm_prog (sim_view path key) (rt_OpenAppend sim_runtime p)"
  "calm_prog (sim_view path key) (rt_Sync sim_runtime p)" "calm_prog (sim_view path key) (rt_Close sim_runtime p)"
  "calm_prog (sim_view path key) (rt_ReadFile sim_runtime p)"
proof -
  have e: "calm_prog (sim_view path key) (sim_Err c)" for c
    unfolding sim_Err_def by (rule external_calm) simp_all
  have s: "calm_prog (sim_view path key) (sim_Sleep c d)" for c d
    unfolding sim_Sleep_def by (rule external_calm) (simp_all add: tick_calm split: option.splits)
  show "calm_prog (sim_view path key) (sim_Err c)" "calm_prog (sim_view path key) (rt_Err sim_runtime c)"
    "calm_prog (sim_view path key) (sim_Sleep c d)" "calm_prog (sim_view path key) (rt_Sleep sim_runtime c d)"
    by (simp_all add: e s sim_runtime_def)
  show "calm_prog (sim_view path key) (rt_UUID sim_runtime)"
    by (simp add: sim_runtime_def, rule internal_calm)
      (auto simp: calm_def later_def sim_view_def effects_under_def)
  show "calm_prog (sim_view path key) (rt_Now sim_runtime)"
    "calm_prog (sim_view path key) (rt_Getenv sim_runtime n)" "calm_prog (sim_view path key) (rt_Getpid sim_runtime)"
    by (simp_all add: sim_runtime_def internal_calm)
  show "calm_prog (sim_view path key) (rt_MkdirAll sim_runtime p)" "calm_prog (sim_view path key) (rt_OpenAppend sim_runtime p)"
    "calm_prog (sim_view path key) (rt_Sync sim_runtime p)" "calm_prog (sim_view path key) (rt_Close sim_runtime p)"
    "calm_prog (sim_view path key) (rt_ReadFile sim_runtime p)"
    by (simp_all add: sim_runtime_def external_calm)
qed

lemma sim_now_value:
  assumes "rt_Now sim_runtime w = (Done t, w')"
  shows "fv_clock (sim_view path key w) \<le> t \<and> t \<le> fv_clock (sim_view path key w')"
proof -
  have "internal (\<lambda>w. (w_now w, w)) w = (Done t, w')" using assms by (simp add: sim_runtime_def)
  then show ?thesis
  proof (cases rule: internal_cases [where path = path and key = key])
    case (acts w1 res w2)
    then show ?thesis by (auto simp: calm_def later_def sim_view_def)
  qed auto
qed

lemma sim_uuid_value:
  assumes "rt_UUID sim_runtime w = (Done tok, w')"
  shows "tok \<notin> fv_issued (sim_view path key w) \<and> tok \<in> fv_issued (sim_view path key w')"
proof -
  obtain m lead lag w0 where n: "next_event w = ((m, lead, lag), w0)"
    by (cases "next_event w") auto
  then have "w_fresh w0 = w_fresh w" by (auto simp: next_event_def split: list.splits)
  with assms n show ?thesis
    by (auto simp: sim_runtime_def internal_def sim_view_def tick_def Let_def split: if_splits)
qed


subsection \<open>The store\<close>

lemma decoded_enc: "json_record rec \<Longrightarrow> in64 (ir_Step rec) \<Longrightarrow> decoded (Some (enc_IdemRecord rec)) = Some rec"
  by (simp add: decoded_def decodeRecord_def Unmarshal_enc_IdemRecord)

lemma set_writes_key:
  assumes "json_record rec" and "in64 (ir_Step rec)" and "ttl - Second \<le> d"
    and "calm (sim_view path key v) (sim_view path key w)"
    and "calm (sim_view path key (redis_set key (enc_IdemRecord rec) d w)) (sim_view path key w')"
  shows "writes_key ttl rec (w_now w) (sim_view path key v) (sim_view path key w')"
proof -
  have "sim_view path key (redis_set key (enc_IdemRecord rec) d w)
      = (sim_view path key w)\<lparr>fv_key := Some (Some rec, w_now w + d)\<rparr>"
    using assms(1,2) by (simp add: sim_view_def redis_set_def effects_under_def decoded_enc)
  then have k: "fv_key (sim_view path key w') = Some (Some rec, w_now w + d)"
    and o: "fv_effects (sim_view path key w') = fv_effects (sim_view path key v)"
      "later (sim_view path key v) (sim_view path key w')"
      "fv_clock (sim_view path key v) \<le> w_now w" "w_now w \<le> fv_clock (sim_view path key w')"
    using assms(4,5) by (auto simp: calm_def later_def sim_view_def)
  then show ?thesis using assms(3) by (simp add: writes_key_def)
qed

lemma live_None: "redis_live w key = None \<longleftrightarrow> key_absent (w_now w) (sim_view path key w)"
  by (auto simp: redis_live_def key_absent_def sim_view_def split: option.splits)

lemma live_Some: "redis_live w key = Some b \<Longrightarrow> \<exists>e. fv_key (sim_view path key w) = Some (decoded b, e)"
  by (auto simp: redis_live_def sim_view_def split: option.splits if_splits)

lemma ms_ttl: "0 \<le> ttl \<Longrightarrow> ttl - Second \<le> ttl div Millisecond * Millisecond"
  by (simp add: Second_def Millisecond_def; presburger)

lemma s_ttl: "0 \<le> ttl \<Longrightarrow> ttl - Second \<le> whole_seconds ttl * Second"
  by (simp add: whole_seconds_def Second_def; presburger)

lemma sim_claim:
  assumes "in64 (ir_Step rec)" and "0 \<le> ttl" and run: "Redis_Claim sim_redis ttl c key rec w = (x, w')"
  shows "claim_contract ttl rec (sim_view path key w) x (sim_view path key w')"
proof (cases "json_record rec")
  case False
  with run show ?thesis by (auto simp: Redis_Claim_def claim_contract_def)
next
  case True
  let ?act = "\<lambda>w. case redis_live w key of Some b \<Rightarrow> (Inr b, w)
    | None \<Rightarrow> (Inl redisNil, redis_set key (enc_IdemRecord rec) (ttl div Millisecond * Millisecond) w)"
  let ?post = "\<lambda>old :: goerror + raw. case old of
        Inl err \<Rightarrow> if errors_Is err SRedisNil then Inr \<lparr>cr_Acquired = True, cr_Existing = None\<rparr>
          else Inl (Errorw (''claiming '' @ key @ '': '') err)
      | Inr b \<Rightarrow> (case decodeRecord b of
          Inl err \<Rightarrow> Inl (Errorw (''reading existing record for '' @ key @ '': '') err)
        | Inr ex \<Rightarrow> Inr \<lparr>cr_Acquired = False, cr_Existing = Some ex\<rparr>)"
  obtain y where y: "external ?act (Inl io_error) (Inl io_error) (\<lambda>w. w) w = (y, w')"
    and x: "x = (case y of Done a \<Rightarrow> Done (?post a) | Halt n \<Rightarrow> Halt n | OutOfFuel \<Rightarrow> OutOfFuel)"
    using run True
    by (auto simp: Redis_Claim_def sim_redis_def pbind_def
        split: prod.splits exec.splits sum.splits if_splits)
  have io: "\<not> errors_Is io_error SRedisNil" "errors_Is redisNil SRedisNil"
    by (simp_all add: io_error_def redisNil_def)
  show ?thesis
    using y
  proof (cases rule: external_cases [where path = path and key = key])
    case (idle w1)
    then have "calm (sim_view path key w) (sim_view path key w')" by (auto intro: calm_trans)
    with idle x io show ?thesis by (auto simp: claim_contract_def)
  next
    case (acts w1 res w2)
    show ?thesis
    proof (cases "redis_live w1 key")
      case None
      with acts(2) have w2: "w2 = redis_set key (enc_IdemRecord rec) (ttl div Millisecond * Millisecond) w1"
        "res = Inl redisNil" by auto
      have "writes_key ttl rec (w_now w1) (sim_view path key w) (sim_view path key w')"
        using set_writes_key [OF True assms(1) ms_ttl [OF assms(2)] acts(1)] acts(3) w2(1) by simp
      moreover have "key_absent (w_now w1) (sim_view path key w)"
        using None live_None [of w1 key path] acts(1) by (simp add: key_absent_def calm_def)
      ultimately show ?thesis using acts(4) x io w2(2) by (auto simp: claim_contract_def)
    next
      case (Some b)
      with acts(2) have w2: "w2 = w1" "res = Inr b" by auto
      have c: "calm (sim_view path key w) (sim_view path key w')"
        using acts(1,3) w2(1) by (auto intro: calm_trans)
      have "key_holds (sim_view path key w) ex" if "decodeRecord b = Inr ex" for ex
        using live_Some [OF Some, of path] that acts(1) by (auto simp: decoded_def key_holds_def calm_def)
      with c acts(4) x io w2(2) show ?thesis
        by (auto simp: claim_contract_def split: sum.splits)
    qed
  next
    case (garbles w1)
    then have "calm (sim_view path key w) (sim_view path key w')" by (auto intro: calm_trans)
    with garbles x io show ?thesis by (auto simp: claim_contract_def)
  qed
qed


lemma sim_get:
  assumes "Redis_Get sim_redis c key w = (x, w')"
  shows "get_contract (sim_view path key w) x (sim_view path key w')"
proof -
  let ?act = "\<lambda>w. (case redis_live w key of Some b \<Rightarrow> Inr b | None \<Rightarrow> Inl redisNil, w)"
  let ?post = "\<lambda>old :: goerror + raw. case old of
        Inl err \<Rightarrow> if errors_Is err SRedisNil then Inr None else Inl (Errorw (''getting '' @ key @ '': '') err)
      | Inr b \<Rightarrow> (case decodeRecord b of
          Inl err \<Rightarrow> Inl (Errorw (''reading record for '' @ key @ '': '') err)
        | Inr rec \<Rightarrow> Inr (Some rec))"
  have eq: "Redis_Get sim_redis c key
      = pbind (external ?act (Inl io_error) (Inl io_error) (\<lambda>w. w)) (\<lambda>r. preturn (?post r))"
  proof -
    have f: "(\<lambda>r. case r of
        Inl err \<Rightarrow> if errors_Is err SRedisNil then preturn (Inr None)
          else preturn (Inl (Errorw (''getting '' @ key @ '': '') err))
      | Inr b \<Rightarrow> (case decodeRecord b of
          Inl err \<Rightarrow> preturn (Inl (Errorw (''reading record for '' @ key @ '': '') err))
        | Inr rec \<Rightarrow> preturn (Inr (Some rec)))) = (\<lambda>r. preturn (?post r))"
      by (rule ext) (simp split: sum.splits)
    show ?thesis by (simp only: Redis_Get_def sim_redis_def redis_client.select_convs f)
  qed
  obtain y u where yu: "external ?act (Inl io_error) (Inl io_error) (\<lambda>w. w) w = (y, u)" by fastforce
  then have y: "external ?act (Inl io_error) (Inl io_error) (\<lambda>w. w) w = (y, w')"
    and x: "x = (case y of Done a \<Rightarrow> Done (?post a) | Halt n \<Rightarrow> Halt n | OutOfFuel \<Rightarrow> OutOfFuel)"
    using assms unfolding eq by (cases y; simp)+
  have "calm_prog (sim_view path key) (external ?act (Inl io_error) (Inl io_error) (\<lambda>w. w))"
    by (rule external_calm) simp_all
  then have c: "calm (sim_view path key w) (sim_view path key w')"
    using y by (auto simp: calm_prog_def dest!: spec [of _ w])
  have "key_holds (sim_view path key w) rec" if t: "x = Done (Inr (Some rec))" for rec
    using y
  proof (cases rule: external_cases [where path = path and key = key])
    case (acts w1 res w2)
    then obtain b where b: "redis_live w1 key = Some b" "decodeRecord b = Inr rec"
      using t x by (auto simp: io_error_def redisNil_def split: option.splits sum.splits if_splits)
    with live_Some [OF b(1), of path] acts(1) show ?thesis
      by (auto simp: decoded_def key_holds_def calm_def)
  qed (use t x in \<open>auto simp: io_error_def split: if_splits\<close>)
  with c show ?thesis by (auto simp: get_contract_def)
qed

lemma casScript_reply: "casScript cur tok v ttl = (n, u) \<Longrightarrow> (n = 1 \<and> u = Some (v, ttl) \<and> cur \<noteq> None) \<or> (n = 0 \<and> u = None)"
  by (auto simp: casScript_def split: option.splits json.splits if_splits)

lemma sim_cas:
  assumes "in64 (ir_Step rec)" and "0 \<le> ttl" and run: "compareAndSet sim_redis ttl c key tok rec w = (x, w')"
  shows "cas_contract ttl rec (sim_view path key w) x (sim_view path key w')"
proof (cases "json_record rec")
  case False
  with run show ?thesis by (auto simp: compareAndSet_def cas_contract_def)
next
  case True
  let ?act = "\<lambda>w. case casScript (redis_live w key) tok (enc_IdemRecord rec) (whole_seconds ttl) of
         (n, None) \<Rightarrow> (Inr n, w) | (n, Some (v, secs)) \<Rightarrow> (Inr n, redis_set key v (secs * Second) w)"
  let ?post = "\<lambda>r :: goerror + int. case r of
        Inl err \<Rightarrow> Inl (Errorw (''compare-and-set on '' @ key @ '': '') err)
      | Inr n \<Rightarrow> if n \<noteq> 1 then Inl (Errorw (''compare-and-set on '' @ key @ '': '') ErrClaimLost) else Inr ()"
  have eq: "compareAndSet sim_redis ttl c key tok rec
      = pbind (external ?act (Inl io_error) (Inl io_error) (\<lambda>w. w)) (\<lambda>r. preturn (?post r))"
  proof -
    have f: "(\<lambda>r. case r of
        Inl err \<Rightarrow> preturn (Inl (Errorw (''compare-and-set on '' @ key @ '': '') err))
      | Inr n \<Rightarrow> if n \<noteq> 1 then preturn (Inl (Errorw (''compare-and-set on '' @ key @ '': '') ErrClaimLost))
          else preturn (Inr ())) = (\<lambda>r. preturn (?post r))"
      by (rule ext) (simp split: sum.splits)
    show ?thesis
      by (simp only: compareAndSet_def sim_redis_def redis_client.select_convs True not_True_eq_False
          if_False f)
  qed
  obtain y u where yu: "external ?act (Inl io_error) (Inl io_error) (\<lambda>w. w) w = (y, u)" by fastforce
  then have y: "external ?act (Inl io_error) (Inl io_error) (\<lambda>w. w) w = (y, w')"
    and x: "x = (case y of Done a \<Rightarrow> Done (?post a) | Halt n \<Rightarrow> Halt n | OutOfFuel \<Rightarrow> OutOfFuel)"
    using run unfolding eq by (cases y; simp)+
  show ?thesis
    using y
  proof (cases rule: external_cases [where path = path and key = key])
    case (idle w1)
    then have "calm (sim_view path key w) (sim_view path key w')" by (auto intro: calm_trans)
    with idle x show ?thesis by (auto simp: cas_contract_def)
  next
    case (acts w1 res w2)
    obtain n u where nu: "casScript (redis_live w1 key) tok (enc_IdemRecord rec) (whole_seconds ttl) = (n, u)"
      by fastforce
    from casScript_reply [OF this] show ?thesis
    proof (elim disjE conjE)
      assume s: "n = 1" "u = Some (enc_IdemRecord rec, whole_seconds ttl)" "redis_live w1 key \<noteq> None"
      with acts(2) nu have w2: "w2 = redis_set key (enc_IdemRecord rec) (whole_seconds ttl * Second) w1" by simp
      have "writes_key ttl rec (w_now w1) (sim_view path key w) (sim_view path key w')"
        using set_writes_key [OF True assms(1) s_ttl [OF assms(2)] acts(1)] acts(3) w2 by simp
      moreover have "fv_key (sim_view path key w) \<noteq> None"
        using s(3) live_Some [of w1 key _ path] acts(1) by (auto simp: calm_def)
      ultimately show ?thesis by (auto simp: cas_contract_def)
    next
      assume s: "n = 0" "u = None"
      with acts(2) nu have w2: "w2 = w1" "res = Inr 0" by auto
      have "calm (sim_view path key w) (sim_view path key w')" using acts(1,3) w2(1) by (auto intro: calm_trans)
      with x acts(4) w2(2) show ?thesis by (auto simp: cas_contract_def)
    qed
  next
    case (garbles w1)
    then have "calm (sim_view path key w) (sim_view path key w')" by (auto intro: calm_trans)
    with garbles x show ?thesis by (auto simp: cas_contract_def)
  qed
qed


subsection \<open>The tools\<close>

text \<open>A program that keeps the contract of \<open>Execute\<close>.\<close>

definition exec_prog :: "(world \<Rightarrow> fview) \<Rightarrow> (world, goerror + 'a) prog \<Rightarrow> bool" where
  "exec_prog view m \<longleftrightarrow> (\<forall>w. execute_contract (view w) (fst (m w)) (view (snd (m w))))"

lemma calm_execute: "calm v v' \<Longrightarrow> (\<And>res. x \<noteq> Done (Inr res)) \<Longrightarrow> execute_contract v x v'"
  by (auto simp: execute_contract_def calm_def)

lemma exec_calm: "calm v u \<Longrightarrow> execute_contract u x v' \<Longrightarrow> execute_contract v x v'"
  by (auto simp: execute_contract_def calm_def intro: later_trans)

lemma exec_prog_Inl [simp]: "exec_prog view (preturn (Inl err))"
  by (simp add: exec_prog_def calm_execute)

lemma exec_prog_bind:
  assumes "calm_prog view m" and "\<And>a. exec_prog view (f a)" shows "exec_prog view (pbind m f)"
  unfolding exec_prog_def
proof
  fix w
  obtain x u where m: "m w = (x, u)" by fastforce
  have c: "calm (view w) (view u)" using assms(1) m unfolding calm_prog_def by (metis snd_conv)
  show "execute_contract (view w) (fst (pbind m f w)) (view (snd (pbind m f w)))"
    using m c assms(2) exec_calm [OF c] by (cases x) (auto simp: exec_prog_def intro: calm_execute)
qed

lemma exec_prog_bindM:
  assumes "calm_prog view m" and "\<And>a. exec_prog view (f a)"
  shows "exec_prog view (pbindM m (wrapping pre) f)"
  unfolding pbindM_def wrapping_def
proof (rule exec_prog_bind [OF assms(1)])
  fix x
  show "exec_prog view (case x of Inl e \<Rightarrow> pbind (preturn (Errorw pre e)) (\<lambda>e'. preturn (Inl e')) | Inr a \<Rightarrow> f a)"
    by (cases x) (simp_all only: sum.case pbind_preturn exec_prog_Inl assms(2))
qed

lemma exec_prog_map:
  assumes "exec_prog view (m :: (world, goerror + unit) prog)"
  shows "exec_prog view (pbindM m (wrapping pre) (\<lambda>_. preturn (Inr res)))"
  unfolding exec_prog_def
proof
  fix w
  obtain x u where m: "m w = (x, u)" by fastforce
  have "execute_contract (view w) x (view u)" using assms m unfolding exec_prog_def by (metis fst_conv snd_conv)
  then show "execute_contract (view w) (fst (pbindM m (wrapping pre) (\<lambda>_. preturn (Inr res)) w))
      (view (snd (pbindM m (wrapping pre) (\<lambda>_. preturn (Inr res)) w)))"
    using m by (cases x) (auto simp: pbindM_def pbind_def wrapping_def execute_contract_def split: sum.splits)
qed

text \<open>After the write has taken effect, only success or an unknown outcome may be reported.\<close>

definition closing_prog :: "(world \<Rightarrow> fview) \<Rightarrow> (world, goerror + unit) prog \<Rightarrow> bool" where
  "closing_prog view m \<longleftrightarrow> calm_prog view m
     \<and> (\<forall>w err. fst (m w) = Done (Inl err) \<longrightarrow> errors_Is err SToolOutcomeUnknown)"

lemma unknown_outcome_Is [simp]: "errors_Is (unknown_outcome what err) SToolOutcomeUnknown"
  by (simp add: unknown_outcome_def ToolErrOutcomeUnknown_def)

lemma closing_tail: "closing_prog (sim_view path key)
  (pbind (rt_Sync sim_runtime p) (\<lambda>y. case y of
         Inl err \<Rightarrow> pbind (rt_Close sim_runtime p) (\<lambda>_. preturn (Inl (unknown_outcome ''syncing ledger'' err)))
       | Inr _ \<Rightarrow>
         pbind (rt_Close sim_runtime p) (\<lambda>c. case c of
           Inl err \<Rightarrow> preturn (Inl (unknown_outcome ''closing ledger'' err))
         | Inr _ \<Rightarrow> preturn (Inr ()))))"
  (is "closing_prog _ ?m")
  unfolding closing_prog_def
proof (intro conjI allI impI)
  have "calm_prog (sim_view path key) (case y of
         Inl err \<Rightarrow> pbind (rt_Close sim_runtime p) (\<lambda>_. preturn (Inl (unknown_outcome ''syncing ledger'' err)))
       | Inr _ \<Rightarrow>
         pbind (rt_Close sim_runtime p) (\<lambda>c. case c of
           Inl err \<Rightarrow> preturn (Inl (unknown_outcome ''closing ledger'' err))
         | Inr _ \<Rightarrow> preturn (Inr ())))" for y :: "goerror + unit"
    by (cases y) (auto intro!: calm_prog_bind sim_calm split: sum.splits)
  then show "calm_prog (sim_view path key) ?m" by (intro calm_prog_bind sim_calm)
next
  fix w err assume "fst (?m w) = Done (Inl err)"
  then show "errors_Is err SToolOutcomeUnknown"
    by (auto simp: pbind_def split: prod.splits exec.splits sum.splits)
qed

lemma write_exec:
  assumes "line_key (DocLine (Some line)) = Some key" and "closing_prog (sim_view path key) tail"
  shows "exec_prog (sim_view path key) (pbind (rt_Write sim_runtime path line) (\<lambda>r. case r of
       Inl (n, err) \<Rightarrow> pbind (rt_Close sim_runtime path) (\<lambda>_. preturn (Inl
         (if n > 0 then unknown_outcome ''partial ledger write'' err
          else Errorw ''writing ledger entry: '' err)))
     | Inr _ \<Rightarrow> tail))"
  unfolding exec_prog_def
proof
  fix w
  let ?v = "sim_view path key"
  let ?k = "\<lambda>r. case r of
       Inl (n, err) \<Rightarrow> pbind (rt_Close sim_runtime path) (\<lambda>_. preturn (Inl
         (if (n::int) > 0 then unknown_outcome ''partial ledger write'' err
          else Errorw ''writing ledger entry: '' err)))
     | Inr _ \<Rightarrow> tail"
  obtain y u where y: "rt_Write sim_runtime path line w = (y, u)" by fastforce
  then have ext: "external (\<lambda>w. (Inr (), sim_append path (DocLine (Some line)) w)) (Inl (0, io_error))
      (Inl (1, io_error)) (sim_append path (DocLine None)) w = (y, u)"
    by (simp add: sim_runtime_def)
  have close: "calm (?v u) (?v (snd (?k (Inl (n, err)) u)))" for n err
  proof -
    have "calm_prog ?v (?k (Inl (n, err)))" by (auto intro!: calm_prog_bind sim_calm)
    then show ?thesis unfolding calm_prog_def by (rule spec)
  qed
  have tl: "calm (?v u) (?v (snd (tail u)))" using assms(2) by (simp add: closing_prog_def calm_prog_def)
  have app: "fv_effects (?v (sim_append path (DocLine (Some line)) w1)) = fv_effects (?v w1) + 1"
      "fv_key (?v (sim_append path (DocLine (Some line)) w1)) = fv_key (?v w1)"
      "later (?v w1) (?v (sim_append path (DocLine (Some line)) w1))" for w1
  proof -
    have "?v (sim_append path (DocLine (Some line)) w1) = (?v w1)\<lparr>fv_effects := fv_effects (?v w1) + 1\<rparr>"
      using assms(1) by (simp only: view_append) (simp add: sim_view_def)
    then show "fv_effects (?v (sim_append path (DocLine (Some line)) w1)) = fv_effects (?v w1) + 1"
      "fv_key (?v (sim_append path (DocLine (Some line)) w1)) = fv_key (?v w1)"
      "later (?v w1) (?v (sim_append path (DocLine (Some line)) w1))"
      by (simp_all add: later_def)
  qed
  consider (none) "calm (?v w) (?v u)" "\<And>n. y = Done n \<Longrightarrow> (\<exists>n err. y = Done (Inl (n, err)))"
    | (one) "later (?v w) (?v u)" "fv_key (?v u) = fv_key (?v w)" "fv_effects (?v u) = fv_effects (?v w) + 1"
        "y = Done (Inr ()) \<or> y = Done (Inl (1, io_error)) \<or> y = Halt 137"
    using ext
  proof (cases rule: external_cases [where path = path and key = key])
    case (idle w1)
    then show ?thesis using none by (auto intro: calm_trans)
  next
    case (acts w1 res w2)
    have "later (?v w) (?v u)" "fv_key (?v u) = fv_key (?v w)" "fv_effects (?v u) = fv_effects (?v w) + 1"
      using acts(1-3) app [of w1] by (auto simp: calm_def intro: later_trans)
    with acts(2,4) one show ?thesis by auto
  next
    case (garbles w1)
    then show ?thesis using none by (auto intro: calm_trans)
  qed
  then show "execute_contract (?v w) (fst (pbind (rt_Write sim_runtime path line) ?k w))
      (?v (snd (pbind (rt_Write sim_runtime path line) ?k w)))"
  proof cases
    case none
    show ?thesis
    proof (cases y)
      case (Done a)
      with none(2) obtain n err where a: "a = Inl (n, err)" by auto
      have "fst (?k a u) \<noteq> Done (Inr ())" for u
        by (auto simp: a pbind_def split: prod.splits exec.splits)
      moreover have "calm (?v w) (?v (snd (?k a u)))" using close none(1) unfolding a by (rule calm_trans [rotated])
      ultimately show ?thesis using y Done by (auto intro!: calm_execute)
    qed (use y none in \<open>auto intro!: calm_execute\<close>)
  next
    case one
    show ?thesis
    proof (cases y)
      case (Done a)
      have c: "calm (?v u) (?v (snd (?k a u)))"
      proof (cases a)
        case (Inl p)
        then show ?thesis using close by (cases p) simp
      qed (use tl in simp)
      have unk: "errors_Is err SToolOutcomeUnknown" if "fst (?k a u) = Done (Inl err)" for err
      proof (cases a)
        case (Inl p)
        with one(4) Done have "a = Inl (1, io_error)" by auto
        with that show ?thesis by (auto simp: pbind_def split: prod.splits exec.splits)
      next
        case (Inr v)
        with that assms(2) show ?thesis by (auto simp: closing_prog_def)
      qed
      have "later (?v w) (?v (snd (?k a u)))" "fv_key (?v (snd (?k a u))) = fv_key (?v w)"
        "fv_effects (?v (snd (?k a u))) = fv_effects (?v w) + 1"
        using c one(1-3) by (auto simp: calm_def intro: later_trans)
      then show ?thesis using y Done unk by (auto simp: execute_contract_def)
    qed (use y one in \<open>auto simp: execute_contract_def\<close>)
  qed
qed

end
