(* ===== verification/Sim_Fence.thy ===== *)
theory Sim_Fence
  imports Sim_World
begin

text \<open>
  The fence at work: the mock tools and the Redis store in the simulated world keep the contracts of
  \<open>fence_world\<close>, for every schedule of the adversary, so what that locale proves holds of them. The
  properties follow a tool call through any number of crashes and resumes.
\<close>

section \<open>The mock tools keep the contract of \<open>Execute\<close>\<close>

lemma exec_prog_bind_value:
  assumes "calm_prog view m" and "\<And>w a u. m w = (Done a, u) \<Longrightarrow> P a" and "\<And>a. P a \<Longrightarrow> exec_prog view (f a)"
  shows "exec_prog view (pbind m f)"
  unfolding exec_prog_def
proof
  fix w
  obtain x u where m: "m w = (x, u)" by fastforce
  have c: "calm (view w) (view u)" using assms(1) m by (auto simp: calm_prog_def dest!: spec [of _ w])
  show "execute_contract (view w) (fst (pbind m f w)) (view (snd (pbind m f w)))"
  proof (cases x)
    case (Done a)
    have "exec_prog view (f a)" using assms(2) [of w a u] assms(3) m Done by simp
    then have "execute_contract (view u) (fst (f a u)) (view (snd (f a u)))" by (simp add: exec_prog_def)
    from exec_calm [OF c this] m Done show ?thesis by simp
  qed (use m c in \<open>auto intro: calm_execute\<close>)
qed

lemma sim_pid:
  assumes "rt_Getpid sim_runtime w = (Done pid, w')" shows "in64 pid"
proof -
  have "internal (\<lambda>w. (int (w_pid w mod 4194304), w)) w = (Done pid, w')"
    using assms by (simp add: sim_runtime_def)
  then show ?thesis
  proof (cases rule: internal_cases [where path = "[]" and key = "[]"])
    case (acts w1 res w2)
    then show ?thesis by (auto simp: in64_def min64_def max64_def)
  qed simp
qed

lemma line_key_enc:
  "json_year (le_RecordedAt e) \<Longrightarrow> in64 (le_WriterPID e)
    \<Longrightarrow> line_key (DocLine (Some (enc_LedgerEntry e))) = Some (le_IdempotencyKey e)"
  by (simp add: line_key_def enc_LedgerEntry_def unmarshal_members LedgerEntry_fields_def
      LedgerEntry_zero_def find_field_def dec_enc)

lemma Record_exec:
  assumes "le_IdempotencyKey e = key" and "in64 (le_WriterPID e)"
  shows "exec_prog (sim_view path key) (Record sim_runtime path c e)"
proof (cases "json_year (le_RecordedAt e)")
  case False
  then show ?thesis by (simp add: Record_def exec_prog_bindM sim_calm)
next
  case True
  note lk = line_key_enc [OF this assms(2), unfolded assms(1)]
  show ?thesis
    using True unfolding Record_def Let_def
    by (simp only: not_True_eq_False if_False)
      (intro exec_prog_bindM sim_calm write_exec [OF lk closing_tail])
qed

lemma record_effect_exec:
  assumes "iv_IdempotencyKey invo = Some key"
  shows "exec_prog (sim_view path key) (record_effect sim_runtime path c invo name result)"
  unfolding record_effect_def
proof (rule exec_prog_bind [OF sim_calm(3)], rule exec_prog_bind_value [OF sim_calm(8) sim_pid])
  fix now pid :: int
  assume "in64 pid"
  then show "exec_prog (sim_view path key) (pbindM (Record sim_runtime path c (effect_entry invo name result now pid))
       (wrapping (''recording '' @ name @ '' effect: '')) (\<lambda>_. preturn (Inr result)))"
    using assms by (intro exec_prog_map Record_exec) (simp_all add: effect_entry_def entryKey_def)
qed

lemma calm_wrapping [simp]: "calm_prog view (wrapping pre err)"
  by (simp add: wrapping_def)

lemma calm_bindM:
  assumes "calm_prog view m" and "\<And>a. calm_prog view (f a)"
  shows "calm_prog view (pbindM m (wrapping pre) f)"
  unfolding pbindM_def
proof (rule calm_prog_bind [OF assms(1)])
  fix x
  show "calm_prog view (case x of Inl e \<Rightarrow> pbind (wrapping pre e) (\<lambda>e'. preturn (Inl e')) | Inr a \<Rightarrow> f a)"
    by (cases x) (auto intro!: calm_prog_bind assms(2))
qed

lemma delay_calm: "calm_prog (sim_view path key) (mockToolDelay sim_runtime c)"
  unfolding mockToolDelay_def
  by (rule calm_prog_bind [OF sim_calm(7)]) (simp add: sim_calm split: option.splits)

lemma Entries_calm: "calm_prog (sim_view path key) (Entries sim_runtime p c)"
  unfolding Entries_def
  by (rule calm_bindM [OF sim_calm(5)], rule calm_prog_bind [OF sim_calm(13)]) (simp split: sum.splits)

lemma ApplyFix_exec:
  assumes "iv_IdempotencyKey invo = Some key"
  shows "exec_prog (sim_view path key) (ApplyFix_Execute sim_runtime path c invo args)"
  unfolding ApplyFix_Execute_def
proof (rule exec_prog_bindM [OF delay_calm])
  show "exec_prog (sim_view path key) (case Unmarshal (string_arg ''description'') args [] of
       Inl err \<Rightarrow> preturn (Inl (Errorw ''unmarshaling apply_fix args: '' err))
     | Inr desc \<Rightarrow> record_effect sim_runtime path c invo ''apply_fix'' (''applied fix: '' @ desc))" for a :: unit
    by (cases "Unmarshal (string_arg ''description'') args []")
      (simp_all only: sum.case exec_prog_Inl record_effect_exec [OF assms])
qed

lemma OpenPR_exec:
  assumes "iv_IdempotencyKey invo = Some key"
  shows "exec_prog (sim_view path key) (OpenPR_Execute sim_runtime path c invo args)"
  unfolding OpenPR_Execute_def
proof (rule exec_prog_bindM [OF delay_calm])
  show "exec_prog (sim_view path key) (case Unmarshal openPRArgs_fields args ([], []) of
       Inl err \<Rightarrow> preturn (Inl (Errorw ''unmarshaling open_pr args: '' err))
     | Inr (title, body) \<Rightarrow>
       pbindM (Entries sim_runtime path c) (wrapping ''counting existing PRs: '') (\<lambda>es.
       record_effect sim_runtime path c invo ''open_pr'' (''opened PR #''
         @ show_int (wrap64 (countEntries es (iv_RunID invo) ''open_pr'' + 1)) @ '': '' @ title)))" for a :: unit
  proof (cases "Unmarshal openPRArgs_fields args ([], [])")
    case (Inr p)
    then show ?thesis
      by (cases p) (simp only: sum.case prod.case, intro exec_prog_bindM Entries_calm record_effect_exec [OF assms])
  qed (simp only: sum.case exec_prog_Inl)
qed


section \<open>\<open>open_pr\<close> keeps the contract of \<open>Reconcile\<close>\<close>

lemma parseLedger_count:
  "parseLedger n ls = Inr es \<Longrightarrow> length (filter (\<lambda>l. line_key l = Some key) ls)
     = length (filter (\<lambda>e. le_IdempotencyKey e = key) es)"
  by (induction n ls arbitrary: es rule: parseLedger.induct)
    (auto simp: line_key_def split: sum.splits)

lemma Entries_count:
  assumes "Entries sim_runtime path c w = (Done (Inr es), w')"
  shows "fv_effects (sim_view path key w) = length (filter (\<lambda>e. le_IdempotencyKey e = key) es)"
proof -
  let ?act = "\<lambda>w. (case w_files w path of None \<Rightarrow> Inl not_exist | Some ls \<Rightarrow> Inr ls, w)"
  obtain u where u: "rt_Err sim_runtime c w = (Done (Inr ()), u)"
    and r: "pbind (rt_ReadFile sim_runtime path) (\<lambda>f. case f of
       Inl err \<Rightarrow> if errors_Is err SNotExist then preturn (Inr [])
         else preturn (Inl (Errorw (''reading ledger '' @ path @ '': '') err))
     | Inr ls \<Rightarrow> preturn (parseLedger 1 ls)) u = (Done (Inr es), w')"
    using assms unfolding Entries_def pbindM_def wrapping_def
    by (auto dest!: pbind_eq_DoneD split: sum.splits)
  have cu: "calm (sim_view path key w) (sim_view path key u)"
    using sim_calm(5) [of path key c] u by (auto simp: calm_prog_def dest!: spec [of _ w])
  from pbind_eq_DoneD [OF r] obtain f v where f: "rt_ReadFile sim_runtime path u = (Done f, v)"
    and k: "(case f of
       Inl err \<Rightarrow> if errors_Is err SNotExist then preturn (Inr [])
         else preturn (Inl (Errorw (''reading ledger '' @ path @ '': '') err))
     | Inr ls \<Rightarrow> preturn (parseLedger 1 ls)) v = (Done (Inr es), w')" by blast
  from k have es: "(\<exists>err. f = Inl err \<and> errors_Is err SNotExist \<and> es = [])
      \<or> (\<exists>ls. f = Inr ls \<and> parseLedger 1 ls = Inr es)"
    by (cases f) (auto split: if_splits)
  have "external ?act (Inl io_error) (Inl io_error) (\<lambda>w. w) u = (Done f, v)"
    using f by (simp add: sim_runtime_def)
  then show ?thesis
  proof (cases rule: external_cases [where path = path and key = key])
    case (acts w1 res w2)
    have "fv_effects (sim_view path key w1) = fv_effects (sim_view path key w)"
      using acts(1) cu by (simp add: calm_def)
    moreover have "fv_effects (sim_view path key w1) = length (filter (\<lambda>e. le_IdempotencyKey e = key) es)"
      using acts(2,4) es parseLedger_count
      by (auto simp: sim_view_def effects_under_def io_error_def split: option.splits)
    ultimately show ?thesis by simp
  qed (use es in \<open>auto simp: io_error_def\<close>)
qed

lemma OpenPR_reconcile:
  assumes "iv_IdempotencyKey invo = Some key"
    and run: "OpenPR_Reconcile sim_runtime path c invo args w = (x, w')"
  shows "reconcile_contract (sim_view path key w) x (sim_view path key w')"
proof -
  let ?f = "\<lambda>es. find (\<lambda>e. le_IdempotencyKey e = key) es"
  have calm: "calm_prog (sim_view path key) (OpenPR_Reconcile sim_runtime path c invo args)"
    unfolding OpenPR_Reconcile_def assms(1) option.case FindByKey_def
    by (intro calm_bindM Entries_calm) (simp_all split: option.splits)
  then have c: "calm (sim_view path key w) (sim_view path key w')"
    using run by (auto simp: calm_prog_def dest!: spec [of _ w])
  have "rr_Applied rr \<longleftrightarrow> 0 < fv_effects (sim_view path key w)" if x: "x = Done (Inr rr)" for rr
  proof -
    obtain es u where es: "Entries sim_runtime path c w = (Done (Inr es), u)"
      and rr: "rr_Applied rr \<longleftrightarrow> ?f es \<noteq> None"
      using run unfolding x OpenPR_Reconcile_def assms(1) option.case FindByKey_def pbindM_def wrapping_def
      by (auto dest!: pbind_eq_DoneD split: sum.splits option.splits)
    have "?f es \<noteq> None \<longleftrightarrow> 0 < length (filter (\<lambda>e. le_IdempotencyKey e = key) es)"
      by (auto simp: find_None_iff filter_empty_conv)
    with rr Entries_count [OF es, of key] show ?thesis by simp
  qed
  with c show ?thesis by (simp add: reconcile_contract_def)
qed



section \<open>The interface, discharged\<close>

text \<open>
  A guard as the worker wires it, whatever its timeouts, crash hook and name, running one of the two
  side-effecting mock tools under a key.
\<close>

definition wired :: "duration \<Rightarrow> world Guard \<Rightarrow> bool" where
  "wired ttl g \<longleftrightarrow> g_rt g = sim_runtime \<and> g_store g = RedisStore sim_redis ttl \<and> g_TTL g = ttl
     \<and> g_Out g = sim_Stdout \<and> g_Now g = rt_Now sim_runtime \<and> g_Sleep g = sim_Sleep"

lemma wired_sim_guard [simp]: "wired ttl (sim_guard toolTimeout grace ttl crash)"
  by (simp add: wired_def sim_guard_def)

definition effect_tools :: "string \<Rightarrow> world Tool set" where
  "effect_tools path = {ApplyFixTool sim_runtime path, OpenPRTool sim_runtime path}"

definition mock_tools :: "string \<Rightarrow> world Tool set" where
  "mock_tools path = {CloneRepoTool sim_runtime, RunTestsTool sim_runtime path} \<union> effect_tools path"

definition keyed_run :: "string \<Rightarrow> duration \<Rightarrow> world run \<Rightarrow> bool" where
  "keyed_run path ttl r \<longleftrightarrow> wired ttl (r_g r) \<and> r_tool r \<in> mock_tools path
     \<and> iv_IdempotencyKey (r_inv r) = Some (r_key r) \<and> in64 (iv_Step (r_inv r)) \<and> ExpiryMargin < ttl \<and> ttl \<le> max64"

definition fenced_run :: "string \<Rightarrow> duration \<Rightarrow> world run \<Rightarrow> bool" where
  "fenced_run path ttl r \<longleftrightarrow> wired ttl (r_g r) \<and> r_tool r \<in> effect_tools path
     \<and> iv_IdempotencyKey (r_inv r) = Some (r_key r) \<and> in64 (iv_Step (r_inv r)) \<and> ExpiryMargin < ttl \<and> ttl \<le> max64"

lemma fenced_keyed: "fenced_run path ttl r \<Longrightarrow> keyed_run path ttl r"
  by (simp add: fenced_run_def keyed_run_def mock_tools_def)

lemma sim_fence_store:
  assumes "keyed_run path ttl r"
  shows "fence_store r (sim_view path (r_key r))"
proof
  let ?v = "sim_view path (r_key r)"
  have g: "g_rt (r_g r) = sim_runtime" "g_store (r_g r) = RedisStore sim_redis ttl" "g_TTL (r_g r) = ttl"
    "g_Out (r_g r) = sim_Stdout" "g_Now (r_g r) = rt_Now sim_runtime" "g_Sleep (r_g r) = sim_Sleep"
    and step: "in64 (iv_Step (r_inv r))" and ttl: "ExpiryMargin < ttl" "ttl \<le> max64"
    using assms by (simp_all add: keyed_run_def wired_def)
  have nn: "0 \<le> ttl" using ttl by (simp add: ExpiryMargin_def Minute_def)
  show "calm_prog ?v (g_Out (r_g r) s)" for s by (simp add: g sim_Stdout_def internal_calm)
  show "calm_prog ?v (g_Sleep (r_g r) c d)" for c d by (simp add: g sim_calm)
  show "calm_prog ?v (rt_Err (g_rt (r_g r)) c)" for c by (simp add: g sim_calm)
  show "calm_prog ?v (rt_Now (g_rt (r_g r)))" "calm_prog ?v (g_Now (r_g r))"
    "calm_prog ?v (rt_UUID (g_rt (r_g r)))" by (simp_all add: g sim_calm)
  show "g_Now (r_g r) s = (Done t, s') \<Longrightarrow> fv_clock (?v s) \<le> t \<and> t \<le> fv_clock (?v s')" for s t s'
    by (rule sim_now_value) (simp add: g)
  show "rt_UUID (g_rt (r_g r)) s = (Done tok, s') \<Longrightarrow> tok \<notin> fv_issued (?v s) \<and> tok \<in> fv_issued (?v s')"
    for s tok s' by (rule sim_uuid_value) (simp add: g)
  show "st_Claim (g_store (r_g r)) c (r_key r) rec s = (x, s')
      \<Longrightarrow> claim_contract (g_TTL (r_g r)) rec (?v s) x (?v s')"
    if "ir_Step rec = iv_Step (r_inv r)" for rec c s x s'
    using sim_claim [of rec ttl c "r_key r" s x s' path] that step nn by (simp add: g RedisStore_def)
  show "st_Get (g_store (r_g r)) c (r_key r) s = (y, s') \<Longrightarrow> get_contract (?v s) y (?v s')" for c s y s'
    using sim_get [of c "r_key r" s y s' path] by (simp add: g RedisStore_def)
  show "st_Resolve (g_store (r_g r)) c (r_key r) tk rec s = (z, s')
      \<Longrightarrow> cas_contract (g_TTL (r_g r)) rec (?v s) z (?v s')"
    "st_TakeOver (g_store (r_g r)) c (r_key r) tk rec s = (z, s')
      \<Longrightarrow> cas_contract (g_TTL (r_g r)) rec (?v s) z (?v s')"
    if "ir_Step rec = iv_Step (r_inv r)" for rec c tk s z s'
    using sim_cas [of rec ttl c "r_key r" tk s z s' path] that step nn by (simp_all add: g RedisStore_def)
qed

lemma sim_fence_world:
  assumes "fenced_run path ttl r"
  shows "fence_world r (sim_view path (r_key r))"
proof (intro fence_world.intro fence_world_axioms.intro sim_fence_store [OF fenced_keyed [OF assms]])
  let ?v = "sim_view path (r_key r)"
  have tool: "r_tool r \<in> effect_tools path" and key: "iv_IdempotencyKey (r_inv r) = Some (r_key r)"
    using assms by (simp_all add: fenced_run_def)
  show "execute_contract (?v s) w (?v s')"
    if t: "t_Execute (r_tool r) c (r_inv r) (tc_ToolArgs (r_tc r)) s = (w, s')" for c s w s'
  proof -
    let ?m = "t_Execute (r_tool r) c (r_inv r) (tc_ToolArgs (r_tc r))"
    have "exec_prog ?v ?m"
      using tool ApplyFix_exec [OF key] OpenPR_exec [OF key]
      by (auto simp: effect_tools_def ApplyFixTool_def OpenPRTool_def)
    then have "execute_contract (?v s) (fst (?m s)) (?v (snd (?m s)))" by (simp only: exec_prog_def)
    with t show ?thesis by simp
  qed
  show "reconcile_contract (?v s) q (?v s')"
    if "t_Reconcile (r_tool r) = Some rc" "rc c (r_inv r) (tc_ToolArgs (r_tc r)) s = (q, s')" for rc c s q s'
    using tool that OpenPR_reconcile [OF key, of path c "tc_ToolArgs (r_tc r)" s q s']
    by (auto simp: effect_tools_def ApplyFixTool_def OpenPRTool_def)
  show "ExpiryMargin < g_TTL (r_g r)" "g_TTL (r_g r) \<le> max64"
    using assms by (simp_all add: fenced_run_def wired_def)
qed

text \<open>The worker's own configuration: two minutes, thirty seconds, a day.\<close>

definition worker_run :: "world Tool \<Rightarrow> CrashHook \<Rightarrow> string \<Rightarrow> ToolCall \<Rightarrow> string \<Rightarrow> world run" where
  "worker_run tool crash runID tc hash = (let key = Key runID 1 (tc_ToolUseID tc) in
     \<lparr>r_g = sim_guard (2 * Minute) DefaultStaleGrace (24 * Hour) crash,
      r_inv = \<lparr>iv_RunID = runID, iv_Step = 1, iv_ToolUseID = tc_ToolUseID tc, iv_IdempotencyKey = Some key\<rparr>,
      r_tc = tc, r_tool = tool, r_key = key, r_argsHash = hash\<rparr>)"

lemma worker_fenced: "tool \<in> effect_tools path \<Longrightarrow> fenced_run path (24 * Hour) (worker_run tool crash runID tc hash)"
  by (simp add: fenced_run_def worker_run_def Let_def in64_def min64_def max64_def ExpiryMargin_def Minute_def Hour_def)

lemma worker_key: "sim_view path (r_key (worker_run tool crash runID tc hash)) = sim_view path (Key runID 1 (tc_ToolUseID tc))"
  by (simp add: worker_run_def Let_def)

interpretation apply_fix: fence_world "worker_run (ApplyFixTool sim_runtime path) crash runID tc hash"
  "sim_view path (Key runID 1 (tc_ToolUseID tc))" for path crash runID tc hash
  using sim_fence_world [OF worker_fenced] unfolding worker_key by (simp add: effect_tools_def)

interpretation open_pr: fence_world "worker_run (OpenPRTool sim_runtime path) crash runID tc hash"
  "sim_view path (Key runID 1 (tc_ToolUseID tc))" for path crash runID tc hash
  using sim_fence_world [OF worker_fenced] unfolding worker_key by (simp add: effect_tools_def)


section \<open>Crashes and resumes\<close>

text \<open>
  A history of one tool call: guard runs (of a worker with any tool timeout, grace and crash hook), each
  of which may return, fail or be killed anywhere, and restarts in between, where time passes and the
  adversary, the environment variables and the process identifier change.
\<close>

inductive history :: "world Tool \<Rightarrow> duration \<Rightarrow> Invocation \<Rightarrow> ToolCall \<Rightarrow> world \<Rightarrow> world \<Rightarrow> bool"
  for tool ttl invo tc w0 where
  start: "history tool ttl invo tc w0 w0"
| attempt: "history tool ttl invo tc w0 w
    \<Longrightarrow> Guard_Run fuel (sim_guard toolTimeout grace ttl crash) ctx invo tc tool w = (x, w')
    \<Longrightarrow> history tool ttl invo tc w0 w'"
| restart: "history tool ttl invo tc w0 w
    \<Longrightarrow> history tool ttl invo tc w0 (tick n w\<lparr>w_schedule := sch, w_pid := pid, w_env := env\<rparr>)"

text \<open>Before the call was first made: nothing under the key, in Redis or in the ledger.\<close>

definition untouched :: "string \<Rightarrow> string \<Rightarrow> gotime \<Rightarrow> world \<Rightarrow> bool" where
  "untouched path key invokedAt w \<longleftrightarrow> w_redis w key = None \<and> effects_under path key w = 0 \<and> invokedAt \<le> w_now w"

lemma untouched_safe: "untouched path key t w \<Longrightarrow> safe ttl t (sim_view path key w)"
  by (auto simp: untouched_def safe_def sim_view_def key_holds_def)

lemma restart_safe:
  assumes "safe ttl t (sim_view path key w)"
  shows "safe ttl t (sim_view path key (tick n w\<lparr>w_schedule := sch, w_pid := pid, w_env := env\<rparr>))"
proof -
  have "sim_view path key (tick n w\<lparr>w_schedule := sch, w_pid := pid, w_env := env\<rparr>)
      = sim_view path key (tick n w)" by (simp add: sim_view_def effects_under_def)
  then show ?thesis using assms tick_calm stable_safe unfolding stable_def by metis
qed

lemma guard_run_safe:
  assumes "wired ttl g" and "tool \<in> effect_tools path"
    and "iv_IdempotencyKey invo = Some key" and "in64 (iv_Step invo)"
    and "ExpiryMargin < ttl" "ttl \<le> max64"
    and "safe ttl (tc_InvokedAt tc) (sim_view path key w)"
    and "Guard_Run fuel g ctx invo tc tool w = (x, w')"
  shows "safe ttl (tc_InvokedAt tc) (sim_view path key w') \<and> (\<forall>oc. x = Done (Inr oc) \<longrightarrow>
      oc_Status oc = ''success'' \<and> effects_under path key w' = 1
    \<or> oc_Status oc = ''error'' \<and> effects_under path key w' = 0)"
proof (cases "ArgsHash (tc_ToolName tc) (tc_ToolArgs tc)")
  case (Inl err)
  with assms(3,7,8) show ?thesis by (auto simp: Guard_Run_def)
next
  case (Inr hash)
  let ?r = "\<lparr>r_g = g, r_inv = invo, r_tc = tc, r_tool = tool, r_key = key, r_argsHash = hash\<rparr>"
  have fr: "fenced_run path ttl ?r" using assms(1-6) by (simp add: fenced_run_def)
  have f: "fence_world ?r (sim_view path key)" using sim_fence_world [OF fr] by simp
  have ttl: "g_TTL g = ttl" using assms(1) by (simp add: wired_def)
  have tr: "triple (\<lambda>w. safe ttl (tc_InvokedAt tc) (sim_view path key w)) (Guard_Run fuel g ctx invo tc tool)
      (\<lambda>res w. fence_world.truthful ?r res (sim_view path key w)) (\<lambda>w. safe ttl (tc_InvokedAt tc) (sim_view path key w))"
    using fence_world.Guard_Run_triple [OF f, of fuel ctx] assms(3) Inr ttl by simp
  show ?thesis
  proof (cases x)
    case (Done res)
    with triple_DoneD [OF tr assms(7)] assms(8) have "fence_world.truthful ?r res (sim_view path key w')"
      by blast
    then show ?thesis unfolding fence_world.truthful_def [OF f]
      using Done ttl by (simp add: sim_view_def)
  next
    case (Halt n)
    with triple_HaltD [OF tr assms(7)] assms(8) show ?thesis by blast
  next
    case OutOfFuel
    with triple_FuelD [OF tr assms(7)] assms(8) show ?thesis by blast
  qed
qed

lemma history_safe:
  assumes "history tool ttl invo tc w0 w"
    and "tool \<in> {ApplyFixTool sim_runtime path, OpenPRTool sim_runtime path}"
    and "iv_IdempotencyKey invo = Some key" and "in64 (iv_Step invo)"
    and "ExpiryMargin < ttl" "ttl \<le> max64"
    and "untouched path key (tc_InvokedAt tc) w0"
  shows "safe ttl (tc_InvokedAt tc) (sim_view path key w)"
  using assms(1)
proof induction
  case start
  show ?case by (rule untouched_safe [OF assms(7)])
next
  case (attempt w fuel toolTimeout grace crash ctx x w')
  have "tool \<in> effect_tools path" using assms(2) by (simp add: effect_tools_def)
  from guard_run_safe [OF wired_sim_guard this assms(3-6) attempt(3,2)] show ?case by blast
next
  case (restart w n sch pid env)
  then show ?case by (intro restart_safe)
qed

text \<open>
  C6. At most once, across crashes: however often the guard is run for one tool call of \<open>apply_fix\<close> or
  \<open>open_pr\<close>, whatever the adversary refuses, drops, garbles or delays, wherever it kills the process and
  however long it waits before the next resume, the ledger never holds more than one entry for the call.
\<close>

theorem Guard_at_most_once:
  assumes "history tool ttl invo tc w0 w"
    and "tool \<in> {ApplyFixTool sim_runtime path, OpenPRTool sim_runtime path}"
    and "iv_IdempotencyKey invo = Some key" and "in64 (iv_Step invo)"
    and "ExpiryMargin < ttl" and "ttl \<le> max64"
    and "untouched path key (tc_InvokedAt tc) w0"
  shows "effects_under path key w \<le> 1"
  using history_safe [OF assms] by (simp add: safe_def sim_view_def)

text \<open>
  C7. The journaled result is the truth: whenever, after any such history, a guard run returns an outcome,
  its status is \<open>success\<close> and the effect has been recorded exactly once, or its status is \<open>error\<close> and the
  effect has not been recorded at all; this holds of executed, cached, reconciled and reexecuted outcomes.
\<close>

theorem Guard_outcome_truthful:
  assumes "history tool ttl invo tc w0 w"
    and "tool \<in> {ApplyFixTool sim_runtime path, OpenPRTool sim_runtime path}"
    and "iv_IdempotencyKey invo = Some key" and "in64 (iv_Step invo)"
    and "ExpiryMargin < ttl" and "ttl \<le> max64"
    and "untouched path key (tc_InvokedAt tc) w0"
    and "Guard_Run fuel (sim_guard toolTimeout grace ttl crash) ctx invo tc tool w = (Done (Inr oc), w')"
  shows "oc_Status oc = ''success'' \<and> effects_under path key w' = 1
    \<or> oc_Status oc = ''error'' \<and> effects_under path key w' = 0"
  using guard_run_safe [OF wired_sim_guard _ assms(3-6) history_safe [OF assms(1-7)] assms(8)] assms(2)
  by (simp add: effect_tools_def)



section \<open>Instances\<close>

definition sample_call :: ToolCall where
  "sample_call = \<lparr>tc_ToolUseID = ''t1'', tc_ToolName = ''apply_fix'',
     tc_ToolArgs = Some (JObj [(''description'', JStr ''fix it'')]), tc_HasSideEffect = True,
     tc_IdempotencyKey = Some ''idem:r1:1:t1'', tc_InvokedAt = 1000000\<rparr>"

definition sample_invocation :: Invocation where
  "sample_invocation = \<lparr>iv_RunID = ''r1'', iv_Step = 1, iv_ToolUseID = ''t1'',
     iv_IdempotencyKey = Some ''idem:r1:1:t1''\<rparr>"

definition sample_world :: "(mishap \<times> nat \<times> nat) list \<Rightarrow> world" where
  "sample_world sch = \<lparr>w_now = 2000000, w_fresh = 0, w_env = (\<lambda>_. []), w_pid = 7, w_files = (\<lambda>_. None),
     w_redis = (\<lambda>_. None), w_out = [], w_schedule = sch, w_topic = (\<lambda>_. []), w_reader = (\<lambda>_. 0), w_model = []\<rparr>"

definition sample_guard :: "world Guard" where
  "sample_guard = sim_guard (2 * Minute) (30 * Second) (24 * Hour) noCrash"

lemma sample_untouched:
  "untouched ''ledger'' ''idem:r1:1:t1'' (tc_InvokedAt sample_call) (sample_world sch)"
  by (simp add: untouched_def sample_world_def sample_call_def effects_under_def)

lemma sample_ranges: "ExpiryMargin < 24 * Hour" "24 * Hour \<le> max64" "in64 (iv_Step sample_invocation)"
  by (simp_all add: ExpiryMargin_def Minute_def Hour_def max64_def sample_invocation_def in64_def min64_def)

text \<open>The process is killed at its third call, and the run is resumed by a second guard run.\<close>

theorem Guard_at_most_once_witness:
  "let w1 = snd (Guard_Run 5 sample_guard Background sample_invocation sample_call
         (ApplyFixTool sim_runtime ''ledger'') (sample_world [(Smooth, 1, 1), (Smooth, 0, 2), (KillAfter, 0, 0)]));
       w2 = snd (Guard_Run 5 sample_guard Background sample_invocation sample_call
         (ApplyFixTool sim_runtime ''ledger'') (tick 9 w1\<lparr>w_schedule := [], w_pid := 8, w_env := (\<lambda>_. [])\<rparr>))
   in effects_under ''ledger'' ''idem:r1:1:t1'' w2 \<le> 1"
proof -
  let ?tool = "ApplyFixTool sim_runtime ''ledger''"
  let ?w0 = "sample_world [(Smooth, 1, 1), (Smooth, 0, 2), (KillAfter, 0, 0)]"
  have k: "iv_IdempotencyKey sample_invocation = Some ''idem:r1:1:t1''" by (simp add: sample_invocation_def)
  have step: "history ?tool (24 * Hour) sample_invocation sample_call ?w0
      (snd (Guard_Run 5 sample_guard Background sample_invocation sample_call ?tool w))"
    if "history ?tool (24 * Hour) sample_invocation sample_call ?w0 w" for w
    by (rule history.attempt [OF that, where x = "fst (Guard_Run 5 sample_guard Background sample_invocation sample_call ?tool w)"])
      (simp add: sample_guard_def)
  show ?thesis
    unfolding Let_def
    by (rule Guard_at_most_once [OF step [OF history.restart [OF step [OF history.start]]] _ k
          sample_ranges(3,1,2) sample_untouched]) simp
qed

end
