(* ===== verification/Sim_Instances.thy ===== *)
theory Sim_Instances imports Sim_Fence begin

text \<open>
  A concrete run of the guard in the simulated world: with nothing going wrong, the first attempt claims the
  key, executes \<open>apply_fix\<close>, records the effect and resolves the claim. The lemmas evaluate the run step by
  step; the last theorem is the instance of the truthfulness property on it.
\<close>

lemma external_smooth: "w_schedule w = [] \<Longrightarrow> external act refused lost garbled w = (case act w of (res, w2) \<Rightarrow> (Done res, w2))"
  by (simp add: external_def next_event_def tick_def Let_def)
lemma internal_smooth: "w_schedule w = [] \<Longrightarrow> internal act w = (case act w of (res, w2) \<Rightarrow> (Done res, w2))"
  by (simp add: internal_def next_event_def tick_def Let_def)
lemma retry_first:
  "rt_Now (g_rt (r_g r)) s = (Done t, s1) \<Longrightarrow> operation (Deadline (t + retryAttemptTimeout) ctx) s1 = (Done (Inr v), s2)
    \<Longrightarrow> retry ctx r operation s = (Done (Inr v), s2)"
  by (simp add: retry_def retryAttempts_def numeral_eq_Suc retry_attempt_def WithTimeout_def pbind_def)
lemma sample_year: "json_year 2000000" by code_simp
lemma sample_truncate: "truncate_us 2000000 = 2000000" by code_simp
lemma sample_world_unfold: "sample_world [] = \<lparr>w_now = 2000000, w_fresh = 0, w_env = (\<lambda>_. []), w_pid = 7, w_files = (\<lambda>_. None),
     w_redis = (\<lambda>_. None), w_out = [], w_schedule = [], w_topic = (\<lambda>_. []), w_reader = (\<lambda>_. 0), w_model = []\<rparr>" by (simp add: sample_world_def)

definition sample_run_of :: "string \<Rightarrow> world run" where "sample_run_of hash = \<lparr>r_g = sample_guard, r_inv = sample_invocation, r_tc = sample_call, r_tool = ApplyFixTool sim_runtime ''ledger'', r_key = ''idem:r1:1:t1'', r_argsHash = hash\<rparr>"
definition sample_claim :: "string \<Rightarrow> IdemRecord" where
 "sample_claim hash = \<lparr>ir_State = StateClaimed, ir_RunID = ''r1'', ir_Step = 1,
      ir_ToolUseID = ''t1'', ir_ToolName = ''apply_fix'',
      ir_ArgsHash = hash, ir_ClaimToken = token 0, ir_ClaimedBy = ''worker-1'',
      ir_ClaimedAt = 2000000, ir_ResolvedAt = None, ir_Result = None, ir_Status = None,
      ir_Resolution = None\<rparr>"
lemma sample_newRecord: "newRecord (sample_run_of hash) (sample_world []) = (Done (sample_claim hash), (sample_world [])\<lparr>w_fresh := 1\<rparr>)"
  by (simp add: sample_run_of_def newRecord_def sample_guard_def sim_guard_def sim_runtime_def sample_world_unfold internal_smooth pbind_def sample_truncate sample_claim_def sample_invocation_def sample_call_def)
lemma sample_Now: "w_schedule w = [] \<Longrightarrow> rt_Now sim_runtime w = (Done (w_now w), w)"
  by (simp add: sim_runtime_def internal_smooth)
lemma sample_Claim: "st_Claim (g_store (r_g (sample_run_of hash))) c ''idem:r1:1:t1'' (sample_claim hash) ((sample_world [])\<lparr>w_fresh := 1\<rparr>)
  = (Done (Inr \<lparr>cr_Acquired = True, cr_Existing = None\<rparr>), redis_set ''idem:r1:1:t1'' (enc_IdemRecord (sample_claim hash)) (24*Hour) ((sample_world [])\<lparr>w_fresh := 1\<rparr>))"
  by (simp add: sample_run_of_def sample_guard_def sim_guard_def RedisStore_def Redis_Claim_def sim_redis_def external_smooth sample_world_unfold redis_live_def pbind_def redisNil_def
   json_record_def sample_claim_def sample_year Hour_def Millisecond_def)
lemma sample_log: "w_schedule w = [] \<Longrightarrow> log (sample_run_of hash) d e w = (Done (), w\<lparr>w_out := w_out w @ [''fence key='' @ r_key (sample_run_of hash) @ '' tool='' @ tc_ToolName (r_tc (sample_run_of hash))
     @ '' decision='' @ d @ (if e \<noteq> [] then '' '' @ e else e) @ [CHR 0x0A]]\<rparr>)"
  by (simp add: log_def sample_run_of_def sample_guard_def sim_guard_def sim_Stdout_def internal_smooth)
lemma sample_not_expired: "w_schedule w = [] \<Longrightarrow> w_now w = 2000000 \<Longrightarrow> keyMayHaveExpired (sample_run_of hash) w = (Done False, w)"
  by (simp add: keyMayHaveExpired_def sample_run_of_def sample_guard_def sim_guard_def sample_Now pbind_def time_Sub_def sample_call_def sat64_def min64_def max64_def
   wrap64_def ExpiryMargin_def Minute_def Hour_def)
lemma sample_Execute: "w_schedule w = [] \<Longrightarrow> w_env w = (\<lambda>_. []) \<Longrightarrow> w_now w = 2000000 \<Longrightarrow> w_files w = (\<lambda>_. None) \<Longrightarrow>
  \<exists>w'. ApplyFix_Execute sim_runtime ''ledger'' c sample_invocation (tc_ToolArgs sample_call) w = (Done (Inr ''applied fix: fix it''), w')
    \<and> w_schedule w' = [] \<and> w_now w' = 2000000 \<and> w_redis w' = w_redis w" if "earliest c = None \<or> earliest c = Some (2000000 + 2 * Minute)"
  using that by (auto simp: ApplyFix_Execute_def pbindM_def pbind_def mockToolDelay_def sim_runtime_def internal_smooth external_smooth sample_call_def
    unmarshal_members string_arg_def find_field_def dec_enc record_effect_def Record_def sim_Err_def effect_entry_def sample_truncate sample_year sim_open_def sim_append_def Minute_def)

lemma sample_cas: "redis_live w ''idem:r1:1:t1'' = Some (Some (enc_IdemRecord (sample_claim hash)))
  \<Longrightarrow> casScript (redis_live w ''idem:r1:1:t1'') (token 0) v t = (1, Some (v, t))"
  by (simp add: casScript_def enc_IdemRecord_def sample_claim_def StateClaimed_def)

lemma sample_resolve: "w_schedule w = [] \<Longrightarrow> w_now w = 2000000 \<Longrightarrow>
  redis_live w ''idem:r1:1:t1'' = Some (Some (enc_IdemRecord (sample_claim hash))) \<Longrightarrow>
  \<exists>w'. resolve Background (sample_run_of hash) (sample_claim hash) ''applied fix: fix it'' ''success'' ''executed'' w =
   (Done (Inr \<lparr>oc_Result = ''applied fix: fix it'', oc_Status = ''success'', oc_Resolution = ''executed''\<rparr>), w')"
proof -
  assume w: "w_schedule w = []" "w_now w = 2000000" "redis_live w ''idem:r1:1:t1'' = Some (Some (enc_IdemRecord (sample_claim hash)))"
  let ?rec = "(sample_claim hash)\<lparr>ir_State := StateResolved, ir_ResolvedAt := Some 2000000, ir_Result := Some ''applied fix: fix it'',
         ir_Status := Some ''success'', ir_Resolution := Some ''executed''\<rparr>"
  obtain w' where "st_Resolve (g_store (r_g (sample_run_of hash))) c (r_key (sample_run_of hash)) (ir_ClaimToken (sample_claim hash)) ?rec w = (Done (Inr ()), w')" for c
    using w sample_cas [OF w(3)] by (simp add: sample_run_of_def sample_guard_def sim_guard_def RedisStore_def compareAndSet_def sim_redis_def external_smooth pbind_def
      json_record_def sample_claim_def sample_year)
  then have R: "retry Background (sample_run_of hash) (\<lambda>c. st_Resolve (g_store (r_g (sample_run_of hash))) c (r_key (sample_run_of hash)) (ir_ClaimToken (sample_claim hash)) ?rec) w = (Done (Inr ()), w')"
    by (intro retry_first [where t = 2000000 and ?s1.0 = w]) (simp_all add: sample_run_of_def sample_guard_def sim_guard_def sample_Now w)
  have n: "g_Now (r_g (sample_run_of hash)) w = (Done 2000000, w)"
    by (simp add: sample_run_of_def sample_guard_def sim_guard_def sample_Now w)
  have "ir_ClaimToken (sample_claim hash) = token 0" by (simp add: sample_claim_def)
  show ?thesis
    unfolding resolve_def pbind_Done [where m = "g_Now (r_g (sample_run_of hash))", OF n] Let_def sample_truncate pbind_Done [where m = "retry Background (sample_run_of hash) (\<lambda>c. st_Resolve (g_store (r_g (sample_run_of hash))) c (r_key (sample_run_of hash)) (ir_ClaimToken (sample_claim hash)) ?rec)", OF R]
    by (simp add: sample_run_of_def sample_guard_def sim_guard_def Crash_At_def)
qed

lemma sample_Guard_Run: "\<exists>w'. Guard_Run 5 sample_guard Background sample_invocation sample_call
     (ApplyFixTool sim_runtime ''ledger'') (sample_world []) = (Done (Inr \<lparr>oc_Result = ''applied fix: fix it'',
        oc_Status = ''success'', oc_Resolution = ''executed''\<rparr>), w')"
proof -
  obtain hash where h: "ArgsHash (tc_ToolName sample_call) (tc_ToolArgs sample_call) = Inr hash"
    by (simp add: ArgsHash_def canonicalJSON_def sample_call_def)
  let ?w1 = "(sample_world [])\<lparr>w_fresh := 1\<rparr>"
  let ?w2 = "redis_set ''idem:r1:1:t1'' (enc_IdemRecord (sample_claim hash)) (24*Hour) ?w1"
  have n: "rt_Now (g_rt (r_g (sample_run_of hash))) w = (Done (w_now w), w)" if "w_schedule w = []" for w
    using that by (simp add: sample_run_of_def sample_guard_def sim_guard_def sample_Now)
  have cl: "retry Background (sample_run_of hash) (\<lambda>c. st_Claim (g_store (r_g (sample_run_of hash))) c (r_key (sample_run_of hash)) (sample_claim hash)) ?w1
      = (Done (Inr \<lparr>cr_Acquired = True, cr_Existing = None\<rparr>), ?w2)"
    by (rule retry_first [OF n]) (simp add: sample_world_def, use sample_Claim in \<open>simp add: sample_run_of_def\<close>)
  have w2: "w_schedule ?w2 = []" "w_now ?w2 = 2000000" "w_env ?w2 = (\<lambda>_. [])" "w_files ?w2 = (\<lambda>_. None)"
    "redis_live ?w2 ''idem:r1:1:t1'' = Some (Some (enc_IdemRecord (sample_claim hash)))"
    by (simp_all add: redis_set_def sample_world_unfold redis_live_def Hour_def)
  obtain w3 where w3d: "w3 = ?w2\<lparr>w_out := w_out ?w2 @ [''fence key='' @ r_key (sample_run_of hash) @ '' tool='' @ tc_ToolName (r_tc (sample_run_of hash))
     @ '' decision='' @ ''acquired'' @ (if [] \<noteq> ([]::string) then '' '' @ [] else []) @ [CHR 0x0A]]\<rparr>" by blast
  have w3: "w_schedule w3 = []" "w_now w3 = 2000000" "w_env w3 = (\<lambda>_. [])" "w_files w3 = (\<lambda>_. None)"
    "w_redis w3 = w_redis ?w2"
    using w2 unfolding w3d by simp_all
  obtain w4 where w4: "ApplyFix_Execute sim_runtime ''ledger'' (Deadline (2000000 + 2 * Minute) Background) sample_invocation
      (tc_ToolArgs sample_call) w3 = (Done (Inr ''applied fix: fix it''), w4)"
      "w_schedule w4 = []" "w_now w4 = 2000000" "w_redis w4 = w_redis w3"
    using sample_Execute [of "Deadline (2000000 + 2 * Minute) Background" w3] w3 by auto
  have l4: "redis_live w4 ''idem:r1:1:t1'' = Some (Some (enc_IdemRecord (sample_claim hash)))"
    using w2(5) unfolding redis_live_def w4(3) w4(4) w3(5) w2(2) .
  obtain w5 where R: "resolve Background (sample_run_of hash) (sample_claim hash) ''applied fix: fix it'' ''success'' ''executed'' w4 =
   (Done (Inr \<lparr>oc_Result = ''applied fix: fix it'', oc_Status = ''success'', oc_Resolution = ''executed''\<rparr>), w5)"
    using sample_resolve [OF w4(2,3) l4] by blast
  have X: "execute Background (sample_run_of hash) (sample_claim hash) ResolutionExecuted w3 = (Done (Inr \<lparr>oc_Result = ''applied fix: fix it'', oc_Status = ''success'', oc_Resolution = ''executed''\<rparr>), w5)"
  proof -
    have wt: "WithTimeout (g_rt (r_g (sample_run_of hash))) Background (g_ToolTimeout (r_g (sample_run_of hash))) w3
        = (Done (Deadline (2000000 + 2 * Minute) Background), w3)"
      unfolding WithTimeout_def pbind_Done [where m = "rt_Now (g_rt (r_g (sample_run_of hash)))", OF n [OF w3(1)]] w3(2) by (simp add: sample_run_of_def sample_guard_def sim_guard_def)
    have ca: "pbind (Crash_At (g_Crash (r_g (sample_run_of hash))) t p) f w = f () w" for t p and f :: "unit \<Rightarrow> (world, goerror + Outcome) prog" and w
      by (rule pbind_Done) (simp add: sample_run_of_def sample_guard_def sim_guard_def Crash_At_def)
    have te: "t_Execute (r_tool (sample_run_of hash)) (Deadline (2000000 + 2 * Minute) Background) (r_inv (sample_run_of hash)) (tc_ToolArgs (r_tc (sample_run_of hash))) w3
       = (Done (Inr ''applied fix: fix it''), w4)"
      using w4(1) by (simp add: sample_run_of_def ApplyFixTool_def)
    show ?thesis
      unfolding execute_def ca
        pbind_Done [where m = "WithTimeout (g_rt (r_g (sample_run_of hash))) Background (g_ToolTimeout (r_g (sample_run_of hash)))", OF wt]
        pbind_Done [where m = "t_Execute (r_tool (sample_run_of hash)) (Deadline (2000000 + 2 * Minute) Background) (r_inv (sample_run_of hash)) (tc_ToolArgs (r_tc (sample_run_of hash)))", OF te]
        sum.case pbind_preturn if_False
      using R by (simp add: ResolutionExecuted_def)
  qed
  have aq: "acquired Background (sample_run_of hash) (sample_claim hash) ?w2 = execute Background (sample_run_of hash) (sample_claim hash) ResolutionExecuted w3"
    unfolding acquired_def pbind_Done [where m = "keyMayHaveExpired (sample_run_of hash)", OF sample_not_expired [OF w2(1,2)]] if_False
      pbind_Done [where m = "log (sample_run_of hash) ''acquired'' []", OF sample_log [OF w2(1)]] w3d by (rule refl)
  have at: "attempt 5 Background (sample_run_of hash) (sample_world []) = (Done (Inr \<lparr>oc_Result = ''applied fix: fix it'', oc_Status = ''success'', oc_Resolution = ''executed''\<rparr>), w5)"
    unfolding attempt_def pbind_Done [where m = "newRecord (sample_run_of hash)", OF sample_newRecord] fenced_def pbindM_def
      pbind_Done [where m = "retry Background (sample_run_of hash) (\<lambda>c. st_Claim (g_store (r_g (sample_run_of hash))) c (r_key (sample_run_of hash)) (sample_claim hash))", OF cl] sum.case
    using X aq by simp
  have eq: "\<lparr>r_g = sample_guard, r_inv = sample_invocation, r_tc = sample_call, r_tool = ApplyFixTool sim_runtime ''ledger'',
      r_key = ''idem:r1:1:t1'', r_argsHash = hash\<rparr> = sample_run_of hash" by (simp add: sample_run_of_def)
  have k: "iv_IdempotencyKey sample_invocation = Some ''idem:r1:1:t1''" by (simp add: sample_invocation_def)
  have "race_loop maxClaimRaces 5 Background (sample_run_of hash) (sample_world []) = (Done (Inr \<lparr>oc_Result = ''applied fix: fix it'', oc_Status = ''success'', oc_Resolution = ''executed''\<rparr>), w5)"
    by (simp add: maxClaimRaces_def numeral_3_eq_3 pbind_def at)
  then show ?thesis unfolding Guard_Run_def k option.case h sum.case eq by blast
qed

theorem Guard_outcome_truthful_witness:
  "\<exists>oc w'. Guard_Run 5 sample_guard Background sample_invocation sample_call
       (ApplyFixTool sim_runtime ''ledger'') (sample_world []) = (Done (Inr oc), w')
     \<and> oc_Status oc = ''success'' \<and> effects_under ''ledger'' ''idem:r1:1:t1'' w' = 1"
proof -
  obtain w' where run: "Guard_Run 5 (sim_guard (2 * Minute) (30 * Second) (24 * Hour) noCrash) Background sample_invocation
     sample_call (ApplyFixTool sim_runtime ''ledger'') (sample_world []) = (Done (Inr \<lparr>oc_Result = ''applied fix: fix it'',
        oc_Status = ''success'', oc_Resolution = ''executed''\<rparr>), w')"
    using sample_Guard_Run by (auto simp: sample_guard_def)
  have k: "iv_IdempotencyKey sample_invocation = Some ''idem:r1:1:t1''" by (simp add: sample_invocation_def)
  have "effects_under ''ledger'' ''idem:r1:1:t1'' w' = 1"
    using Guard_outcome_truthful [OF history.start _ k sample_ranges(3,1,2) sample_untouched run] by simp
  with run show ?thesis by (auto simp: sample_guard_def)
qed

end
