(* ===== verification/Fence_Prompt.thy ===== *)
theory Fence_Prompt
  imports Fence
begin

text \<open>
  The guard comes back. Nothing under the key is claimed in the future (\<open>punctual\<close>), the guard keeps it so,
  and then its waiting loop ends: every poll that leads to another one has slept for a second, so the claim
  it waits for goes stale. The number of polls is bounded by the time after which a claim is stale.
\<close>

abbreviation ends :: "('s, 'a) prog \<Rightarrow> bool" where
  "ends \<equiv> orderly (\<lambda>_. True)"

lemma ends_finishes: "ends m \<Longrightarrow> finishes P m"
  by (auto simp: orderly_def total_def elim: finishes_pre)

lemma finishes_ends: "finishes (\<lambda>_. True) m \<Longrightarrow> ends m"
  by (auto simp: orderly_def total_def triple_def split: prod.splits exec.splits)

lemma ends_total: "ends m \<Longrightarrow> triple P m Q R \<Longrightarrow> total P m Q R"
  by (simp add: total_def ends_finishes)

lemma ends_Crash [simp]: "ends (Crash_At h tool p)"
  by (simp add: Crash_At_def exitCrashCode_def orderly_halt split: CrashHook.splits)

definition punctual :: "fview \<Rightarrow> bool" where
  "punctual v \<longleftrightarrow> (\<forall>rec. key_holds v rec \<longrightarrow> ir_ClaimedAt rec \<le> fv_clock v)"

definition timed :: "gotime \<Rightarrow> fview \<Rightarrow> bool" where
  "timed t v \<longleftrightarrow> punctual v \<and> t \<le> fv_clock v"

lemma timed_mono: "timed t v \<Longrightarrow> fv_key v' = fv_key v \<Longrightarrow> later v v' \<Longrightarrow> timed t v'"
  by (auto simp: timed_def punctual_def later_def key_holds_def)

lemma stable_punctual: "stable punctual"
  by (rule stableI) (frule key_holds_calm, force simp: punctual_def calm_def later_def)

lemma stable_timed: "stable (timed t)"
  by (rule stableI) (auto intro: timed_mono simp: calm_def)

lemma lasting_punctual: "lasting punctual punctual" and lasting_timed: "lasting punctual (timed t)"
  by (auto simp: lasting_def stable_punctual stable_timed timed_def)

lemma timed_punctual: "timed t v \<Longrightarrow> punctual v"
  by (simp add: timed_def)

lemma punctual_holds: "punctual v \<Longrightarrow> key_holds v rec \<Longrightarrow> timed (ir_ClaimedAt rec) v"
  by (simp add: timed_def punctual_def)

lemma writes_timed: "writes_key ttl rec u v v' \<Longrightarrow> timed (ir_ClaimedAt rec) v \<Longrightarrow> timed (ir_ClaimedAt rec) v'"
  by (auto simp: writes_key_def timed_def punctual_def key_holds_def later_def)

locale prompt_fence = fence_store r view
  for r :: "'s run" and view :: "'s \<Rightarrow> fview" +
  assumes ends_out: "ends (g_Out (r_g r) txt)"
    and ends_sleep: "ends (g_Sleep (r_g r) c d)"
    and ends_err: "ends (rt_Err (g_rt (r_g r)) c)"
    and ends_clock: "ends (rt_Now (g_rt (r_g r)))"
    and ends_now: "ends (g_Now (r_g r))"
    and ends_uuid: "ends (rt_UUID (g_rt (r_g r)))"
    and ends_claim: "ends (st_Claim (g_store (r_g r)) c (r_key r) rec)"
    and ends_get: "ends (st_Get (g_store (r_g r)) c (r_key r))"
    and ends_resolve: "ends (st_Resolve (g_store (r_g r)) c (r_key r) tk rec)"
    and ends_takeOver: "ends (st_TakeOver (g_store (r_g r)) c (r_key r) tk rec)"
    and ends_tool: "ends (t_Execute (r_tool r) c (r_inv r) (tc_ToolArgs (r_tc r)))"
    and ends_reconciler: "t_Reconcile (r_tool r) = Some rc \<Longrightarrow> ends (rc c (r_inv r) (tc_ToolArgs (r_tc r)))"
    and sleep_value: "g_Sleep (r_g r) c d s = (Done (Inr ()), s') \<Longrightarrow> fv_clock (view s) + d \<le> fv_clock (view s')"
    and tool_spares: "t_Execute (r_tool r) c (r_inv r) (tc_ToolArgs (r_tc r)) s = (w, s')
      \<Longrightarrow> later (view s) (view s') \<and> fv_key (view s') = fv_key (view s)"
    and reconciler_calm: "t_Reconcile (r_tool r) = Some rc \<Longrightarrow> calm_prog view (rc c (r_inv r) (tc_ToolArgs (r_tc r)))"
begin

section \<open>Everything but waiting ends\<close>

lemma ends_log: "ends (log r d e)" and ends_fail: "ends (fail_with r d e err)"
  by (simp_all add: log_def fail_with_def ends_out orderly_bind)

lemma ends_storeErr: "ends (storeErr r err)"
  by (simp add: storeErr_def orderly_bind ends_log)

lemma ends_WithTimeout: "ends (WithTimeout (g_rt (r_g r)) c d)"
  by (simp add: WithTimeout_def orderly_bind ends_clock)

lemma ends_retry:
  assumes "\<And>c. ends (opn c)" shows "ends (retry ctx r opn)"
proof -
  have att: "ends (retry_attempt ctx r opn n again)" if "\<And>err. ends (again err)" for n again
    unfolding retry_attempt_def
    by (intro orderly_bind ends_WithTimeout assms)
      (auto intro!: orderly_bind ends_log ends_err that split: sum.split)
  have "ends (retry_loop ctx r opn n bo)" for n bo
    by (induction n arbitrary: bo) (auto intro!: att orderly_bind ends_sleep split: sum.split)
  then show ?thesis by (simp add: retry_def)
qed

lemma ends_fenced: "(\<And>c. ends (opn c)) \<Longrightarrow> (\<And>a. ends (k a)) \<Longrightarrow> ends (fenced ctx r opn k)"
  unfolding fenced_def by (intro orderly_bindM ends_retry ends_storeErr)

lemma ends_newRecord: "ends (newRecord r)"
  by (simp add: newRecord_def orderly_bind ends_uuid ends_now)

lemma ends_verify: "ends (verify r rec)" and ends_isStale: "ends (isStale r rec)"
  and ends_keyMayHaveExpired: "ends (keyMayHaveExpired r)"
  by (simp_all add: verify_def isStale_def keyMayHaveExpired_def orderly_bind ends_now ends_fail)

lemma ends_resolving: "ends (resolve ctx r held result status res)"
  unfolding resolve_def Let_def
  by (auto intro!: orderly_bind ends_now ends_retry ends_resolve ends_log split: sum.split)

lemma ends_execute: "ends (execute ctx r held res)"
  unfolding execute_def
  by (intro orderly_bind ends_Crash ends_WithTimeout ends_tool)
    (auto intro!: orderly_bind ends_err ends_fail ends_resolving split: sum.split)

lemma ends_takeOver_run: "ends (takeOver ctx r old)"
  unfolding takeOver_def recheckOwnTakeOver_def
  by (auto intro!: orderly_bind ends_newRecord ends_retry ends_takeOver ends_storeErr ends_fenced ends_get
      split: sum.split option.split)

lemma ends_reconcile: "ends (reconcile ctx r held tover)"
  unfolding reconcile_def
  by (auto intro!: ends_fail ends_fenced ends_reconciler orderly_bindE orderly_bind ends_takeOver_run ends_log
      ends_resolving ends_execute split: option.split)

lemma ends_acquired: "ends (acquired ctx r mine)"
  unfolding acquired_def
  by (auto intro!: orderly_bind ends_keyMayHaveExpired ends_reconcile ends_log ends_execute)

lemma ends_cacheHit: "ends (cacheHit r rec)"
  by (auto simp: cacheHit_def intro!: orderly_bind ends_log ends_fail split: option.split)


section \<open>Nothing is claimed in the future\<close>

abbreviation (input) "Timed t \<equiv> \<lambda>s. timed t (view s)"
abbreviation (input) "Punctual \<equiv> \<lambda>s. punctual (view s)"

lemma timed_bind:
  assumes "calm_prog view m" and "\<And>a. triple (Timed t) (f a) Q Punctual"
  shows "triple (Timed t) (pbind m f) Q Punctual"
  by (rule calm_bind [OF assms(1) lasting_timed assms(2)])

lemma timed_calm: "calm_prog view m \<Longrightarrow> triple (Timed t) m (\<lambda>_. Punctual) Punctual"
  by (rule triple_post [OF calm_triple [OF _ lasting_timed]]) (auto simp: timed_def)

lemma newRecord_timed:
  "triple Punctual (newRecord r) (\<lambda>rec s. timed (ir_ClaimedAt rec) (view s) \<and> ir_Step rec = iv_Step (r_inv r)) Punctual"
proof -
  have now: "triple Punctual (g_Now (r_g r)) (\<lambda>t s. timed (truncate_us t) (view s)) Punctual"
  proof (rule tripleI)
    note c = calm_triple [OF calm_now lasting_punctual]
    show "Punctual s \<Longrightarrow> g_Now (r_g r) s = (Done t, s') \<Longrightarrow> timed (truncate_us t) (view s')" for s t s'
      using triple_DoneD [OF c] now_value [of s t s'] truncate_us_le [of t] by (fastforce simp: timed_def)
    show "Punctual s \<Longrightarrow> g_Now (r_g r) s = (Halt n, s') \<Longrightarrow> Punctual s'" for s n s'
      using triple_HaltD [OF c] by blast
    show "Punctual s \<Longrightarrow> g_Now (r_g r) s = (OutOfFuel, s') \<Longrightarrow> Punctual s'" for s s'
      using triple_FuelD [OF c] by blast
  qed
  show ?thesis
    unfolding newRecord_def
    by (rule calm_bind [OF calm_uuid lasting_punctual], rule triple_bind [OF now], rule triple_return) simp
qed

lemma cas_timed:
  assumes op: "\<And>s z s'. opn s = (z, s') \<Longrightarrow> cas_contract (g_TTL (r_g r)) rec (view s) z (view s')"
    and t: "t = ir_ClaimedAt rec"
  shows "triple (Timed t) opn (\<lambda>res s. case res of Inl _ \<Rightarrow> timed t (view s) | Inr _ \<Rightarrow> timed t (view s)) Punctual"
proof -
  have "timed t (view s')" if "opn s = (z, s')" "timed t (view s)" for s z s'
    using op [OF that(1)] that(2) stable_timed writes_timed
    by (auto simp: cas_contract_def t stable_def)
  then show ?thesis by (intro tripleI) (auto split: sum.splits dest: timed_punctual)
qed

lemma resolve_timed:
  assumes "ir_Step held = iv_Step (r_inv r)" and "t = ir_ClaimedAt held"
  shows "triple (Timed t) (resolve ctx r held result status res) (\<lambda>_. Punctual) Punctual"
  unfolding resolve_def
proof (rule timed_bind [OF calm_now], unfold Let_def)
  fix u
  let ?rec = "held\<lparr>ir_State := StateResolved, ir_ResolvedAt := Some (truncate_us u), ir_Result := Some result,
    ir_Status := Some status, ir_Resolution := Some res\<rparr>"
  have cas: "triple (Timed t) (st_Resolve (g_store (r_g r)) c (r_key r) (ir_ClaimToken held) ?rec)
      (\<lambda>res s. case res of Inl _ \<Rightarrow> timed t (view s) | Inr _ \<Rightarrow> timed t (view s)) Punctual" for c
    by (rule cas_timed, erule resolve_cas [rotated]) (simp_all add: assms)
  show "triple (Timed t) (pbind (retry ctx r (\<lambda>c. st_Resolve (g_store (r_g r)) c (r_key r) (ir_ClaimToken held) ?rec))
      (\<lambda>x. pbind (case x of Inl err \<Rightarrow> log r ''resolve_failed'' (''err='' @ go_quote (err_msg err))
          | Inr _ \<Rightarrow> preturn ())
       (\<lambda>_. pbind (Crash_At (g_Crash (r_g r)) (tc_ToolName (r_tc r)) CrashAfterResolve)
       (\<lambda>_. preturn (Inr \<lparr>oc_Result = result, oc_Status = status, oc_Resolution = res\<rparr> :: goerror + Outcome))))) (\<lambda>_. Punctual) Punctual"
  proof (rule triple_bind [OF retry_triple [OF lasting_timed, where Q = "\<lambda>_. timed t", OF cas]])
    fix x :: "goerror + unit"
    have c: "calm_prog view (pbind (case x of Inl err \<Rightarrow> log r ''resolve_failed'' (''err='' @ go_quote (err_msg err))
          | Inr _ \<Rightarrow> preturn ())
       (\<lambda>_. pbind (Crash_At (g_Crash (r_g r)) (tc_ToolName (r_tc r)) CrashAfterResolve)
       (\<lambda>_. preturn (Inr \<lparr>oc_Result = result, oc_Status = status, oc_Resolution = res\<rparr> :: goerror + Outcome))))"
      by (auto intro!: calm_prog_bind calm_log split: sum.split)
    show "triple (\<lambda>s. case x of Inl _ \<Rightarrow> timed t (view s) | Inr _ \<Rightarrow> timed t (view s))
      (pbind (case x of Inl err \<Rightarrow> log r ''resolve_failed'' (''err='' @ go_quote (err_msg err))
          | Inr _ \<Rightarrow> preturn ())
       (\<lambda>_. pbind (Crash_At (g_Crash (r_g r)) (tc_ToolName (r_tc r)) CrashAfterResolve)
       (\<lambda>_. preturn (Inr \<lparr>oc_Result = result, oc_Status = status, oc_Resolution = res\<rparr> :: goerror + Outcome)))) (\<lambda>_. Punctual) Punctual"
      using timed_calm [OF c, of t] by (rule triple_pre) (auto split: sum.splits)
  qed
qed

lemma execute_timed:
  assumes "ir_Step held = iv_Step (r_inv r)" and "t = ir_ClaimedAt held"
  shows "triple (Timed t) (execute ctx r held res) (\<lambda>_. Punctual) Punctual"
proof -
  note res = resolve_timed [OF assms]
  have run: "triple (Timed t) (t_Execute (r_tool r) c (r_inv r) (tc_ToolArgs (r_tc r))) (\<lambda>_. Timed t) Punctual" for c
  proof -
    have "timed t (view s')" if "t_Execute (r_tool r) c (r_inv r) (tc_ToolArgs (r_tc r)) s = (x, s')" "timed t (view s)" for s x s'
      using tool_spares [OF that(1)] timed_mono [OF that(2)] by blast
    then show ?thesis by (intro tripleI) (auto dest: timed_punctual)
  qed
  have unk: "calm_prog view (case x of Inr _ \<Rightarrow> preturn False
       | Inl execErr \<Rightarrow> if errors_Is execErr SToolOutcomeUnknown then preturn True
           else pbind (rt_Err (g_rt (r_g r)) c) (\<lambda>e. preturn (isl e)))" for x :: "goerror + string" and c
    by (auto intro!: calm_prog_bind calm_err split: sum.split)
  show ?thesis
    unfolding execute_def
    by (intro timed_bind [OF calm_prog_Crash] timed_bind [OF calm_WithTimeout] triple_bind [OF run]
        timed_bind [OF unk] triple_if triple_sum timed_calm [OF calm_fail] res)
qed

text \<open>A step that may give a claim of our own: its claim time has passed.\<close>

definition held_timed :: "(goerror + IdemRecord) \<Rightarrow> fview \<Rightarrow> bool" where
  "held_timed x v \<longleftrightarrow> (case x of Inl _ \<Rightarrow> punctual v
     | Inr h \<Rightarrow> timed (ir_ClaimedAt h) v \<and> ir_Step h = iv_Step (r_inv r))"

lemma recheck_timed:
  assumes "ir_Step mine = iv_Step (r_inv r)"
  shows "triple (Timed (ir_ClaimedAt mine)) (recheckOwnTakeOver ctx r mine) (\<lambda>x s. held_timed x (view s)) Punctual"
  unfolding recheckOwnTakeOver_def
  by (rule fenced_get_triple [OF lasting_timed])
    (use assms in \<open>auto intro!: triple_return triple_if simp: held_timed_def timed_def\<close>)

lemma takeOver_timed: "triple Punctual (takeOver ctx r old) (\<lambda>x s. held_timed x (view s)) Punctual"
  unfolding takeOver_def
proof (rule triple_bind [OF newRecord_timed])
  fix mine :: IdemRecord
  let ?t = "ir_ClaimedAt mine"
  let ?k = "\<lambda>x :: goerror + unit. case x of
         Inl err \<Rightarrow> if errors_Is err SClaimLost then recheckOwnTakeOver ctx r mine
           else pbind (storeErr r err) (\<lambda>e. preturn (Inl e))
       | Inr _ \<Rightarrow> preturn (Inr mine)"
  show "triple (\<lambda>s. timed ?t (view s) \<and> ir_Step mine = iv_Step (r_inv r))
    (pbind (retry ctx r (\<lambda>c. st_TakeOver (g_store (r_g r)) c (r_key r) (ir_ClaimToken old) mine)) ?k)
    (\<lambda>x s. held_timed x (view s)) Punctual"
  proof (rule triple_fact [where F = "ir_Step mine = iv_Step (r_inv r)"])
    assume m: "ir_Step mine = iv_Step (r_inv r)"
    have op: "triple (Timed ?t) (st_TakeOver (g_store (r_g r)) c (r_key r) (ir_ClaimToken old) mine)
        (\<lambda>res s. case res of Inl _ \<Rightarrow> timed ?t (view s) | Inr _ \<Rightarrow> timed ?t (view s)) Punctual" for c
      by (rule cas_timed, erule takeOver_cas [rotated]) (simp_all add: m)
    have give: "triple (Timed ?t) (pbind (storeErr r err) (\<lambda>e. preturn (Inl e)))
        (\<lambda>x s. held_timed x (view s)) Punctual" for err
      by (rule timed_bind [OF calm_storeErr], rule triple_return) (simp add: held_timed_def timed_def)
    have k: "triple (Timed ?t) (?k x) (\<lambda>x s. held_timed x (view s)) Punctual" for x
      using m by (intro triple_sum triple_if recheck_timed give triple_return) (auto simp: held_timed_def)
    have "triple (Timed ?t) (pbind (retry ctx r (\<lambda>c. st_TakeOver (g_store (r_g r)) c (r_key r) (ir_ClaimToken old) mine)) ?k)
        (\<lambda>x s. held_timed x (view s)) Punctual"
      by (rule triple_bind [OF retry_triple [OF lasting_timed, where Q = "\<lambda>_. timed ?t", OF op]])
        (rule triple_pre [OF k], auto split: sum.splits)
    then show "triple (\<lambda>s. timed ?t (view s) \<and> ir_Step mine = iv_Step (r_inv r))
      (pbind (retry ctx r (\<lambda>c. st_TakeOver (g_store (r_g r)) c (r_key r) (ir_ClaimToken old) mine)) ?k)
      (\<lambda>x s. held_timed x (view s)) Punctual"
      by (rule triple_pre) simp
  qed simp
qed

lemma reconcile_timed:
  assumes "\<not> tover \<Longrightarrow> ir_Step held = iv_Step (r_inv r)"
  shows "triple (Timed (ir_ClaimedAt held)) (reconcile ctx r held tover) (\<lambda>_. Punctual) Punctual"
proof (cases "t_Reconcile (r_tool r)")
  case None
  then show ?thesis by (simp add: reconcile_def timed_calm [OF calm_fail])
next
  case (Some rc)
  let ?t = "ir_ClaimedAt held"
  have op: "triple (Timed ?t) (rc c (r_inv r) (tc_ToolArgs (r_tc r)))
      (\<lambda>res s. case res of Inl _ \<Rightarrow> timed ?t (view s) | Inr _ \<Rightarrow> timed ?t (view s)) Punctual" for c
    by (rule triple_post [OF calm_triple [OF reconciler_calm [OF Some] lasting_timed]]) (auto split: sum.splits)
  have own: "triple (Timed ?t) (if tover then takeOver ctx r held else preturn (Inr held))
      (\<lambda>x s. held_timed x (view s)) Punctual"
    by (rule triple_if, rule triple_pre [OF takeOver_timed], erule timed_punctual, rule triple_return)
      (use assms in \<open>simp add: held_timed_def\<close>)
  let ?go = "\<lambda>rr h. if rr_Applied rr
       then pbind (log r ''reconciled_found'' []) (\<lambda>_.
         resolve ctx r h (rr_Result rr) ''success'' ResolutionReconciled)
       else pbind (log r ''reconciled_not_found'' []) (\<lambda>_. execute ctx r h ResolutionReexecuted)"
  have go: "triple (\<lambda>s. held_timed (Inr h) (view s)) (?go rr h) (\<lambda>_. Punctual) Punctual" for rr h
  proof (rule triple_fact [where F = "ir_Step h = iv_Step (r_inv r)"], simp add: held_timed_def)
    assume h: "ir_Step h = iv_Step (r_inv r)"
    have "triple (Timed (ir_ClaimedAt h)) (?go rr h) (\<lambda>_. Punctual) Punctual"
      by (intro triple_if timed_bind [OF calm_log] resolve_timed [OF h refl] execute_timed [OF h refl])
    then show "triple (\<lambda>s. held_timed (Inr h) (view s)) (?go rr h) (\<lambda>_. Punctual) Punctual"
      by (rule triple_pre) (simp add: held_timed_def)
  qed
  show ?thesis
    unfolding reconcile_def Some option.case
    by (rule fenced_triple [OF lasting_timed, where Q = "\<lambda>_. timed ?t", OF op], erule timed_punctual,
        rule triple_bindE [OF own], simp add: held_timed_def, rule go)
qed

lemma acquired_timed:
  assumes "ir_Step mine = iv_Step (r_inv r)"
  shows "triple (Timed (ir_ClaimedAt mine)) (acquired ctx r mine) (\<lambda>_. Punctual) Punctual"
proof -
  have c: "calm_prog view (keyMayHaveExpired r)" by (simp add: keyMayHaveExpired_def calm_prog_bind calm_now)
  show ?thesis
    unfolding acquired_def
    by (intro timed_bind [OF c] triple_if reconcile_timed timed_bind [OF calm_log] execute_timed assms refl)
qed

lemma calm_cacheHit: "calm_prog view (cacheHit r rec)"
  by (auto simp: cacheHit_def intro!: calm_prog_bind calm_log calm_fail split: option.split)


section \<open>Waiting\<close>

text \<open>
  A wait with fuel left: the key holds the claim waited for, and it is stale at the latest after as many
  seconds as there are polls left but one.
\<close>

definition waiting :: "nat \<Rightarrow> IdemRecord \<Rightarrow> fview \<Rightarrow> bool" where
  "waiting fuel cur v \<longleftrightarrow> key_holds v cur \<and> timed (ir_ClaimedAt cur) v \<and> 0 < fuel
     \<and> ir_ClaimedAt cur + staleAfter r \<le> fv_clock v + (int fuel - 1) * Second"

lemma stable_waiting: "stable (waiting n cur)"
  by (rule stableI, insert stable_timed [of "ir_ClaimedAt cur"])
    (auto simp: waiting_def stable_def key_holds_calm, auto simp: calm_def later_def)

lemma lasting_waiting: "lasting punctual (waiting n cur)"
  by (auto simp: lasting_def stable_waiting) (auto simp: waiting_def timed_def)

definition settled_timed :: "(goerror + IdemRecord) \<Rightarrow> fview \<Rightarrow> bool" where
  "settled_timed x v \<longleftrightarrow> (case x of Inl _ \<Rightarrow> punctual v | Inr rec \<Rightarrow> timed (ir_ClaimedAt rec) v)"

lemma stale_by_then:
  "triple (\<lambda>s. waiting n cur (view s)) (isStale r cur)
     (\<lambda>stale s. waiting n cur (view s) \<and> (\<not> stale \<longrightarrow> 1 < n)) Punctual"
proof (rule tripleI)
  note c = calm_triple [OF calm_isStale lasting_waiting]
  fix s stale s' assume s: "waiting n cur (view s)" "isStale r cur s = (Done stale, s')"
  from triple_DoneD [OF c s] have w: "waiting n cur (view s')" .
  obtain now where now: "fv_clock (view s) \<le> now" "stale = (sat64 (now - ir_ClaimedAt cur) \<ge> staleAfter r)"
    using pbind_eq_DoneD [OF s(2) [unfolded isStale_def]] now_value by (auto simp: time_Sub_def)
  have "stale" if "n = 1"
  proof -
    have "staleAfter r \<le> now - ir_ClaimedAt cur" using s(1) now(1) that by (simp add: waiting_def)
    moreover have "staleAfter r \<le> max64" using wrap64_in64 by (simp add: staleAfter_def in64_def)
    ultimately show ?thesis using now(2) by (simp add: sat64_def min64_def max64_def)
  qed
  moreover have "0 < n" using w by (simp add: waiting_def)
  ultimately show "waiting n cur (view s') \<and> (\<not> stale \<longrightarrow> 1 < n)" using w by (cases "n = 1") auto
next
  note c = calm_triple [OF calm_isStale lasting_waiting]
  show "waiting n cur (view s) \<Longrightarrow> isStale r cur s = (Halt m, s') \<Longrightarrow> Punctual s'" for s m s'
    using triple_HaltD [OF c] by blast
  show "waiting n cur (view s) \<Longrightarrow> isStale r cur s = (OutOfFuel, s') \<Longrightarrow> Punctual s'" for s s'
    using triple_FuelD [OF c] by blast
qed

lemma slept_triple:
  "triple (\<lambda>s. waiting (Suc n) cur (view s) \<and> 0 < n) (g_Sleep (r_g r) ctx pollInterval)
     (\<lambda>x s. case x of Inl _ \<Rightarrow> punctual (view s) | Inr _ \<Rightarrow> waiting n cur (view s)) Punctual"
proof (rule tripleI)
  note c = calm_triple [OF calm_sleep lasting_waiting]
  fix s x s' assume s: "waiting (Suc n) cur (view s) \<and> 0 < n" "g_Sleep (r_g r) ctx pollInterval s = (Done x, s')"
  from triple_DoneD [OF c conjunct1 [OF s(1)] s(2)] have w: "waiting (Suc n) cur (view s')" .
  show "case x of Inl _ \<Rightarrow> punctual (view s') | Inr _ \<Rightarrow> waiting n cur (view s')"
  proof (cases x)
    case (Inr u)
    with sleep_value s(2) have "fv_clock (view s) + Second \<le> fv_clock (view s')" by (simp add: pollInterval_def)
    with w s(1) Inr show ?thesis by (auto simp: waiting_def algebra_simps)
  qed (use w lasting_waiting in \<open>auto simp: lasting_def\<close>)
next
  note c = calm_triple [OF calm_sleep lasting_waiting]
  show "waiting (Suc n) cur (view s) \<and> 0 < n \<Longrightarrow> g_Sleep (r_g r) ctx pollInterval s = (Halt m, s') \<Longrightarrow> Punctual s'" for s m s'
    using triple_HaltD [OF c] by blast
  show "waiting (Suc n) cur (view s) \<and> 0 < n \<Longrightarrow> g_Sleep (r_g r) ctx pollInterval s = (OutOfFuel, s') \<Longrightarrow> Punctual s'" for s s'
    using triple_FuelD [OF c] by blast
qed

lemma fenced_total:
  assumes I: "lasting punctual I"
    and opn: "\<And>c. triple (\<lambda>s. I (view s)) (opn c)
      (\<lambda>res s. case res of Inl _ \<Rightarrow> I (view s) | Inr a \<Rightarrow> Q a (view s)) Punctual"
    and e: "\<And>c. ends (opn c)" and err: "\<And>e s. I (view s) \<Longrightarrow> Post (Inl e) s"
    and k: "\<And>a. total (\<lambda>s. Q a (view s)) (k a) Post Punctual"
  shows "total (\<lambda>s. I (view s)) (fenced ctx r opn k) Post Punctual"
  unfolding fenced_def
  by (rule total_bindM [OF ends_total [OF ends_retry [OF e] retry_triple [OF I opn]]])
    (auto intro!: ends_total [OF ends_storeErr] triple_post [OF calm_triple [OF calm_storeErr I]] err k)

lemma calm_total:
  "calm_prog view m \<Longrightarrow> ends m \<Longrightarrow> lasting punctual A
    \<Longrightarrow> total (\<lambda>s. A (view s)) m (\<lambda>_ s. A (view s)) Punctual"
  by (rule ends_total [OF _ calm_triple])

lemma give_up_total:
  assumes "lasting punctual A"
  shows "total (\<lambda>s. A (view s)) (fail_with r d e err) (\<lambda>x s. settled_timed x (view s)) Punctual"
  unfolding fail_with_def
  by (rule total_bind [OF calm_total [OF calm_log ends_log assms]], rule total_return)
    (use assms in \<open>simp add: settled_timed_def lasting_def\<close>)

lemma wait_total:
  "total (\<lambda>s. waiting fuel cur (view s)) (waitUntilSettled fuel ctx r cur lastLog)
     (\<lambda>x s. settled_timed x (view s)) Punctual"
proof (induction fuel arbitrary: cur lastLog)
  case 0
  show ?case by (rule total_fact [where F = False]) (simp_all add: waiting_def)
next
  case (Suc n)
  let ?S = "\<lambda>x s. settled_timed x (view s)"
  have stop: "total (\<lambda>s. waiting m rec (view s)) (preturn (Inr rec)) ?S Punctual" for m rec
    by (rule total_return) (simp add: settled_timed_def waiting_def)
  let ?next = "\<lambda>l nxt. case nxt of
         None \<Rightarrow> preturn (Inl errRestart)
       | Some rec \<Rightarrow> pbindE (verify r rec) (\<lambda>_.
           if ir_State rec = StateResolved then preturn (Inr rec) else waitUntilSettled n ctx r rec l)"
  have got: "total (\<lambda>s. waiting n rec (view s)) (?next l (Some rec)) ?S Punctual" for l rec
    unfolding option.case
    by (rule total_bindE [OF calm_total [OF calm_verify ends_verify lasting_waiting]],
        simp add: settled_timed_def waiting_def timed_def, intro total_if stop Suc.IH)
  have poll: "total (\<lambda>s. waiting n cur (view s)) (fenced ctx r (\<lambda>c. st_Get (g_store (r_g r)) c (r_key r)) (?next l)) ?S Punctual" for l
  proof (rule fenced_total [OF lasting_waiting get_triple [OF lasting_waiting] ends_get])
    show "waiting n cur (view s) \<Longrightarrow> ?S (Inl e) s" for e s
      by (simp add: settled_timed_def waiting_def timed_def)
    fix nxt
    show "total (\<lambda>s. waiting n cur (view s) \<and> (\<forall>rec. nxt = Some rec \<longrightarrow> key_holds (view s) rec)) (?next l nxt) ?S Punctual"
    proof (cases nxt)
      case None
      have "total (\<lambda>s. waiting n cur (view s)) (preturn (Inl errRestart)) ?S Punctual"
        by (rule total_return) (simp add: settled_timed_def waiting_def timed_def)
      with None show ?thesis by simp
    next
      case (Some rec)
      show ?thesis unfolding Some
        by (rule total_pre [OF got]) (auto simp: waiting_def dest: key_holds_unique)
    qed
  qed
  have sleep: "total (\<lambda>s. waiting (Suc n) cur (view s) \<and> 0 < n) (pbind (g_Sleep (r_g r) ctx pollInterval) (\<lambda>slept. case slept of
       Inl err \<Rightarrow> fail_with r ''fence_unavailable'' ''reason=wait_interrupted''
         (Errorws ErrFenceUnavailable ('': waiting for claim: '' @ err_msg err))
     | Inr _ \<Rightarrow> fenced ctx r (\<lambda>c. st_Get (g_store (r_g r)) c (r_key r)) (?next l))) ?S Punctual" for l
  proof (rule total_bind [OF ends_total [OF ends_sleep slept_triple]])
    fix slept :: "goerror + unit"
    show "total (\<lambda>s. case slept of Inl _ \<Rightarrow> punctual (view s) | Inr _ \<Rightarrow> waiting n cur (view s)) (case slept of
       Inl err \<Rightarrow> fail_with r ''fence_unavailable'' ''reason=wait_interrupted''
         (Errorws ErrFenceUnavailable ('': waiting for claim: '' @ err_msg err))
     | Inr _ \<Rightarrow> fenced ctx r (\<lambda>c. st_Get (g_store (r_g r)) c (r_key r)) (?next l)) ?S Punctual"
      by (cases slept) (simp_all add: give_up_total [OF lasting_punctual] poll)
  qed
  have lw: "lasting punctual (\<lambda>v. waiting (Suc n) cur v \<and> 0 < n)"
    using lasting_waiting [of "Suc n" cur] by (auto simp: lasting_def stable_def)
  have c: "calm_prog view (if due then log r ''waiting'' x else preturn ())"
    "ends (if due then log r ''waiting'' x else preturn ())" for due x
    by (simp_all add: calm_log ends_log)
  show ?case
    unfolding waitUntilSettled.simps Let_def
  proof (rule total_bind [OF ends_total [OF ends_isStale stale_by_then]], rule total_if)
    fix stale :: bool
    show "total (\<lambda>s. waiting (Suc n) cur (view s) \<and> (\<not> stale \<longrightarrow> 1 < Suc n)) (preturn (Inr cur)) ?S Punctual"
      by (rule total_pre [OF stop]) auto
    assume "\<not> stale"
    show "total (\<lambda>s. waiting (Suc n) cur (view s) \<and> (\<not> stale \<longrightarrow> 1 < Suc n)) (pbind (g_Now (r_g r)) (\<lambda>now.
       pbind (if lastLog = zero_time \<or> time_Sub now lastLog \<ge> waitLogInterval
         then log r ''waiting'' (wait_extra r (time_Sub now (ir_ClaimedAt cur))) else preturn ()) (\<lambda>_.
       pbind (g_Sleep (r_g r) ctx pollInterval) (\<lambda>slept. case slept of
         Inl err \<Rightarrow> fail_with r ''fence_unavailable'' ''reason=wait_interrupted''
           (Errorws ErrFenceUnavailable ('': waiting for claim: '' @ err_msg err))
       | Inr _ \<Rightarrow> fenced ctx r (\<lambda>c. st_Get (g_store (r_g r)) c (r_key r))
           (?next (if lastLog = zero_time \<or> time_Sub now lastLog \<ge> waitLogInterval then now else lastLog)))))) ?S Punctual"
      by (rule total_pre [OF total_bind [OF calm_total [OF calm_now ends_now lw]
              total_bind [OF calm_total [OF c lw] sleep]]]) (use \<open>\<not> stale\<close> in auto)
  qed
qed


section \<open>The guard comes back\<close>

definition polls :: "nat \<Rightarrow> bool" where
  "polls fuel \<longleftrightarrow> 0 < fuel \<and> staleAfter r \<le> (int fuel - 1) * Second"

lemma stopped_total: "ends m \<Longrightarrow> calm_prog view m \<Longrightarrow> total (Timed t) m (\<lambda>_. Punctual) Punctual"
  by (rule ends_total [OF _ timed_calm])

lemma existing_total:
  assumes "ir_Step mine = iv_Step (r_inv r)" and "polls fuel"
  shows "total (\<lambda>s. timed (ir_ClaimedAt mine) (view s) \<and> key_holds (view s) ex) (existing fuel ctx r mine ex)
    (\<lambda>_. Punctual) Punctual"
proof (cases "ir_State ex = StateClaimed \<and> ir_ClaimToken ex = ir_ClaimToken mine")
  case True
  show ?thesis
    unfolding existing_def if_P [OF True]
    by (rule total_pre [OF ends_total [OF ends_acquired acquired_timed [OF assms(1)]]]) simp
next
  case False
  let ?W = "waiting fuel ex"
  have after: "total (\<lambda>s. settled_timed (Inr rec) (view s))
      (if ir_State rec = StateResolved then cacheHit r rec else reconcile ctx r rec True) (\<lambda>_. Punctual) Punctual" for rec
  proof -
    have "total (Timed (ir_ClaimedAt rec))
      (if ir_State rec = StateResolved then cacheHit r rec else reconcile ctx r rec True) (\<lambda>_. Punctual) Punctual"
      by (intro total_if stopped_total ends_cacheHit calm_cacheHit ends_total [OF ends_reconcile] reconcile_timed) simp
    then show ?thesis by (rule total_pre) (simp add: settled_timed_def)
  qed
  have wait: "total (\<lambda>s. ?W (view s)) (pbindE (waitUntilSettled fuel ctx r ex zero_time) (\<lambda>rec.
         if ir_State rec = StateResolved then cacheHit r rec else reconcile ctx r rec True)) (\<lambda>_. Punctual) Punctual"
    by (rule total_bindE [OF wait_total _ after]) (simp add: settled_timed_def)
  have hit: "total (\<lambda>s. ?W (view s)) (cacheHit r ex) (\<lambda>_. Punctual) Punctual"
    by (rule total_pre [OF stopped_total [OF ends_cacheHit calm_cacheHit, where t = "ir_ClaimedAt ex"]])
      (simp add: waiting_def)
  have "total (\<lambda>s. ?W (view s)) (existing fuel ctx r mine ex) (\<lambda>_. Punctual) Punctual"
    unfolding existing_def if_not_P [OF False]
    by (rule total_bindE [OF calm_total [OF calm_verify ends_verify lasting_waiting]],
        simp add: waiting_def timed_def, intro total_if hit wait)
  then show ?thesis
  proof (rule total_pre)
    fix s assume a: "timed (ir_ClaimedAt mine) (view s) \<and> key_holds (view s) ex"
    then have t: "timed (ir_ClaimedAt ex) (view s)" by (auto intro: punctual_holds timed_punctual)
    with assms(2) a show "?W (view s)" by (auto simp: waiting_def polls_def timed_def)
  qed
qed

lemma claim_timed:
  assumes "ir_Step mine = iv_Step (r_inv r)"
  shows "triple (Timed (ir_ClaimedAt mine)) (st_Claim (g_store (r_g r)) c (r_key r) mine)
    (\<lambda>res s. case res of Inl _ \<Rightarrow> timed (ir_ClaimedAt mine) (view s)
      | Inr cr \<Rightarrow> timed (ir_ClaimedAt mine) (view s)
          \<and> (\<forall>ex. \<not> cr_Acquired cr \<longrightarrow> cr_Existing cr = Some ex \<longrightarrow> key_holds (view s) ex)) Punctual"
proof -
  let ?t = "ir_ClaimedAt mine"
  have a: "timed ?t (view s') \<and> (\<forall>cr ex. x = Done (Inr cr) \<longrightarrow> \<not> cr_Acquired cr \<longrightarrow> cr_Existing cr = Some ex
      \<longrightarrow> key_holds (view s') ex)"
    if "st_Claim (g_store (r_g r)) c (r_key r) mine s = (x, s')" "timed ?t (view s)" for s x s'
    using claim [OF assms that(1)] that(2) stable_timed writes_timed
    unfolding claim_contract_def stable_def by (metis key_holds_calm)
  show ?thesis
    by (intro tripleI) (use a in \<open>fastforce dest: timed_punctual split: sum.splits\<close>)+
qed

lemma attempt_total:
  assumes "polls fuel" shows "total Punctual (attempt fuel ctx r) (\<lambda>_. Punctual) Punctual"
  unfolding attempt_def
proof (rule total_bind [OF ends_total [OF ends_newRecord newRecord_timed]])
  fix mine :: IdemRecord
  let ?t = "ir_ClaimedAt mine"
  let ?Q = "\<lambda>cr v. timed ?t v \<and> (\<forall>ex. \<not> cr_Acquired cr \<longrightarrow> cr_Existing cr = Some ex \<longrightarrow> key_holds v ex)"
  let ?none = "fail_with r ''fence_unavailable'' ''reason=claim_neither_acquired_nor_existing''
           (Errorws ErrFenceUnavailable
             '': store returned neither an acquired claim nor an existing record'')"
  let ?k = "\<lambda>res. if cr_Acquired res then acquired ctx r mine
       else (case cr_Existing res of None \<Rightarrow> ?none | Some ex \<Rightarrow> existing fuel ctx r mine ex)"
  show "total (\<lambda>s. timed ?t (view s) \<and> ir_Step mine = iv_Step (r_inv r))
    (fenced ctx r (\<lambda>c. st_Claim (g_store (r_g r)) c (r_key r) mine) ?k) (\<lambda>_. Punctual) Punctual"
  proof (rule total_fact [where F = "ir_Step mine = iv_Step (r_inv r)"])
    assume m: "ir_Step mine = iv_Step (r_inv r)"
    have "total (\<lambda>s. ?Q cr (view s)) (?k cr) (\<lambda>_. Punctual) Punctual" for cr
    proof (rule total_if)
      assume "cr_Acquired cr"
      show "total (\<lambda>s. ?Q cr (view s)) (acquired ctx r mine) (\<lambda>_. Punctual) Punctual"
        by (rule total_pre [OF ends_total [OF ends_acquired acquired_timed [OF m]]]) simp
    next
      assume na: "\<not> cr_Acquired cr"
      show "total (\<lambda>s. ?Q cr (view s)) (case cr_Existing cr of None \<Rightarrow> ?none
          | Some ex \<Rightarrow> existing fuel ctx r mine ex) (\<lambda>_. Punctual) Punctual"
      proof (rule total_option)
        show "total (\<lambda>s. ?Q cr (view s)) ?none (\<lambda>_. Punctual) Punctual"
          by (rule total_pre [OF stopped_total [OF ends_fail calm_fail, where t = ?t]]) simp
        show "total (\<lambda>s. ?Q cr (view s)) (existing fuel ctx r mine ex) (\<lambda>_. Punctual) Punctual"
          if "cr_Existing cr = Some ex" for ex
          by (rule total_pre [OF existing_total [OF m assms]]) (use that na in auto)
      qed
    qed
    from fenced_total [OF lasting_timed claim_timed [OF m] ends_claim _ this]
    show "total (\<lambda>s. timed ?t (view s) \<and> ir_Step mine = iv_Step (r_inv r))
      (fenced ctx r (\<lambda>c. st_Claim (g_store (r_g r)) c (r_key r) mine) ?k) (\<lambda>_. Punctual) Punctual"
      by (rule total_pre) (auto simp: timed_def)
  qed simp
qed

lemma race_total: "polls fuel \<Longrightarrow> total Punctual (race_loop n fuel ctx r) (\<lambda>_. Punctual) Punctual"
proof (induction n)
  case 0
  show ?case unfolding race_loop.simps
    by (rule total_conseq [OF ends_total [OF ends_fail calm_triple [OF calm_fail lasting_punctual]]])
next
  case (Suc n)
  show ?case
    unfolding race_loop.simps
    by (rule total_bind [OF attempt_total [OF Suc.prems]])
      (auto intro!: total_return Suc split: sum.split)
qed

text \<open>With fuel for the polls, the guard always comes back, and nothing is claimed in the future.\<close>

lemma Guard_Run_total:
  assumes "iv_IdempotencyKey (r_inv r) = Some (r_key r)"
    and "ArgsHash (tc_ToolName (r_tc r)) (tc_ToolArgs (r_tc r)) = Inr (r_argsHash r)" and "polls fuel"
  shows "total Punctual (Guard_Run fuel (r_g r) ctx (r_inv r) (r_tc r) (r_tool r)) (\<lambda>_. Punctual) Punctual"
proof -
  have r: "\<lparr>r_g = r_g r, r_inv = r_inv r, r_tc = r_tc r, r_tool = r_tool r, r_key = r_key r,
      r_argsHash = r_argsHash r\<rparr> = r" by simp
  show ?thesis unfolding Guard_Run_def assms(1,2) option.case sum.case r by (rule race_total [OF assms(3)])
qed

end

end
