(* ===== verification/Fence_Bystander.thy ===== *)
theory Fence_Bystander
  imports Fence
begin

text \<open>
  A guard run seen through a view that none of its calls changes, such as the record and the effects under
  another call's key: the whole run leaves it alone.
\<close>

lemma calm_prog_bindE: "calm_prog view m \<Longrightarrow> (\<And>a. calm_prog view (f a)) \<Longrightarrow> calm_prog view (pbindE m f)"
  unfolding pbindE_def by (rule calm_prog_bind) (simp_all split: sum.split)

lemma calm_prog_bindM:
  "calm_prog view m \<Longrightarrow> (\<And>e. calm_prog view (h e)) \<Longrightarrow> (\<And>a. calm_prog view (f a)) \<Longrightarrow> calm_prog view (pbindM m h f)"
  unfolding pbindM_def by (rule calm_prog_bind) (auto intro!: calm_prog_bind split: sum.split)

lemma calm_prog_sum:
  "(\<And>e. calm_prog view (f e)) \<Longrightarrow> (\<And>a. calm_prog view (g a)) \<Longrightarrow> calm_prog view (case r of Inl e \<Rightarrow> f e | Inr a \<Rightarrow> g a)"
  by (simp split: sum.split)

lemma calm_prog_option:
  "calm_prog view f \<Longrightarrow> (\<And>a. calm_prog view (g a)) \<Longrightarrow> calm_prog view (case r of None \<Rightarrow> f | Some a \<Rightarrow> g a)"
  by (simp split: option.split)

lemma calm_prog_if: "calm_prog view m \<Longrightarrow> calm_prog view n \<Longrightarrow> calm_prog view (if b then m else n)"
  by simp

lemmas calm_rules = calm_prog_return calm_prog_Crash calm_prog_bind calm_prog_bindE calm_prog_bindM
  calm_prog_sum calm_prog_option calm_prog_if

locale bystander =
  fixes r :: "'s run" and view :: "'s \<Rightarrow> fview"
  assumes aside_out: "calm_prog view (g_Out (r_g r) txt)"
    and aside_sleep: "calm_prog view (g_Sleep (r_g r) c d)"
    and aside_err: "calm_prog view (rt_Err (g_rt (r_g r)) c)"
    and aside_clock: "calm_prog view (rt_Now (g_rt (r_g r)))"
    and aside_now: "calm_prog view (g_Now (r_g r))"
    and aside_uuid: "calm_prog view (rt_UUID (g_rt (r_g r)))"
    and aside_claim: "calm_prog view (st_Claim (g_store (r_g r)) c (r_key r) rec)"
    and aside_get: "calm_prog view (st_Get (g_store (r_g r)) c (r_key r))"
    and aside_resolve: "calm_prog view (st_Resolve (g_store (r_g r)) c (r_key r) tk rec)"
    and aside_takeOver: "calm_prog view (st_TakeOver (g_store (r_g r)) c (r_key r) tk rec)"
    and aside_tool: "calm_prog view (t_Execute (r_tool r) c (r_inv r) (tc_ToolArgs (r_tc r)))"
    and aside_reconciler: "t_Reconcile (r_tool r) = Some rc \<Longrightarrow> calm_prog view (rc c (r_inv r) (tc_ToolArgs (r_tc r)))"
begin

lemma aside_log: "calm_prog view (log r d e)" and aside_fail: "calm_prog view (fail_with r d e err)"
  by (simp_all add: log_def fail_with_def aside_out calm_prog_bind)

lemma aside_storeErr: "calm_prog view (storeErr r err)"
  by (simp add: storeErr_def calm_prog_bind aside_log)

lemma aside_retry:
  assumes "\<And>c. calm_prog view (opn c)" shows "calm_prog view (retry ctx r opn)"
proof -
  have att: "calm_prog view (retry_attempt ctx r opn n again)" if "\<And>err. calm_prog view (again err)" for n again
    unfolding retry_attempt_def WithTimeout_def
    by (intro calm_rules assms aside_clock aside_log aside_err that)
  have "calm_prog view (retry_loop ctx r opn n bo)" for n bo
  proof (induction n arbitrary: bo)
    case 0
    show ?case unfolding retry_loop.simps by (intro att calm_rules)
  next
    case (Suc n)
    show ?case unfolding retry_loop.simps by (intro att calm_rules aside_sleep Suc)
  qed
  then show ?thesis by (simp add: retry_def)
qed

lemma aside_fenced:
  "(\<And>c. calm_prog view (opn c)) \<Longrightarrow> (\<And>a. calm_prog view (k a)) \<Longrightarrow> calm_prog view (fenced ctx r opn k)"
  unfolding fenced_def by (intro calm_prog_bindM aside_retry aside_storeErr)

lemma aside_newRecord: "calm_prog view (newRecord r)" and aside_verify: "calm_prog view (verify r rec)"
  and aside_isStale: "calm_prog view (isStale r rec)" and aside_expired: "calm_prog view (keyMayHaveExpired r)"
  by (simp_all add: newRecord_def verify_def isStale_def keyMayHaveExpired_def calm_prog_bind aside_uuid aside_now aside_fail)

lemma aside_resolving: "calm_prog view (resolve ctx r held result status res)"
  unfolding resolve_def Let_def by (intro calm_rules aside_now aside_retry aside_resolve aside_log)

lemma aside_execute: "calm_prog view (execute ctx r held res)"
  unfolding execute_def WithTimeout_def
  by (intro calm_rules aside_clock aside_tool aside_err aside_fail aside_resolving)

lemma aside_taking: "calm_prog view (takeOver ctx r old)"
  unfolding takeOver_def recheckOwnTakeOver_def
  by (intro calm_rules aside_newRecord aside_retry aside_takeOver aside_fenced aside_get aside_storeErr)

lemma aside_reconcile: "calm_prog view (reconcile ctx r held tover)"
  unfolding reconcile_def
  by (auto intro!: aside_fail aside_fenced aside_reconciler calm_prog_bindE calm_prog_bind aside_taking aside_log
      aside_resolving aside_execute split: option.split)

lemma aside_acquired: "calm_prog view (acquired ctx r mine)"
  unfolding acquired_def by (intro calm_rules aside_expired aside_reconcile aside_log aside_execute)

lemma aside_cacheHit: "calm_prog view (cacheHit r rec)"
  by (auto simp: cacheHit_def intro!: calm_prog_bind aside_log aside_fail split: option.split)

lemma aside_wait: "calm_prog view (waitUntilSettled fuel ctx r cur lastLog)"
proof (induction fuel arbitrary: cur lastLog)
  case 0
  show ?case unfolding waitUntilSettled.simps by (rule calm_prog_return)
next
  case (Suc n)
  show ?case
    unfolding waitUntilSettled.simps Let_def
    by (intro calm_rules aside_isStale aside_now aside_log aside_sleep aside_fail aside_fenced aside_get
        aside_verify Suc)
qed

lemma Guard_Run_calm:
  assumes "iv_IdempotencyKey (r_inv r) = Some (r_key r)"
    and "ArgsHash (tc_ToolName (r_tc r)) (tc_ToolArgs (r_tc r)) = Inr (r_argsHash r)"
  shows "calm_prog view (Guard_Run fuel (r_g r) ctx (r_inv r) (r_tc r) (r_tool r))"
proof -
  have r: "\<lparr>r_g = r_g r, r_inv = r_inv r, r_tc = r_tc r, r_tool = r_tool r, r_key = r_key r,
      r_argsHash = r_argsHash r\<rparr> = r" by simp
  have ex: "calm_prog view (existing fuel ctx r mine e)" for mine e
    unfolding existing_def
    by (intro calm_rules aside_acquired aside_verify aside_cacheHit aside_wait aside_reconcile)
  have at: "calm_prog view (attempt fuel ctx r)"
    unfolding attempt_def by (intro calm_rules aside_newRecord aside_fenced aside_claim aside_acquired aside_fail ex)
  have "calm_prog view (race_loop n fuel ctx r)" for n
    by (induction n) (auto intro!: calm_prog_bind at aside_fail split: sum.split)
  then show ?thesis unfolding Guard_Run_def assms option.case sum.case r .
qed

end

end
