(* ===== verification/Loop_Facts.thy ===== *)
theory Loop_Facts
  imports Agent_Loop
begin

text \<open>
  What publishing an event does to a folded run, state by state: every payload the loop journals is one
  the fold accepts in the state it is journaled from, and each round of the loop brings the run closer to
  its end. These are the facts about \<open>Apply\<close> that the loop's correctness rests on.
\<close>

section \<open>The event of a payload\<close>

text \<open>An envelope that carries a payload as the next event of a run.\<close>

definition event_of :: "RunState \<Rightarrow> Payload \<Rightarrow> Envelope \<Rightarrow> bool" where
  "event_of s p e \<longleftrightarrow> (isEmpty s \<or> RunID e = s_RunID s) \<and> SequenceNumber e = s_NextSequence s
     \<and> EventType_of e = payload_EventType p \<and> PayloadRaw e = Some (enc_payload p)"

text \<open>Encoding writes an absent raw member as \<open>null\<close>, and reading gives that back.\<close>

primrec with_docs :: "Payload \<Rightarrow> Payload" where
  "with_docs (PRunStarted p) = PRunStarted (p\<lparr>rs_Input := Some (enc_raw (rs_Input p))\<rparr>)"
| "with_docs (PLLMResponded p) = PLLMResponded (p\<lparr>lr_Content := Some (enc_raw (lr_Content p))\<rparr>)"
| "with_docs (PToolInvoked p) = PToolInvoked (p\<lparr>ti_ToolArgs := Some (enc_raw (ti_ToolArgs p))\<rparr>)"
| "with_docs (PToolResulted p) = PToolResulted p"
| "with_docs (PAwaitingApproval p) = PAwaitingApproval (p\<lparr>aa_ApprovalPayload := Some (enc_raw (aa_ApprovalPayload p))\<rparr>)"
| "with_docs (PRunApproved p) = PRunApproved p"
| "with_docs (PRunCompleted p) = PRunCompleted p"
| "with_docs (PRunFailed p) = PRunFailed p"
| "with_docs (PRunCancelled p) = PRunCancelled p"

lemma DecodePayload_with_docs:
  assumes "payload_in64 p" and "EventType_of e = payload_EventType p" and "PayloadRaw e = Some (enc_payload p)"
  shows "DecodePayload e = Inr (with_docs p)"
proof (rule DecodePayload_enc)
  show "wf_payload (with_docs p)" using assms(1) by (cases p) simp_all
  show "EventType_of e = payload_EventType (with_docs p)" using assms(2) by (cases p) simp_all
  show "PayloadRaw e = Some (enc_payload (with_docs p))" using assms(3) by (cases p) simp_all
qed

text \<open>A payload whose documents are there where the fold reads them.\<close>

definition journalable :: "Payload \<Rightarrow> bool" where
  "journalable p \<longleftrightarrow> payload_in64 p \<and> (case p of
     PRunStarted q \<Rightarrow> rs_Input q \<noteq> None | PLLMResponded q \<Rightarrow> lr_Content q \<noteq> None | _ \<Rightarrow> True)"

lemma applyPayload_with_docs:
  assumes "journalable p" shows "applyPayload blocks s (with_docs p) t = applyPayload blocks s p t"
proof (cases p)
  case (PRunStarted q)
  then show ?thesis using assms by (cases q) (auto simp: journalable_def)
next
  case (PLLMResponded q)
  then show ?thesis using assms by (cases q) (auto simp: journalable_def)
qed (auto simp: applyToolInvoked_def split: sum.splits)

text \<open>A folded run whose sequence numbers have room left.\<close>

definition going :: "RunState \<Rightarrow> bool" where
  "going s \<longleftrightarrow> wf_run s \<and> \<not> isEmpty s \<and> length (s_seen s) < 2 ^ 63"

lemma going_unseen: "going s \<Longrightarrow> map_of (s_seen s) (s_NextSequence s) = None"
  using wf_run_seen_small(1) [of s] by (simp add: going_def map_of_eq_None_iff)

lemma event_of_applied:
  assumes "going s" and "event_of s p e" and "\<not> isTerminalStatus (s_Status s)" and "journalable p"
    and "applyPayload blocks s p (OccurredAt e) = Inr n"
  shows "Apply blocks s e = Inr (finish_event e n)"
proof -
  have ne: "\<not> isEmpty s" using assms(1) by (simp add: going_def)
  then have "admitted s e"
    using assms(2,3) going_unseen [OF assms(1)] by (simp add: admitted_def event_of_def)
  moreover have "DecodePayload e = Inr (with_docs p)"
    using assms(2,4) by (intro DecodePayload_with_docs) (simp_all add: event_of_def journalable_def)
  moreover have "start_event s e = s" using ne by (simp add: start_event_def)
  ultimately show ?thesis
    using assms(4,5) by (simp add: Apply_admitted applyPayload_with_docs)
qed

lemma finish_event_seen_length:
  assumes "going s" and "event_of s p e" and "s_seen n = s_seen s"
  shows "length (s_seen (finish_event e n)) = Suc (length (s_seen s))"
  using going_unseen [OF assms(1)] assms(2,3) by (simp add: event_of_def update_fresh)

lemma finish_event_NextAction: "s_NextAction (finish_event e n) = computeNextAction (finish_event e n)"
  using derived_finish [of e n] by (simp add: derived_def)


section \<open>How far a run is from its end\<close>

text \<open>The tool uses of the last turn that have no result yet, and the model calls that may follow.\<close>

definition open_uses :: "RunState \<Rightarrow> nat" where
  "open_uses s = (if s_steps s = [] then 0
     else card {tid \<in> set (sr_order (last (s_steps s))). map_of (sr_results (last (s_steps s))) tid = None})"

definition calls_left :: "RunState \<Rightarrow> nat" where
  "calls_left s = (if s_steps s = [] then Suc (nat (s_MaxSteps s)) else nat (s_MaxSteps s - s_CurrentStep s))"

text \<open>
  With at most \<open>b\<close> tool uses in a turn, a run needs no more rounds than this before its last one: one per
  model call, one per tool use.
\<close>

definition rounds_left :: "nat \<Rightarrow> RunState \<Rightarrow> nat" where
  "rounds_left b s = calls_left s * Suc b + open_uses s"

lemma rounds_left_call:
  assumes "calls_left s' < calls_left s" and "open_uses s' \<le> b"
  shows "rounds_left b s' < rounds_left b s"
proof -
  have "Suc (calls_left s') * Suc b \<le> calls_left s * Suc b" using assms(1) by (intro mult_le_mono1) simp
  then show ?thesis using assms(2) by (simp add: rounds_left_def)
qed

lemma rounds_left_tool:
  "calls_left s' = calls_left s \<Longrightarrow> open_uses s' < open_uses s \<Longrightarrow> rounds_left b s' < rounds_left b s"
  by (simp add: rounds_left_def)

text \<open>Before the first turn a run is at step 0; the fold keeps that.\<close>

definition step_zero :: "RunState \<Rightarrow> bool" where
  "step_zero s \<longleftrightarrow> (s_steps s = [] \<longrightarrow> s_CurrentStep s = 0) \<and> in64 (s_CurrentStep s) \<and> in64 (s_MaxSteps s)"

lemma Apply_step_zero:
  assumes "Apply blocks s e = Inr s'" and "step_zero s" shows "step_zero s'"
  using assms(1)
proof (cases rule: Apply_InrE)
  case (applied p n)
  have "s_steps s' = [] \<longrightarrow> s_CurrentStep s' = 0"
    using assms(2) applied(3,4)
    by (cases p) (auto simp: step_zero_def apply_defs Let_def split: sum.splits if_splits)
  with Apply_in64 [OF assms(1)] assms(2) show ?thesis by (simp add: step_zero_def)
qed (use assms in simp)

lemma fold_loop_step_zero: "fold_loop blocks s evs = Inr s' \<Longrightarrow> step_zero s \<Longrightarrow> step_zero s'"
  by (induction evs arbitrary: s) (auto split: sum.splits dest: Apply_step_zero)

lemma step_zero_zero [simp]: "step_zero RunState_zero"
  by (simp add: step_zero_def RunState_zero_def)


section \<open>The payloads of the loop\<close>

lemma journal_failed:
  assumes "going s" and "\<not> isTerminalStatus (s_Status s)" and "event_of s (PRunFailed f) e" and "in64 (rf_Step f)"
  shows "\<exists>s'. Apply blocks s e = Inr s' \<and> s_Status s' = StatusFailed \<and> s_Failure s' = Some f
    \<and> s_CurrentStep s' = s_CurrentStep s \<and> s_steps s' = s_steps s \<and> s_RunID s' = s_RunID s
    \<and> length (s_seen s') = Suc (length (s_seen s))"
proof -
  have j: "journalable (PRunFailed f)" using assms(4) by (simp add: journalable_def)
  show ?thesis
    using event_of_applied [OF assms(1,3,2) j] finish_event_seen_length [OF assms(1,3)] by simp
qed

lemma journal_completed:
  assumes "going s" and "\<not> isTerminalStatus (s_Status s)" and "event_of s (PRunCompleted c) e" and "in64 (rc_TotalSteps c)"
  shows "\<exists>s'. Apply blocks s e = Inr s' \<and> s_Status s' = StatusCompleted \<and> s_FinalOutput s' = rc_FinalOutput c
    \<and> s_CurrentStep s' = s_CurrentStep s \<and> s_steps s' = s_steps s \<and> s_RunID s' = s_RunID s
    \<and> length (s_seen s') = Suc (length (s_seen s))"
proof -
  have j: "journalable (PRunCompleted c)" using assms(4) by (simp add: journalable_def)
  show ?thesis
    using event_of_applied [OF assms(1,3,2) j] finish_event_seen_length [OF assms(1,3)] by simp
qed

text \<open>What a run does next, as facts about a going run.\<close>

lemma going_next_action:
  assumes "going s"
  shows "s_NextAction s = ActionCallLLM \<Longrightarrow> s_Status s = StatusRunning
      \<and> (s_steps s = [] \<or> allResulted (last (s_steps s)) \<and> s_CurrentStep s < s_MaxSteps s)"
    and "s_NextAction s = ActionExecuteTool \<Longrightarrow> s_Status s = StatusRunning \<and> s_InFlightTool s = None
      \<and> (\<exists>tc rest. s_PendingToolCalls s = tc # rest \<and> tc_ToolUseID tc \<in> set (sr_order (last (s_steps s)))
           \<and> tc_ToolUseID tc \<notin> set (sr_invokedOrder (last (s_steps s))))"
    and "s_NextAction s = ActionResolveInFlightTool \<Longrightarrow> s_Status s = StatusRunning
      \<and> (\<exists>tc. s_InFlightTool s = Some tc \<and> tc_ToolUseID tc \<in> set (sr_invokedOrder (last (s_steps s)))
           \<and> map_of (sr_results (last (s_steps s))) (tc_ToolUseID tc) = None)"
    and "s_NextAction s = ActionFinishRun \<Longrightarrow> s_Status s = StatusRunning \<and> s_steps s \<noteq> []"
    and "s_NextAction s = ActionFailMaxSteps \<Longrightarrow> s_Status s = StatusRunning"
    and "s_NextAction s \<noteq> ActionUnset"
  using next_action_ready [of s] assms by (auto simp: going_def)

lemma steps_nonempty:
  assumes "going s" and "s_NextAction s \<in> {ActionExecuteTool, ActionResolveInFlightTool}"
  shows "s_steps s \<noteq> []"
  using assms by (auto simp: going_def wf_run_def derived_def computeNextAction_def split: if_splits)

lemma journal_response:
  assumes "going s" and "step_zero s" and "s_NextAction s = ActionCallLLM"
    and "event_of s (PLLMResponded q) e" and "lr_Step q = wrap64 (s_CurrentStep s + 1)"
    and "lr_Content q = Some d" and "blocks (Some d) = Inr c"
  shows "\<exists>s'. Apply blocks s e = Inr s' \<and> s_Status s' = StatusRunning \<and> calls_left s' < calls_left s
    \<and> open_uses s' \<le> length (tool_use_ids c) \<and> s_RunID s' = s_RunID s \<and> length (s_seen s') = Suc (length (s_seen s))
    \<and> s_CurrentStep s' = s_CurrentStep s + 1 \<and> (\<exists>step. s_steps s' = s_steps s @ [step] \<and> sr_invoked step = [])"
proof -
  note na = going_next_action(1) [OF assms(1,3)]
  have j: "journalable (PLLMResponded q)" using assms(5,6) by (simp add: journalable_def)
  have st: "s_CurrentStep s + 1 \<le> max 1 (s_MaxSteps s) \<and> wrap64 (s_CurrentStep s + 1) = s_CurrentStep s + 1"
  proof (cases "s_steps s = []")
    case True
    with assms(2) show ?thesis by (simp add: step_zero_def wrap64_def)
  next
    case False
    with na assms(2) wrap64_Suc_lt [of "s_CurrentStep s" "s_MaxSteps s"] show ?thesis
      by (auto simp: step_zero_def)
  qed
  let ?step = "\<lparr>sr_content = c, sr_isTerminal = lr_IsTerminal q, sr_stopReason = lr_StopReason q,
    sr_invoked = [], sr_order = tool_use_ids c, sr_invokedOrder = [], sr_results = []\<rparr>"
  let ?n = "s\<lparr>s_CurrentStep := lr_Step q, s_steps := s_steps s @ [?step]\<rparr>"
  have "applyPayload blocks s (PLLMResponded q) (OccurredAt e) = Inr ?n"
    using na assms(6,7) by (auto simp: applyLLMResponded_def)
  from event_of_applied [OF assms(1,4) _ j this] na
  have a: "Apply blocks s e = Inr (finish_event e ?n)" by simp
  have "calls_left (finish_event e ?n) < calls_left s"
  proof (cases "s_steps s = []")
    case True
    with assms(2,5) st show ?thesis by (simp add: calls_left_def step_zero_def nat_less_iff)
  next
    case False
    with na assms(5) st show ?thesis by (simp add: calls_left_def)
  qed
  moreover have "open_uses (finish_event e ?n) \<le> length (tool_use_ids c)"
    by (simp add: open_uses_def card_length)
  ultimately show ?thesis using a na st assms(5) finish_event_seen_length [OF assms(1,4), of ?n] by simp
qed

lemma in_flight_in_iff:
  assumes "set tids \<subseteq> set (tool_use_ids (sr_content st))"
  shows "in_flight_in st tids = None
    \<longleftrightarrow> (\<forall>tid \<in> set tids. map_of (sr_results st) tid = None \<longrightarrow> tid \<notin> set (sr_invokedOrder st))"
  using assms
proof (induction tids)
  case (Cons t ts)
  then obtain tc where "toolCallFromContent (sr_content st) t = Some tc"
    using toolCallFromContent_Some [of t "sr_content st"] by auto
  with Cons show ?case by (auto simp: journaled_call_def contains_def Let_def)
qed simp

text \<open>After the only open invocation, that call is the one in flight.\<close>

lemma in_flight_in_only:
  assumes "map_of (sr_results st) t = None" and "t \<in> set (sr_invokedOrder st)" and "t \<in> set tids"
    and "\<forall>u \<in> set tids. u \<noteq> t \<longrightarrow> map_of (sr_results st) u = None \<longrightarrow> u \<notin> set (sr_invokedOrder st)"
    and "toolCallFromContent (sr_content st) t = Some req"
  shows "in_flight_in st tids = journaled_call st t"
  using assms(3,4)
proof (induction tids)
  case (Cons u us)
  show ?case
  proof (cases "u = t")
    case True
    with assms(1,2,5) show ?thesis by (simp add: contains_def journaled_call_def)
  next
    case False
    with Cons.prems have "\<not> (map_of (sr_results st) u = None \<and> contains (sr_invokedOrder st) u)"
      by (auto simp: contains_def)
    then have "in_flight_in st (u # us) = in_flight_in st us" by auto
    also have "\<dots> = journaled_call st t" using Cons False by simp
    finally show ?thesis .
  qed
qed simp

lemma pending_in_hd:
  assumes "pending_in st tids = tc # rest"
  shows "toolCallFromContent (sr_content st) (tc_ToolUseID tc) = Some tc"
proof -
  have "tc \<in> set (pending_in st tids)" using assms by simp
  then show ?thesis
    by (auto simp: pending_in_def in_map_filter split: if_splits dest: toolCallFromContent_id)
qed

lemma last_wf_step: "going s \<Longrightarrow> s_steps s \<noteq> [] \<Longrightarrow> wf_step (last (s_steps s))"
  using wf_steps_last(1) by (auto simp: going_def wf_run_def)

lemma going_derived: "going s \<Longrightarrow> derived s"
  by (simp add: going_def wf_run_def)

text \<open>The last step of a run, with an invocation or a result added.\<close>

definition with_invocation :: "stepRecord \<Rightarrow> string \<Rightarrow> invocation \<Rightarrow> stepRecord" where
  "with_invocation st t i = st\<lparr>sr_invokedOrder := sr_invokedOrder st @ [t],
     sr_invoked := AList.update t i (sr_invoked st)\<rparr>"

definition with_result :: "stepRecord \<Rightarrow> string \<Rightarrow> ToolResultedPayload \<Rightarrow> stepRecord" where
  "with_result st t q = st\<lparr>sr_results := AList.update t q (sr_results st)\<rparr>"

lemma journal_invoked:
  assumes "going s" and "s_NextAction s = ActionExecuteTool" and "s_PendingToolCalls s = call # rest"
    and "event_of s (PToolInvoked q) e" and "in64 (ti_Step q)" and "ti_ToolUseID q = tc_ToolUseID call"
  shows "\<exists>s'. Apply blocks s e = Inr s' \<and> s_NextAction s' = ActionResolveInFlightTool
    \<and> s_InFlightTool s' = Some (call\<lparr>tc_HasSideEffect := ti_HasSideEffect q,
         tc_IdempotencyKey := ti_IdempotencyKey q, tc_InvokedAt := OccurredAt e\<rparr>)
    \<and> calls_left s' = calls_left s \<and> open_uses s' = open_uses s \<and> s_CurrentStep s' = s_CurrentStep s
    \<and> s_RunID s' = s_RunID s \<and> length (s_seen s') = Suc (length (s_seen s))
    \<and> s_steps s' = butlast (s_steps s) @ [with_invocation (last (s_steps s)) (tc_ToolUseID call)
         \<lparr>in_hasSideEffect = ti_HasSideEffect q, in_idempotencyKey = ti_IdempotencyKey q, in_invokedAt = OccurredAt e\<rparr>]"
proof -
  let ?st = "last (s_steps s)" and ?t = "tc_ToolUseID call"
  note na = going_next_action(2) [OF assms(1,2)]
  have ne: "s_steps s \<noteq> []" using steps_nonempty [OF assms(1)] assms(2) by simp
  note wf = last_wf_step [OF assms(1) ne] and d = going_derived [OF assms(1)]
  have j: "journalable (PToolInvoked q)" using assms(5) by (simp add: journalable_def)
  have pe: "pending_in ?st (sr_order ?st) = call # rest"
    using d ne assms(3) by (simp add: derived_def pending_of_def)
  have no: "in_flight_in ?st (sr_order ?st) = None"
    using d ne na by (simp add: derived_def in_flight_of_def)
  note open_t = pending_inD [of call ?st "sr_order ?st", unfolded pe]
  define st' where "st' = ?st\<lparr>sr_invokedOrder := sr_invokedOrder ?st @ [?t], sr_invoked := AList.update ?t
      \<lparr>in_hasSideEffect = ti_HasSideEffect q, in_idempotencyKey = ti_IdempotencyKey q, in_invokedAt = OccurredAt e\<rparr>
      (sr_invoked ?st)\<rparr>"
  have "applyPayload blocks s (PToolInvoked q) (OccurredAt e) = Inr (set_last_step s st')"
    using open_t ne assms(6) by (simp add: applyToolInvoked_def currentStepFor_def contains_def st'_def)
  from event_of_applied [OF assms(1,4) _ j this] na
  have a: "Apply blocks s e = Inr (finish_event e (set_last_step s st'))" (is "_ = Inr ?s'") by simp
  have fl: "s_InFlightTool ?s' = Some (call\<lparr>tc_HasSideEffect := ti_HasSideEffect q,
      tc_IdempotencyKey := ti_IdempotencyKey q, tc_InvokedAt := OccurredAt e\<rparr>)"
  proof -
    have "\<forall>u \<in> set (sr_order ?st). map_of (sr_results ?st) u = None \<longrightarrow> u \<notin> set (sr_invokedOrder ?st)"
      using no in_flight_in_iff [of "sr_order ?st" ?st] wf by (simp add: wf_step_def)
    then have "in_flight_in st' (sr_order ?st) = journaled_call st' ?t"
      using open_t by (intro in_flight_in_only [where req = call])
        (auto simp: st'_def pending_in_hd [OF pe])
    also have "\<dots> = Some (call\<lparr>tc_HasSideEffect := ti_HasSideEffect q,
        tc_IdempotencyKey := ti_IdempotencyKey q, tc_InvokedAt := OccurredAt e\<rparr>)"
      by (simp add: journaled_call_def st'_def pending_in_hd [OF pe] update_conv')
    finally show ?thesis by (simp add: in_flight_of_def st'_def)
  qed
  have "s_NextAction ?s' = ActionResolveInFlightTool"
    unfolding finish_event_NextAction computeNextAction_def using na fl by simp
  moreover have "calls_left ?s' = calls_left s" "open_uses ?s' = open_uses s"
    using ne by (simp_all add: calls_left_def open_uses_def st'_def)
  ultimately show ?thesis
    using a fl finish_event_seen_length [OF assms(1,4), of "set_last_step s st'"]
    by (simp add: with_invocation_def st'_def set_last_step_def)
qed

lemma journal_resulted:
  assumes "going s" and "s_NextAction s = ActionResolveInFlightTool" and "s_InFlightTool s = Some call"
    and "event_of s (PToolResulted q) e" and "in64 (tr_Step q)" and "tr_ToolUseID q = tc_ToolUseID call"
  shows "\<exists>s'. Apply blocks s e = Inr s' \<and> s_Status s' = StatusRunning
    \<and> calls_left s' = calls_left s \<and> open_uses s' < open_uses s
    \<and> s_RunID s' = s_RunID s \<and> length (s_seen s') = Suc (length (s_seen s)) \<and> s_CurrentStep s' = s_CurrentStep s
    \<and> s_steps s' = butlast (s_steps s) @ [with_result (last (s_steps s)) (tc_ToolUseID call) q]"
proof -
  let ?st = "last (s_steps s)" and ?t = "tc_ToolUseID call"
  note na = going_next_action(3) [OF assms(1,2)]
  have ne: "s_steps s \<noteq> []" using steps_nonempty [OF assms(1)] assms(2) by simp
  note wf = last_wf_step [OF assms(1) ne]
  have j: "journalable (PToolResulted q)" using assms(5) by (simp add: journalable_def)
  have t: "?t \<in> set (sr_invokedOrder ?st)" "map_of (sr_results ?st) ?t = None" "?t \<in> set (sr_order ?st)"
    using na assms(3) wf by (auto simp: wf_step_def)
  define st' where "st' = ?st\<lparr>sr_results := AList.update ?t q (sr_results ?st)\<rparr>"
  have "applyPayload blocks s (PToolResulted q) (OccurredAt e) = Inr (set_last_step s st')"
    using t ne assms(6) by (simp add: applyToolResulted_def currentStepFor_def contains_def st'_def)
  from event_of_applied [OF assms(1,4) _ j this] na
  have a: "Apply blocks s e = Inr (finish_event e (set_last_step s st'))" (is "_ = Inr ?s'") by simp
  have "{tid \<in> set (sr_order ?st). map_of (AList.update ?t q (sr_results ?st)) tid = None}
      \<subset> {tid \<in> set (sr_order ?st). map_of (sr_results ?st) tid = None}"
    using t by (auto simp: update_conv')
  then have "open_uses ?s' < open_uses s"
    using ne by (simp add: open_uses_def st'_def psubset_card_mono)
  moreover have "calls_left ?s' = calls_left s" using ne by (simp add: calls_left_def)
  ultimately show ?thesis
    using a na finish_event_seen_length [OF assms(1,4), of "set_last_step s st'"]
    by (simp add: with_result_def st'_def set_last_step_def)
qed

end
