(* ===== verification/Loop_Contract.thy ===== *)
theory Loop_Contract
  imports Loop_Facts Fence
begin

text \<open>
  What the loop asks of its collaborators, and what ties a run's journal to the world: every call of the run
  that the journal does not show as invoked has left no trace, and every invoked side-effecting call is under
  the fence's invariant, its journaled result the truth.
\<close>

section \<open>Contracts\<close>

text \<open>The world as the run sees it: what is under each key, and how often its effect has been recorded.\<close>

type_synonym views = "string \<Rightarrow> fview"

definition all_calm :: "views \<Rightarrow> views \<Rightarrow> bool" where
  "all_calm V V' \<longleftrightarrow> (\<forall>k. calm (V k) (V' k))"

definition closed :: "(views \<Rightarrow> bool) \<Rightarrow> bool" where
  "closed G \<longleftrightarrow> (\<forall>V V'. all_calm V V' \<longrightarrow> G V \<longrightarrow> G V')"

lemma closedI: "(\<And>V V'. all_calm V V' \<Longrightarrow> G V \<Longrightarrow> G V') \<Longrightarrow> closed G"
  by (auto simp: closed_def)

lemma closed_True [simp]: "closed (\<lambda>_. True)"
  by (simp add: closed_def)

lemma closed_conj: "closed F \<Longrightarrow> closed G \<Longrightarrow> closed (\<lambda>V. F V \<and> G V)"
  by (auto simp: closed_def)

lemma closed_stable: "stable A \<Longrightarrow> closed (\<lambda>V. A (V k))"
  by (auto simp: closed_def stable_def all_calm_def)

lemma all_calm_refl [simp]: "all_calm V V" and all_calm_trans: "all_calm U V \<Longrightarrow> all_calm V W \<Longrightarrow> all_calm U W"
  by (auto simp: all_calm_def intro: calm_trans)

text \<open>A program that writes no event and touches nothing under any key.\<close>

definition quiet :: "('s \<Rightarrow> Envelope list) \<Rightarrow> ('s \<Rightarrow> views) \<Rightarrow> ('s, 'a) prog \<Rightarrow> bool" where
  "quiet logged view m \<longleftrightarrow> (\<forall>s. logged (snd (m s)) = logged s \<and> all_calm (view s) (view (snd (m s))))"

text \<open>
  Publishing appends the event: at least once when it is acknowledged, and any number of times (the client
  retries inside) when it fails or the process dies on the way.
\<close>

definition appends :: "('s \<Rightarrow> Envelope list) \<Rightarrow> ('s \<Rightarrow> views) \<Rightarrow> Envelope \<Rightarrow> ('s, goerror + unit) prog \<Rightarrow> bool" where
  "appends logged view e m \<longleftrightarrow> (\<forall>s. all_calm (view s) (view (snd (m s)))
     \<and> (\<exists>n. logged (snd (m s)) = logged s @ replicate n e \<and> (fst (m s) = Done (Inr ()) \<longrightarrow> 0 < n)))"

text \<open>An event that its encoding keeps: the loop builds no other.\<close>

definition sendable :: "Envelope \<Rightarrow> bool" where
  "sendable e \<longleftrightarrow> in64 (SequenceNumber e) \<and> PayloadRaw e \<noteq> None \<and> EventType_of e \<in> set knownEventTypes"

text \<open>An error that says nothing about the fence or the journal.\<close>

definition resumable :: "goerror \<Rightarrow> bool" where
  "resumable err \<longleftrightarrow> errors_Is err SFenceUnavailable \<or> errors_Is err SOutcomeUnknown"

definition foreign :: "goerror \<Rightarrow> bool" where
  "foreign err \<longleftrightarrow> \<not> resumable err \<and> \<not> errors_Is err SPublishFailed"

lemma quiet_triple:
  assumes "quiet logged view m" and "closed G"
  shows "triple (\<lambda>s. F (logged s) \<and> G (view s)) m (\<lambda>_ s. F (logged s) \<and> G (view s)) (\<lambda>s. F (logged s) \<and> G (view s))"
proof -
  have "F (logged s') \<and> G (view s')" if "m s = (x, s')" "F (logged s) \<and> G (view s)" for s x s'
  proof -
    have "snd (m s) = s'" using that(1) by simp
    with assms that(2) show ?thesis unfolding quiet_def closed_def by metis
  qed
  then show ?thesis by (intro tripleI) blast+
qed

lemma quiet_preturn [simp]: "quiet logged view (preturn a)"
  by (simp add: quiet_def)

lemma quiet_bind: "quiet logged view m \<Longrightarrow> (\<And>a. quiet logged view (f a)) \<Longrightarrow> quiet logged view (pbind m f)"
  unfolding quiet_def pbind_def
  by (auto split: prod.splits exec.splits) (metis all_calm_trans snd_conv)+

lemma fold_loop_replicate:
  assumes "Apply blocks s e = Inr s'"
  shows "fold_loop blocks s (replicate n e) = Inr (if n = 0 then s else s')"
proof (cases n)
  case (Suc m)
  have "fold_loop blocks s' (replicate m e) = Inr s'"
    using Apply_sees [OF assms] by (intro fold_loop_redelivered) simp
  with assms Suc show ?thesis by simp
qed simp

text \<open>What the outcome says of the state the run ended in.\<close>

definition verdict :: "RunState \<Rightarrow> RunOutcome \<Rightarrow> bool" where
  "verdict s oc \<longleftrightarrow> ro_Steps oc = s_CurrentStep s \<and>
     (s_Status s = StatusCompleted \<and> ro_Terminal oc \<and> \<not> ro_Failed oc \<and> \<not> ro_MaxStepsExceeded oc
        \<and> \<not> ro_Truncated oc \<and> ro_FinalText oc = s_FinalOutput s
    \<or> s_Status s = StatusFailed \<and> \<not> ro_Terminal oc \<and> ro_Failed oc \<and> (\<exists>f. s_Failure s = Some f
        \<and> ro_MaxStepsExceeded oc = (rf_ErrorClass f = ''max_steps_exceeded'')
        \<and> ro_Truncated oc = (rf_ErrorClass f = ''llm_output_truncated'')))"


section \<open>The calls of a run\<close>

text \<open>Calls are numbered by step, from 0, and tool use.\<close>

definition invocation_at :: "RunState \<Rightarrow> nat \<Rightarrow> string \<Rightarrow> invocation option" where
  "invocation_at st n tid = (if n < length (s_steps st) then map_of (sr_invoked (s_steps st ! n)) tid else None)"

definition result_at :: "RunState \<Rightarrow> nat \<Rightarrow> string \<Rightarrow> ToolResultedPayload option" where
  "result_at st n tid = (if n < length (s_steps st) then map_of (sr_results (s_steps st ! n)) tid else None)"

definition tool_at :: "RunState \<Rightarrow> nat \<Rightarrow> string \<Rightarrow> string option" where
  "tool_at st n tid = (if n < length (s_steps st)
     then map_option tc_ToolName (toolCallFromContent (sr_content (s_steps st ! n)) tid) else None)"

definition effectful :: "'s Registry \<Rightarrow> string \<Rightarrow> bool" where
  "effectful reg name \<longleftrightarrow> (case Lookup reg name of None \<Rightarrow> False | Some tool \<Rightarrow> t_HasSideEffect tool)"

definition no_trace :: "fview \<Rightarrow> bool" where
  "no_trace v \<longleftrightarrow> fv_key v = None \<and> fv_effects v = 0"

definition told :: "string \<Rightarrow> fview \<Rightarrow> bool" where
  "told status v \<longleftrightarrow> status = ''success'' \<and> fv_effects v = 1 \<or> status = ''error'' \<and> fv_effects v = 0"

definition call_ok :: "'s Registry \<Rightarrow> string \<Rightarrow> duration \<Rightarrow> RunState \<Rightarrow> views \<Rightarrow> nat \<Rightarrow> string \<Rightarrow> bool" where
  "call_ok reg runID ttl st V n tid \<longleftrightarrow> (let k = Key runID (int n + 1) tid in
     case invocation_at st n tid of
       None \<Rightarrow> no_trace (V k)
     | Some i \<Rightarrow> (\<forall>name. tool_at st n tid = Some name \<longrightarrow> in_hasSideEffect i = effectful reg name)
         \<and> (\<not> in_hasSideEffect i \<longrightarrow> no_trace (V k))
         \<and> (in_hasSideEffect i \<longrightarrow> in_idempotencyKey i = Some k \<and> safe ttl (in_invokedAt i) (V k)
              \<and> (\<forall>r. result_at st n tid = Some r \<longrightarrow> told (tr_Status r) (V k))))"

definition tied :: "'s Registry \<Rightarrow> string \<Rightarrow> duration \<Rightarrow> RunState \<Rightarrow> views \<Rightarrow> bool" where
  "tied reg runID ttl st V \<longleftrightarrow> s_CurrentStep st = int (length (s_steps st))
     \<and> (\<forall>n tid. call_ok reg runID ttl st V n tid)"

lemma call_ok_None: "invocation_at st n tid = None
    \<Longrightarrow> call_ok reg runID ttl st V n tid \<longleftrightarrow> no_trace (V (Key runID (int n + 1) tid))"
  by (simp add: call_ok_def)

lemma call_ok_cong:
  assumes "invocation_at st' n tid = invocation_at st n tid" and "result_at st' n tid = result_at st n tid"
    and "tool_at st' n tid = tool_at st n tid"
  shows "call_ok reg runID ttl st' V n tid \<longleftrightarrow> call_ok reg runID ttl st V n tid"
  unfolding call_ok_def assms ..

lemma tied_call: "tied reg runID ttl st V \<Longrightarrow> call_ok reg runID ttl st V n tid"
  and tied_step: "tied reg runID ttl st V \<Longrightarrow> s_CurrentStep st = int (length (s_steps st))"
  by (simp_all add: tied_def)

lemma stable_no_trace: "stable no_trace" and stable_told: "stable (told status)"
  by (auto intro!: stableI simp: calm_def no_trace_def told_def)

lemma no_trace_safe: "no_trace v \<Longrightarrow> t \<le> fv_clock v \<Longrightarrow> safe ttl t v"
  by (auto simp: no_trace_def safe_def key_holds_def)

lemma closed_call_ok: "closed (\<lambda>V. call_ok reg runID ttl st V n tid)"
proof (rule closedI)
  fix V V' assume c: "all_calm V V'" and ok: "call_ok reg runID ttl st V n tid"
  let ?k = "Key runID (int n + 1) tid"
  have "calm (V ?k) (V' ?k)" using c by (simp add: all_calm_def)
  then have "no_trace (V ?k) \<Longrightarrow> no_trace (V' ?k)" "told status (V ?k) \<Longrightarrow> told status (V' ?k)"
    "safe ttl t (V ?k) \<Longrightarrow> safe ttl t (V' ?k)" for status t
    using stable_no_trace stable_told stable_safe unfolding stable_def by blast+
  with ok show "call_ok reg runID ttl st V' n tid"
    by (auto simp: call_ok_def Let_def split: option.splits)
qed

lemma closed_tied: "closed (tied reg runID ttl st)"
  using closed_call_ok unfolding closed_def tied_def by blast

lemma tied_same:
  assumes "s_steps st' = s_steps st" and "s_CurrentStep st' = s_CurrentStep st" and "tied reg runID ttl st V"
  shows "tied reg runID ttl st' V"
proof -
  have "call_ok reg runID ttl st' V n tid" for n tid
    using tied_call [OF assms(3), of n tid] assms(1)
    by (subst call_ok_cong [where st = st]) (simp_all add: invocation_at_def result_at_def tool_at_def)
  with assms show ?thesis by (simp add: tied_def)
qed

lemma tied_response:
  assumes "s_steps st' = s_steps st @ [step]" and "sr_invoked step = []" and "s_CurrentStep st' = s_CurrentStep st + 1"
    and "tied reg runID ttl st V"
  shows "tied reg runID ttl st' V"
proof -
  have i: "invocation_at st' n tid = invocation_at st n tid" for n tid
    using assms(1,2) by (auto simp: invocation_at_def nth_append)
  have s: "result_at st' n tid = result_at st n tid" "tool_at st' n tid = tool_at st n tid"
    if "invocation_at st n tid \<noteq> None" for n tid
    using that assms(1) by (auto simp: invocation_at_def result_at_def tool_at_def nth_append split: if_splits)
  have "call_ok reg runID ttl st' V n tid" for n tid
  proof -
    have "call_ok reg runID ttl st V n tid" using assms(4) by (simp add: tied_def)
    with s [of n tid] show ?thesis
      by (cases "invocation_at st n tid") (simp_all add: call_ok_def i Let_def)
  qed
  with assms show ?thesis by (simp add: tied_def)
qed

lemma tied_step_update:
  assumes "tied reg runID ttl st V" and "s_steps st \<noteq> []" and "s_CurrentStep st' = s_CurrentStep st"
    and "s_steps st' = butlast (s_steps st) @ [step]" and "sr_content step = sr_content (last (s_steps st))"
    and "\<And>tid. tid \<noteq> t \<Longrightarrow> map_of (sr_invoked step) tid = map_of (sr_invoked (last (s_steps st))) tid
        \<and> map_of (sr_results step) tid = map_of (sr_results (last (s_steps st))) tid"
    and "call_ok reg runID ttl st' V (length (s_steps st) - 1) t"
  shows "tied reg runID ttl st' V"
proof -
  have nth: "s_steps st' ! n = (if n = length (s_steps st) - 1 then step else s_steps st ! n)" if "n < length (s_steps st)" for n
    using that assms(4) by (auto simp: nth_append nth_butlast)
  have len: "length (s_steps st') = length (s_steps st)" using assms(2,4) by simp
  have last: "last (s_steps st) = s_steps st ! (length (s_steps st) - 1)" using assms(2) by (simp add: last_conv_nth)
  have "call_ok reg runID ttl st' V n tid" for n tid
  proof (cases "n = length (s_steps st) - 1 \<and> tid = t")
    case False
    have "invocation_at st' n tid = invocation_at st n tid \<and> result_at st' n tid = result_at st n tid
        \<and> tool_at st' n tid = tool_at st n tid"
      using False nth [of n] len assms(5,6) last
      by (auto simp: invocation_at_def result_at_def tool_at_def)
    with tied_call [OF assms(1), of n tid] show ?thesis by (subst call_ok_cong [where st = st]) simp_all
  qed (use assms(7) in simp)
  with assms(1,3) len show ?thesis by (simp add: tied_def)
qed

text \<open>The call in flight.\<close>

lemma in_flight_in_SomeD:
  "in_flight_in st tids = Some call \<Longrightarrow> \<exists>tid \<in> set tids. journaled_call st tid = Some call
     \<and> contains (sr_invokedOrder st) tid \<and> map_of (sr_results st) tid = None"
  by (induction tids) (auto split: if_splits)

lemma in_flight_call:
  assumes "going st" and "s_InFlightTool st = Some call"
  obtains i where "s_steps st \<noteq> []"
    "invocation_at st (length (s_steps st) - 1) (tc_ToolUseID call) = Some i"
    "tool_at st (length (s_steps st) - 1) (tc_ToolUseID call) = Some (tc_ToolName call)"
    "result_at st (length (s_steps st) - 1) (tc_ToolUseID call) = None"
    "tc_HasSideEffect call = in_hasSideEffect i" "tc_IdempotencyKey call = in_idempotencyKey i"
    "tc_InvokedAt call = in_invokedAt i"
proof -
  have f: "in_flight_of st = Some call" using going_derived [OF assms(1)] assms(2) by (simp add: derived_def)
  then have ne: "s_steps st \<noteq> []" by (auto simp: in_flight_of_def)
  let ?st = "last (s_steps st)"
  obtain tid where t: "journaled_call ?st tid = Some call" "contains (sr_invokedOrder ?st) tid"
      "map_of (sr_results ?st) tid = None"
    using in_flight_in_SomeD f ne unfolding in_flight_of_def by force
  obtain tc where tc: "toolCallFromContent (sr_content ?st) tid = Some tc"
    using t(1) by (auto simp: journaled_call_def)
  have "map fst (sr_invoked ?st) = sr_invokedOrder ?st"
    using last_wf_step [OF assms(1) ne] by (simp add: wf_step_def)
  then have "tid \<in> fst ` set (sr_invoked ?st)" using t(2) by (metis contains_def set_map)
  then obtain i where i: "map_of (sr_invoked ?st) tid = Some i"
    by (metis domIff dom_map_of_conv_image_fst not_None_eq)
  have last: "s_steps st ! (length (s_steps st) - 1) = ?st" using ne by (simp add: last_conv_nth)
  have id: "tc_ToolUseID tc = tid" using toolCallFromContent_id [OF tc] .
  show thesis
    by (rule that [of i]) (use ne t tc i id last in
      \<open>auto simp: journaled_call_def invocation_at_def tool_at_def result_at_def Let_def\<close>)
qed

lemma tied_invoked:
  assumes "tied reg runID ttl st V" and "going st" and "s_steps st \<noteq> []" and "s_CurrentStep st' = s_CurrentStep st"
    and "s_steps st' = butlast (s_steps st) @ [with_invocation (last (s_steps st)) t i]"
    and "t \<notin> set (sr_invokedOrder (last (s_steps st)))"
    and "\<And>tc. toolCallFromContent (sr_content (last (s_steps st))) t = Some tc
      \<Longrightarrow> in_hasSideEffect i = effectful reg (tc_ToolName tc)"
    and "in_hasSideEffect i \<Longrightarrow> in_idempotencyKey i = Some (Key runID (s_CurrentStep st) t)"
    and "\<And>k. in_invokedAt i \<le> fv_clock (V k)"
  shows "tied reg runID ttl st' V"
proof (rule tied_step_update [OF assms(1,3,4,5)])
  let ?st = "last (s_steps st)" and ?n = "length (s_steps st) - 1"
  have wf: "wf_step ?st" by (rule last_wf_step [OF assms(2,3)])
  have last: "s_steps st ! ?n = ?st" using assms(3) by (simp add: last_conv_nth)
  have last': "s_steps st' ! ?n = with_invocation ?st t i" "length (s_steps st') = length (s_steps st)"
    using assms(3,5) by (simp_all add: nth_append)
  have cs: "s_CurrentStep st = int ?n + 1" using assms(1,3) by (cases "s_steps st") (auto simp: tied_def)
  have none: "map_of (sr_invoked ?st) t = None" "map_of (sr_results ?st) t = None"
  proof -
    have m: "fst ` set (sr_invoked ?st) = set (sr_invokedOrder ?st)"
      using wf unfolding wf_step_def by (metis set_map)
    then show "map_of (sr_invoked ?st) t = None" using assms(6) by (simp add: map_of_eq_None_iff)
    show "map_of (sr_results ?st) t = None"
      using wf assms(6) unfolding wf_step_def map_of_eq_None_iff by blast
  qed
  have "invocation_at st ?n t = None" using none(1) last by (simp add: invocation_at_def)
  with tied_call [OF assms(1), of ?n t] have nt: "no_trace (V (Key runID (int ?n + 1) t))"
    by (simp add: call_ok_None)
  have "invocation_at st' ?n t = Some i" "result_at st' ?n t = None"
    "tool_at st' ?n t = map_option tc_ToolName (toolCallFromContent (sr_content ?st) t)"
    using last' assms(3) none(2)
    by (simp_all add: invocation_at_def result_at_def tool_at_def with_invocation_def update_conv')
  then show "call_ok reg runID ttl st' V ?n t"
    using assms(7,8) cs nt no_trace_safe [OF nt assms(9)] by (auto simp: call_ok_def Let_def)
qed (simp_all add: with_invocation_def update_conv')

lemma tied_resulted:
  assumes "tied reg runID ttl st V" and "going st" and "s_InFlightTool st = Some call" and "s_CurrentStep st' = s_CurrentStep st"
    and "s_steps st' = butlast (s_steps st) @ [with_result (last (s_steps st)) (tc_ToolUseID call) q]"
    and "tc_HasSideEffect call \<Longrightarrow> told (tr_Status q) (V (Key runID (s_CurrentStep st) (tc_ToolUseID call)))"
  shows "tied reg runID ttl st' V"
proof -
  let ?t = "tc_ToolUseID call" and ?n = "length (s_steps st) - 1"
  obtain i where c: "s_steps st \<noteq> []" "invocation_at st ?n ?t = Some i" "tool_at st ?n ?t = Some (tc_ToolName call)"
      "tc_HasSideEffect call = in_hasSideEffect i"
    using in_flight_call [OF assms(2,3)] by metis
  have last: "s_steps st ! ?n = last (s_steps st)" using c(1) by (simp add: last_conv_nth)
  have last': "s_steps st' ! ?n = with_result (last (s_steps st)) ?t q" "length (s_steps st') = length (s_steps st)"
    using c(1) assms(5) by (simp_all add: nth_append)
  have cs: "s_CurrentStep st = int ?n + 1" using assms(1) c(1) by (cases "s_steps st") (auto simp: tied_def)
  have same: "invocation_at st' ?n ?t = Some i" "tool_at st' ?n ?t = Some (tc_ToolName call)" "result_at st' ?n ?t = Some q"
    using c last last' by (simp_all add: invocation_at_def tool_at_def result_at_def with_result_def update_conv')
  have "call_ok reg runID ttl st V ?n ?t" using assms(1) by (simp add: tied_def)
  with c same assms(6) cs have "call_ok reg runID ttl st' V ?n ?t" by (auto simp: call_ok_def Let_def)
  then show ?thesis
    by (intro tied_step_update [OF assms(1) c(1) assms(4,5)]) (simp_all add: with_result_def update_conv')
qed

lemma tied_zero: "tied reg runID ttl RunState_zero V \<longleftrightarrow> (\<forall>n tid. no_trace (V (Key runID (int n + 1) tid)))"
  by (simp add: tied_def call_ok_def invocation_at_def RunState_zero_def)

text \<open>What the fence needs of a side-effecting call in flight, and keeps.\<close>

lemma tied_in_flight:
  assumes "tied reg runID ttl st V" and "going st" and "s_InFlightTool st = Some call"
  shows "tc_HasSideEffect call = effectful reg (tc_ToolName call)"
    and "tc_HasSideEffect call \<Longrightarrow> tc_IdempotencyKey call = Some (Key runID (s_CurrentStep st) (tc_ToolUseID call))
      \<and> safe ttl (tc_InvokedAt call) (V (Key runID (s_CurrentStep st) (tc_ToolUseID call)))"
proof -
  let ?t = "tc_ToolUseID call" and ?n = "length (s_steps st) - 1"
  obtain i where c: "s_steps st \<noteq> []" "invocation_at st ?n ?t = Some i" "tool_at st ?n ?t = Some (tc_ToolName call)"
      "tc_HasSideEffect call = in_hasSideEffect i" "tc_IdempotencyKey call = in_idempotencyKey i"
      "tc_InvokedAt call = in_invokedAt i"
    using in_flight_call [OF assms(2,3)] by metis
  have cs: "s_CurrentStep st = int ?n + 1" using assms(1) c(1) by (cases "s_steps st") (auto simp: tied_def)
  have ok: "call_ok reg runID ttl st V ?n ?t" using assms(1) by (simp add: tied_def)
  with c show "tc_HasSideEffect call = effectful reg (tc_ToolName call)" by (simp add: call_ok_def Let_def)
  from ok c cs show "tc_HasSideEffect call \<Longrightarrow> tc_IdempotencyKey call = Some (Key runID (s_CurrentStep st) ?t)
      \<and> safe ttl (tc_InvokedAt call) (V (Key runID (s_CurrentStep st) ?t))"
    by (simp add: call_ok_def Let_def)
qed

lemma tied_after_fence:
  assumes "tied reg runID ttl st V" and "going st" and "s_InFlightTool st = Some call" and "tc_HasSideEffect call"
    and "\<And>k. k \<noteq> Key runID (s_CurrentStep st) (tc_ToolUseID call) \<Longrightarrow> calm (V k) (V' k)"
    and "safe ttl (tc_InvokedAt call) (V' (Key runID (s_CurrentStep st) (tc_ToolUseID call)))"
  shows "tied reg runID ttl st V'"
proof -
  let ?t = "tc_ToolUseID call" and ?n = "length (s_steps st) - 1"
  obtain i where c: "s_steps st \<noteq> []" "invocation_at st ?n ?t = Some i" "result_at st ?n ?t = None"
      "tc_InvokedAt call = in_invokedAt i" "in_hasSideEffect i"
    using assms(4) in_flight_call [OF assms(2,3)] by metis
  have cs: "s_CurrentStep st = int ?n + 1" using assms(1) c(1) by (cases "s_steps st") (auto simp: tied_def)
  have "call_ok reg runID ttl st V' n tid" for n tid
  proof (cases "n = ?n \<and> tid = ?t")
    case True
    have "call_ok reg runID ttl st V ?n ?t" using assms(1) by (simp add: tied_def)
    with True c assms(6) cs show ?thesis by (auto simp: call_ok_def Let_def)
  next
    case False
    let ?k = "Key runID (int n + 1) tid"
    have "?k \<noteq> Key runID (s_CurrentStep st) ?t" using False cs Key_same_run by fastforce
    then have k: "calm (V ?k) (V' ?k)" by (rule assms(5))
    have "call_ok reg runID ttl st V n tid" using assms(1) by (simp add: tied_def)
    moreover have "no_trace (V ?k) \<Longrightarrow> no_trace (V' ?k)" "told status (V ?k) \<Longrightarrow> told status (V' ?k)"
      "safe ttl t (V ?k) \<Longrightarrow> safe ttl t (V' ?k)" for status t
      using k stable_no_trace stable_told stable_safe unfolding stable_def by blast+
    ultimately show ?thesis by (auto simp: call_ok_def Let_def split: option.splits)
  qed
  with assms(1) show ?thesis by (simp add: tied_def)
qed

end
