(* ===== verification/Sim_Calls.thy ===== *)
theory Sim_Calls
  imports Sim_Fence Fence_Prompt Fence_Bystander Loop_Contract
begin

text \<open>
  What the calls of the simulated world leave alone: a view is \<open>unmoved\<close> when neither time, nor the adversary,
  nor logs, fresh identifiers and opened files show in it. Calls also end: none waits for ever.
\<close>

section \<open>Drift\<close>

text \<open>Nothing but the clock and the adversary's schedule has moved.\<close>

definition drift :: "world \<Rightarrow> world \<Rightarrow> bool" where
  "drift w w' \<longleftrightarrow> w'\<lparr>w_now := w_now w, w_schedule := w_schedule w\<rparr> = w \<and> w_now w \<le> w_now w'"

lemma drift_refl [simp]: "drift w w" and drift_tick [simp]: "drift w (tick n w)"
  by (simp_all add: drift_def tick_def)

lemma drift_fields:
  assumes "drift w w'"
  shows "w_fresh w' = w_fresh w" "w_env w' = w_env w" "w_pid w' = w_pid w" "w_files w' = w_files w"
    "w_redis w' = w_redis w" "w_out w' = w_out w" "w_topic w' = w_topic w" "w_reader w' = w_reader w"
    "w_model w' = w_model w" "w_now w \<le> w_now w'"
  using assms unfolding drift_def by (cases w; cases w'; simp)+

lemma driftI:
  assumes "w_fresh w' = w_fresh w" "w_env w' = w_env w" "w_pid w' = w_pid w" "w_files w' = w_files w"
    "w_redis w' = w_redis w" "w_out w' = w_out w" "w_topic w' = w_topic w" "w_reader w' = w_reader w"
    "w_model w' = w_model w" "w_now w \<le> w_now w'"
  shows "drift w w'"
  using assms unfolding drift_def by (cases w; cases w'; simp)

lemma drift_trans: "drift u v \<Longrightarrow> drift v w \<Longrightarrow> drift u w"
  by (rule driftI) (simp_all add: drift_fields order_trans [OF drift_fields(10) drift_fields(10)])

lemma next_event_drift: "next_event w = (e, w0) \<Longrightarrow> drift w w0"
  by (rule driftI) (auto simp: next_event_def split: list.splits)

lemma external_drift:
  assumes "external act refused lost garbled w = (x, w')"
  obtains (idle) "drift w w'" "x = Done refused \<or> x = Halt 137"
  | (acts) w1 res w2 where "drift w w1" "act w1 = (res, w2)" "drift w2 w'" "x = Done res \<or> x = Done lost \<or> x = Halt 137"
  | (garbles) w1 where "drift w w1" "drift (garbled w1) w'" "x = Done lost"
proof -
  obtain m lead lag w0 where n: "next_event w = ((m, lead, lag), w0)"
    by (cases "next_event w") auto
  let ?w1 = "tick lead w0"
  obtain res w2 where a: "act ?w1 = (res, w2)" by fastforce
  have d: "drift w ?w1" by (rule drift_trans [OF next_event_drift [OF n]]) simp
  show thesis
    using assms n a d idle acts [OF d a] garbles [OF d] drift_trans [OF d drift_tick]
    by (cases m) (auto simp: external_def)
qed

lemma internal_drift:
  assumes "internal act w = (x, w')"
  obtains (killed) "drift w w'" "x = Halt 137"
  | (acts) w1 res w2 where "drift w w1" "act w1 = (res, w2)" "drift w2 w'" "x = Done res \<or> x = Halt 137"
proof -
  obtain m lead lag w0 where n: "next_event w = ((m, lead, lag), w0)"
    by (cases "next_event w") auto
  let ?w1 = "tick lead w0"
  obtain res w2 where a: "act ?w1 = (res, w2)" by fastforce
  have d: "drift w ?w1" by (rule drift_trans [OF next_event_drift [OF n]]) simp
  show thesis
    using assms n a d killed acts [OF d a] by (cases m) (auto simp: internal_def)
qed

text \<open>Calls that only look.\<close>

lemma ends_external: "ends (external act refused lost garbled)"
proof (rule finishes_ends, unfold finishes_def, intro allI impI)
  fix w
  obtain x w' where x: "external act refused lost garbled w = (x, w')" by fastforce
  then show "case fst (external act refused lost garbled w) of Done _ \<Rightarrow> True | Halt c \<Rightarrow> c \<noteq> 2 | OutOfFuel \<Rightarrow> False"
    by (cases rule: external_drift) (use x in auto)
qed

lemma ends_internal: "ends (internal act)"
proof (rule finishes_ends, unfold finishes_def, intro allI impI)
  fix w
  obtain x w' where x: "internal act w = (x, w')" by fastforce
  then show "case fst (internal act w) of Done _ \<Rightarrow> True | Halt c \<Rightarrow> c \<noteq> 2 | OutOfFuel \<Rightarrow> False"
    by (cases rule: internal_drift) (use x in auto)
qed

definition looks :: "(world, 'a) prog \<Rightarrow> bool" where
  "looks m \<longleftrightarrow> ends m \<and> (\<forall>w. drift w (snd (m w)))"

lemma external_looks:
  assumes "\<And>w. snd (act w) = w" and "\<And>w. garbled w = w"
  shows "looks (external act refused lost garbled)"
  unfolding looks_def
proof (intro conjI allI ends_external)
  fix w
  obtain x w' where x: "external act refused lost garbled w = (x, w')" by fastforce
  then have "drift w w'"
  proof (cases rule: external_drift)
    case (acts w1 res w2)
    then have "w2 = w1" using assms(1) [of w1] by simp
    with acts show ?thesis by (blast intro: drift_trans)
  qed (auto simp: assms(2) intro: drift_trans)
  with x show "drift w (snd (external act refused lost garbled w))" by simp
qed

lemma internal_looks:
  assumes "\<And>w. snd (act w) = w" shows "looks (internal act)"
  unfolding looks_def
proof (intro conjI allI ends_internal)
  fix w
  obtain x w' where x: "internal act w = (x, w')" by fastforce
  then have "drift w w'"
  proof (cases rule: internal_drift)
    case (acts w1 res w2)
    then have "w2 = w1" using assms [of w1] by simp
    with acts show ?thesis by (blast intro: drift_trans)
  qed
  with x show "drift w (snd (internal act w))" by simp
qed

lemma looks_bind: "looks m \<Longrightarrow> (\<And>a. looks (f a)) \<Longrightarrow> looks (pbind m f)"
proof -
  assume m: "looks m" and f: "\<And>a. looks (f a)"
  have "drift w (snd (pbind m f w))" for w
    using m f unfolding looks_def pbind_def
    by (auto split: prod.splits exec.splits) (metis drift_trans snd_conv)+
  with m f show ?thesis by (simp add: looks_def orderly_bind)
qed

lemma looks_return [simp]: "looks (preturn a)"
  by (simp add: looks_def)


section \<open>Views that do not show it\<close>

definition unmoved :: "(world \<Rightarrow> fview) \<Rightarrow> bool" where
  "unmoved view \<longleftrightarrow> (\<forall>w w'. drift w w' \<longrightarrow> calm (view w) (view w'))
     \<and> (\<forall>w. calm (view w) (view (w\<lparr>w_fresh := w_fresh w + 1\<rparr>)))
     \<and> (\<forall>w p. calm (view w) (view (sim_open p w))) \<and> (\<forall>w x. calm (view w) (view (w\<lparr>w_out := x\<rparr>)))"

lemma unmovedD:
  assumes "unmoved view"
  shows "drift w w' \<Longrightarrow> calm (view w) (view w')" "calm (view w) (view (w\<lparr>w_fresh := w_fresh w + 1\<rparr>))"
    "calm (view w) (view (sim_open p w))" "calm (view w) (view (w\<lparr>w_out := x\<rparr>))"
  using assms by (auto simp: unmoved_def)

lemma looks_calm: "unmoved view \<Longrightarrow> looks m \<Longrightarrow> calm_prog view m"
  by (auto simp: looks_def calm_prog_def unmovedD)

lemma external_unmoved:
  assumes p: "unmoved view" and "\<And>w. calm (view w) (view (snd (act w)))" and "\<And>w. calm (view w) (view (garbled w))"
  shows "calm_prog view (external act refused lost garbled)"
  unfolding calm_prog_def
proof
  fix w
  obtain x w' where x: "external act refused lost garbled w = (x, w')" by fastforce
  then have "calm (view w) (view w')"
  proof (cases rule: external_drift)
    case (acts w1 res w2)
    then show ?thesis using assms(2) [of w1] by (auto intro: calm_trans dest!: unmovedD(1) [OF p])
  next
    case (garbles w1)
    then show ?thesis using assms(3) [of w1] by (auto intro: calm_trans dest!: unmovedD(1) [OF p])
  qed (auto dest: unmovedD(1) [OF p])
  with x show "calm (view w) (view (snd (external act refused lost garbled w)))" by simp
qed

lemma internal_unmoved:
  assumes p: "unmoved view" and "\<And>w. calm (view w) (view (snd (act w)))"
  shows "calm_prog view (internal act)"
  unfolding calm_prog_def
proof
  fix w
  obtain x w' where x: "internal act w = (x, w')" by fastforce
  then have "calm (view w) (view w')"
  proof (cases rule: internal_drift)
    case (acts w1 res w2)
    then show ?thesis using assms(2) [of w1] by (auto intro: calm_trans dest!: unmovedD(1) [OF p])
  qed (auto dest: unmovedD(1) [OF p])
  with x show "calm (view w) (view (snd (internal act w)))" by simp
qed

text \<open>The time spent asleep is drift.\<close>

lemma sleep_drift: "snd (case earliest c of
       None \<Rightarrow> (Inr (), tick (nat d) w)
     | Some t \<Rightarrow> if t < w_now w + d then (Inl ctx_deadline, tick (nat (t - w_now w)) w)
         else (Inr (), tick (nat d) w)) = u \<Longrightarrow> drift w u"
  by (auto split: option.splits if_splits)

lemma Sleep_unmoved: "unmoved view \<Longrightarrow> calm_prog view (sim_Sleep c d)"
  unfolding sim_Sleep_def
  by (rule external_unmoved) (auto intro: unmovedD(1) sleep_drift split: option.splits)

lemma runtime_looks:
  "looks (rt_Now sim_runtime)" "looks (rt_Err sim_runtime c)" "looks (rt_Getenv sim_runtime n)"
  "looks (rt_Getpid sim_runtime)" "looks (rt_MkdirAll sim_runtime p)" "looks (rt_Sync sim_runtime p)"
  "looks (rt_Close sim_runtime p)" "looks (rt_ReadFile sim_runtime p)" "looks (sim_Err c)"
  by (auto simp: sim_runtime_def sim_Err_def intro!: internal_looks external_looks)

lemma unmoved_ops:
  assumes p: "unmoved view"
  shows "calm_prog view (rt_Now sim_runtime)" "calm_prog view (rt_UUID sim_runtime)"
    "calm_prog view (rt_Err sim_runtime c)" "calm_prog view (rt_Sleep sim_runtime c d)"
    "calm_prog view (sim_Sleep c d)" "calm_prog view (rt_Getenv sim_runtime n)" "calm_prog view (rt_Getpid sim_runtime)"
    "calm_prog view (rt_MkdirAll sim_runtime q)" "calm_prog view (rt_OpenAppend sim_runtime q)"
    "calm_prog view (rt_Sync sim_runtime q)" "calm_prog view (rt_Close sim_runtime q)"
    "calm_prog view (rt_ReadFile sim_runtime q)" "calm_prog view (sim_Stdout x)"
proof -
  show "calm_prog view (rt_Sleep sim_runtime c d)" "calm_prog view (sim_Sleep c d)"
    using Sleep_unmoved [OF p] by (simp_all add: sim_runtime_def)
  show "calm_prog view (rt_UUID sim_runtime)" "calm_prog view (rt_OpenAppend sim_runtime q)" "calm_prog view (sim_Stdout x)"
    unfolding sim_runtime_def runtime.select_convs sim_Stdout_def
    by (rule internal_unmoved [OF p] external_unmoved [OF p], simp_all add: unmovedD [OF p, simplified])+
qed (intro looks_calm [OF p] runtime_looks)+

lemma mock_delay_unmoved: "unmoved view \<Longrightarrow> calm_prog view (mockToolDelay sim_runtime c)"
  unfolding mockToolDelay_def by (intro calm_rules unmoved_ops)

lemma wrapping_calm: "calm_prog view (wrapping pre e)"
  by (simp add: wrapping_def)

lemma Entries_unmoved: "unmoved view \<Longrightarrow> calm_prog view (Entries sim_runtime q c)"
  unfolding Entries_def by (intro calm_rules unmoved_ops wrapping_calm)

text \<open>Views that a key's record and its ledger entries do not show in.\<close>

definition beside :: "string \<Rightarrow> (world \<Rightarrow> fview) \<Rightarrow> bool" where
  "beside key view \<longleftrightarrow> unmoved view \<and> (\<forall>w v d. calm (view w) (view (redis_set key v d w)))
     \<and> (\<forall>w p l. line_key l \<in> {None, Some key} \<longrightarrow> calm (view w) (view (sim_append p l w)))"

lemma beside_unmoved: "beside key view \<Longrightarrow> unmoved view"
  by (simp add: beside_def)

lemma Record_beside:
  assumes b: "beside key view" and "le_IdempotencyKey e = key" and "in64 (le_WriterPID e)"
  shows "calm_prog view (Record sim_runtime q c e)"
proof (cases "json_year (le_RecordedAt e)")
  case True
  have "line_key (DocLine (Some (enc_LedgerEntry e))) = Some key" using line_key_enc [OF True assms(3)] assms(2) by simp
  then have "calm (view w) (view (sim_append q (DocLine (Some (enc_LedgerEntry e))) w))"
    "calm (view w) (view (sim_append q (DocLine None) w))" for w using b by (simp_all add: beside_def)
  then have "calm_prog view (rt_Write sim_runtime q (enc_LedgerEntry e))"
    unfolding sim_runtime_def runtime.select_convs by (intro external_unmoved beside_unmoved [OF b]) auto
  then show ?thesis
    unfolding Record_def Let_def split_def
    by (intro calm_rules unmoved_ops beside_unmoved [OF b] wrapping_calm) (auto intro!: calm_rules unmoved_ops beside_unmoved [OF b] split: prod.splits)
next
  case False
  then show ?thesis
    unfolding Record_def
    by (simp only: not_False_eq_True if_True) (intro calm_rules unmoved_ops beside_unmoved [OF b] wrapping_calm)
qed

lemma record_effect_beside:
  assumes b: "beside key view" and "entryKey invo = key"
  shows "calm_prog view (record_effect sim_runtime q c invo name result)"
  unfolding record_effect_def
proof (rule calm_prog_bind [OF unmoved_ops(1) [OF beside_unmoved [OF b]]])
  fix now
  let ?k = "\<lambda>pid. pbindM (Record sim_runtime q c (effect_entry invo name result now pid))
       (wrapping (''recording '' @ name @ '' effect: '')) (\<lambda>_. preturn (Inr result))"
  have k: "calm_prog view (?k pid)" if "in64 pid" for pid
    using that assms(2) by (intro calm_rules Record_beside [OF b] wrapping_calm) (simp_all add: effect_entry_def)
  show "calm_prog view (pbind (rt_Getpid sim_runtime) ?k)"
    unfolding calm_prog_def
  proof
    fix w
    obtain x u where u: "rt_Getpid sim_runtime w = (x, u)" by fastforce
    have c: "calm (view w) (view u)"
      using unmoved_ops(7) [OF beside_unmoved [OF b]] u unfolding calm_prog_def by (metis snd_conv)
    show "calm (view w) (view (snd (pbind (rt_Getpid sim_runtime) ?k w)))"
    proof (cases x)
      case (Done pid)
      with u have "in64 pid" using sim_pid by blast
      from k [OF this] have "calm (view u) (view (snd (?k pid u)))" by (simp add: calm_prog_def)
      with c u Done show ?thesis by (auto intro: calm_trans)
    qed (use u c in auto)
  qed
qed

lemma tools_beside:
  assumes b: "beside key view" and "entryKey invo = key" and "tool \<in> mock_tools q"
  shows "calm_prog view (t_Execute tool c invo args)"
    and "t_Reconcile tool = Some rc \<Longrightarrow> calm_prog view (rc c invo args)"
proof -
  note p = beside_unmoved [OF b]
  have "calm_prog view (ApplyFix_Execute sim_runtime q c invo args)"
    unfolding ApplyFix_Execute_def
    by (intro calm_rules mock_delay_unmoved [OF p] record_effect_beside [OF b assms(2)] wrapping_calm)
  moreover have "calm_prog view (OpenPR_Execute sim_runtime q c invo args)"
    unfolding OpenPR_Execute_def split_def
    by (intro calm_rules mock_delay_unmoved [OF p] Entries_unmoved [OF p] record_effect_beside [OF b assms(2)] wrapping_calm)
  moreover have "calm_prog view (CloneRepo_Execute sim_runtime c invo args)" "calm_prog view (RunTests_Execute sim_runtime q c invo args)"
    unfolding CloneRepo_Execute_def RunTests_Execute_def
    by (intro calm_rules mock_delay_unmoved [OF p] Entries_unmoved [OF p] wrapping_calm)+
  ultimately show "calm_prog view (t_Execute tool c invo args)"
    using assms(3) by (auto simp: mock_tools_def effect_tools_def ApplyFixTool_def OpenPRTool_def CloneRepoTool_def RunTestsTool_def)
  have "calm_prog view (OpenPR_Reconcile sim_runtime q c invo args)"
    unfolding OpenPR_Reconcile_def FindByKey_def
    by (intro calm_rules Entries_unmoved [OF p] wrapping_calm)
  then show "t_Reconcile tool = Some rc \<Longrightarrow> calm_prog view (rc c invo args)"
    using assms(3) by (auto simp: mock_tools_def effect_tools_def ApplyFixTool_def OpenPRTool_def CloneRepoTool_def RunTestsTool_def)
qed

lemma store_beside:
  assumes b: "beside key view"
  shows "calm_prog view (Redis_Claim sim_redis ttl c key rec)" "calm_prog view (Redis_Get sim_redis c key)"
    "calm_prog view (compareAndSet sim_redis ttl c key tok rec)"
proof -
  note p = beside_unmoved [OF b]
  have s: "calm (view w) (view (redis_set key v d w))" for w v d using b by (simp add: beside_def)
  have "calm_prog view (rd_SetNXGet sim_redis c key v d)" "calm_prog view (rd_Run sim_redis c casScript key tok v secs)"
    "calm_prog view (rd_Get sim_redis c key)" for v d secs
    unfolding sim_redis_def redis_client.select_convs
    by (rule external_unmoved [OF p]; auto simp: s split: option.split prod.split)+
  then show "calm_prog view (Redis_Claim sim_redis ttl c key rec)" "calm_prog view (Redis_Get sim_redis c key)"
    "calm_prog view (compareAndSet sim_redis ttl c key tok rec)"
    unfolding Redis_Claim_def Redis_Get_def compareAndSet_def
    by (auto intro!: calm_rules)
qed

lemma sim_bystander_run:
  assumes "wired ttl (r_g r)" and "r_tool r \<in> mock_tools path" and "iv_IdempotencyKey (r_inv r) = Some (r_key r)"
    and "beside (r_key r) view"
  shows "bystander r view"
proof -
  have g: "g_rt (r_g r) = sim_runtime" "g_store (r_g r) = RedisStore sim_redis ttl"
    "g_Out (r_g r) = sim_Stdout" "g_Now (r_g r) = rt_Now sim_runtime" "g_Sleep (r_g r) = sim_Sleep"
    using assms(1) by (simp_all add: wired_def)
  have k: "entryKey (r_inv r) = r_key r" by (simp add: entryKey_def assms(3))
  show ?thesis
    by unfold_locales
      (simp_all add: g RedisStore_def unmoved_ops beside_unmoved [OF assms(4)] store_beside [OF assms(4)]
        tools_beside [OF assms(4) k assms(2)])
qed

lemma sim_bystander: "keyed_run path ttl r \<Longrightarrow> beside (r_key r) view \<Longrightarrow> bystander r view"
  by (rule sim_bystander_run [where ttl = ttl and path = path]) (simp_all add: keyed_run_def)

text \<open>The views: another key's, and the topic's.\<close>

lemma unmoved_sim_view: "unmoved (sim_view path k)"
  unfolding unmoved_def
  by (auto simp: calm_def later_def sim_view_def effects_under_def sim_open_def drift_fields split: option.split)

lemma beside_other_key: "k \<noteq> key \<Longrightarrow> beside key (sim_view path k)"
  unfolding beside_def
  by (auto simp: unmoved_sim_view calm_def later_def sim_view_def effects_under_def sim_append_def redis_set_def
      split: option.split)

definition topic_view :: "(nat \<Rightarrow> (string \<times> json) list) \<Rightarrow> world \<Rightarrow> fview" where
  "topic_view T w = \<lparr>fv_key = None, fv_effects = (if w_topic w = T then 0 else 1), fv_clock = 0, fv_issued = {}\<rparr>"

lemma beside_topic: "beside key (topic_view T)"
  unfolding beside_def unmoved_def
  by (simp add: topic_view_def calm_def later_def drift_fields sim_open_def redis_set_def sim_append_def split: option.split)

lemma topic_kept:
  assumes "\<And>T. calm_prog (topic_view T) m" shows "w_topic (snd (m w)) = w_topic w"
proof -
  have "calm (topic_view (w_topic w) w) (topic_view (w_topic w) (snd (m w)))"
    using assms [of "w_topic w"] unfolding calm_prog_def by (rule spec)
  then show ?thesis by (simp add: calm_def topic_view_def split: if_splits)
qed

end
