(* ===== verification/Sim_Prompt.thy ===== *)
theory Sim_Prompt
  imports Sim_Calls
begin

text \<open>
  Calls of the simulated world come back, whatever the adversary does, and a guard run that is given polls
  for the time a claim takes to go stale comes back too.
\<close>

section \<open>Every call ends\<close>

lemma ends_runtime:
  "ends (rt_Now sim_runtime)" "ends (rt_UUID sim_runtime)" "ends (rt_Err sim_runtime c)" "ends (rt_Sleep sim_runtime c d)"
  "ends (sim_Sleep c d)" "ends (rt_Getenv sim_runtime n)" "ends (rt_Getpid sim_runtime)" "ends (rt_MkdirAll sim_runtime p)"
  "ends (rt_OpenAppend sim_runtime p)" "ends (rt_Write sim_runtime p j)" "ends (rt_Sync sim_runtime p)"
  "ends (rt_Close sim_runtime p)" "ends (rt_ReadFile sim_runtime p)" "ends (sim_Stdout x)"
  by (simp_all add: sim_runtime_def sim_Err_def sim_Sleep_def sim_Stdout_def ends_external ends_internal)

lemma ends_wrapping: "ends (wrapping pre e)"
  by (simp add: wrapping_def)

lemma ends_delay: "ends (mockToolDelay sim_runtime c)"
  unfolding mockToolDelay_def by (intro orderly_rules ends_runtime)

lemma ends_Entries: "ends (Entries sim_runtime p c)"
  unfolding Entries_def by (intro orderly_rules ends_runtime ends_wrapping)

lemma ends_Record: "ends (Record sim_runtime p c e)"
  unfolding Record_def Let_def split_def by (intro orderly_rules ends_runtime ends_wrapping)

lemma ends_tools:
  "ends (CloneRepo_Execute sim_runtime c invo args)" "ends (RunTests_Execute sim_runtime p c invo args)"
  "ends (ApplyFix_Execute sim_runtime p c invo args)" "ends (OpenPR_Execute sim_runtime p c invo args)"
  "ends (OpenPR_Reconcile sim_runtime p c invo args)"
  unfolding CloneRepo_Execute_def RunTests_Execute_def ApplyFix_Execute_def OpenPR_Execute_def OpenPR_Reconcile_def
    FindByKey_def record_effect_def split_def
  by (intro orderly_rules ends_runtime ends_wrapping ends_delay ends_Entries ends_Record)+

lemma ends_store:
  "ends (Redis_Claim sim_redis ttl c key rec)" "ends (Redis_Get sim_redis c key)"
  "ends (compareAndSet sim_redis ttl c key tok rec)"
  unfolding Redis_Claim_def Redis_Get_def compareAndSet_def sim_redis_def redis_client.select_convs
  by (intro orderly_rules ends_external)+


section \<open>Time and the guard\<close>

lemma sim_sleep_value:
  assumes "sim_Sleep c d w = (Done (Inr ()), w')"
  shows "fv_clock (sim_view path key w) + d \<le> fv_clock (sim_view path key w')"
proof -
  have "w_now w + d \<le> w_now w'"
    using assms unfolding sim_Sleep_def
  proof (cases rule: external_drift)
    case (acts w1 res w2)
    have "w_now w1 + d \<le> w_now w2"
      using acts(2,4) by (auto simp: ctx_canceled_def tick_def split: option.splits if_splits)
    with drift_fields(10) [OF acts(1)] drift_fields(10) [OF acts(3)] show ?thesis by simp
  qed (auto simp: ctx_canceled_def)
  then show ?thesis by (simp add: sim_view_def)
qed

text \<open>No guard run ever leaves a claim that is dated in the future.\<close>

definition on_time :: "string \<Rightarrow> world \<Rightarrow> bool" where
  "on_time path w \<longleftrightarrow> (\<forall>key. punctual (sim_view path key w))"

lemma orderly_keeps: "ends m \<Longrightarrow> (\<And>s. ok s \<Longrightarrow> ok (snd (m s))) \<Longrightarrow> orderly ok m"
  by (auto simp: orderly_def total_def triple_def finishes_def split: prod.splits exec.splits) (metis snd_conv)+

lemma calm_on_time:
  assumes "ends m" and "\<And>key. calm_prog (sim_view path key) m" shows "orderly (on_time path) m"
proof (rule orderly_keeps [OF assms(1)])
  show "on_time path w \<Longrightarrow> on_time path (snd (m w))" for w
    using assms(2) stable_punctual unfolding on_time_def calm_prog_def stable_def by blast
qed

text \<open>What a tool writes to the ledger does not show in Redis.\<close>

definition redis_view :: "string \<Rightarrow> string \<Rightarrow> world \<Rightarrow> fview" where
  "redis_view path key w = (sim_view path key w)\<lparr>fv_effects := 0\<rparr>"

lemma unmoved_redis_view: "unmoved (redis_view path key)"
  unfolding unmoved_def
  by (auto simp: calm_def later_def redis_view_def sim_view_def sim_open_def drift_fields split: option.split)

lemma append_redis_view: "calm (redis_view path key w) (redis_view path key (sim_append p l w))"
  by (simp add: calm_def later_def redis_view_def sim_view_def sim_append_def)

lemma tools_redis_view:
  "calm_prog (redis_view path key) (CloneRepo_Execute sim_runtime c invo args)"
  "calm_prog (redis_view path key) (RunTests_Execute sim_runtime p c invo args)"
  "calm_prog (redis_view path key) (ApplyFix_Execute sim_runtime p c invo args)"
  "calm_prog (redis_view path key) (OpenPR_Execute sim_runtime p c invo args)"
proof -
  note u = unmoved_redis_view
  have w: "calm_prog (redis_view path key) (rt_Write sim_runtime q j)" for q j
    unfolding sim_runtime_def runtime.select_convs by (rule external_unmoved [OF u]) (simp_all add: append_redis_view)
  have r: "calm_prog (redis_view path key) (Record sim_runtime p c e)" for e
    unfolding Record_def Let_def split_def by (intro calm_rules unmoved_ops [OF u] w wrapping_calm)
  show "calm_prog (redis_view path key) (CloneRepo_Execute sim_runtime c invo args)"
    "calm_prog (redis_view path key) (RunTests_Execute sim_runtime p c invo args)"
    "calm_prog (redis_view path key) (ApplyFix_Execute sim_runtime p c invo args)"
    "calm_prog (redis_view path key) (OpenPR_Execute sim_runtime p c invo args)"
    unfolding CloneRepo_Execute_def RunTests_Execute_def ApplyFix_Execute_def OpenPR_Execute_def record_effect_def split_def
    by (intro calm_rules unmoved_ops [OF u] r wrapping_calm mock_delay_unmoved [OF u] Entries_unmoved [OF u])+
qed

lemma redis_view_spares:
  assumes "calm_prog (redis_view path key) m"
  shows "later (sim_view path key w) (sim_view path key (snd (m w)))
    \<and> fv_key (sim_view path key (snd (m w))) = fv_key (sim_view path key w)"
proof -
  have "calm (redis_view path key w) (redis_view path key (snd (m w)))" using assms unfolding calm_prog_def by (rule spec)
  then show ?thesis by (simp add: calm_def later_def redis_view_def)
qed

lemma redis_view_on_time:
  assumes "ends m" and "\<And>key. calm_prog (redis_view path key) m" shows "orderly (on_time path) m"
proof (rule orderly_keeps [OF assms(1)])
  fix w assume t: "on_time path w"
  have "punctual (sim_view path key (snd (m w)))" for key
    using redis_view_spares [OF assms(2), of key w] t
    by (force simp: on_time_def punctual_def key_holds_def later_def)
  then show "on_time path (snd (m w))" by (simp add: on_time_def)
qed

lemma sim_prompt_fence:
  assumes "keyed_run path ttl r"
  shows "prompt_fence r (sim_view path (r_key r))"
proof (intro prompt_fence.intro prompt_fence_axioms.intro)
  let ?v = "sim_view path (r_key r)"
  have g: "g_rt (r_g r) = sim_runtime" "g_store (r_g r) = RedisStore sim_redis ttl"
    "g_Out (r_g r) = sim_Stdout" "g_Now (r_g r) = rt_Now sim_runtime" "g_Sleep (r_g r) = sim_Sleep"
    and tool: "r_tool r \<in> mock_tools path" and key: "iv_IdempotencyKey (r_inv r) = Some (r_key r)"
    using assms by (simp_all add: keyed_run_def wired_def)
  have ex: "t_Execute (r_tool r) \<in> {CloneRepo_Execute sim_runtime, RunTests_Execute sim_runtime path,
      ApplyFix_Execute sim_runtime path, OpenPR_Execute sim_runtime path}"
    and rec: "t_Reconcile (r_tool r) = Some rc \<Longrightarrow> rc = OpenPR_Reconcile sim_runtime path" for rc
    using tool by (auto simp: mock_tools_def effect_tools_def ApplyFixTool_def OpenPRTool_def CloneRepoTool_def RunTestsTool_def)
  show "fence_store r ?v" by (rule sim_fence_store [OF assms])
  show "ends (g_Out (r_g r) txtline)" "ends (g_Sleep (r_g r) c d)" "ends (rt_Err (g_rt (r_g r)) c)"
    "ends (rt_Now (g_rt (r_g r)))" "ends (g_Now (r_g r))" "ends (rt_UUID (g_rt (r_g r)))"
    "ends (st_Claim (g_store (r_g r)) c (r_key r) rec)" "ends (st_Get (g_store (r_g r)) c (r_key r))"
    "ends (st_Resolve (g_store (r_g r)) c (r_key r) tk rec)" "ends (st_TakeOver (g_store (r_g r)) c (r_key r) tk rec)"
    for txtline c d rec tk
    by (simp_all add: g RedisStore_def ends_runtime ends_store)
  show "ends (t_Execute (r_tool r) c (r_inv r) (tc_ToolArgs (r_tc r)))" for c
    using ex by (auto simp: ends_tools)
  show "t_Reconcile (r_tool r) = Some rc \<Longrightarrow> ends (rc c (r_inv r) (tc_ToolArgs (r_tc r)))" for rc c
    using ends_tools(5) by (auto dest: rec)
  show "g_Sleep (r_g r) c d s = (Done (Inr ()), s') \<Longrightarrow> fv_clock (?v s) + d \<le> fv_clock (?v s')" for c d s s'
    by (rule sim_sleep_value) (simp add: g)
  show "later (?v s) (?v s') \<and> fv_key (?v s') = fv_key (?v s)"
    if t: "t_Execute (r_tool r) c (r_inv r) (tc_ToolArgs (r_tc r)) s = (w, s')" for c s w s'
  proof -
    have "calm_prog (redis_view path (r_key r)) (t_Execute (r_tool r) c (r_inv r) (tc_ToolArgs (r_tc r)))"
      using ex by (auto simp: tools_redis_view)
    from redis_view_spares [OF this, of s] t show ?thesis by simp
  qed
  show "calm_prog ?v (rc c (r_inv r) (tc_ToolArgs (r_tc r)))" if "t_Reconcile (r_tool r) = Some rc" for rc c
  proof -
    have "calm_prog ?v (OpenPR_Reconcile sim_runtime path c (r_inv r) (tc_ToolArgs (r_tc r)))"
      unfolding OpenPR_Reconcile_def FindByKey_def
      by (intro calm_rules Entries_calm wrapping_calm)
    then show ?thesis by (simp add: rec [OF that])
  qed
qed

text \<open>The polls a guard needs: one for each second of the time after which a claim is stale, and one more.\<close>

definition enough_polls :: "nat \<Rightarrow> world Guard \<Rightarrow> bool" where
  "enough_polls fuel g \<longleftrightarrow> 0 < fuel \<and> wrap64 (g_ToolTimeout g + g_StaleGrace g) \<le> (int fuel - 1) * Second"

lemma sim_guard_orderly:
  assumes "wired ttl g" and "tool \<in> mock_tools path" and "in64 (iv_Step invo)" and "ExpiryMargin < ttl" and "ttl \<le> max64"
    and "enough_polls fuel g"
  shows "orderly (on_time path) (Guard_Run fuel g ctx invo tc tool)"
proof (cases "iv_IdempotencyKey invo")
  case None
  then show ?thesis by (simp add: Guard_Run_def)
next
  case key: (Some key)
  show ?thesis
  proof (cases "ArgsHash (tc_ToolName tc) (tc_ToolArgs tc)")
    case (Inl err)
    with key show ?thesis by (simp add: Guard_Run_def)
  next
    case (Inr hash)
    let ?r = "\<lparr>r_g = g, r_inv = invo, r_tc = tc, r_tool = tool, r_key = key, r_argsHash = hash\<rparr>"
    let ?m = "Guard_Run fuel g ctx invo tc tool"
    have fr: "keyed_run path ttl ?r" using assms key by (simp add: keyed_run_def)
    have pf: "prompt_fence ?r (sim_view path key)" using sim_prompt_fence [OF fr] by simp
    have "prompt_fence.polls ?r fuel"
      using assms(6) by (simp add: prompt_fence.polls_def [OF pf] enough_polls_def staleAfter_def)
    from prompt_fence.Guard_Run_total [OF pf _ _ this, of ctx] key Inr
    have own: "total (\<lambda>w. punctual (sim_view path key w)) ?m (\<lambda>_ w. punctual (sim_view path key w))
        (\<lambda>w. punctual (sim_view path key w))" by simp
    have other: "calm_prog (sim_view path k) ?m" if "k \<noteq> key" for k
    proof -
      have "bystander ?r (sim_view path k)" using sim_bystander [OF fr] beside_other_key [OF that] by simp
      from bystander.Guard_Run_calm [OF this] key Inr show ?thesis by simp
    qed
    have keep: "on_time path w'" if "on_time path w" "?m w = (x, w')" for w x w'
    proof -
      have "punctual (sim_view path key w)" using that(1) by (simp add: on_time_def)
      then have k: "punctual (sim_view path key w')"
        using total_triple [OF own] that(2) by (cases x) (blast dest: triple_DoneD triple_HaltD triple_FuelD)+
      have "punctual (sim_view path k w')" if "k \<noteq> key" for k
      proof -
        have "calm (sim_view path k w) (sim_view path k w')"
          using other [OF that] \<open>?m w = (x, w')\<close> unfolding calm_prog_def by (metis snd_conv)
        then show ?thesis using stable_punctual \<open>on_time path w\<close> unfolding on_time_def stable_def by blast
      qed
      with k show ?thesis unfolding on_time_def by metis
    qed
    have "finishes (on_time path) ?m"
      by (rule finishes_pre [OF total_finishes [OF own]]) (simp add: on_time_def)
    then show ?thesis
      unfolding orderly_def total_def using keep by (auto intro!: tripleI)
  qed
qed

end
