(* ===== verification/Kafka.thy ===== *)
theory Kafka
  imports Tools Fold
begin

text \<open>
  \<open>internal/kafka\<close> (\<open>partition.go\<close>, \<open>publisher.go\<close>, \<open>topics.go\<close>) and \<open>internal/replay/kafka_source.go\<close>: which
  partition a run lives on, writing one event, creating and checking the topic, and reading a run back. The
  \<open>kafka-go\<close> client is a record of the calls made on it; its hash balancer is the parameter \<open>hash\<close>.
\<close>

section \<open>The client\<close>

text \<open>What \<open>kafka.Hash.Balance\<close> answers for a key and a list of partitions.\<close>

type_synonym balancer = "string \<Rightarrow> nat list \<Rightarrow> nat"

datatype acks = RequireNone | RequireOne | RequireAll

record writer_config =
  wc_Addr :: "string list"
  wc_Topic :: string
  wc_RequiredAcks :: acks
  wc_Async :: bool
  wc_BatchSize :: int
  wc_Balancer :: balancer
  wc_AllowAutoTopicCreation :: bool
  wc_MaxAttempts :: int

record topic_config =
  tp_Topic :: string
  tp_NumPartitions :: int
  tp_ReplicationFactor :: int
  tp_ConfigEntries :: "(string \<times> string) list"

record kmessage =
  km_Key :: string
  km_Value :: raw
  km_Offset :: int

record reader_config =
  rc_Brokers :: "string list"
  rc_Topic :: string
  rc_Partition :: nat

text \<open>Connections and readers are handles.\<close>

record 's kafka_client =
  kc_DialContext :: "ctx \<Rightarrow> string \<Rightarrow> ('s, goerror + nat) prog"
  kc_DialLeader :: "ctx \<Rightarrow> string \<Rightarrow> string \<Rightarrow> nat \<Rightarrow> ('s, goerror + nat) prog"
  kc_CreateTopics :: "nat \<Rightarrow> topic_config \<Rightarrow> ('s, goerror + unit) prog"
  kc_ReadPartitions :: "nat \<Rightarrow> string \<Rightarrow> ('s, goerror + nat list) prog"
  kc_ReadOffsets :: "nat \<Rightarrow> ('s, goerror + int \<times> int) prog"
  kc_CloseConn :: "nat \<Rightarrow> ('s, unit) prog"
  kc_NewReader :: "reader_config \<Rightarrow> ('s, nat) prog"
  kc_SetOffset :: "nat \<Rightarrow> int \<Rightarrow> ('s, goerror + unit) prog"
  kc_ReadMessage :: "ctx \<Rightarrow> nat \<Rightarrow> ('s, goerror + kmessage) prog"
  kc_CloseReader :: "nat \<Rightarrow> ('s, unit) prog"
  kc_WriteMessages :: "writer_config \<Rightarrow> ctx \<Rightarrow> string \<Rightarrow> json \<Rightarrow> ('s, goerror + unit) prog"
  kc_CloseWriter :: "('s, goerror + unit) prog"


section \<open>Partitions (partition.go)\<close>

definition partitionIndices :: "nat \<Rightarrow> nat list" where
  "partitionIndices n = [0..<n]"

definition PartitionFor :: "balancer \<Rightarrow> string \<Rightarrow> nat \<Rightarrow> nat" where
  "PartitionFor hash runID numPartitions = hash runID (partitionIndices numPartitions)"


section \<open>Publishing (publisher.go, topics.go)\<close>

definition TopicRunEvents :: string where "TopicRunEvents = ''run-events''"
definition RunEventsPartitions :: nat where "RunEventsPartitions = 6"
definition ProjectorConsumerGroup :: string where "ProjectorConsumerGroup = ''projector''"

definition balanceByPartitionFor :: "balancer \<Rightarrow> balancer" where
  "balanceByPartitionFor hash key partitions = PartitionFor hash key (length partitions)"

definition NewEventPublisher :: "balancer \<Rightarrow> string list \<Rightarrow> writer_config" where
  "NewEventPublisher hash brokers = \<lparr>wc_Addr = brokers, wc_Topic = TopicRunEvents,
     wc_RequiredAcks = RequireAll, wc_Async = False, wc_BatchSize = 1,
     wc_Balancer = balanceByPartitionFor hash, wc_AllowAutoTopicCreation = False, wc_MaxAttempts = 3\<rparr>"

definition Publish :: "'s kafka_client \<Rightarrow> writer_config \<Rightarrow> ctx \<Rightarrow> Envelope \<Rightarrow> ('s, goerror + unit) prog" where
  "Publish k writer ctx e = (case Encode e of
     Inl err \<Rightarrow> preturn (Inl (Errorw (''encoding event '' @ EventType_of e @ '' (seq ''
       @ show_int (SequenceNumber e) @ '') for publish: '') err))
   | Inr b \<Rightarrow> pbind (kc_WriteMessages k writer ctx (RunID e) b) (\<lambda>r. case r of
       Inl err \<Rightarrow> preturn (Inl (Errorw (''publishing event '' @ EventType_of e @ '' (seq ''
         @ show_int (SequenceNumber e) @ ''): '') err))
     | Inr _ \<Rightarrow> preturn (Inr ())))"

definition Publisher_Close :: "'s kafka_client \<Rightarrow> ('s, goerror + unit) prog" where
  "Publisher_Close k = pbindM (kc_CloseWriter k) (wrapping ''closing kafka writer: '') (\<lambda>_. preturn (Inr ()))"

definition EnsureTopics :: "'s kafka_client \<Rightarrow> ctx \<Rightarrow> string list \<Rightarrow> ('s, goerror + unit) prog" where
  "EnsureTopics k ctx brokers = (case brokers of
     [] \<Rightarrow> preturn (Inl (Errorf ''ensuring topics: no brokers configured''))
   | broker # _ \<Rightarrow>
     pbindM (kc_DialContext k ctx broker) (wrapping (''dialing kafka broker '' @ broker @ '': '')) (\<lambda>conn.
     deferring (kc_CloseConn k conn) (
       pbindM (kc_CreateTopics k conn \<lparr>tp_Topic = TopicRunEvents, tp_NumPartitions = int RunEventsPartitions,
           tp_ReplicationFactor = 1,
           tp_ConfigEntries = [(''cleanup.policy'', ''delete''), (''retention.ms'', ''-1'')]\<rparr>)
         (wrapping (''creating topic '' @ TopicRunEvents @ '': '')) (\<lambda>_.
       pbindM (kc_ReadPartitions k conn TopicRunEvents)
         (wrapping (''reading back partitions for topic '' @ TopicRunEvents @ '': '')) (\<lambda>partitions.
       if length partitions \<noteq> RunEventsPartitions
       then preturn (Inl (Errorf (''topic '' @ TopicRunEvents @ '' has '' @ show_int (int (length partitions))
         @ '' partition(s), want '' @ show_int (int RunEventsPartitions)
         @ '' (created by hand with a different partition count?)'')))
       else preturn (Inr ()))))))"


section \<open>Reading a run back (kafka_source.go)\<close>

text \<open>Every broker is tried in turn; the error kept is the last one's.\<close>

fun dial_leader :: "'s kafka_client \<Rightarrow> ctx \<Rightarrow> nat \<Rightarrow> string list \<Rightarrow> goerror \<Rightarrow> ('s, goerror + nat) prog" where
  "dial_leader k ctx part [] dialErr = preturn (Inl dialErr)"
| "dial_leader k ctx part (broker # brokers) dialErr =
     pbind (kc_DialLeader k ctx broker TopicRunEvents part) (\<lambda>r. case r of
       Inr conn \<Rightarrow> preturn (Inr conn)
     | Inl err \<Rightarrow> dial_leader k ctx part brokers err)"

text \<open>The scan of a partition, up to the last offset below \<open>hwm\<close>: one message per unit of fuel.\<close>

primrec read_loop :: "nat \<Rightarrow> 's kafka_client \<Rightarrow> ctx \<Rightarrow> nat \<Rightarrow> nat \<Rightarrow> int \<Rightarrow> string \<Rightarrow> Envelope list
    \<Rightarrow> ('s, goerror + Envelope list) prog" where
  "read_loop 0 k ctx part reader hwm runID = (\<lambda>out. pstuck)"
| "read_loop (Suc fuel) k ctx part reader hwm runID = (\<lambda>out.
     pbindM (kc_ReadMessage k ctx reader)
       (wrapping (''reading message from partition '' @ show_int (int part) @ '': '')) (\<lambda>msg.
     let next_out = (\<lambda>out. if km_Offset msg \<ge> wrap64 (hwm - 1) then preturn (Inr out)
           else read_loop fuel k ctx part reader hwm runID out) in
     if km_Key msg = runID then (case Decode (km_Value msg) of
         Inl err \<Rightarrow> preturn (Inl (Errorw (''decoding message at partition='' @ show_int (int part)
           @ '' offset='' @ show_int (km_Offset msg) @ '': '') err))
       | Inr env \<Rightarrow> next_out (out @ [env]))
     else next_out out))"

definition KafkaEventSource_Events :: "nat \<Rightarrow> balancer \<Rightarrow> 's kafka_client \<Rightarrow> string list \<Rightarrow> ctx \<Rightarrow> string
    \<Rightarrow> ('s, goerror + Envelope list) prog" where
  "KafkaEventSource_Events fuel hash k brokers ctx runID =
     (let part = PartitionFor hash runID RunEventsPartitions in
      pbindM (dial_leader k ctx part brokers (Errorf []))
        (wrapping (''dialing partition '' @ show_int (int part) @ '' leader for run '' @ runID @ '' (tried ''
          @ show_int (int (length brokers)) @ '' broker(s)): '')) (\<lambda>conn.
      deferring (kc_CloseConn k conn) (
        pbindM (kc_ReadOffsets k conn)
          (wrapping (''reading offsets for partition '' @ show_int (int part) @ '': '')) (\<lambda>(first, hwm).
        if hwm = first then preturn (Inl ErrRunNotFound)
        else pbind (kc_NewReader k \<lparr>rc_Brokers = brokers, rc_Topic = TopicRunEvents, rc_Partition = part\<rparr>) (\<lambda>reader.
        deferring (kc_CloseReader k reader) (
          pbindM (kc_SetOffset k reader first)
            (wrapping (''setting reader offset to '' @ show_int first @ '' on partition ''
              @ show_int (int part) @ '': '')) (\<lambda>_.
          pbindE (read_loop fuel k ctx part reader hwm runID []) (\<lambda>out.
          preturn (if length out = 0 then Inl ErrRunNotFound else Inr out)))))))))"

text \<open>\<open>NewKafkaEventSource\<close> panics on an empty list of brokers.\<close>

definition NewKafkaEventSource :: "string list \<Rightarrow> ('s, string list) prog" where
  "NewKafkaEventSource brokers = (if length brokers = 0 then phalt 2 else preturn brokers)"

definition replay_from :: "block_decoder \<Rightarrow> nat \<Rightarrow> balancer \<Rightarrow> 's kafka_client \<Rightarrow> string list \<Rightarrow> ctx \<Rightarrow> string
    \<Rightarrow> ('s, goerror + RunState) prog" where
  "replay_from blocks fuel hash k brokers ctx runID =
     pbind (KafkaEventSource_Events fuel hash k brokers ctx runID) (\<lambda>r.
     preturn (Replay blocks (\<lambda>_. r) runID))"

end
