(* ===== verification/Kafka_Log.thy ===== *)
theory Kafka_Log
  imports Kafka Loop_Contract
begin

text \<open>
  The topic as the journal of a run: what a publish appends, and what reading a run back gives. The Kafka
  client is an interface whose laws are those of one partition: a write goes to the partition the balancer
  names, a reader gives the messages in order, and nothing is deleted.
\<close>

text \<open>The messages of a run, and the events in them. A message that does not decode stands for an event no fold accepts.\<close>

definition run_values :: "string \<Rightarrow> (string \<times> json) list \<Rightarrow> json list" where
  "run_values runID msgs = map snd (filter (\<lambda>m. fst m = runID) msgs)"

definition unreadable :: Envelope where
  "unreadable = Envelope_zero\<lparr>SequenceNumber := 2 ^ 64\<rparr>"

definition event_in :: "json \<Rightarrow> Envelope" where
  "event_in v = (case Decode (Some v) of Inl _ \<Rightarrow> unreadable | Inr e \<Rightarrow> e)"

definition run_log :: "balancer \<Rightarrow> string \<Rightarrow> (nat \<Rightarrow> (string \<times> json) list) \<Rightarrow> Envelope list" where
  "run_log hash runID topic = map event_in (run_values runID (topic (PartitionFor hash runID RunEventsPartitions)))"

lemma run_values_append [simp]: "run_values runID (xs @ ys) = run_values runID xs @ run_values runID ys"
  by (simp add: run_values_def)

lemma run_values_replicate [simp]:
  "run_values runID (replicate n (key, v)) = (if key = runID then replicate n v else [])"
  by (simp add: run_values_def filter_replicate)

lemma unreadable_rejected:
  assumes "wf_run s" shows "\<exists>err. Apply blocks s unreadable = Inl err"
proof -
  have seq: "SequenceNumber unreadable = 2 ^ 64" by (simp add: unreadable_def)
  have small: "x \<in> fst ` set (s_seen s) \<Longrightarrow> in64 x" for x
  proof -
    assume "x \<in> fst ` set (s_seen s)"
    then have "x \<in> set (map fst (s_seen s))" by simp
    also have "map fst (s_seen s) = map (\<lambda>i. wrap64 (int i)) [0..<length (s_seen s)]"
      using assms by (simp add: wf_run_def wf_seen_def)
    finally show "in64 x" by auto
  qed
  have "\<not> in64 (2 ^ 64)" by (simp add: in64_def max64_def)
  then have new: "map_of (s_seen s) (2 ^ 64) = None" using small by (auto simp: map_of_eq_None_iff)
  have "in64 (s_NextSequence s)" using assms by (simp add: wf_run_def wf_seen_def)
  then have "s_NextSequence s \<noteq> 2 ^ 64" by (auto simp: in64_def max64_def)
  then show ?thesis using new by (auto simp: Apply_def seq Let_def)
qed

lemma fold_loop_readable:
  "fold_loop blocks s (map event_in vs) = Inr st \<Longrightarrow> wf_run s
    \<Longrightarrow> map (Decode \<circ> Some) vs = map Inr (map event_in vs)"
proof (induction vs arbitrary: s)
  case (Cons v vs)
  then obtain s' where a: "Apply blocks s (event_in v) = Inr s'" "fold_loop blocks s' (map event_in vs) = Inr st"
    by (auto split: sum.splits)
  have "Decode (Some v) = Inr (event_in v)"
    using a(1) unreadable_rejected [OF Cons.prems(2), of blocks] by (auto simp: event_in_def split: sum.splits)
  with Cons.IH [OF a(2) Apply_wf_run [OF a(1) Cons.prems(2)]] show ?case by simp
qed simp

lemma publisher_partition:
  "wc_Balancer (NewEventPublisher hash brokers) key [0..<RunEventsPartitions] = PartitionFor hash key RunEventsPartitions"
  by (simp add: NewEventPublisher_def balanceByPartitionFor_def)

locale kafka_log =
  fixes k :: "'s kafka_client" and hash :: balancer and brokers :: "string list"
    and cap :: int and topic :: "'s \<Rightarrow> nat \<Rightarrow> (string \<times> json) list"
    and conn :: "'s \<Rightarrow> nat \<Rightarrow> nat option" and reader :: "'s \<Rightarrow> nat \<Rightarrow> (nat \<times> int) option"
    and view :: "'s \<Rightarrow> views"
  assumes written: "kc_WriteMessages k (NewEventPublisher hash brokers) ctx key v s = (x, s')
      \<Longrightarrow> p = wc_Balancer (NewEventPublisher hash brokers) key [0..<RunEventsPartitions]
      \<Longrightarrow> all_calm (view s) (view s') \<and> (\<exists>n. topic s' = (topic s)(p := topic s p @ replicate n (key, v))
           \<and> (x = Done (Inr ()) \<longrightarrow> 0 < n))"
    and dial: "kc_DialLeader k ctx broker T p s = (y, s') \<Longrightarrow> topic s' = topic s
      \<and> (\<forall>c. y = Done (Inr c) \<longrightarrow> conn s' c = Some p)"
    and offsets: "kc_ReadOffsets k c s = (z, s') \<Longrightarrow> conn s c = Some p \<Longrightarrow> topic s' = topic s
      \<and> (\<forall>first hwm. z = Done (Inr (first, hwm)) \<longrightarrow> first = 0 \<and> hwm = int (length (topic s p)) \<and> hwm < cap)"
    and cap_max: "cap \<le> 2 ^ 63"
    and close_conn: "topic (snd (kc_CloseConn k c s)) = topic s"
    and new_reader: "kc_NewReader k rc s = (w, s') \<Longrightarrow> topic s' = topic s
      \<and> (\<forall>r. w = Done r \<longrightarrow> (\<exists>i. reader s' r = Some (rc_Partition rc, i)))"
    and set_offset: "kc_SetOffset k r i s = (u, s') \<Longrightarrow> reader s r = Some (p, i') \<Longrightarrow> topic s' = topic s
      \<and> (u = Done (Inr ()) \<longrightarrow> reader s' r = Some (p, i))"
    and read: "kc_ReadMessage k ctx r s = (m, s') \<Longrightarrow> reader s r = Some (p, i) \<Longrightarrow> topic s' = topic s
      \<and> (\<forall>msg. m = Done (Inr msg) \<longrightarrow> 0 \<le> i \<and> i < int (length (topic s p)) \<and> reader s' r = Some (p, i + 1)
           \<and> (\<exists>key v. topic s p ! nat i = (key, v) \<and> msg = \<lparr>km_Key = key, km_Value = Some v, km_Offset = i\<rparr>))"
    and close_reader: "topic (snd (kc_CloseReader k r s)) = topic s"
begin

lemma cap_in64: "int n < cap \<Longrightarrow> in64 (int n)"
  using cap_max by (simp add: in64_def min64_def max64_def)

text \<open>Publishing an event appends it to the log of its run.\<close>

lemma Publish_appends:
  assumes "sendable e"
  shows "appends (\<lambda>s. run_log hash (RunID e) (topic s)) view e (Publish k (NewEventPublisher hash brokers) ctx e)"
  unfolding appends_def
proof
  fix s
  let ?m = "Publish k (NewEventPublisher hash brokers) ctx e" and ?p = "PartitionFor hash (RunID e) RunEventsPartitions"
  show "all_calm (view s) (view (snd (?m s))) \<and> (\<exists>n. run_log hash (RunID e) (topic (snd (?m s)))
      = run_log hash (RunID e) (topic s) @ replicate n e \<and> (fst (?m s) = Done (Inr ()) \<longrightarrow> 0 < n))"
  proof (cases "json_year (OccurredAt e)")
    case False
    then show ?thesis by (simp add: Publish_def Encode_def)
  next
    case True
    have d: "event_in (enc_envelope e) = e"
      using Decode_enc_envelope [OF True] assms by (simp add: event_in_def sendable_def)
    obtain x s' where w: "kc_WriteMessages k (NewEventPublisher hash brokers) ctx (RunID e) (enc_envelope e) s = (x, s')"
      by fastforce
    from written [OF w publisher_partition [symmetric]] obtain n where n: "all_calm (view s) (view s')"
      "topic s' = (topic s)(?p := topic s ?p @ replicate n (RunID e, enc_envelope e))" "x = Done (Inr ()) \<longrightarrow> 0 < n"
      by auto
    have "run_log hash (RunID e) (topic s') = run_log hash (RunID e) (topic s) @ replicate n e"
      using n(2) d by (simp add: run_log_def)
    with n(1,3) w True show ?thesis
      by (cases x) (auto simp: Publish_def Encode_def pbind_def split: sum.splits)
  qed
qed

text \<open>Reading a run back gives its messages, in the order of the log.\<close>

abbreviation (input) "Topic T \<equiv> \<lambda>s. topic s = T"

lemma keeps_topic: "(\<And>s. topic (snd (m s)) = topic s) \<Longrightarrow> triple (\<lambda>s. Q (topic s)) m (\<lambda>_ s. Q (topic s)) (\<lambda>s. Q (topic s))"
  by (rule tripleI) (metis snd_conv)+

lemma deferring_triple:
  assumes "triple P m (\<lambda>r s. Q r (topic s)) (Topic T)" and "\<And>s. topic (snd (d s)) = topic s"
    and "\<And>r t. Q r t \<Longrightarrow> t = T"
  shows "triple P (deferring d m) (\<lambda>r s. Q r (topic s)) (Topic T)"
proof -
  have "triple (\<lambda>s. Q r (topic s)) d (\<lambda>_ s. Q r (topic s)) (Topic T)" for r
    by (rule triple_conseq [OF keeps_topic [where Q = "Q r", OF assms(2)]]) (auto dest: assms(3))
  from triple_bind [OF this triple_return] show ?thesis
    unfolding deferring_def by (intro triple_bind [OF assms(1)]) auto
qed

definition scanned :: "string \<Rightarrow> (string \<times> json) list \<Rightarrow> Envelope list \<Rightarrow> goerror + Envelope list \<Rightarrow> bool" where
  "scanned runID msgs out r \<longleftrightarrow> (\<forall>es. r = Inr es \<longrightarrow> map Inr es = map Inr out @ map (Decode \<circ> Some) (run_values runID msgs))"

lemma read_loop_triple:
  assumes "in64 (int (length (T p)))"
  shows "i < length (T p) \<Longrightarrow> triple (\<lambda>s. topic s = T \<and> reader s r = Some (p, int i))
    (read_loop fuel k ctx p r (int (length (T p))) runID out)
    (\<lambda>res s. topic s = T \<and> scanned runID (drop i (T p)) out res) (Topic T)"
proof (induction fuel arbitrary: i out)
  case 0
  show ?case unfolding read_loop.simps by (rule triple_stuck) simp
next
  case (Suc fuel)
  let ?hwm = "int (length (T p))"
  let ?Q = "\<lambda>res s. topic s = T \<and> scanned runID (drop i (T p)) out res"
  obtain key v where m: "T p ! i = (key, v)" by fastforce
  let ?msg = "\<lparr>km_Key = key, km_Value = Some v, km_Offset = int i\<rparr>"
  have d: "drop i (T p) = (key, v) # drop (Suc i) (T p)" using Suc.prems m by (metis Cons_nth_drop_Suc)
  have last: "wrap64 (?hwm - 1) = ?hwm - 1"
    using assms by (intro wrap64_id) (auto simp: in64_def min64_def)
  have rd: "triple (\<lambda>s. topic s = T \<and> reader s r = Some (p, int i)) (kc_ReadMessage k ctx r)
      (\<lambda>x s. topic s = T \<and> (\<forall>msg. x = Inr msg \<longrightarrow> msg = ?msg \<and> reader s r = Some (p, int (Suc i)))) (Topic T)"
    using read [of ctx r _ _ _ p "int i"] m by (intro tripleI) (fastforce simp: add.commute)+
  let ?on = "\<lambda>out. if int i \<ge> wrap64 (?hwm - 1) then preturn (Inr out) else read_loop fuel k ctx p r ?hwm runID out"
  have on: "triple (\<lambda>s. topic s = T \<and> reader s r = Some (p, int (Suc i))) (?on out')
      (\<lambda>res s. topic s = T \<and> scanned runID (drop (Suc i) (T p)) out' res) (Topic T)" for out'
  proof (rule triple_if)
    assume "int i \<ge> wrap64 (?hwm - 1)"
    then have "drop (Suc i) (T p) = []" using last by simp
    then show "triple (\<lambda>s. topic s = T \<and> reader s r = Some (p, int (Suc i))) (preturn (Inr out'))
      (\<lambda>res s. topic s = T \<and> scanned runID (drop (Suc i) (T p)) out' res) (Topic T)"
      by (intro triple_return) (simp add: scanned_def run_values_def)
  next
    assume "\<not> int i \<ge> wrap64 (?hwm - 1)"
    then have "Suc i < length (T p)" using last by linarith
    from Suc.IH [OF this] show "triple (\<lambda>s. topic s = T \<and> reader s r = Some (p, int (Suc i)))
      (read_loop fuel k ctx p r ?hwm runID out')
      (\<lambda>res s. topic s = T \<and> scanned runID (drop (Suc i) (T p)) out' res) (Topic T)" .
  qed
  have go: "triple (\<lambda>s. topic s = T \<and> reader s r = Some (p, int (Suc i)))
      (if key = runID then (case Decode (Some v) of
           Inl err \<Rightarrow> preturn (Inl (Errorw e2 err)) | Inr env \<Rightarrow> ?on (out @ [env]))
         else ?on out) ?Q (Topic T)" for e2
  proof (rule triple_if)
    assume k: "key = runID"
    show "triple (\<lambda>s. topic s = T \<and> reader s r = Some (p, int (Suc i))) (case Decode (Some v) of
           Inl err \<Rightarrow> preturn (Inl (Errorw e2 err)) | Inr env \<Rightarrow> ?on (out @ [env])) ?Q (Topic T)"
    proof (rule triple_sum)
      show "triple (\<lambda>s. topic s = T \<and> reader s r = Some (p, int (Suc i))) (preturn (Inl (Errorw e2 err))) ?Q (Topic T)" for err
        by (rule triple_return) (simp add: scanned_def)
      fix env assume "Decode (Some v) = Inr env"
      then have sc: "scanned runID (drop (Suc i) (T p)) (out @ [env]) res \<Longrightarrow> scanned runID (drop i (T p)) out res" for res
        using d k by (simp add: scanned_def run_values_def)
      show "triple (\<lambda>s. topic s = T \<and> reader s r = Some (p, int (Suc i))) (?on (out @ [env])) ?Q (Topic T)"
        by (rule triple_post [OF on]) (elim conjE, intro conjI, assumption, erule sc)
    qed
  next
    assume "key \<noteq> runID"
    then have sc: "scanned runID (drop (Suc i) (T p)) out res \<Longrightarrow> scanned runID (drop i (T p)) out res" for res
      using d by (simp add: scanned_def run_values_def)
    show "triple (\<lambda>s. topic s = T \<and> reader s r = Some (p, int (Suc i))) (?on out) ?Q (Topic T)"
      by (rule triple_post [OF on]) (elim conjE, intro conjI, assumption, erule sc)
  qed
  have step: "triple (\<lambda>s. topic s = T \<and> (\<forall>msg. x = Inr msg \<longrightarrow> msg = ?msg \<and> reader s r = Some (p, int (Suc i))))
      (case x of Inl err \<Rightarrow> pbind (wrapping pre err) (\<lambda>e'. preturn (Inl e'))
       | Inr msg \<Rightarrow> (if km_Key msg = runID then (case Decode (km_Value msg) of
           Inl err \<Rightarrow> preturn (Inl (Errorw (e2 msg) err))
         | Inr env \<Rightarrow> (if km_Offset msg \<ge> wrap64 (?hwm - 1) then preturn (Inr (out @ [env]))
             else read_loop fuel k ctx p r ?hwm runID (out @ [env])))
         else (if km_Offset msg \<ge> wrap64 (?hwm - 1) then preturn (Inr out)
           else read_loop fuel k ctx p r ?hwm runID out))) ?Q (Topic T)" for x pre and e2 :: "kmessage \<Rightarrow> string"
  proof (cases x)
    case (Inl err)
    show ?thesis unfolding Inl sum.case wrapping_def pbind_preturn by (rule triple_return) (simp add: scanned_def)
  next
    case (Inr msg)
    show ?thesis
      unfolding Inr sum.case
    proof (rule triple_fact [where F = "msg = ?msg"], simp)
      assume a: "msg = ?msg"
      show "triple (\<lambda>s. topic s = T \<and> (\<forall>msg'. (Inr msg :: goerror + kmessage) = Inr msg' \<longrightarrow> msg' = ?msg \<and> reader s r = Some (p, int (Suc i))))
        (if km_Key msg = runID then (case Decode (km_Value msg) of
           Inl err \<Rightarrow> preturn (Inl (Errorw (e2 msg) err))
         | Inr env \<Rightarrow> (if km_Offset msg \<ge> wrap64 (?hwm - 1) then preturn (Inr (out @ [env]))
             else read_loop fuel k ctx p r ?hwm runID (out @ [env])))
         else (if km_Offset msg \<ge> wrap64 (?hwm - 1) then preturn (Inr out)
           else read_loop fuel k ctx p r ?hwm runID out)) ?Q (Topic T)"
        unfolding a kmessage.select_convs by (rule triple_pre [OF go]) simp
    qed
  qed
  show ?case
    unfolding read_loop.simps pbindM_def Let_def
    by (rule triple_bind [OF rd]) (rule step)
qed

definition read_back :: "string \<Rightarrow> (nat \<Rightarrow> (string \<times> json) list) \<Rightarrow> goerror + Envelope list \<Rightarrow> bool" where
  "read_back runID T r \<longleftrightarrow> (\<forall>es. r = Inr es \<longrightarrow> es \<noteq> []
     \<and> map Inr es = map (Decode \<circ> Some) (run_values runID (T (PartitionFor hash runID RunEventsPartitions)))
     \<and> int (length (T (PartitionFor hash runID RunEventsPartitions))) < cap)"

lemma read_back_Inl [simp]: "read_back runID T (Inl err)"
  by (simp add: read_back_def)

lemma dial_leader_triple:
  "triple (Topic T) (dial_leader k ctx p bs err) (\<lambda>x s. topic s = T \<and> (\<forall>c. x = Inr c \<longrightarrow> conn s c = Some p)) (Topic T)"
proof (induction bs arbitrary: err)
  case (Cons br bs)
  have d: "triple (Topic T) (kc_DialLeader k ctx br TopicRunEvents p)
      (\<lambda>x s. topic s = T \<and> (\<forall>c. x = Inr c \<longrightarrow> conn s c = Some p)) (Topic T)"
    using dial by (intro tripleI) fastforce+
  show ?case
    unfolding dial_leader.simps
    by (rule triple_bind [OF d], rule triple_sum, rule triple_pre [OF Cons], simp, rule triple_return) simp
qed (auto intro: triple_return)

lemma offsets_triple:
  "triple (\<lambda>s. topic s = T \<and> conn s c = Some p) (kc_ReadOffsets k c)
    (\<lambda>x s. topic s = T \<and> (\<forall>f h. x = Inr (f, h) \<longrightarrow> f = 0 \<and> h = int (length (T p)) \<and> h < cap)) (Topic T)"
  using offsets by (intro tripleI) fastforce+

lemma new_reader_triple:
  "triple (Topic T) (kc_NewReader k \<lparr>rc_Brokers = brokers, rc_Topic = TopicRunEvents, rc_Partition = p\<rparr>)
    (\<lambda>rd s. topic s = T \<and> (\<exists>i. reader s rd = Some (p, i))) (Topic T)"
  using new_reader by (intro tripleI) fastforce+

lemma set_offset_triple:
  "triple (\<lambda>s. topic s = T \<and> (\<exists>i. reader s rd = Some (p, i))) (kc_SetOffset k rd 0)
    (\<lambda>x s. topic s = T \<and> (x = Inr () \<longrightarrow> reader s rd = Some (p, int 0))) (Topic T)"
  using set_offset by (intro tripleI) fastforce+

lemma Events_triple:
  "triple (Topic T) (KafkaEventSource_Events fuel hash k brokers ctx runID)
    (\<lambda>r s. topic s = T \<and> read_back runID T r) (Topic T)"
proof -
  let ?p = "PartitionFor hash runID RunEventsPartitions"
  let ?Q = "\<lambda>r t. t = T \<and> read_back runID T r"
  have fails: "triple (Topic T) (pbind (wrapping pre err) (\<lambda>e'. preturn (Inl e'))) (\<lambda>r s. ?Q r (topic s)) (Topic T)" for pre err
    unfolding wrapping_def pbind_preturn by (rule triple_return) simp
  note dl = dial_leader_triple [where p = ?p]
  have scan: "triple (\<lambda>s. topic s = T \<and> (\<exists>i. reader s rd = Some (?p, i)))
     (pbindM (kc_SetOffset k rd 0) (wrapping pre) (\<lambda>_.
        pbindE (read_loop fuel k ctx ?p rd hwm runID []) (\<lambda>out.
          preturn (if length out = 0 then Inl ErrRunNotFound else Inr out)))) (\<lambda>r s. ?Q r (topic s)) (Topic T)"
    if h: "hwm = int (length (T ?p))" "hwm < cap" "hwm \<noteq> 0" for rd hwm pre
  proof -
    note so = set_offset_triple [where rd = rd and p = ?p and T = T]
    have rl: "triple (\<lambda>s. topic s = T \<and> reader s rd = Some (?p, int 0)) (read_loop fuel k ctx ?p rd hwm runID [])
        (\<lambda>res s. topic s = T \<and> scanned runID (T ?p) [] res) (Topic T)"
      using read_loop_triple [of T ?p 0 rd fuel ctx runID "[]"] h cap_in64 by simp
    show ?thesis
      unfolding pbindM_def
    proof (rule triple_bind [OF so], rule triple_sum)
      show "triple (\<lambda>s. topic s = T \<and> (x = Inr () \<longrightarrow> reader s rd = Some (?p, int 0)))
         (pbind (wrapping pre err) (\<lambda>e'. preturn (Inl e'))) (\<lambda>r s. ?Q r (topic s)) (Topic T)" for x :: "goerror + unit" and err
        by (rule triple_pre [OF fails]) simp
      show "triple (\<lambda>s. topic s = T \<and> (x = Inr () \<longrightarrow> reader s rd = Some (?p, int 0)))
         (pbindE (read_loop fuel k ctx ?p rd hwm runID []) (\<lambda>out.
          preturn (if length out = 0 then Inl ErrRunNotFound else Inr out))) (\<lambda>r s. ?Q r (topic s)) (Topic T)"
        if "x = Inr u" for x :: "goerror + unit" and u
        by (rule triple_pre [OF triple_bindE [OF rl]])
          (use that h in \<open>auto intro!: triple_return simp: scanned_def read_back_def\<close>)
    qed
  qed
  note nr = new_reader_triple [where p = ?p and T = T] and offs = offsets_triple [where p = ?p and T = T]
  let ?body = "\<lambda>first hwm. if hwm = first then preturn (Inl ErrRunNotFound)
        else pbind (kc_NewReader k \<lparr>rc_Brokers = brokers, rc_Topic = TopicRunEvents, rc_Partition = ?p\<rparr>) (\<lambda>rd.
        deferring (kc_CloseReader k rd) (
          pbindM (kc_SetOffset k rd first)
            (wrapping (''setting reader offset to '' @ show_int first @ '' on partition ''
              @ show_int (int ?p) @ '': '')) (\<lambda>_.
          pbindE (read_loop fuel k ctx ?p rd hwm runID []) (\<lambda>out.
          preturn (if length out = 0 then Inl ErrRunNotFound else Inr out)))))"
  have body: "triple (\<lambda>s. topic s = T \<and> (\<forall>f h. (Inr x :: goerror + int \<times> int) = Inr (f, h) \<longrightarrow> f = 0 \<and> h = int (length (T ?p)) \<and> h < cap))
      ((\<lambda>(first, hwm). ?body first hwm) x) (\<lambda>r s. ?Q r (topic s)) (Topic T)" for x
  proof (cases x)
    case (Pair first hwm)
    show ?thesis
    proof (rule triple_fact [where F = "first = 0 \<and> hwm = int (length (T ?p)) \<and> hwm < cap"], (use Pair in auto)[1])
      assume f: "first = 0 \<and> hwm = int (length (T ?p)) \<and> hwm < cap"
      have "triple (Topic T) (?body first hwm) (\<lambda>r s. ?Q r (topic s)) (Topic T)"
      proof (rule triple_if)
        show "triple (Topic T) (preturn (Inl ErrRunNotFound)) (\<lambda>r s. ?Q r (topic s)) (Topic T)"
          by (rule triple_return) simp
        assume "hwm \<noteq> first"
        then have h: "first = 0" "hwm = int (length (T ?p))" "hwm < cap" "hwm \<noteq> 0" using f by auto
        have "triple (\<lambda>s. topic s = T \<and> (\<exists>i. reader s rd = Some (?p, i)))
            (deferring (kc_CloseReader k rd) (pbindM (kc_SetOffset k rd first)
            (wrapping (''setting reader offset to '' @ show_int first @ '' on partition ''
              @ show_int (int ?p) @ '': '')) (\<lambda>_. pbindE (read_loop fuel k ctx ?p rd hwm runID []) (\<lambda>out.
          preturn (if length out = 0 then Inl ErrRunNotFound else Inr out))))) (\<lambda>r s. ?Q r (topic s)) (Topic T)" for rd
          unfolding h(1) by (rule deferring_triple [where Q = ?Q, OF scan [OF h(2-4)] close_reader]) simp
        then show "triple (Topic T) (pbind (kc_NewReader k \<lparr>rc_Brokers = brokers, rc_Topic = TopicRunEvents, rc_Partition = ?p\<rparr>) (\<lambda>rd.
            deferring (kc_CloseReader k rd) (pbindM (kc_SetOffset k rd first)
            (wrapping (''setting reader offset to '' @ show_int first @ '' on partition ''
              @ show_int (int ?p) @ '': '')) (\<lambda>_. pbindE (read_loop fuel k ctx ?p rd hwm runID []) (\<lambda>out.
          preturn (if length out = 0 then Inl ErrRunNotFound else Inr out)))))) (\<lambda>r s. ?Q r (topic s)) (Topic T)"
          by (rule triple_bind [OF nr])
      qed
      then show ?thesis unfolding Pair prod.case by (rule triple_pre) simp
    qed
  qed
  show ?thesis
    unfolding KafkaEventSource_Events_def Let_def
  proof (rule triple_bindM [OF dl])
    show "triple (\<lambda>s. topic s = T \<and> (\<forall>c. (Inl e :: goerror + nat) = Inr c \<longrightarrow> conn s c = Some ?p)) (wrapping pre e)
      (\<lambda>e' s. topic s = T \<and> read_back runID T (Inl e')) (Topic T)" for pre e
      unfolding wrapping_def by (rule triple_return) simp
    fix c
    have "triple (\<lambda>s. topic s = T \<and> conn s c = Some ?p) (deferring (kc_CloseConn k c)
       (pbindM (kc_ReadOffsets k c) (wrapping pre) (\<lambda>(first, hwm). ?body first hwm))) (\<lambda>r s. ?Q r (topic s)) (Topic T)" for pre
      by (intro deferring_triple [where Q = ?Q, OF triple_bindM [OF offs _ body] close_conn])
        (auto simp: wrapping_def intro: triple_return)
    then show "triple (\<lambda>s. topic s = T \<and> (\<forall>c'. (Inr c :: goerror + nat) = Inr c' \<longrightarrow> conn s c' = Some ?p))
      (deferring (kc_CloseConn k c) (pbindM (kc_ReadOffsets k c)
        (wrapping (''reading offsets for partition '' @ show_int (int ?p) @ '': '')) (\<lambda>(first, hwm). ?body first hwm)))
      (\<lambda>r s. topic s = T \<and> read_back runID T r) (Topic T)"
      by simp
  qed
qed

text \<open>A replay folds the run's log, and only a log that is there.\<close>

lemma replay_triple:
  "triple (Topic T) (replay_from blocks fuel hash k brokers ctx runID)
    (\<lambda>r s. topic s = T \<and> (\<forall>st. r = Inr st \<longrightarrow> run_log hash runID T \<noteq> [] \<and> int (length (run_log hash runID T)) < cap
       \<and> fold_loop blocks RunState_zero (run_log hash runID T) = Inr st)) (Topic T)"
  unfolding replay_from_def
proof (rule triple_bind [OF Events_triple], rule triple_return)
  fix x s
  assume x: "topic s = T \<and> read_back runID T x"
  have "run_log hash runID T \<noteq> [] \<and> int (length (run_log hash runID T)) < cap \<and> fold_loop blocks RunState_zero (run_log hash runID T) = Inr st"
    if r: "Replay blocks (\<lambda>_. x) runID = Inr st" for st
  proof -
  obtain es where es: "x = Inr es" "Fold blocks es = Inr st"
    using r by (auto simp: Replay_def split: sum.splits)
  let ?vs = "run_values runID (T (PartitionFor hash runID RunEventsPartitions))"
  have m: "es \<noteq> []" "map Inr es = map (Decode \<circ> Some) ?vs" using x es(1) by (auto simp: read_back_def)
  have "es = map event_in ?vs"
  proof -
    have "length es = length ?vs" using m(2) by (metis length_map)
    moreover have "event_in (?vs ! i) = es ! i" if "i < length es" for i
    proof -
      have "Decode (Some (?vs ! i)) = Inr (es ! i)"
        using m(2) that calculation by (metis comp_apply nth_map)
      then show ?thesis by (simp add: event_in_def)
    qed
    ultimately show ?thesis by (intro nth_equalityI) auto
  qed
  then have "es = run_log hash runID T" by (simp add: run_log_def)
  moreover have "length (run_log hash runID T) \<le> length (T (PartitionFor hash runID RunEventsPartitions))"
    by (simp add: run_log_def run_values_def)
  moreover have "int (length (T (PartitionFor hash runID RunEventsPartitions))) < cap"
    using x es(1) by (simp add: read_back_def)
  ultimately show ?thesis using m(1) es(2) by (auto simp: Fold_def)
  qed
  with x show "topic s = T \<and> (\<forall>st. Replay blocks (\<lambda>_. x) runID = Inr st \<longrightarrow> run_log hash runID T \<noteq> [] \<and> int (length (run_log hash runID T)) < cap
       \<and> fold_loop blocks RunState_zero (run_log hash runID T) = Inr st)" by blast
qed

end


section \<open>Replaying ends\<close>

text \<open>Calls on the client come back; then so does a replay that may read as many messages as the partition has.\<close>

locale ending_log = kafka_log k hash brokers cap topic conn reader view
  for k :: "'s kafka_client" and hash brokers cap topic conn reader view +
  assumes ends_dial: "orderly (\<lambda>_. True) (kc_DialLeader k ctx broker T p)"
    and ends_offsets: "orderly (\<lambda>_. True) (kc_ReadOffsets k c)"
    and ends_close_conn: "orderly (\<lambda>_. True) (kc_CloseConn k c)"
    and ends_new_reader: "orderly (\<lambda>_. True) (kc_NewReader k rc)"
    and ends_set_offset: "orderly (\<lambda>_. True) (kc_SetOffset k r i)"
    and ends_read: "orderly (\<lambda>_. True) (kc_ReadMessage k ctx r)"
    and ends_close_reader: "orderly (\<lambda>_. True) (kc_CloseReader k r)"
begin

lemma orderly_finishes: "orderly (\<lambda>_. True) m \<Longrightarrow> finishes P m"
  by (auto simp: orderly_def total_def elim: finishes_pre)

lemma finishes_wrapping: "finishes P (wrapping pre e)"
  by (simp add: wrapping_def)

lemma finishes_bindM:
  assumes "triple P m Q R" and "finishes P m" and "\<And>a. finishes (Q (Inr a)) (f a)"
  shows "finishes P (pbindM m (wrapping pre) f)"
  unfolding pbindM_def
proof (rule finishes_bind [OF assms(1,2)])
  fix r
  show "finishes (Q r) (case r of Inl e \<Rightarrow> pbind (wrapping pre e) (\<lambda>e'. preturn (Inl e')) | Inr a \<Rightarrow> f a)"
    using assms(3) by (cases r) (simp_all only: sum.case wrapping_def pbind_preturn finishes_return)
qed

lemma finishes_deferring:
  assumes "finishes P m" and "orderly (\<lambda>_. True) d" shows "finishes P (deferring d m)"
proof -
  have "triple P m (\<lambda>_ _. True) (\<lambda>_. True)" by (auto simp: triple_def split: prod.splits exec.splits)
  moreover have "finishes (\<lambda>_. True) (pbind d (\<lambda>_. preturn r))" for r
    by (rule orderly_finishes) (intro orderly_bind assms(2) orderly_return)
  ultimately show ?thesis unfolding deferring_def by (rule finishes_bind [OF _ assms(1)])
qed

lemma read_loop_finishes:
  "i < length (T p) \<Longrightarrow> length (T p) - i \<le> fuel
    \<Longrightarrow> finishes (\<lambda>s. topic s = T \<and> reader s r = Some (p, int i))
      (read_loop fuel k ctx p r (int (length (T p))) runID out)"
proof (induction fuel arbitrary: i out)
  case (Suc fuel)
  let ?hwm = "int (length (T p))"
  let ?Q = "\<lambda>x s. topic s = T \<and> (\<forall>msg. x = Inr msg \<longrightarrow> km_Offset msg = int i \<and> reader s r = Some (p, int (Suc i)))"
  have rd: "triple (\<lambda>s. topic s = T \<and> reader s r = Some (p, int i)) (kc_ReadMessage k ctx r) ?Q (\<lambda>_. True)"
    using read [of ctx r _ _ _ p "int i"] by (intro tripleI) (fastforce simp: add.commute)+
  have later: "Suc i < length (T p)" if "\<not> wrap64 (?hwm - 1) \<le> int i"
  proof (rule ccontr)
    assume "\<not> Suc i < length (T p)"
    then have "?hwm - 1 = int i" using Suc.prems(1) by simp
    moreover have "(int i + 9223372036854775808) mod 18446744073709551616 \<le> int i + 9223372036854775808"
      by (rule zmod_le_nonneg_dividend) simp
    ultimately show False using that by (simp add: wrap64_def)
  qed
  show ?case
    unfolding read_loop.simps Let_def
  proof (rule finishes_bindM [OF rd orderly_finishes [OF ends_read]])
    fix msg :: kmessage
    have on: "finishes (?Q (Inr msg)) (if wrap64 (?hwm - 1) \<le> km_Offset msg then preturn (Inr out')
        else read_loop fuel k ctx p r ?hwm runID out')" for out'
    proof (rule finishes_fact [where F = "km_Offset msg = int i"], simp)
      assume o: "km_Offset msg = int i"
      show ?thesis
      proof (cases "wrap64 (?hwm - 1) \<le> int i")
        case False
        from later [OF this] have "finishes (\<lambda>s. topic s = T \<and> reader s r = Some (p, int (Suc i)))
            (read_loop fuel k ctx p r ?hwm runID out')" using Suc.prems by (intro Suc.IH) linarith+
        then show ?thesis using o False by (simp add: finishes_pre)
      qed (simp add: o)
    qed
    show "finishes (?Q (Inr msg)) (if km_Key msg = runID then (case Decode (km_Value msg) of
         Inl err \<Rightarrow> preturn (Inl (Errorw (e2 msg) err))
       | Inr env \<Rightarrow> if wrap64 (?hwm - 1) \<le> km_Offset msg then preturn (Inr (out @ [env]))
           else read_loop fuel k ctx p r ?hwm runID (out @ [env]))
     else if wrap64 (?hwm - 1) \<le> km_Offset msg then preturn (Inr out)
           else read_loop fuel k ctx p r ?hwm runID out)" for e2 :: "kmessage \<Rightarrow> string"
      using on by (auto split: sum.split)
  qed
qed simp

lemma Events_finishes:
  assumes "length (T (PartitionFor hash runID RunEventsPartitions)) \<le> fuel"
  shows "finishes (Topic T) (KafkaEventSource_Events fuel hash k brokers ctx runID)"
proof -
  let ?p = "PartitionFor hash runID RunEventsPartitions"
  have dl: "orderly (\<lambda>_. True) (dial_leader k ctx p bs err)" for p bs err
    by (induction bs arbitrary: err) (auto intro!: orderly_rules ends_dial)
  have scan: "finishes (\<lambda>s. topic s = T \<and> (\<exists>i. reader s rd = Some (?p, i)))
     (pbindM (kc_SetOffset k rd 0) (wrapping pre) (\<lambda>_. pbindE (read_loop fuel k ctx ?p rd hwm runID []) (\<lambda>out.
          preturn (if length out = 0 then Inl ErrRunNotFound else Inr out))))"
    if h: "hwm = int (length (T ?p))" "hwm \<noteq> 0" for rd hwm pre
  proof (rule finishes_bindM [OF set_offset_triple orderly_finishes [OF ends_set_offset]])
    fix u
    have "finishes (\<lambda>s. topic s = T \<and> reader s rd = Some (?p, int 0)) (read_loop fuel k ctx ?p rd hwm runID [])"
      unfolding h(1) by (rule read_loop_finishes) (use h assms in auto)
    then show "finishes (\<lambda>s. topic s = T \<and> ((Inr u :: goerror + unit) = Inr () \<longrightarrow> reader s rd = Some (?p, int 0)))
        (pbindE (read_loop fuel k ctx ?p rd hwm runID []) (\<lambda>out.
          preturn (if length out = 0 then Inl ErrRunNotFound else Inr out)))"
      unfolding pbindE_def
      by (intro finishes_bind [where Q = "\<lambda>_ _. True" and R = "\<lambda>_. True"])
        (auto elim: finishes_pre simp: triple_def split: prod.splits exec.splits sum.split)
  qed
  have body: "finishes (\<lambda>s. topic s = T \<and> (\<forall>f h. x = Inr (f, h) \<longrightarrow> f = 0 \<and> h = int (length (T ?p)) \<and> h < cap))
      (if hwm = first then preturn (Inl ErrRunNotFound)
        else pbind (kc_NewReader k \<lparr>rc_Brokers = brokers, rc_Topic = TopicRunEvents, rc_Partition = ?p\<rparr>) (\<lambda>rd.
        deferring (kc_CloseReader k rd) (pbindM (kc_SetOffset k rd first) (wrapping (pre first))
          (\<lambda>_. pbindE (read_loop fuel k ctx ?p rd hwm runID []) (\<lambda>out.
          preturn (if length out = 0 then Inl ErrRunNotFound else Inr out))))))"
    if x: "x = Inr (first, hwm)" for x :: "goerror + int \<times> int" and first hwm pre
  proof (rule finishes_fact [where F = "first = 0 \<and> hwm = int (length (T ?p))"], (use x in auto)[1])
    assume f: "first = 0 \<and> hwm = int (length (T ?p))"
    show "finishes (\<lambda>s. topic s = T \<and> (\<forall>f h. x = Inr (f, h) \<longrightarrow> f = 0 \<and> h = int (length (T ?p)) \<and> h < cap))
      (if hwm = first then preturn (Inl ErrRunNotFound)
        else pbind (kc_NewReader k \<lparr>rc_Brokers = brokers, rc_Topic = TopicRunEvents, rc_Partition = ?p\<rparr>) (\<lambda>rd.
        deferring (kc_CloseReader k rd) (pbindM (kc_SetOffset k rd first) (wrapping (pre first))
          (\<lambda>_. pbindE (read_loop fuel k ctx ?p rd hwm runID []) (\<lambda>out.
          preturn (if length out = 0 then Inl ErrRunNotFound else Inr out))))))"
    proof (cases "hwm = first")
      case False
      then have h: "hwm = int (length (T ?p))" "hwm \<noteq> 0" "first = 0" using f by auto
      show ?thesis
        unfolding if_not_P [OF False]
        by (rule finishes_pre [OF finishes_bind [OF new_reader_triple orderly_finishes [OF ends_new_reader]
              finishes_deferring [OF scan [OF h(1,2), folded h(3)] ends_close_reader]]]) simp
    qed simp
  qed
  show ?thesis
    unfolding KafkaEventSource_Events_def Let_def
  proof (rule finishes_bindM [OF dial_leader_triple orderly_finishes [OF dl]], rule finishes_deferring [OF _ ends_close_conn])
    fix c
    show "finishes (\<lambda>s. topic s = T \<and> (\<forall>c'. (Inr c :: goerror + nat) = Inr c' \<longrightarrow> conn s c' = Some ?p))
      (pbindM (kc_ReadOffsets k c) (wrapping (''reading offsets for partition '' @ show_int (int ?p) @ '': '')) (\<lambda>(first, hwm).
        if hwm = first then preturn (Inl ErrRunNotFound)
        else pbind (kc_NewReader k \<lparr>rc_Brokers = brokers, rc_Topic = TopicRunEvents, rc_Partition = ?p\<rparr>) (\<lambda>rd.
        deferring (kc_CloseReader k rd) (pbindM (kc_SetOffset k rd first)
            (wrapping (''setting reader offset to '' @ show_int first @ '' on partition '' @ show_int (int ?p) @ '': '')) (\<lambda>_.
          pbindE (read_loop fuel k ctx ?p rd hwm runID []) (\<lambda>out.
          preturn (if length out = 0 then Inl ErrRunNotFound else Inr out)))))))"
    proof (rule finishes_pre [OF finishes_bindM [OF offsets_triple orderly_finishes [OF ends_offsets]]])
      fix fh :: "int \<times> int"
      obtain first hwm where "fh = (first, hwm)" by (cases fh)
      with body [OF refl, of first hwm "\<lambda>first. ''setting reader offset to '' @ show_int first @ '' on partition '' @ show_int (int ?p) @ '': ''"]
      show "finishes (\<lambda>s. topic s = T \<and> (\<forall>f h. (Inr fh :: goerror + int \<times> int) = Inr (f, h) \<longrightarrow> f = 0 \<and> h = int (length (T ?p)) \<and> h < cap))
        (case fh of (first, hwm) \<Rightarrow> if hwm = first then preturn (Inl ErrRunNotFound)
        else pbind (kc_NewReader k \<lparr>rc_Brokers = brokers, rc_Topic = TopicRunEvents, rc_Partition = ?p\<rparr>) (\<lambda>rd.
        deferring (kc_CloseReader k rd) (pbindM (kc_SetOffset k rd first)
            (wrapping (''setting reader offset to '' @ show_int first @ '' on partition '' @ show_int (int ?p) @ '': '')) (\<lambda>_.
          pbindE (read_loop fuel k ctx ?p rd hwm runID []) (\<lambda>out.
          preturn (if length out = 0 then Inl ErrRunNotFound else Inr out))))))"
        by (simp only: prod.case)
    qed simp
  qed
qed

lemma replay_finishes:
  assumes "length (T (PartitionFor hash runID RunEventsPartitions)) \<le> fuel"
  shows "finishes (Topic T) (replay_from blocks fuel hash k brokers ctx runID)"
  unfolding replay_from_def by (rule finishes_bind [OF Events_triple Events_finishes [where T = T, OF assms]]) simp

end

end
