(* ===== verification/Worker.thy ===== *)
theory Worker
  imports Agent_Loop Kafka
begin

text \<open>
  \<open>cmd/worker\<close>, \<open>config.go\<close> and \<open>main.go\<close>: reading the configuration, deciding what the process does with
  its run, wiring the loop to Redis, Kafka, the ledger and the model, and the exit codes. What the process
  is given from outside (clients, streams, the SDK, the host) is one record.
\<close>

section \<open>The configuration (config.go)\<close>

definition defaultKafkaBrokers :: string where "defaultKafkaBrokers = ''localhost:9092''"
definition defaultRedisAddr :: string where "defaultRedisAddr = ''localhost:6379''"
definition defaultIdemTTL :: duration where "defaultIdemTTL = 24 * Hour"
definition defaultToolTimeout :: duration where "defaultToolTimeout = 2 * Minute"
definition defaultLedgerPath :: string where "defaultLedgerPath = ''.dae/mock-ledger.jsonl''"

record config =
  cf_brokers :: "string list"
  cf_redisAddr :: string
  cf_idemTTL :: duration
  cf_toolTimeout :: duration
  cf_ledgerPath :: string
  cf_resumeRunID :: string
  cf_crashSpec :: string
  cf_crashAfterSeq :: "int option"

type_synonym environment = "string \<Rightarrow> string"

definition orDefault :: "string \<Rightarrow> string \<Rightarrow> string" where
  "orDefault v def = (if v = [] then def else v)"

definition splitBrokers :: "string \<Rightarrow> string list" where
  "splitBrokers raw = strings_Split (CHR '','') raw"

definition durationEnv :: "environment \<Rightarrow> string \<Rightarrow> duration \<Rightarrow> goerror + duration" where
  "durationEnv getenv name def = (let raw = getenv name in
     if raw = [] then Inr def
     else let bad = Inl (Errorf (name @ ''='' @ go_quote raw @ '' is not a positive duration (e.g. '' @ go_quote ''20s'' @ '')'')) in
     (case ParseDuration raw of
        None \<Rightarrow> bad
      | Some d \<Rightarrow> if d \<le> 0 then bad else Inr d))"

text \<open>The error of \<open>strconv.ParseInt(raw, 10, 64)\<close> where \<open>ParseInt64\<close> has no value.\<close>

definition ParseInt_error :: "string \<Rightarrow> goerror" where
  "ParseInt_error raw = (let digits = (case raw of [] \<Rightarrow> [] | c # cs \<Rightarrow> if c \<in> {CHR ''-'', CHR ''+''} then cs else raw) in
     Errorf (''strconv.ParseInt: parsing '' @ go_quote raw @ '': ''
       @ (if parse_nat digits = None then ''invalid syntax'' else ''value out of range'')))"

text \<open>The least TTL the check of \<open>loadConfig\<close> refuses no longer: an \<open>int64\<close> sum.\<close>

definition minIdemTTL :: "duration \<Rightarrow> duration" where
  "minIdemTTL toolTimeout = wrap64 (wrap64 (toolTimeout + DefaultStaleGrace) + ExpiryMargin)"

definition crashAfterSeqEnv :: "string \<Rightarrow> goerror + int option" where
  "crashAfterSeqEnv raw = (if raw = [] then Inr None
     else (case ParseInt64 raw of
       None \<Rightarrow> Inl (Errorw (''DAE_CRASH_AFTER_SEQ='' @ go_quote raw @ '' is not a valid integer: '') (ParseInt_error raw))
     | Some n \<Rightarrow> Inr (Some n)))"

text \<open>\<open>uuid.Parse\<close> is a parameter.\<close>

definition loadConfig :: "(string \<Rightarrow> goerror + unit) \<Rightarrow> environment \<Rightarrow> goerror + config" where
  "loadConfig uuid_Parse getenv =
     (let resume = getenv ''DAE_RESUME_RUN_ID''; crash = getenv ''DAE_CRASH_AT'' in
      case durationEnv getenv ''DAE_IDEMPOTENCY_TTL'' defaultIdemTTL of
        Inl err \<Rightarrow> Inl err
      | Inr idemTTL \<Rightarrow> (case durationEnv getenv ''DAE_TOOL_TIMEOUT'' defaultToolTimeout of
          Inl err \<Rightarrow> Inl err
        | Inr toolTimeout \<Rightarrow>
          if idemTTL \<le> minIdemTTL toolTimeout
          then Inl (Errorf (''DAE_IDEMPOTENCY_TTL='' @ duration_String idemTTL
            @ '' must be greater than DAE_TOOL_TIMEOUT + '' @ duration_String DefaultStaleGrace @ '' + ''
            @ duration_String ExpiryMargin @ '' = '' @ duration_String (minIdemTTL toolTimeout)))
          else (case (if resume \<noteq> [] then uuid_Parse resume else Inr ()) of
            Inl err \<Rightarrow> Inl (Errorw (''DAE_RESUME_RUN_ID='' @ go_quote resume @ '' is not a valid uuid: '') err)
          | Inr _ \<Rightarrow> (case ParseCrashSpec crash of
              Inl err \<Rightarrow> Inl (Errorw ''DAE_CRASH_AT: '' err)
            | Inr _ \<Rightarrow> (case crashAfterSeqEnv (getenv ''DAE_CRASH_AFTER_SEQ'') of
                Inl err \<Rightarrow> Inl err
              | Inr crashAfterSeq \<Rightarrow> Inr
                 \<lparr>cf_brokers = splitBrokers (orDefault (getenv ''DAE_KAFKA_BROKERS'') defaultKafkaBrokers),
                  cf_redisAddr = orDefault (getenv ''DAE_REDIS_ADDR'') defaultRedisAddr,
                  cf_idemTTL = idemTTL, cf_toolTimeout = toolTimeout,
                  cf_ledgerPath = orDefault (getenv ''DAE_MOCK_LEDGER_PATH'') defaultLedgerPath,
                  cf_resumeRunID = resume, cf_crashSpec = crash, cf_crashAfterSeq = crashAfterSeq\<rparr>)))))"


section \<open>The process (main.go)\<close>

definition maxTokens :: int where "maxTokens = 1024"
definition maxSteps :: int where "maxSteps = 10"
definition workloadType :: string where "workloadType = ''repo-maintenance-agent''"
definition tenantID :: string where "tenantID = ''local-dev''"
definition redisPingTimeout :: duration where "redisPingTimeout = 5 * Second"

definition fakeTaskPrompt :: string where
  "fakeTaskPrompt = ''The repo github.com/example/widgets has a failing test. Clone it, run the tests, fix whatever is failing, re-run the tests to confirm, then open a pull request with the fix.''"

definition exitOK :: int where "exitOK = 0"
definition exitFailed :: int where "exitFailed = 1"
definition exitRunNotFound :: int where "exitRunNotFound = 2"
definition exitPublishFailed :: int where "exitPublishFailed = 3"
definition exitFenceUnavailable :: int where "exitFenceUnavailable = 4"

lemmas exit_defs = exitOK_def exitFailed_def exitRunNotFound_def exitPublishFailed_def exitFenceUnavailable_def

text \<open>
  What a worker process finds around it: the operating system, the Redis and Kafka clients, the SDK, the
  host's name and its streams. \<open>ps_polls\<close>, \<open>ps_reads\<close> and \<open>ps_rounds\<close> bound the three loops that wait for the
  outside: the polls of a guard, the messages of a replay, the rounds of a run.
\<close>

record 's process =
  ps_rt :: "'s runtime"
  ps_kafka :: "'s kafka_client"
  ps_hash :: balancer
  ps_redis :: "string \<Rightarrow> 's redis_client"
  ps_Ping :: "string \<Rightarrow> ctx \<Rightarrow> ('s, goerror + unit) prog"
  ps_CloseRedis :: "string \<Rightarrow> ('s, unit) prog"
  ps_messages_New :: "string \<Rightarrow> ctx \<Rightarrow> MessageNewParams \<Rightarrow> ('s, llm_error + Message option) prog"
  ps_model :: string
  ps_blocks :: block_decoder
  ps_sdk :: message_encoder
  ps_num :: number_text
  ps_Hostname :: "goerror + string"
  ps_uuid_Parse :: "string \<Rightarrow> goerror + unit"
  ps_Stdout :: "string \<Rightarrow> ('s, unit) prog"
  ps_Stderr :: "string \<Rightarrow> ('s, unit) prog"
  ps_polls :: nat
  ps_reads :: nat
  ps_rounds :: nat

text \<open>\<open>fmt.Fprintf(os.Stderr, pre + "%v\n", err)\<close>.\<close>

definition complain :: "'s process \<Rightarrow> string \<Rightarrow> goerror \<Rightarrow> ('s, unit) prog" where
  "complain ps pre err = ps_Stderr ps (pre @ err_msg err @ [CHR 0x0A])"

definition terminalExitCode :: "RunStatus \<Rightarrow> bool \<times> int" where
  "terminalExitCode status = (case status of
     StatusCompleted \<Rightarrow> (True, exitOK)
   | StatusFailed \<Rightarrow> (True, exitFailed)
   | StatusCancelled \<Rightarrow> (True, exitFailed)
   | _ \<Rightarrow> (False, 0))"

text \<open>The result is the run's id and state, or the exit code when there is nothing left to run.\<close>

definition startingState :: "'s process \<Rightarrow> ctx \<Rightarrow> config \<Rightarrow> ('s, int + string \<times> RunState) prog" where
  "startingState ps ctx cfg =
     (if cf_resumeRunID cfg = []
      then pbind (rt_UUID (ps_rt ps)) (\<lambda>runID.
           pbind (ps_Stdout ps (''run_id='' @ runID @ [CHR 0x0A])) (\<lambda>_.
           preturn (Inr (runID, RunState_zero))))
      else
        pbind (NewKafkaEventSource (cf_brokers cfg)) (\<lambda>src.
        pbind (replay_from (ps_blocks ps) (ps_reads ps) (ps_hash ps) (ps_kafka ps) src ctx (cf_resumeRunID cfg)) (\<lambda>r.
        case r of
          Inl err \<Rightarrow>
            if errors_Is err SRunNotFound
            then pbind (ps_Stderr ps (''run '' @ cf_resumeRunID cfg @ '' not found in kafka'' @ [CHR 0x0A])) (\<lambda>_.
              preturn (Inl exitRunNotFound))
            else pbind (complain ps (''replaying run '' @ cf_resumeRunID cfg @ '': '') err) (\<lambda>_. preturn (Inl exitFailed))
        | Inr state \<Rightarrow> (case terminalExitCode (s_Status state) of
            (True, code) \<Rightarrow> pbind (ps_Stdout ps (''run_id='' @ s_RunID state @ '' status='' @ RunStatus_string (s_Status state)
              @ '' next_sequence='' @ show_int (s_NextSequence state) @ [CHR 0x0A])) (\<lambda>_. preturn (Inl code))
          | (False, _) \<Rightarrow> pbind (ps_Stdout ps (''run_id='' @ s_RunID state @ '' resumed_from_seq=''
              @ show_int (wrap64 (s_NextSequence state - 1)) @ '' next_action='' @ NextAction_string (s_NextAction state)
              @ [CHR 0x0A])) (\<lambda>_. preturn (Inr (s_RunID state, state)))))))"

definition pingRedis :: "'s process \<Rightarrow> ctx \<Rightarrow> string \<Rightarrow> ('s, goerror + unit) prog" where
  "pingRedis ps ctx addr = pbind (WithTimeout (ps_rt ps) ctx redisPingTimeout) (\<lambda>ctx.
     pbindM (ps_Ping ps addr ctx) (wrapping ''pinging redis: '') (\<lambda>_. preturn (Inr ())))"

text \<open>The journal and the registry that \<open>buildLoop\<close> wires.\<close>

definition worker_registry :: "'s runtime \<Rightarrow> string \<Rightarrow> 's Registry" where
  "worker_registry rt path = NewRegistry [CloneRepoTool rt, RunTestsTool rt path, ApplyFixTool rt path, OpenPRTool rt path]"

definition worker_journal :: "'s EventPublisher \<Rightarrow> config \<Rightarrow> string \<Rightarrow> 's JournalConfig" where
  "worker_journal publisher cfg runID = (let journal = NewJournalConfig publisher runID tenantID workloadType in
     case cf_crashAfterSeq cfg of None \<Rightarrow> journal | Some n \<Rightarrow> journal\<lparr>jc_CrashAfterSeq := n\<rparr>)"

definition buildLoop :: "'s process \<Rightarrow> string \<Rightarrow> config \<Rightarrow> 's EventPublisher \<Rightarrow> string \<Rightarrow> ('s, goerror + 's Loop) prog" where
  "buildLoop ps apiKey cfg publisher runID = (case ParseCrashSpec (cf_crashSpec cfg) of
     Inl err \<Rightarrow> preturn (Inl (Errorw ''parsing DAE_CRASH_AT: '' err))
   | Inr crash \<Rightarrow>
     pbind (NewGuard (ps_rt ps) (ps_Hostname ps) (RedisStore (ps_redis ps (cf_redisAddr cfg)) (cf_idemTTL cfg))
       \<lparr>gc_ToolTimeout = cf_toolTimeout cfg, gc_StaleGrace = 0, gc_TTL = cf_idemTTL cfg,
        gc_Out = Some (ps_Stdout ps), gc_Crash = Some crash, gc_Now = None, gc_Sleep = None\<rparr>) (\<lambda>guard.
     pbind (NewLoop (ps_rt ps) (ps_blocks ps) (ps_sdk ps) (ps_num ps) (anthropic_CreateMessage (ps_messages_New ps apiKey))
       (worker_registry (ps_rt ps) (cf_ledgerPath cfg)) (ps_model ps) maxTokens maxSteps (ps_Stdout ps)
       (worker_journal publisher cfg runID) (Some (Guard_Run (ps_polls ps) guard))) (\<lambda>loop.
     preturn (Inr loop))))"

definition exitCodeFor :: "'s process \<Rightarrow> goerror + RunOutcome \<Rightarrow> ('s, int) prog" where
  "exitCodeFor ps r = (case r of
     Inl err \<Rightarrow> pbind (complain ps ''worker failed: '' err) (\<lambda>_. preturn (
       if errors_Is err SPublishFailed then exitPublishFailed
       else if errors_Is err SFenceUnavailable \<or> errors_Is err SOutcomeUnknown then exitFenceUnavailable
       else exitFailed))
   | Inr outcome \<Rightarrow> preturn (if ro_Failed outcome then exitFailed else exitOK))"

text \<open>From the starting state on.\<close>

definition close_publisher :: "'s process \<Rightarrow> ('s, unit) prog" where
  "close_publisher ps = pbind (Publisher_Close (ps_kafka ps)) (\<lambda>r. case r of
     Inl err \<Rightarrow> complain ps ''closing kafka publisher: '' err
   | Inr _ \<Rightarrow> preturn ())"

definition run_task :: "'s process \<Rightarrow> ctx \<Rightarrow> string \<Rightarrow> config \<Rightarrow> string \<Rightarrow> RunState \<Rightarrow> ('s, int) prog" where
  "run_task ps ctx apiKey cfg runID state =
     pbind (buildLoop ps apiKey cfg (Publish (ps_kafka ps) (NewEventPublisher (ps_hash ps) (cf_brokers cfg))) runID) (\<lambda>b.
     case b of
       Inl err \<Rightarrow> pbind (complain ps ''building worker: '' err) (\<lambda>_. preturn exitFailed)
     | Inr loop \<Rightarrow>
       pbind (if cf_resumeRunID cfg \<noteq> [] then Resume (ps_rounds ps) loop ctx state
         else Loop_Run (ps_rounds ps) loop ctx \<lparr>tk_Prompt = fakeTaskPrompt\<rparr>) (exitCodeFor ps))"

definition run_worker :: "'s process \<Rightarrow> ctx \<Rightarrow> string \<Rightarrow> config \<Rightarrow> ('s, int) prog" where
  "run_worker ps ctx apiKey cfg =
     pbind (EnsureTopics (ps_kafka ps) ctx (cf_brokers cfg)) (\<lambda>topics. case topics of
       Inl err \<Rightarrow> pbind (complain ps ''ensuring kafka topics: '' err) (\<lambda>_. preturn exitFailed)
     | Inr _ \<Rightarrow> deferring (ps_CloseRedis ps (cf_redisAddr cfg)) (
         pbind (pingRedis ps ctx (cf_redisAddr cfg)) (\<lambda>ping. case ping of
           Inl err \<Rightarrow> pbind (complain ps (''redis at '' @ cf_redisAddr cfg @ '' unreachable: '') err) (\<lambda>_. preturn exitFailed)
         | Inr _ \<Rightarrow> pbind (startingState ps ctx cfg) (\<lambda>start. case start of
             Inl code \<Rightarrow> preturn code
           | Inr (runID, state) \<Rightarrow> deferring (close_publisher ps) (run_task ps ctx apiKey cfg runID state)))))"

text \<open>\<open>log.Fatal\<close> exits with status 1; \<open>main\<close> never returns.\<close>

definition worker_main :: "'s process \<Rightarrow> environment \<Rightarrow> ('s, unit) prog" where
  "worker_main ps getenv = (let apiKey = getenv ''ANTHROPIC_API_KEY'' in
     if apiKey = [] then pbind (ps_Stderr ps (''ANTHROPIC_API_KEY environment variable is required'' @ [CHR 0x0A])) (\<lambda>_. phalt 1)
     else (case loadConfig (ps_uuid_Parse ps) getenv of
       Inl err \<Rightarrow> pbind (complain ps ''invalid configuration: '' err) (\<lambda>_. phalt 1)
     | Inr cfg \<Rightarrow> pbind (run_worker ps Background apiKey cfg) phalt))"

end
