(* ===== verification/Loop_Correct.thy ===== *)
theory Loop_Correct
  imports Loop_Contract
begin

text \<open>
  The loop against the contracts of its collaborators: a journal that appends what it acknowledges, and
  everything else leaving the journal alone. Inside the locale: at every moment the journal replays, the
  state the loop holds is the state the journal folds to, and every round brings the run nearer its end.
\<close>

section \<open>The loop under its contracts\<close>

locale journaled_loop =
  fixes l :: "'s Loop" and logged :: "'s \<Rightarrow> Envelope list" and view :: "'s \<Rightarrow> views" and b :: nat and ttl :: duration
  assumes publisher: "sendable e \<Longrightarrow> RunID e = jc_RunID (lp_journal l)
      \<Longrightarrow> appends logged view e (jc_Publisher (lp_journal l) ctx e)"
    and quiet_Now: "quiet logged view (rt_Now (lp_rt l))"
    and Now_value: "rt_Now (lp_rt l) s = (Done t, s') \<Longrightarrow> t \<le> fv_clock (view s' k)"
    and quiet_UUID: "quiet logged view (rt_UUID (lp_rt l))"
    and quiet_Sleep: "quiet logged view (rt_Sleep (lp_rt l) ctx d)"
    and quiet_out: "quiet logged view (lp_out l txtline)"
    and quiet_llm: "quiet logged view (lp_llm l ctx params)"
    and quiet_tool: "Lookup (lp_registry l) name = Some tool \<Longrightarrow> \<not> t_HasSideEffect tool
      \<Longrightarrow> quiet logged view (t_Execute tool ctx invo args)"
    and fence: "lp_fence l = Some f \<Longrightarrow> Lookup (lp_registry l) name = Some tool \<Longrightarrow> t_HasSideEffect tool
      \<Longrightarrow> iv_IdempotencyKey invo = Some key \<Longrightarrow> in64 (iv_Step invo) \<Longrightarrow> f ctx invo call tool s = (x, s')
      \<Longrightarrow> safe ttl (tc_InvokedAt call) (view s key)
      \<Longrightarrow> logged s' = logged s \<and> safe ttl (tc_InvokedAt call) (view s' key)
        \<and> (\<forall>k. k \<noteq> key \<longrightarrow> calm (view s k) (view s' k))
        \<and> (\<forall>oc. x = Done (Inr oc) \<longrightarrow> told (oc_Status oc) (view s' key))"
    and response: "lp_llm l ctx params s = (Done (Inr (Some resp)), s') \<Longrightarrow> those (msg_Content resp) = Some docs
      \<Longrightarrow> \<exists>c. lp_blocks l (Some (JArr docs)) = Inr c \<and> length (tool_use_ids c) \<le> b"
    and llm_foreign: "lp_llm l ctx params s = (Done (Inl callErr), s') \<Longrightarrow> foreign (ll_err callErr)"
    and sdk_foreign: "lp_sdk l ms = Inl err \<Longrightarrow> foreign err"
begin

abbreviation journal :: "'s JournalConfig" where "journal \<equiv> lp_journal l"

abbreviation ties :: "RunState \<Rightarrow> views \<Rightarrow> bool" where
  "ties \<equiv> tied (lp_registry l) (jc_RunID journal) ttl"

text \<open>
  The journal folds to a state of this run, tied to the world; and the run has room for \<open>k\<close> more events.
\<close>

definition held :: "RunState \<Rightarrow> 's \<Rightarrow> bool" where
  "held st s \<longleftrightarrow> fold_loop (lp_blocks l) RunState_zero (logged s) = Inr st
     \<and> (isEmpty st \<or> s_RunID st = jc_RunID journal) \<and> ties st (view s)"

definition room :: "nat \<Rightarrow> RunState \<Rightarrow> bool" where
  "room k st \<longleftrightarrow> length (s_seen st) + k < 2 ^ 63"

definition replays :: "'s \<Rightarrow> bool" where
  "replays s \<longleftrightarrow> (\<exists>st. held st s)"

lemma held_facts: "held st s \<Longrightarrow> wf_run st \<and> step_zero st"
  unfolding held_def using fold_loop_wf_run wf_run_zero fold_loop_step_zero step_zero_zero by blast

lemma held_ties: "held st s \<Longrightarrow> ties st (view s)"
  by (simp add: held_def)

lemma held_going: "held st s \<Longrightarrow> \<not> isEmpty st \<Longrightarrow> room k st \<Longrightarrow> going st"
  using held_facts by (auto simp: going_def room_def)

lemma quiet_both:
  assumes "quiet logged view m" and "closed G"
  shows "triple (\<lambda>s. held st s \<and> G (view s)) m (\<lambda>_ s. held st s \<and> G (view s)) (\<lambda>s. held st s \<and> G (view s))"
  using quiet_triple [OF assms(1) closed_conj [OF closed_tied assms(2)],
      of "\<lambda>es. fold_loop (lp_blocks l) RunState_zero es = Inr st \<and> (isEmpty st \<or> s_RunID st = jc_RunID journal)"]
  by (rule triple_conseq) (auto simp: held_def)

lemma quiet_held: "quiet logged view m \<Longrightarrow> triple (held st) m (\<lambda>_. held st) (held st)"
  using quiet_both [where G = "\<lambda>_. True"] by simp

lemma replays_held: "held st s \<Longrightarrow> replays s"
  by (auto simp: replays_def)

text \<open>Publishing, with its retries.\<close>

definition copies :: "Envelope list \<Rightarrow> Envelope \<Rightarrow> (views \<Rightarrow> bool) \<Rightarrow> 's \<Rightarrow> bool" where
  "copies es e G s \<longleftrightarrow> (\<exists>n. logged s = es @ replicate n e) \<and> G (view s)"

definition some_copies :: "Envelope list \<Rightarrow> Envelope \<Rightarrow> (views \<Rightarrow> bool) \<Rightarrow> goerror + unit \<Rightarrow> 's \<Rightarrow> bool" where
  "some_copies es e G r s \<longleftrightarrow> (\<exists>n. logged s = es @ replicate n e \<and> (r = Inr () \<longrightarrow> 0 < n)) \<and> G (view s)"

lemma some_copies_copies: "some_copies es e G r s \<Longrightarrow> copies es e G s"
  by (auto simp: some_copies_def copies_def)

lemma publisher_copies:
  assumes "sendable e" and "RunID e = jc_RunID journal" and "closed G"
  shows "triple (copies es e G) (jc_Publisher journal ctx e) (some_copies es e G) (copies es e G)"
proof -
  have a: "some_copies es e G (case x of Done r \<Rightarrow> r | _ \<Rightarrow> Inl (Errorf [])) s'"
    if run: "jc_Publisher journal ctx e s = (x, s')" and cs: "copies es e G s" for s x s'
  proof -
    obtain n where n: "logged s = es @ replicate n e" "G (view s)" using cs by (auto simp: copies_def)
    have "all_calm (view s) (view (snd (jc_Publisher journal ctx e s)))
        \<and> (\<exists>n. logged (snd (jc_Publisher journal ctx e s)) = logged s @ replicate n e
             \<and> (fst (jc_Publisher journal ctx e s) = Done (Inr ()) \<longrightarrow> 0 < n))"
      using publisher [OF assms(1,2)] unfolding appends_def by (rule spec)
    then obtain k where k: "all_calm (view s) (view s')" "logged s' = logged s @ replicate k e" "x = Done (Inr ()) \<longrightarrow> 0 < k"
      using run by auto
    have "logged s' = es @ replicate (n + k) e" using n(1) k(2) by (simp add: replicate_add)
    moreover have "G (view s')" using assms(3) k(1) n(2) by (auto simp: closed_def)
    ultimately show ?thesis using k(3) by (cases x) (auto simp: some_copies_def intro!: exI [of _ "n + k"])
  qed
  show ?thesis
    using a by (intro tripleI) (force dest: some_copies_copies)+
qed

lemma publish_loop_triple:
  assumes "sendable e" and "RunID e = jc_RunID journal" and "closed G"
  shows "triple (copies es e G) (publish_loop l ctx e left backoff) (some_copies es e G) (copies es e G)"
proof (induction left arbitrary: backoff)
  case 0
  show ?case using publisher_copies [OF assms] by simp
next
  case (Suc left)
  have sleep: "triple (copies es e G) (rt_Sleep (lp_rt l) ctx backoff) (\<lambda>_. copies es e G) (copies es e G)"
    using quiet_triple [OF quiet_Sleep assms(3), of "\<lambda>x. \<exists>n. x = es @ replicate n e"]
    by (simp add: copies_def [abs_def])
  have retry: "triple (copies es e G) (pbind (rt_Sleep (lp_rt l) ctx backoff) (\<lambda>slept. case slept of
        Inl ctxErr \<Rightarrow> preturn (Inl ctxErr)
      | Inr _ \<Rightarrow> publish_loop l ctx e left (if publishMaxBackoff < backoff * 2 then publishMaxBackoff else backoff * 2)))
      (some_copies es e G) (copies es e G)"
    by (rule triple_bind [OF sleep], rule triple_sum, rule triple_return, simp add: copies_def some_copies_def, rule Suc.IH)
  show ?case
    unfolding publish_loop.simps
    by (rule triple_bind [OF publisher_copies [OF assms]], rule triple_sum,
        rule triple_pre [OF retry], erule some_copies_copies, rule triple_return) simp
qed

lemma map_sum_InlE: "map_sum id f x = Inl e \<Longrightarrow> (x = Inl e \<Longrightarrow> thesis) \<Longrightarrow> thesis"
  by (cases x) auto

lemma Digest_error:
  assumes "RunState_Digest (lp_num l) (lp_sdk l) st = Inl err" shows "\<not> resumable err"
proof -
  have n: "normalize_calls num tcs = Inl e \<Longrightarrow> \<not> resumable e" for num tcs e
    by (induction tcs arbitrary: e)
      (auto simp: normalizeToolCall_def unmarshal_any_def resumable_def split: option.splits sum.splits
        elim: map_sum_InlE)
  have f: "normalize_in_flight num t = Inl e \<Longrightarrow> \<not> resumable e" for num t e
    by (auto simp: normalize_in_flight_def normalizeToolCall_def unmarshal_any_def resumable_def
        split: option.splits sum.splits)
  have c: "canonicalize num (lp_sdk l) v = Inl e \<Longrightarrow> \<not> resumable e" for num v e
    using sdk_foreign
    by (auto simp: canonicalize_def enc_digestView_def unmarshal_any_def resumable_def foreign_def
        split: option.splits sum.splits if_splits)
  show ?thesis
    using assms n f c
    by (auto simp: RunState_Digest_def Messages_def Let_def resumable_def split: sum.splits)
qed

text \<open>
  Publishing a payload that the fold accepts: on success the loop holds what the journal folds to. \<open>G\<close> is
  what the caller knows of the world; the state after the event must be tied to it too.
\<close>

definition published :: "RunState \<Rightarrow> (RunState \<Rightarrow> bool) \<Rightarrow> 's \<Rightarrow> bool" where
  "published st Q s \<longleftrightarrow> (\<exists>st'. held st' s \<and> (st' = st \<or> Q st'))"

definition accepted :: "RunState \<Rightarrow> Envelope \<Rightarrow> (views \<Rightarrow> bool) \<Rightarrow> (RunState \<Rightarrow> bool) \<Rightarrow> bool" where
  "accepted st e G Q \<longleftrightarrow> (\<exists>st'. Apply (lp_blocks l) st e = Inr st' \<and> s_RunID st' = jc_RunID journal \<and> Q st'
     \<and> (\<forall>V. ties st V \<longrightarrow> G V \<longrightarrow> (\<forall>k. OccurredAt e \<le> fv_clock (V k)) \<longrightarrow> ties st' V))"

lemma publishing_triple:
  assumes "sendable env" and "RunID env = jc_RunID journal" and "closed G"
    and st': "Apply (lp_blocks l) st env = Inr st'" "s_RunID st' = jc_RunID journal" "Q st'"
    and ties': "\<And>V. ties st V \<Longrightarrow> G V \<Longrightarrow> ties st' V"
  shows "triple (\<lambda>s. held st s \<and> G (view s)) (publishWithRetry l ctx env)
        (\<lambda>r s. case r of Inl _ \<Rightarrow> published st Q s | Inr _ \<Rightarrow> held st' s) (published st Q)"
proof -
  let ?G = "\<lambda>V. ties st V \<and> G V"
  have G: "closed ?G" by (rule closed_conj [OF closed_tied assms(3)])
  have one: "triple (\<lambda>s. logged s = es \<and> held st s \<and> G (view s)) (publishWithRetry l ctx env)
      (\<lambda>r s. case r of Inl _ \<Rightarrow> published st Q s | Inr _ \<Rightarrow> held st' s) (published st Q)" for es
  proof (rule triple_fact [where F = "fold_loop (lp_blocks l) RunState_zero es = Inr st
      \<and> (isEmpty st \<or> s_RunID st = jc_RunID journal)"], force simp: held_def)
    assume f: "fold_loop (lp_blocks l) RunState_zero es = Inr st \<and> (isEmpty st \<or> s_RunID st = jc_RunID journal)"
    have c: "held (if n = 0 then st else st') s" if "logged s = es @ replicate n env" "?G (view s)" for n s
      using that f fold_loop_replicate [OF st'(1), of n] st'(2) ties' by (simp add: held_def fold_loop_append)
    have p: "published st Q s" if cs: "copies es env ?G s" for s
    proof -
      obtain n where "logged s = es @ replicate n env" "?G (view s)" using cs by (auto simp: copies_def)
      from c [OF this] st'(3) show ?thesis unfolding published_def by (cases "n = 0") auto
    qed
    show "triple (\<lambda>s. logged s = es \<and> held st s \<and> G (view s)) (publishWithRetry l ctx env)
      (\<lambda>r s. case r of Inl _ \<Rightarrow> published st Q s | Inr _ \<Rightarrow> held st' s) (published st Q)"
      unfolding publishWithRetry_def
    proof (rule triple_conseq [OF publish_loop_triple [OF assms(1,2) G]])
      show "logged s = es \<and> held st s \<and> G (view s) \<Longrightarrow> copies es env ?G s" for s
        by (auto simp: copies_def held_def intro: exI [of _ 0])
      show "case r of Inl _ \<Rightarrow> published st Q s | Inr _ \<Rightarrow> held st' s" if sc: "some_copies es env ?G r s" for r s
      proof (cases r)
        case (Inl err)
        then show ?thesis using p [OF some_copies_copies [OF sc]] by simp
      next
        case (Inr u)
        then obtain n where "logged s = es @ replicate n env" "0 < n" "?G (view s)"
          using sc by (auto simp: some_copies_def)
        with c [of s n] Inr show ?thesis by simp
      qed
    qed (rule p)
  qed
  show ?thesis
    by (rule triple_pre [OF triple_ex [of "\<lambda>es s. logged s = es \<and> held st s \<and> G (view s)", OF one]]) simp
qed

lemma publishApplyPrint_triple:
  assumes G: "closed G"
    and acc: "\<And>e. event_of st p e \<Longrightarrow> RunID e = jc_RunID journal \<Longrightarrow> accepted st e G Q"
  shows "triple (\<lambda>s. held st s \<and> G (view s)) (publishApplyPrint l ctx st p)
     (\<lambda>r s. case r of Inr st' \<Rightarrow> held st' s \<and> Q st' | Inl err \<Rightarrow> \<not> resumable err \<and> published st Q s)
     (published st Q)"
proof (rule triple_fact [where F = "(isEmpty st \<or> s_RunID st = jc_RunID journal) \<and> in64 (s_NextSequence st)"])
  show "held st s \<and> G (view s) \<Longrightarrow> (isEmpty st \<or> s_RunID st = jc_RunID journal) \<and> in64 (s_NextSequence st)" for s
    using held_facts [of st s] by (auto simp: held_def wf_run_def wf_seen_def)
next
  assume id: "(isEmpty st \<or> s_RunID st = jc_RunID journal) \<and> in64 (s_NextSequence st)"
  let ?Q = "\<lambda>r s. case r of Inr st' \<Rightarrow> held st' s \<and> Q st' | Inl err \<Rightarrow> \<not> resumable err \<and> published st Q s"
  let ?at = "\<lambda>t V. \<forall>k. t \<le> fv_clock (V k)"
  have cat: "closed (?at t)" for t
    by (auto simp: closed_def all_calm_def calm_def later_def) (blast intro: order_trans)
  have now: "triple (\<lambda>s. held st s \<and> G (view s)) (rt_Now (lp_rt l))
      (\<lambda>now s. held st s \<and> G (view s) \<and> ?at now (view s)) (published st Q)"
  proof (rule tripleI)
    note q = quiet_both [OF quiet_Now G]
    show "held st s \<and> G (view s) \<Longrightarrow> rt_Now (lp_rt l) s = (Done t, s') \<Longrightarrow> held st s' \<and> G (view s') \<and> ?at t (view s')" for s t s'
      using triple_DoneD [OF q] Now_value by blast
    show "held st s \<and> G (view s) \<Longrightarrow> rt_Now (lp_rt l) s = (Halt n, s') \<Longrightarrow> published st Q s'" for s n s'
      using triple_HaltD [OF q, where s = s and s' = s' and c = n] unfolding published_def by blast
    show "held st s \<and> G (view s) \<Longrightarrow> rt_Now (lp_rt l) s = (OutOfFuel, s') \<Longrightarrow> published st Q s'" for s s'
      using triple_FuelD [OF q, where s = s and s' = s'] unfolding published_def by blast
  qed
  have uuid: "triple (\<lambda>s. held st s \<and> G (view s) \<and> ?at now (view s)) (rt_UUID (lp_rt l))
      (\<lambda>_ s. held st s \<and> G (view s) \<and> ?at now (view s)) (published st Q)" for now
    by (rule triple_conseq [OF quiet_both [OF quiet_UUID closed_conj [OF G cat]]]) (auto simp: published_def)
  have env: "triple (\<lambda>s. held st s \<and> G (view s) \<and> ?at now (view s)) (pbind (publishWithRetry l ctx env) (\<lambda>r. case r of
         Inl err \<Rightarrow> preturn (Inl (Errorw (''publishing '' @ at_seq p env @ '': '')
           (Errorws ErrPublishFailed ('': '' @ err_msg err))))
       | Inr _ \<Rightarrow> (case Apply (lp_blocks l) st env of
           Inl err \<Rightarrow> preturn (Inl (Errorw (''applying '' @ at_seq p env @ '' to state: '') err))
         | Inr new \<Rightarrow>
           if jc_CrashAfterSeq journal \<noteq> noCrashInjection
             \<and> SequenceNumber env = jc_CrashAfterSeq journal then phalt 137
           else (case RunState_Digest (lp_num l) (lp_sdk l) new of
             Inl err \<Rightarrow> preturn (Inl (Errorw (''computing digest after '' @ at_seq p env @ '': '') err))
           | Inr digest \<Rightarrow> pbind (lp_out l (log_line env new digest)) (\<lambda>_. preturn (Inr new)))))) ?Q (published st Q)"
    if e: "event_of st p env" "RunID env = jc_RunID journal" "OccurredAt env \<le> now" for env now
  proof -
    obtain st' where st': "Apply (lp_blocks l) st env = Inr st'" "s_RunID st' = jc_RunID journal" "Q st'"
      and t': "\<And>V. ties st V \<Longrightarrow> G V \<Longrightarrow> (\<forall>k. OccurredAt env \<le> fv_clock (V k)) \<Longrightarrow> ties st' V"
      using acc [OF e(1,2)] unfolding accepted_def by blast
    have snd: "sendable env" using e(1) id by (simp add: sendable_def event_of_def)
    have t'': "ties st V \<Longrightarrow> G V \<and> ?at now V \<Longrightarrow> ties st' V" for V
      using t' e(3) order_trans by blast
    have pub: "triple (\<lambda>s. held st s \<and> (G (view s) \<and> ?at now (view s))) (publishWithRetry l ctx env)
        (\<lambda>r s. case r of Inl _ \<Rightarrow> published st Q s | Inr _ \<Rightarrow> held st' s) (published st Q)"
      by (rule publishing_triple [where G = "\<lambda>V. G V \<and> ?at now V" and Q = Q, OF snd e(2) closed_conj [OF G cat] st'])
        (rule t'')
    have out: "triple (held st') (lp_out l t) (\<lambda>_. held st') (published st Q)" for t
      by (rule triple_conseq [OF quiet_held [OF quiet_out]]) (use st'(3) in \<open>auto simp: published_def\<close>)
    have p': "held st' s \<Longrightarrow> published st Q s" for s using st'(3) by (auto simp: published_def)
    show ?thesis
      unfolding st'(1) sum.case
    proof (rule triple_bind [OF pub], rule triple_sum)
      fix r :: "goerror + unit" and err assume "r = Inl err"
      then show "triple (\<lambda>s. case r of Inl _ \<Rightarrow> published st Q s | Inr _ \<Rightarrow> held st' s)
         (preturn (Inl (Errorw (''publishing '' @ at_seq p env @ '': '') (Errorws ErrPublishFailed ('': '' @ err_msg err)))))
         ?Q (published st Q)"
        by (intro triple_return) (simp add: resumable_def ErrPublishFailed_def)
    next
      fix r :: "goerror + unit" and u assume r: "r = Inr u"
      show "triple (\<lambda>s. case r of Inl _ \<Rightarrow> published st Q s | Inr _ \<Rightarrow> held st' s)
        (if jc_CrashAfterSeq journal \<noteq> noCrashInjection \<and> SequenceNumber env = jc_CrashAfterSeq journal then phalt 137
         else case RunState_Digest (lp_num l) (lp_sdk l) st' of
             Inl err \<Rightarrow> preturn (Inl (Errorw (''computing digest after '' @ at_seq p env @ '': '') err))
           | Inr digest \<Rightarrow> pbind (lp_out l (log_line env st' digest)) (\<lambda>_. preturn (Inr st'))) ?Q (published st Q)"
        unfolding r sum.case
        by (intro triple_if triple_sum triple_halt triple_return triple_bind [OF out] p')
          (auto simp: st'(3) p' resumable_def dest: Digest_error)
    qed
  qed
  show "triple (\<lambda>s. held st s \<and> G (view s)) (publishApplyPrint l ctx st p) ?Q (published st Q)"
    unfolding publishApplyPrint_def
    by (rule triple_bind [OF now], rule triple_bind [OF uuid])
      (unfold NewEnvelope_def sum.case Let_def, rule env,
        use id truncate_us_le in \<open>auto simp: event_of_def split: Payload.splits\<close>)
qed

text \<open>The five payloads the loop journals, from a run that has room for them.\<close>

definition live :: "RunState \<Rightarrow> bool" where
  "live st \<longleftrightarrow> going st \<and> step_zero st \<and> s_RunID st = jc_RunID journal"

lemma held_live: "held st s \<Longrightarrow> \<not> isEmpty st \<Longrightarrow> room k st \<Longrightarrow> live st"
  using held_going held_facts by (auto simp: live_def held_def)

lemma live_going: "live st \<Longrightarrow> going st"
  by (simp add: live_def)

lemma quiet_step: "quiet logged view m \<Longrightarrow> triple (held st) m (\<lambda>_. held st) replays"
  by (rule triple_conseq [OF quiet_held]) (auto simp: replays_def)

lemma published_replays: "published st Q s \<Longrightarrow> replays s"
  by (auto simp: published_def replays_def)

definition journaled :: "(RunState \<Rightarrow> bool) \<Rightarrow> goerror + RunState \<Rightarrow> 's \<Rightarrow> bool" where
  "journaled Q r s \<longleftrightarrow> (case r of Inr st' \<Rightarrow> held st' s \<and> Q st' | Inl err \<Rightarrow> \<not> resumable err \<and> replays s)"

lemma journal_payload:
  assumes "closed G" and "\<And>e. event_of st p e \<Longrightarrow> RunID e = jc_RunID journal \<Longrightarrow> accepted st e G Q"
  shows "triple (\<lambda>s. held st s \<and> G (view s)) (publishApplyPrint l ctx st p) (journaled Q) replays"
  by (rule triple_conseq [OF publishApplyPrint_triple [OF assms]])
    (auto simp: journaled_def published_replays split: sum.splits)

lemma journal_plain:
  assumes "\<And>e. event_of st p e \<Longrightarrow> RunID e = jc_RunID journal \<Longrightarrow> accepted st e (\<lambda>_. True) Q"
  shows "triple (held st) (publishApplyPrint l ctx st p) (journaled Q) replays"
  using journal_payload [OF closed_True assms] by simp

lemma live_step: "live st \<Longrightarrow> in64 (s_CurrentStep st)"
  by (simp add: live_def step_zero_def)

lemma publish_failed:
  assumes "live st" and "\<not> isTerminalStatus (s_Status st)" and "rf_Step f = s_CurrentStep st"
  shows "triple (held st) (publishApplyPrint l ctx st (PRunFailed f))
    (journaled (\<lambda>st'. s_Status st' = StatusFailed \<and> s_Failure st' = Some f \<and> s_CurrentStep st' = s_CurrentStep st)) replays"
proof (rule journal_plain)
  fix e assume "event_of st (PRunFailed f) e"
  from journal_failed [where blocks = "lp_blocks l", OF live_going [OF assms(1)] assms(2) this] assms(1,3) live_step [OF assms(1)]
  show "accepted st e (\<lambda>_. True) (\<lambda>st'. s_Status st' = StatusFailed \<and> s_Failure st' = Some f \<and> s_CurrentStep st' = s_CurrentStep st)"
    unfolding accepted_def live_def by (auto intro: tied_same)
qed

lemma publish_completed:
  assumes "live st" and "\<not> isTerminalStatus (s_Status st)" and "rc_TotalSteps c = s_CurrentStep st"
  shows "triple (held st) (publishApplyPrint l ctx st (PRunCompleted c))
    (journaled (\<lambda>st'. s_Status st' = StatusCompleted \<and> s_FinalOutput st' = rc_FinalOutput c
       \<and> s_CurrentStep st' = s_CurrentStep st)) replays"
proof (rule journal_plain)
  fix e assume "event_of st (PRunCompleted c) e"
  from journal_completed [where blocks = "lp_blocks l", OF live_going [OF assms(1)] assms(2) this] assms(1,3) live_step [OF assms(1)]
  show "accepted st e (\<lambda>_. True) (\<lambda>st'. s_Status st' = StatusCompleted \<and> s_FinalOutput st' = rc_FinalOutput c
       \<and> s_CurrentStep st' = s_CurrentStep st)"
    unfolding accepted_def live_def by (auto intro: tied_same)
qed

definition moved :: "RunState \<Rightarrow> nat \<Rightarrow> RunState \<Rightarrow> bool" where
  "moved st k st' \<longleftrightarrow> \<not> isEmpty st' \<and> rounds_left b st' < rounds_left b st \<and> length (s_seen st') \<le> length (s_seen st) + k"

lemma nonempty_seen: "length (s_seen st') = Suc n \<Longrightarrow> \<not> isEmpty st'"
  by (auto simp: isEmpty_def)

lemma publish_response:
  assumes "live st" and "s_NextAction st = ActionCallLLM" and "lr_Step q = wrap64 (s_CurrentStep st + 1)"
    and "lr_Content q = Some d" and "lp_blocks l (Some d) = Inr c" and "length (tool_use_ids c) \<le> b"
  shows "triple (held st) (publishApplyPrint l ctx st (PLLMResponded q)) (journaled (moved st 1)) replays"
proof (rule journal_plain)
  fix e assume "event_of st (PLLMResponded q) e"
  from journal_response [where blocks = "lp_blocks l" and s = st, OF _ _ assms(2) this assms(3,4,5)] assms(1)
  obtain st' where st': "Apply (lp_blocks l) st e = Inr st'" "calls_left st' < calls_left st"
      "open_uses st' \<le> length (tool_use_ids c)" "s_RunID st' = s_RunID st" "length (s_seen st') = Suc (length (s_seen st))"
      "s_CurrentStep st' = s_CurrentStep st + 1" "\<exists>step. s_steps st' = s_steps st @ [step] \<and> sr_invoked step = []"
    by (auto simp: live_def)
  have "moved st 1 st'"
    using st' assms(6) by (auto simp: moved_def nonempty_seen intro: rounds_left_call [OF _ le_trans])
  with st' assms(1) show "accepted st e (\<lambda>_. True) (moved st 1)"
    unfolding accepted_def live_def by (auto intro: tied_response)
qed

text \<open>The world as the call in flight knows it: a side effect's result is the truth.\<close>

abbreviation call_key :: "RunState \<Rightarrow> ToolCall \<Rightarrow> string" where
  "call_key st call \<equiv> Key (jc_RunID journal) (s_CurrentStep st) (tc_ToolUseID call)"

definition vouched :: "RunState \<Rightarrow> ToolCall \<Rightarrow> string \<Rightarrow> views \<Rightarrow> bool" where
  "vouched st call status V \<longleftrightarrow> (tc_HasSideEffect call \<longrightarrow> told status (V (call_key st call)))"

lemma closed_vouched: "closed (vouched st call status)"
proof -
  have "closed (\<lambda>V. told status (V (call_key st call)))" by (rule closed_stable [OF stable_told])
  then show ?thesis unfolding closed_def vouched_def by blast
qed

lemma publish_resulted:
  assumes "live st" and "s_NextAction st = ActionResolveInFlightTool" and "s_InFlightTool st = Some call"
    and "tr_Step q = s_CurrentStep st" and "tr_ToolUseID q = tc_ToolUseID call"
  shows "triple (\<lambda>s. held st s \<and> vouched st call (tr_Status q) (view s)) (publishApplyPrint l ctx st (PToolResulted q))
    (journaled (moved st 1)) replays"
proof (rule journal_payload [OF closed_vouched])
  fix e assume "event_of st (PToolResulted q) e"
  from journal_resulted [where blocks = "lp_blocks l" and s = st, OF live_going [OF assms(1)] assms(2,3) this _ assms(5)]
  obtain st' where st': "Apply (lp_blocks l) st e = Inr st'" "calls_left st' = calls_left st" "open_uses st' < open_uses st"
      "s_RunID st' = s_RunID st" "length (s_seen st') = Suc (length (s_seen st))" "s_CurrentStep st' = s_CurrentStep st"
      "s_steps st' = butlast (s_steps st) @ [with_result (last (s_steps st)) (tc_ToolUseID call) q]"
    using live_step [OF assms(1)] assms(4) by auto
  have "moved st 1 st'" using st'(2,3,5) by (auto simp: moved_def nonempty_seen intro: rounds_left_tool)
  moreover have "ties st' V" if "ties st V" "vouched st call (tr_Status q) V" for V
    by (rule tied_resulted [OF that(1) live_going [OF assms(1)] assms(3) st'(6,7)])
      (use that(2) in \<open>simp add: vouched_def\<close>)
  ultimately show "accepted st e (vouched st call (tr_Status q)) (moved st 1)"
    using st'(1,4) assms(1) unfolding accepted_def live_def by auto
qed

text \<open>The state after an invocation is journaled: the call is in flight, nothing else has moved.\<close>

definition invoked_from :: "RunState \<Rightarrow> ToolCall \<Rightarrow> ToolInvokedPayload \<Rightarrow> RunState \<Rightarrow> bool" where
  "invoked_from st call q st' \<longleftrightarrow> s_NextAction st' = ActionResolveInFlightTool
    \<and> (\<exists>t. s_InFlightTool st' = Some (call\<lparr>tc_HasSideEffect := ti_HasSideEffect q,
         tc_IdempotencyKey := ti_IdempotencyKey q, tc_InvokedAt := t\<rparr>))
    \<and> calls_left st' = calls_left st \<and> open_uses st' = open_uses st \<and> \<not> isEmpty st'
    \<and> length (s_seen st') = Suc (length (s_seen st))"

lemma pending_call:
  assumes "live st" and "s_NextAction st = ActionExecuteTool" and "s_PendingToolCalls st = call # rest"
  shows "s_steps st \<noteq> []" and "tc_ToolUseID call \<notin> set (sr_invokedOrder (last (s_steps st)))"
    and "toolCallFromContent (sr_content (last (s_steps st))) (tc_ToolUseID call) = Some call"
proof -
  note g = live_going [OF assms(1)]
  show ne: "s_steps st \<noteq> []" using steps_nonempty [OF g] assms(2) by simp
  show "tc_ToolUseID call \<notin> set (sr_invokedOrder (last (s_steps st)))"
    using going_next_action(2) [OF g assms(2)] assms(3) by auto
  have "pending_in (last (s_steps st)) (sr_order (last (s_steps st))) = call # rest"
    using going_derived [OF g] ne assms(3) by (simp add: derived_def pending_of_def)
  from pending_in_hd [OF this]
  show "toolCallFromContent (sr_content (last (s_steps st))) (tc_ToolUseID call) = Some call" .
qed

lemma publish_invoked:
  assumes "live st" and "s_NextAction st = ActionExecuteTool" and "s_PendingToolCalls st = call # rest"
    and "ti_Step q = s_CurrentStep st" and "ti_ToolUseID q = tc_ToolUseID call"
    and "ti_HasSideEffect q = effectful (lp_registry l) (tc_ToolName call)"
    and "ti_IdempotencyKey q = (if ti_HasSideEffect q then Some (call_key st call) else None)"
  shows "triple (held st) (publishApplyPrint l ctx st (PToolInvoked q)) (journaled (invoked_from st call q)) replays"
proof (rule journal_plain)
  note p = pending_call [OF assms(1-3)]
  fix e assume "event_of st (PToolInvoked q) e"
  from journal_invoked [where blocks = "lp_blocks l" and s = st, OF live_going [OF assms(1)] assms(2,3) this _ assms(5)]
  obtain st' where st': "Apply (lp_blocks l) st e = Inr st'" "s_RunID st' = s_RunID st" "s_CurrentStep st' = s_CurrentStep st"
      "s_steps st' = butlast (s_steps st) @ [with_invocation (last (s_steps st)) (tc_ToolUseID call)
         \<lparr>in_hasSideEffect = ti_HasSideEffect q, in_idempotencyKey = ti_IdempotencyKey q, in_invokedAt = OccurredAt e\<rparr>]"
      and i: "invoked_from st call q st'"
    using live_step [OF assms(1)] assms(4) by (fastforce simp: invoked_from_def nonempty_seen)
  have "ties st' V" if "ties st V" "\<forall>k. OccurredAt e \<le> fv_clock (V k)" for V
    by (rule tied_invoked [OF that(1) live_going [OF assms(1)] p(1) st'(3,4) p(2)])
      (use p(3) assms(6,7) that(2) in auto)
  with st' i assms(1) show "accepted st e (\<lambda>_. True) (invoked_from st call q)"
    unfolding accepted_def live_def by auto
qed

text \<open>What a round may leave behind.\<close>

definition round_post :: "RunState \<Rightarrow> nat \<Rightarrow> goerror + step_result \<Rightarrow> 's \<Rightarrow> bool" where
  "round_post st k r s \<longleftrightarrow> (case r of
     Inl err \<Rightarrow> \<exists>st'. held st' s \<and> (resumable err \<longrightarrow> \<not> isTerminalStatus (s_Status st'))
   | Inr (st', None) \<Rightarrow> held st' s \<and> moved st k st'
   | Inr (st', Some oc) \<Rightarrow> held st' s \<and> verdict st' oc)"

lemma failRun_triple:
  assumes "live st" and "\<not> isTerminalStatus (s_Status st)"
    and "cls \<notin> {''max_steps_exceeded'', ''llm_output_truncated''}"
  shows "triple (held st) (failRun l ctx st cls msg) (round_post st k) replays"
  unfolding failRun_def
  by (rule triple_bindE [OF publish_failed [OF assms(1,2)]])
    (use assms(3) in \<open>auto simp: journaled_def round_post_def replays_def verdict_def RunOutcome_zero_def
      intro!: triple_return\<close>)

lemma journalToolResult_triple:
  assumes "live st" and "s_NextAction st = ActionResolveInFlightTool" and "s_InFlightTool st = Some call"
  shows "triple (\<lambda>s. held st s \<and> vouched st call (oc_Status oc) (view s)) (journalToolResult l ctx st call oc)
    (round_post st 1) replays"
proof -
  let ?q = "\<lparr>tr_Step = s_CurrentStep st, tr_ToolUseID = tc_ToolUseID call, tr_ToolName = tc_ToolName call,
        tr_Result = oc_Result oc, tr_Status = oc_Status oc,
        tr_WasReplayedFromCache = (oc_Resolution oc = ResolutionCached), tr_Resolution = oc_Resolution oc\<rparr>"
  have "triple (\<lambda>s. held st s \<and> vouched st call (oc_Status oc) (view s)) (publishApplyPrint l ctx st (PToolResulted ?q))
      (journaled (moved st 1)) replays"
    using publish_resulted [OF assms, of ?q] by simp
  then show ?thesis
    unfolding journalToolResult_def
    by (rule triple_bindE) (auto simp: journaled_def round_post_def replays_def intro!: triple_return)
qed

text \<open>The tool steps.\<close>

lemma executeUnfenced_triple:
  assumes "live st" and "s_NextAction st = ActionResolveInFlightTool" and "s_InFlightTool st = Some call"
    and "found = Lookup (lp_registry l) (tc_ToolName call)" and "\<not> tc_HasSideEffect call"
  shows "triple (held st) (executeUnfenced l ctx st call invo found) (round_post st 1) replays"
proof (rule triple_fact [where F = "\<not> effectful (lp_registry l) (tc_ToolName call)"])
  show "held st s \<Longrightarrow> \<not> effectful (lp_registry l) (tc_ToolName call)" for s
    using tied_in_flight(1) [OF held_ties live_going [OF assms(1)] assms(3)] assms(5) by blast
next
  assume ne: "\<not> effectful (lp_registry l) (tc_ToolName call)"
  have q: "quiet logged view (case found of
         None \<Rightarrow> preturn (''error: unknown tool '' @ go_quote (tc_ToolName call), ''error'')
       | Some tool \<Rightarrow> pbind (t_Execute tool ctx invo (tc_ToolArgs call)) (\<lambda>r. preturn (case r of
           Inl execErr \<Rightarrow> (''error: '' @ err_msg execErr, ''error'')
         | Inr result \<Rightarrow> (result, ''success''))))"
    using quiet_tool [of "tc_ToolName call"] ne assms(4)
    by (auto intro!: quiet_bind simp: effectful_def split: option.splits)
  show "triple (held st) (executeUnfenced l ctx st call invo found) (round_post st 1) replays"
    unfolding executeUnfenced_def
    by (rule triple_bind [OF quiet_step [OF q]], split prod.split, intro allI impI)
      (rule triple_pre [OF journalToolResult_triple [OF assms(1-3)]], simp add: vouched_def assms(5))
qed

lemma executeFenced_triple:
  assumes "live st" and "s_NextAction st = ActionResolveInFlightTool" and "s_InFlightTool st = Some call"
    and "lp_fence l = Some f" and "Lookup (lp_registry l) (tc_ToolName call) = Some tool" and "tc_HasSideEffect call"
    and "invo = call_invocation l st call"
  shows "triple (held st) (executeFenced l ctx st call invo tool f) (round_post st 1) replays"
proof -
  note g = live_going [OF assms(1)]
  have run: "\<not> isTerminalStatus (s_Status st)"
    using going_next_action(3) [OF g assms(2)] by auto
  have stop: "triple (held st) (preturn (Inl err)) (round_post st 1) replays" for err
    using run by (intro triple_return) (auto simp: round_post_def)
  have ran: "held st s' \<and> (\<forall>oc. x = Done (Inr oc) \<longrightarrow> vouched st call (oc_Status oc) (view s'))"
    if s: "held st s" "f ctx invo call tool s = (x, s')" for s x s'
  proof -
    note t = tied_in_flight [OF held_ties [OF s(1)] g assms(3)]
    have side: "t_HasSideEffect tool" using t(1) assms(5,6) by (simp add: effectful_def)
    have key: "iv_IdempotencyKey invo = Some (call_key st call)" "in64 (iv_Step invo)"
      using t(2) assms(6,7) live_step [OF assms(1)] by (simp_all add: call_invocation_def)
    have safe: "safe ttl (tc_InvokedAt call) (view s (call_key st call))" using t(2) assms(6) by blast
    note fe = fence [OF assms(4,5) side key s(2) safe]
    have "ties st (view s')"
      using fe by (intro tied_after_fence [OF held_ties [OF s(1)] g assms(3,6)]) auto
    with s(1) fe show ?thesis by (auto simp: held_def vouched_def)
  qed
  have run_fence: "triple (held st) (f ctx invo call tool)
      (\<lambda>r s. held st s \<and> (\<forall>oc. r = Inr oc \<longrightarrow> vouched st call (oc_Status oc) (view s))) replays"
    using ran by (intro tripleI) (blast intro: replays_held)+
  show ?thesis
    unfolding executeFenced_def
  proof (rule triple_bind [OF run_fence], rule triple_sum)
    fix r :: "goerror + Outcome" and err assume "r = Inl err"
    have "triple (held st) (if errors_Is err SUnresolvable then failRun l ctx st ''unresolved_side_effect'' (err_msg err)
         else if errors_Is err SRecordMismatch then failRun l ctx st ''idempotency_record_mismatch'' (err_msg err)
         else preturn (Inl (Errorw (''running side-effecting tool '' @ go_quote (tc_ToolName call) @ '': '') err)))
         (round_post st 1) replays"
      by (intro triple_if failRun_triple [OF assms(1) run] stop) simp_all
    then show "triple (\<lambda>s. held st s \<and> (\<forall>oc. r = Inr oc \<longrightarrow> vouched st call (oc_Status oc) (view s)))
       (if errors_Is err SUnresolvable then failRun l ctx st ''unresolved_side_effect'' (err_msg err)
         else if errors_Is err SRecordMismatch then failRun l ctx st ''idempotency_record_mismatch'' (err_msg err)
         else preturn (Inl (Errorw (''running side-effecting tool '' @ go_quote (tc_ToolName call) @ '': '') err)))
       (round_post st 1) replays"
      by (rule triple_pre) simp
  next
    fix r :: "goerror + Outcome" and oc assume "r = Inr oc"
    then show "triple (\<lambda>s. held st s \<and> (\<forall>oc. r = Inr oc \<longrightarrow> vouched st call (oc_Status oc) (view s)))
        (journalToolResult l ctx st call oc) (round_post st 1) replays"
      by (intro triple_pre [OF journalToolResult_triple [OF assms(1-3)]]) simp
  qed
qed

lemma runInFlightTool_triple:
  assumes "live st" and "s_NextAction st = ActionResolveInFlightTool"
  shows "triple (held st) (runInFlightTool l ctx st) (round_post st 1) replays"
proof -
  obtain call where call: "s_InFlightTool st = Some call" and run: "\<not> isTerminalStatus (s_Status st)"
    using going_next_action(3) [OF _ assms(2)] assms(1) by (auto simp: live_def)
  have stop: "triple (held st) (preturn (Inl err)) (round_post st 1) replays" for err
    using run by (intro triple_return) (auto simp: round_post_def)
  note f = failRun_triple [OF assms(1) run]
  show ?thesis
    unfolding runInFlightTool_def call option.case Let_def
    by (intro triple_if triple_option executeUnfenced_triple [OF assms call]
        executeFenced_triple [OF assms call] stop f) simp_all
qed

lemma moved_later:
  assumes "invoked_from st call q st1" and "moved st1 1 st2" shows "moved st 2 st2"
  using assms by (auto simp: invoked_from_def moved_def rounds_left_def)

lemma invokeToolAndJournal_triple:
  assumes "live st" and "room 2 st" and "s_NextAction st = ActionExecuteTool"
  shows "triple (held st) (invokeToolAndJournal l ctx st) (round_post st 2) replays"
proof -
  obtain call rest where call: "s_PendingToolCalls st = call # rest"
    using going_next_action(2) [OF _ assms(3)] assms(1) by (auto simp: live_def)
  have go: "triple (journaled (invoked_from st call q) (Inr st1)) (runInFlightTool l ctx st1)
      (round_post st 2) replays" for st1 q
  proof (rule triple_fact [where F = "live st1 \<and> invoked_from st call q st1"])
    fix s assume "journaled (invoked_from st call q) (Inr st1) s"
    then show "live st1 \<and> invoked_from st call q st1"
      using assms(2) held_live [of st1 s 0] by (auto simp: journaled_def invoked_from_def room_def)
  next
    assume a: "live st1 \<and> invoked_from st call q st1"
    then have n: "s_NextAction st1 = ActionResolveInFlightTool" by (simp add: invoked_from_def)
    have post: "round_post st1 1 r s \<Longrightarrow> round_post st 2 r s" for r s
      using a moved_later by (auto simp: round_post_def split: sum.splits option.splits)
    from a show "triple (journaled (invoked_from st call q) (Inr st1)) (runInFlightTool l ctx st1)
      (round_post st 2) replays"
      by (intro triple_conseq [OF runInFlightTool_triple [OF _ n]] post) (auto simp: journaled_def)
  qed
  show ?thesis
    unfolding invokeToolAndJournal_def call list.case Let_def
    by (rule triple_bindE [OF publish_invoked [OF assms(1,3) call]])
      (auto simp: go journaled_def [of _ "Inl _"] round_post_def replays_def effectful_def)
qed

text \<open>The model step.\<close>

lemma callLLMAndJournal_triple:
  assumes "live st" and "s_NextAction st = ActionCallLLM"
  shows "triple (held st) (callLLMAndJournal l ctx st) (\<lambda>r. round_post st 1 (map_sum id (\<lambda>st'. (st', None)) r)) replays"
proof -
  let ?Q = "\<lambda>r. round_post st 1 (map_sum id (\<lambda>st'. (st', None)) r)"
  have run: "\<not> isTerminalStatus (s_Status st)"
    using going_next_action(1) [OF _ assms(2)] assms(1) by (auto simp: live_def)
  have stop: "triple (held st) (preturn (Inl err)) ?Q replays" for err
    using run by (intro triple_return) (auto simp: round_post_def)
  let ?ps = "\<lambda>messages. \<lparr>mp_Model = lp_model l, mp_MaxTokens = lp_maxTokens l, mp_System = systemPrompt,
         mp_Messages = messages, mp_Tools = Definitions (lp_registry l)\<rparr>"
  have llm: "triple (held st) (lp_llm l ctx ps) (\<lambda>r s. held st s \<and> (case r of
        Inl e \<Rightarrow> foreign (ll_err e)
      | Inr None \<Rightarrow> True
      | Inr (Some resp) \<Rightarrow> \<forall>docs. those (msg_Content resp) = Some docs \<longrightarrow> (\<exists>c. lp_blocks l (Some (JArr docs)) = Inr c \<and> length (tool_use_ids c) \<le> b))) replays"
    for ps
  proof (rule tripleI)
    note h = quiet_held [OF quiet_llm]
    show "held st s \<Longrightarrow> lp_llm l ctx ps s = (Halt c, s') \<Longrightarrow> replays s'" for s c s'
      using triple_HaltD [OF h] replays_held by blast
    show "held st s \<Longrightarrow> lp_llm l ctx ps s = (OutOfFuel, s') \<Longrightarrow> replays s'" for s s'
      using triple_FuelD [OF h] replays_held by blast
    show "held st s \<Longrightarrow> lp_llm l ctx ps s = (Done r, s') \<Longrightarrow> held st s' \<and> (case r of
        Inl e \<Rightarrow> foreign (ll_err e) | Inr None \<Rightarrow> True
      | Inr (Some resp) \<Rightarrow> \<forall>docs. those (msg_Content resp) = Some docs \<longrightarrow> (\<exists>c. lp_blocks l (Some (JArr docs)) = Inr c \<and> length (tool_use_ids c) \<le> b))"
      for s r s'
      using triple_DoneD [OF h] llm_foreign [of ctx ps s _ s'] response [of ctx ps s _ s']
      by (auto split: sum.split option.split)
  qed
  have failing: "triple (\<lambda>s. held st s \<and> foreign (ll_err e)) (pbindE (publishApplyPrint l ctx st (PRunFailed \<lparr>rf_Step = s_CurrentStep st,
             rf_ErrorClass = ''llm_call_failed'', rf_ErrorMessage = err_msg (ll_err e),
             rf_Retryable = isRetryableLLMError e\<rparr>)) (\<lambda>_.
         preturn (Inl (Errorw pre (ll_err e))))) ?Q replays" for e pre
  proof (rule triple_fact [where F = "foreign (ll_err e)"], simp)
    assume fe: "foreign (ll_err e)"
    show "triple (\<lambda>s. held st s \<and> foreign (ll_err e)) (pbindE (publishApplyPrint l ctx st (PRunFailed \<lparr>rf_Step = s_CurrentStep st,
             rf_ErrorClass = ''llm_call_failed'', rf_ErrorMessage = err_msg (ll_err e),
             rf_Retryable = isRetryableLLMError e\<rparr>)) (\<lambda>_. preturn (Inl (Errorw pre (ll_err e))))) ?Q replays"
      by (rule triple_pre [OF triple_bindE [OF publish_failed [OF assms(1) run]]])
        (use fe in \<open>auto simp: journaled_def round_post_def replays_def foreign_def resumable_def intro!: triple_return\<close>)
  qed
  have responding: "triple (\<lambda>s. held st s \<and> (\<forall>docs. those (msg_Content resp) = Some docs \<longrightarrow> (\<exists>c. lp_blocks l (Some (JArr docs)) = Inr c \<and> length (tool_use_ids c) \<le> b)))
      (case marshalContentVerbatim (msg_Content resp) of
         Inl err \<Rightarrow> preturn (Inl (Errorw ''marshaling llm response content: '' err))
       | Inr contentJSON \<Rightarrow> publishApplyPrint l ctx st (PLLMResponded \<lparr>lr_Step = next_step st,
           lr_StopReason = msg_StopReason resp, lr_Content = contentJSON,
           lr_IsTerminal = (msg_StopReason resp \<noteq> StopReasonToolUse)\<rparr>)) ?Q replays" for resp
  proof (cases "those (msg_Content resp)")
    case None
    then have m: "marshalContentVerbatim (msg_Content resp) = Inl json_error" by (simp add: marshalContentVerbatim_def)
    show ?thesis unfolding m sum.case by (rule triple_pre [OF stop]) simp
  next
    case (Some docs)
    show ?thesis
    proof (rule triple_fact [where F = "\<exists>c. lp_blocks l (Some (JArr docs)) = Inr c \<and> length (tool_use_ids c) \<le> b"], use Some in simp)
      assume "\<exists>c. lp_blocks l (Some (JArr docs)) = Inr c \<and> length (tool_use_ids c) \<le> b"
      then obtain c where c: "lp_blocks l (Some (JArr docs)) = Inr c" "length (tool_use_ids c) \<le> b" by blast
      show ?thesis
        unfolding marshalContentVerbatim_def Some option.case sum.case
        by (rule triple_conseq [OF publish_response [OF assms _ _ c]])
          (auto simp: next_step_def journaled_def round_post_def replays_def split: sum.splits)
    qed
  qed
  show ?thesis
    unfolding callLLMAndJournal_def Messages_def sum.case
  proof (rule triple_bind [OF llm])
    fix r :: "llm_error + Message option"
    show "triple (\<lambda>s. held st s \<and> (case r of Inl e \<Rightarrow> foreign (ll_err e) | Inr None \<Rightarrow> True
          | Inr (Some resp) \<Rightarrow> \<forall>docs. those (msg_Content resp) = Some docs \<longrightarrow> (\<exists>c. lp_blocks l (Some (JArr docs)) = Inr c \<and> length (tool_use_ids c) \<le> b)))
       (case r of
       Inl callErr \<Rightarrow>
         pbindE (publishApplyPrint l ctx st (PRunFailed \<lparr>rf_Step = s_CurrentStep st,
             rf_ErrorClass = ''llm_call_failed'', rf_ErrorMessage = err_msg (ll_err callErr),
             rf_Retryable = isRetryableLLMError callErr\<rparr>)) (\<lambda>_.
         preturn (Inl (Errorw (''step '' @ show_int (next_step st) @ '': calling llm: '') (ll_err callErr))))
     | Inr None \<Rightarrow> preturn (Inl (Errorf (''step '' @ show_int (next_step st)
         @ '': llm returned a nil response with no error'')))
     | Inr (Some resp) \<Rightarrow> (case marshalContentVerbatim (msg_Content resp) of
         Inl err \<Rightarrow> preturn (Inl (Errorw ''marshaling llm response content: '' err))
       | Inr contentJSON \<Rightarrow> publishApplyPrint l ctx st (PLLMResponded \<lparr>lr_Step = next_step st,
           lr_StopReason = msg_StopReason resp, lr_Content = contentJSON,
           lr_IsTerminal = (msg_StopReason resp \<noteq> StopReasonToolUse)\<rparr>)))
       ?Q replays"
    proof (cases r)
      case (Inl e)
      show ?thesis unfolding Inl sum.case by (rule failing)
    next
      case (Inr resp)
      show ?thesis
      proof (cases resp)
        case None
        show ?thesis unfolding Inr None sum.case option.case by (rule triple_pre [OF stop]) simp
      next
        case (Some m)
        show ?thesis unfolding Inr Some sum.case option.case by (rule responding)
      qed
    qed
  qed
qed

text \<open>The end of a run, and the whole loop.\<close>

definition run_post :: "goerror + RunOutcome \<Rightarrow> 's \<Rightarrow> bool" where
  "run_post r s \<longleftrightarrow> (case r of
     Inl err \<Rightarrow> \<exists>st'. held st' s \<and> (resumable err \<longrightarrow> \<not> isTerminalStatus (s_Status st'))
   | Inr oc \<Rightarrow> \<exists>st'. held st' s \<and> verdict st' oc)"

lemma run_post_err: "\<not> resumable err \<Longrightarrow> replays s \<Longrightarrow> run_post (Inl err) s"
  by (auto simp: run_post_def replays_def)

lemma run_post_ok: "held st' s \<Longrightarrow> verdict st' oc \<Longrightarrow> run_post (Inr oc) s"
  by (auto simp: run_post_def)

lemma last_publish:
  assumes "triple (held st) m (journaled Q) replays" and "\<And>st'. Q st' \<Longrightarrow> verdict st' (f st')"
  shows "triple (held st) (pbindE m (\<lambda>final. preturn (Inr (f final)))) run_post replays"
proof (rule triple_bindE [OF assms(1)])
  show "journaled Q (Inl e) s \<Longrightarrow> run_post (Inl e) s" for e s by (simp add: journaled_def run_post_err)
  show "triple (journaled Q (Inr a)) (preturn (Inr (f a))) run_post replays" for a
    by (rule triple_return) (auto simp: journaled_def intro: run_post_ok assms(2))
qed

lemma TerminalPayload_cases:
  assumes "going st" and "s_NextAction st = ActionFinishRun"
  obtains (completed) "TerminalPayload st = Some (Inr (PRunCompleted
        \<lparr>rc_FinalOutput = LastStepText st, rc_TotalSteps = s_CurrentStep st\<rparr>))"
  | (failed) f where "TerminalPayload st = Some (Inr (PRunFailed f))" "rf_Step f = s_CurrentStep st"
      "rf_ErrorClass f \<noteq> ''max_steps_exceeded''"
proof -
  have ne: "s_steps st \<noteq> []" using going_next_action(4) [OF assms] by simp
  consider "\<not> sr_isTerminal (last (s_steps st))"
    | "sr_isTerminal (last (s_steps st))" "sr_stopReason (last (s_steps st)) = ''max_tokens''"
    | "sr_isTerminal (last (s_steps st))" "sr_stopReason (last (s_steps st)) \<noteq> ''max_tokens''"
    by blast
  then show thesis
    using ne assms(2) completed failed by cases (simp_all add: TerminalPayload_def Let_def)
qed

lemma finishRun_triple:
  assumes "live st" and "s_NextAction st = ActionFinishRun"
  shows "triple (held st) (finishRun l ctx st) run_post replays"
proof -
  have g: "going st" using assms(1) by (simp add: live_def)
  have run: "\<not> isTerminalStatus (s_Status st)" using going_next_action(4) [OF g assms(2)] by auto
  from g assms(2) show ?thesis
  proof (cases rule: TerminalPayload_cases)
    case completed
    show ?thesis
      unfolding finishRun_def completed option.case sum.case
      by (rule last_publish [OF publish_completed [OF assms(1) run]])
        (simp_all add: verdict_def finish_outcome_def RunOutcome_zero_def)
  next
    case (failed f)
    show ?thesis
      unfolding finishRun_def failed(1) option.case sum.case
      by (rule last_publish [OF publish_failed [OF assms(1) run failed(2)]])
        (use failed(3) in \<open>simp add: verdict_def finish_outcome_def RunOutcome_zero_def Let_def\<close>)
  qed
qed

lemma failMaxSteps_triple:
  assumes "live st" and "s_NextAction st = ActionFailMaxSteps"
  shows "triple (held st) (failMaxSteps l ctx st) run_post replays"
proof -
  have run: "\<not> isTerminalStatus (s_Status st)"
    using going_next_action(5) [OF _ assms(2)] assms(1) by (auto simp: live_def)
  show ?thesis
    unfolding failMaxSteps_def
    by (rule last_publish [OF publish_failed [OF assms(1) run]]) (simp_all add: verdict_def RunOutcome_zero_def)
qed

lemma drive_triple:
  assumes "\<not> isEmpty st" and "room (2 * fuel) st"
  shows "triple (held st) (drive fuel l ctx st) run_post replays"
  using assms
proof (induction fuel arbitrary: st)
  case 0
  show ?case unfolding drive.simps by (rule triple_stuck) (rule replays_held)
next
  case (Suc fuel)
  have on: "triple (\<lambda>s. held st' s \<and> moved st k st') (drive fuel l ctx st') run_post replays"
    if "k \<le> 2" for k st'
  proof (rule triple_fact [where F = "moved st k st'"], simp)
    assume m: "moved st k st'"
    then have "\<not> isEmpty st'" "room (2 * fuel) st'"
      using Suc.prems(2) that by (auto simp: moved_def room_def)
    from Suc.IH [OF this] show "triple (\<lambda>s. held st' s \<and> moved st k st') (drive fuel l ctx st') run_post replays"
      by (rule triple_pre) simp
  qed
  have tool: "triple (round_post st k (Inr x)) ((\<lambda>(state, finished). case finished of
            Some outcome \<Rightarrow> preturn (Inr outcome) | None \<Rightarrow> drive fuel l ctx state) x) run_post replays"
    if "k \<le> 2" for k x
  proof (cases x)
    case (Pair st' finished)
    show ?thesis
    proof (cases finished)
      case None
      show ?thesis
        unfolding Pair None prod.case option.case
        by (rule triple_pre [OF on [OF that]]) (simp add: round_post_def)
    next
      case (Some oc)
      show ?thesis
        unfolding Pair Some prod.case option.case
        by (rule triple_return) (auto simp: round_post_def run_post_def)
    qed
  qed
  have err: "round_post st k (Inl e) s \<Longrightarrow> run_post (Inl e) s" for k e s
    by (simp add: round_post_def run_post_def)
  show ?case
  proof (rule triple_fact [where F = "live st"])
    show "held st s \<Longrightarrow> live st" for s using held_live Suc.prems by blast
  next
    assume lv: "live st"
    then have g: "going st" by (simp add: live_def)
    have room2: "room 2 st" using Suc.prems(2) by (simp add: room_def)
    show "triple (held st) (drive (Suc fuel) l ctx st) run_post replays"
    proof (cases "s_NextAction st")
      case ActionUnset
      with going_next_action(6) [OF g] show ?thesis by simp
    next
      case ActionCallLLM
      show ?thesis
        unfolding drive.simps ActionCallLLM NextAction.case Let_def
      proof (rule triple_bindE [OF callLLMAndJournal_triple [OF lv ActionCallLLM]])
        show "round_post st 1 (map_sum id (\<lambda>st'. (st', None)) (Inl e)) s \<Longrightarrow> run_post (Inl e) s" for e s
          using err by simp
        show "triple (round_post st 1 (map_sum id (\<lambda>st'. (st', None)) (Inr st'))) (drive fuel l ctx st') run_post replays" for st'
          by (rule triple_pre [OF on [of 1]]) (simp_all add: round_post_def)
      qed
    next
      case ActionExecuteTool
      show ?thesis
        unfolding drive.simps ActionExecuteTool NextAction.case Let_def
        by (rule triple_bindE [OF invokeToolAndJournal_triple [OF lv room2 ActionExecuteTool] _ tool]) (erule err, simp)
    next
      case ActionResolveInFlightTool
      show ?thesis
        unfolding drive.simps ActionResolveInFlightTool NextAction.case Let_def
        by (rule triple_bindE [OF runInFlightTool_triple [OF lv ActionResolveInFlightTool] err tool]) simp_all
    next
      case ActionFinishRun
      then show ?thesis by (simp add: finishRun_triple [OF lv])
    next
      case ActionFailMaxSteps
      then show ?thesis by (simp add: failMaxSteps_triple [OF lv])
    next
      case ActionNone
      show ?thesis
        unfolding drive.simps ActionNone NextAction.case Let_def
        by (rule triple_return) (auto simp: run_post_def resumable_def)
    qed
  qed
qed

text \<open>A fresh run, on an empty journal.\<close>

lemma publish_started:
  assumes "in64 (rs_MaxSteps p)" and "rs_Input p = Some (JObj [(''prompt'', JStr t)])"
  shows "triple (held RunState_zero) (publishApplyPrint l ctx RunState_zero (PRunStarted p))
    (journaled (\<lambda>st'. \<not> isEmpty st' \<and> length (s_seen st') = 1 \<and> s_steps st' = [] \<and> s_MaxSteps st' = rs_MaxSteps p)) replays"
proof (rule journal_plain)
  fix e assume e: "event_of RunState_zero (PRunStarted p) e" "RunID e = jc_RunID journal"
  have z: "isEmpty RunState_zero" by (simp add: isEmpty_def RunState_zero_def)
  have a: "admitted RunState_zero e"
    using e(1) z by (simp add: admitted_def event_of_def) (simp add: RunState_zero_def)
  have j: "journalable (PRunStarted p)" using assms by (simp add: journalable_def)
  have d: "DecodePayload e = Inr (with_docs (PRunStarted p))"
    using e(1) assms(1) by (intro DecodePayload_with_docs) (simp_all add: event_of_def)
  have "Unmarshal runStartedInput_fields (rs_Input p) [] = Inr t"
    by (simp add: assms(2) unmarshal_members runStartedInput_fields_def find_field_def dec_enc)
  then have "applyPayload (lp_blocks l) (start_event RunState_zero e) (PRunStarted p) (OccurredAt e)
      = Inr ((start_event RunState_zero e)\<lparr>s_Status := StatusRunning, s_CurrentStep := 0,
          s_MaxSteps := rs_MaxSteps p, s_prompt := t\<rparr>)"
    by (simp add: applyRunStarted_def)
  then have "Apply (lp_blocks l) RunState_zero e = Inr (finish_event e ((start_event RunState_zero e)
      \<lparr>s_Status := StatusRunning, s_CurrentStep := 0, s_MaxSteps := rs_MaxSteps p, s_prompt := t\<rparr>))"
    by (simp add: Apply_admitted [OF a] d applyPayload_with_docs [OF j] del: with_docs.simps applyPayload.simps)
  moreover have "ties (finish_event e ((start_event RunState_zero e)\<lparr>s_Status := StatusRunning, s_CurrentStep := 0,
      s_MaxSteps := rs_MaxSteps p, s_prompt := t\<rparr>)) V" if "ties RunState_zero V" for V
    by (rule tied_same [OF _ _ that]) (simp_all add: start_event_def, simp_all add: RunState_zero_def)
  ultimately show "accepted RunState_zero e (\<lambda>_. True)
      (\<lambda>st'. \<not> isEmpty st' \<and> length (s_seen st') = 1 \<and> s_steps st' = [] \<and> s_MaxSteps st' = rs_MaxSteps p)"
    using e(2) z by (simp add: accepted_def start_event_def isEmpty_def) (simp add: RunState_zero_def)
qed

lemma Loop_Run_triple:
  assumes "in64 (lp_maxSteps l)" and "2 * fuel + 1 < 2 ^ 63"
  shows "triple (held RunState_zero) (Loop_Run fuel l ctx task) run_post replays"
  unfolding Loop_Run_def
proof (rule triple_bindE [OF publish_started])
  let ?Q = "\<lambda>st'. \<not> isEmpty st' \<and> length (s_seen st') = 1 \<and> s_steps st' = [] \<and> s_MaxSteps st' = lp_maxSteps l"
  show "journaled (\<lambda>st'. \<not> isEmpty st' \<and> length (s_seen st') = 1 \<and> s_steps st' = [] \<and> s_MaxSteps st' =
      rs_MaxSteps \<lparr>rs_WorkloadType = jc_WorkloadType journal,
         rs_Input = Some (JObj [(''prompt'', JStr (tk_Prompt task))]), rs_MaxSteps = lp_maxSteps l\<rparr>) (Inl e) s
      \<Longrightarrow> run_post (Inl e) s" for e s
    by (simp add: journaled_def run_post_err)
  have "triple (\<lambda>s. held st s \<and> ?Q st) (drive fuel l ctx st) run_post replays" for st
  proof (rule triple_fact [where F = "?Q st"], simp)
    assume "?Q st"
    then have "\<not> isEmpty st" "room (2 * fuel) st" using assms(2) by (simp_all add: room_def)
    from drive_triple [OF this] show "triple (\<lambda>s. held st s \<and> ?Q st) (drive fuel l ctx st) run_post replays"
      by (rule triple_pre) simp
  qed
  then show "triple (journaled (\<lambda>st'. \<not> isEmpty st' \<and> length (s_seen st') = 1 \<and> s_steps st' = []
      \<and> s_MaxSteps st' = rs_MaxSteps \<lparr>rs_WorkloadType = jc_WorkloadType journal,
         rs_Input = Some (JObj [(''prompt'', JStr (tk_Prompt task))]), rs_MaxSteps = lp_maxSteps l\<rparr>) (Inr st))
      (drive fuel l ctx st) run_post replays" for st
    by (rule triple_pre) (simp add: journaled_def)
qed (simp_all add: assms(1))

end


section \<open>Ending\<close>

text \<open>The collaborators end, and keep an invariant of the world in which they do.\<close>

locale ending_loop = journaled_loop l logged view b ttl
  for l :: "'s Loop" and logged :: "'s \<Rightarrow> Envelope list" and view :: "'s \<Rightarrow> views" and b :: nat and ttl :: duration +
  fixes ok :: "'s \<Rightarrow> bool"
  assumes orderly_publisher: "orderly ok (jc_Publisher (lp_journal l) ctx e)"
    and orderly_Now: "orderly ok (rt_Now (lp_rt l))"
    and orderly_UUID: "orderly ok (rt_UUID (lp_rt l))"
    and orderly_Sleep: "orderly ok (rt_Sleep (lp_rt l) ctx d)"
    and orderly_out: "orderly ok (lp_out l txtline)"
    and orderly_llm: "orderly ok (lp_llm l ctx params)"
    and orderly_tool: "Lookup (lp_registry l) name = Some tool \<Longrightarrow> orderly ok (t_Execute tool ctx invo args)"
    and orderly_fence: "lp_fence l = Some fence \<Longrightarrow> Lookup (lp_registry l) name = Some tool
      \<Longrightarrow> in64 (iv_Step invo) \<Longrightarrow> orderly ok (fence ctx invo call tool)"
begin

lemma orderly_publish_loop: "orderly ok (publish_loop l ctx e left backoff)"
proof (induction left arbitrary: backoff)
  case 0
  show ?case by (simp add: orderly_publisher)
next
  case (Suc left)
  then show ?case
    by (auto intro!: orderly_bind orderly_publisher orderly_Sleep split: sum.split)
qed

lemma orderly_publish: "orderly ok (publishApplyPrint l ctx st p)"
  unfolding publishApplyPrint_def publishWithRetry_def Let_def
  by (intro orderly_bind orderly_Now orderly_UUID)
    (auto intro!: orderly_bind orderly_publish_loop orderly_out orderly_halt split: sum.split)

lemma orderly_steps:
  "orderly ok (callLLMAndJournal l ctx st)" "orderly ok (failMaxSteps l ctx st)" "orderly ok (failRun l ctx st cls msg)"
  "orderly ok (journalToolResult l ctx st call oc)"
  by (auto simp: callLLMAndJournal_def failMaxSteps_def failRun_def journalToolResult_def
      intro!: orderly_bind orderly_bindE orderly_publish orderly_llm split: sum.split option.split)

lemma orderly_runInFlightTool:
  assumes "s_InFlightTool st = Some call" and "in64 (s_CurrentStep st)"
  shows "orderly ok (runInFlightTool l ctx st)"
proof -
  have u: "orderly ok (executeUnfenced l ctx st call invo found)"
    if "Lookup (lp_registry l) (tc_ToolName call) = found" for invo found
    unfolding executeUnfenced_def using that
    by (intro orderly_bind) (auto intro!: orderly_bind orderly_tool orderly_steps split: option.split)
  have f: "orderly ok (executeFenced l ctx st call (call_invocation l st call) tool fence)"
    if "lp_fence l = Some fence" "Lookup (lp_registry l) (tc_ToolName call) = Some tool" for tool fence
    unfolding executeFenced_def
    by (rule orderly_bind [OF orderly_fence [OF that]])
      (auto intro!: orderly_steps simp: call_invocation_def assms(2) split: sum.split)
  show ?thesis
    unfolding runInFlightTool_def assms(1) option.case Let_def
    by (auto intro!: u f orderly_steps split: option.split)
qed

text \<open>The rounds, with the world's invariant.\<close>

lemma with_ok: "triple (held st) m Q replays \<Longrightarrow> orderly ok m
    \<Longrightarrow> total (\<lambda>s. held st s \<and> ok s) m (\<lambda>r s. Q r s \<and> ok s) (\<lambda>s. replays s \<and> ok s)"
  unfolding orderly_def by (rule total_conj)

lemma ok_after: "triple (held st) m Q replays \<Longrightarrow> orderly ok m
    \<Longrightarrow> total (\<lambda>s. held st s \<and> ok s) m (\<lambda>r s. Q r s \<and> ok s) ok"
  by (rule total_conseq [OF with_ok]) auto

lemma total_invoke:
  assumes "live st" and "room 2 st" and "s_NextAction st = ActionExecuteTool"
  shows "total (\<lambda>s. held st s \<and> ok s) (invokeToolAndJournal l ctx st)
    (\<lambda>r s. round_post st 2 r s \<and> ok s) (\<lambda>s. replays s \<and> ok s)"
proof -
  obtain call rest where call: "s_PendingToolCalls st = call # rest"
    using going_next_action(2) [OF _ assms(3)] assms(1) by (auto simp: live_def)
  let ?inv = "invokeToolAndJournal l ctx st"
  have go: "total (\<lambda>s. journaled (invoked_from st call q) (Inr st1) s \<and> ok s) (runInFlightTool l ctx st1) (\<lambda>_. ok) ok"
    for q st1
  proof (rule total_fact [where F = "invoked_from st call q st1 \<and> in64 (s_CurrentStep st1)"])
    fix s assume "journaled (invoked_from st call q) (Inr st1) s \<and> ok s"
    then show "invoked_from st call q st1 \<and> in64 (s_CurrentStep st1)"
      using held_facts by (auto simp: journaled_def step_zero_def)
  next
    assume i: "invoked_from st call q st1 \<and> in64 (s_CurrentStep st1)"
    then obtain c where "s_InFlightTool st1 = Some c" by (auto simp: invoked_from_def)
    note o = orderly_runInFlightTool [OF this, unfolded orderly_def]
    show "total (\<lambda>s. journaled (invoked_from st call q) (Inr st1) s \<and> ok s) (runInFlightTool l ctx st1) (\<lambda>_. ok) ok"
      by (rule total_pre [OF o]) (use i in auto)
  qed
  have ok: "total (\<lambda>s. held st s \<and> ok s) ?inv (\<lambda>_. ok) ok"
    unfolding invokeToolAndJournal_def call list.case Let_def
    by (rule total_bindE [OF ok_after [OF publish_invoked [OF assms(1,3) call] orderly_publish] _ go])
      (simp_all add: effectful_def)
  from total_conj [OF invokeToolAndJournal_triple [OF assms] ok] show ?thesis by simp
qed

lemma orderly_finishRun:
  assumes "live st" and "s_NextAction st = ActionFinishRun" shows "orderly ok (finishRun l ctx st)"
proof -
  have "going st" using assms(1) by (simp add: live_def)
  from this assms(2) show ?thesis
    by (cases rule: TerminalPayload_cases)
      (simp_all add: finishRun_def orderly_bindE orderly_publish)
qed

text \<open>One unit of fuel more than the rounds left is enough.\<close>

lemma drive_total:
  assumes "\<not> isEmpty st" and "room (2 * fuel) st" and "rounds_left b st < fuel"
  shows "total (\<lambda>s. held st s \<and> ok s) (drive fuel l ctx st)
    (\<lambda>r s. run_post r s \<and> ok s) (\<lambda>s. replays s \<and> ok s)"
  using assms
proof (induction fuel arbitrary: st)
  case 0
  then show ?case by simp
next
  case (Suc fuel)
  let ?Q = "\<lambda>r s. run_post r s \<and> ok s" and ?R = "\<lambda>s. replays s \<and> ok s"
  have on: "total (\<lambda>s. held st' s \<and> moved st k st' \<and> ok s) (drive fuel l ctx st') ?Q ?R" if "k \<le> 2" for k st'
  proof (rule total_fact [where F = "moved st k st'"], simp)
    assume m: "moved st k st'"
    then have "\<not> isEmpty st'" "room (2 * fuel) st'" "rounds_left b st' < fuel"
      using Suc.prems(2,3) that by (auto simp: moved_def room_def)
    from Suc.IH [OF this] show "total (\<lambda>s. held st' s \<and> moved st k st' \<and> ok s) (drive fuel l ctx st') ?Q ?R"
      by (rule total_pre) simp
  qed
  have tool: "total (\<lambda>s. round_post st k (Inr x) s \<and> ok s) ((\<lambda>(state, finished). case finished of
            Some outcome \<Rightarrow> preturn (Inr outcome) | None \<Rightarrow> drive fuel l ctx state) x) ?Q ?R"
    if "k \<le> 2" for k x
  proof (cases x)
    case (Pair st' finished)
    have "total (\<lambda>s. round_post st k (Inr (st', None)) s \<and> ok s) (drive fuel l ctx st') ?Q ?R"
      by (rule total_pre [OF on [OF that]]) (simp add: round_post_def)
    moreover have "total (\<lambda>s. round_post st k (Inr (st', Some oc)) s \<and> ok s) (preturn (Inr oc)) ?Q ?R" for oc
      by (rule total_return) (auto simp: round_post_def run_post_def)
    ultimately show ?thesis using Pair by (cases finished) simp_all
  qed
  have err: "round_post st k (Inl e) s \<and> ok s \<Longrightarrow> run_post (Inl e) s \<and> ok s" for k e s
    by (auto simp: round_post_def run_post_def)
  show ?case
  proof (rule total_fact [where F = "live st"])
    show "held st s \<and> ok s \<Longrightarrow> live st" for s using held_live Suc.prems by blast
  next
    assume lv: "live st"
    then have g: "going st" by (simp add: live_def)
    have room2: "room 2 st" using Suc.prems(2) by (simp add: room_def)
    show "total (\<lambda>s. held st s \<and> ok s) (drive (Suc fuel) l ctx st) ?Q ?R"
    proof (cases "s_NextAction st")
      case ActionUnset
      with going_next_action(6) [OF g] show ?thesis by simp
    next
      case ActionCallLLM
      show ?thesis
        unfolding drive.simps ActionCallLLM NextAction.case Let_def
      proof (rule total_bindE [OF with_ok [OF callLLMAndJournal_triple [OF lv ActionCallLLM] orderly_steps(1)]])
        show "round_post st 1 (map_sum id (\<lambda>st'. (st', None)) (Inl e)) s \<and> ok s \<Longrightarrow> ?Q (Inl e) s" for e s
          using err by simp
        show "total (\<lambda>s. round_post st 1 (map_sum id (\<lambda>st'. (st', None)) (Inr st')) s \<and> ok s)
            (drive fuel l ctx st') ?Q ?R" for st'
          by (rule total_pre [OF on [of 1]]) (simp_all add: round_post_def)
      qed
    next
      case ActionExecuteTool
      show ?thesis
        unfolding drive.simps ActionExecuteTool NextAction.case Let_def
        by (rule total_bindE [OF total_invoke [OF lv room2 ActionExecuteTool] _ tool]) (erule err, simp)
    next
      case ActionResolveInFlightTool
      obtain call where "s_InFlightTool st = Some call"
        using going_next_action(3) [OF g ActionResolveInFlightTool] by auto
      note f = orderly_runInFlightTool [OF this live_step [OF lv]]
      show ?thesis
        unfolding drive.simps ActionResolveInFlightTool NextAction.case Let_def
        by (rule total_bindE [OF with_ok [OF runInFlightTool_triple [OF lv ActionResolveInFlightTool] f] _ tool]) (erule err, simp)
    next
      case ActionFinishRun
      then show ?thesis by (simp add: with_ok [OF finishRun_triple [OF lv] orderly_finishRun [OF lv]])
    next
      case ActionFailMaxSteps
      then show ?thesis by (simp add: with_ok [OF failMaxSteps_triple [OF lv] orderly_steps(2)])
    next
      case ActionNone
      show ?thesis
        unfolding drive.simps ActionNone NextAction.case Let_def
        by (rule total_return) (auto simp: run_post_def resumable_def)
    qed
  qed
qed

lemma Loop_Run_total:
  assumes "in64 (lp_maxSteps l)" and "2 * fuel + 1 < 2 ^ 63" and "(nat (lp_maxSteps l) + 1) * Suc b < fuel"
  shows "total (\<lambda>s. held RunState_zero s \<and> ok s) (Loop_Run fuel l ctx task)
    (\<lambda>r s. run_post r s \<and> ok s) (\<lambda>s. replays s \<and> ok s)"
  unfolding Loop_Run_def
proof (rule total_bindE [OF with_ok [OF publish_started orderly_publish]])
  let ?p = "\<lparr>rs_WorkloadType = jc_WorkloadType journal,
         rs_Input = Some (JObj [(''prompt'', JStr (tk_Prompt task))]), rs_MaxSteps = lp_maxSteps l\<rparr>"
  let ?Q = "\<lambda>st'. \<not> isEmpty st' \<and> length (s_seen st') = 1 \<and> s_steps st' = [] \<and> s_MaxSteps st' = rs_MaxSteps ?p"
  show "journaled ?Q (Inl e) s \<and> ok s \<Longrightarrow> run_post (Inl e) s \<and> ok s" for e s
    by (simp add: journaled_def run_post_err)
  show "total (\<lambda>s. journaled ?Q (Inr st) s \<and> ok s) (drive fuel l ctx st)
    (\<lambda>r s. run_post r s \<and> ok s) (\<lambda>s. replays s \<and> ok s)" for st
  proof (rule total_fact [where F = "?Q st"], simp add: journaled_def)
    assume q: "?Q st"
    then have "\<not> isEmpty st" "room (2 * fuel) st" "rounds_left b st < fuel"
      using assms(2,3) by (simp_all add: room_def rounds_left_def calls_left_def open_uses_def)
    from drive_total [OF this] show "total (\<lambda>s. journaled ?Q (Inr st) s \<and> ok s) (drive fuel l ctx st)
        (\<lambda>r s. run_post r s \<and> ok s) (\<lambda>s. replays s \<and> ok s)"
      by (rule total_pre) (simp add: journaled_def)
  qed
qed (simp_all add: assms(1))

end

end
