(* ===== verification/Sim_Cluster.thy ===== *)
theory Sim_Cluster
  imports Sim_Prompt Kafka_Log Worker Loop_Correct
begin

text \<open>
  The rest of the worker's surroundings in the simulated world: the Kafka cluster, which may lose replies and
  write a message twice, and a model that answers from a script, with the interfaces of the log and of the
  loop discharged on them.
\<close>

section \<open>The Kafka cluster\<close>

text \<open>A connection to a partition's leader is its number, and so is a reader.\<close>

definition add_message :: "nat \<Rightarrow> string \<Rightarrow> json \<Rightarrow> world \<Rightarrow> world" where
  "add_message p key v w = w\<lparr>w_topic := (w_topic w)(p := w_topic w p @ [(key, v)])\<rparr>"

definition read_message :: "nat \<Rightarrow> world \<Rightarrow> (goerror + kmessage) \<times> world" where
  "read_message r w = (let i = w_reader w r in
     if 0 \<le> i \<and> i < int (length (w_topic w r))
     then (Inr \<lparr>km_Key = fst (w_topic w r ! nat i), km_Value = Some (snd (w_topic w r ! nat i)), km_Offset = i\<rparr>,
       w\<lparr>w_reader := (w_reader w)(r := i + 1)\<rparr>)
     else (Inl io_error, w))"

text \<open>A partition that is read back holds fewer than \<open>2 ^ 62\<close> messages.\<close>

definition partition_cap :: int where "partition_cap = 2 ^ 62"

definition sim_kafka :: "world kafka_client" where
  "sim_kafka = \<lparr>
     kc_DialContext = (\<lambda>c broker. external (\<lambda>w. (Inr 0, w)) (Inl io_error) (Inl io_error) (\<lambda>w. w)),
     kc_DialLeader = (\<lambda>c broker T p. external (\<lambda>w. (Inr p, w)) (Inl io_error) (Inl io_error) (\<lambda>w. w)),
     kc_CreateTopics = (\<lambda>conn tc. external (\<lambda>w. (Inr (), w)) (Inl io_error) (Inl io_error) (\<lambda>w. w)),
     kc_ReadPartitions = (\<lambda>conn T. external (\<lambda>w. (Inr [0..<RunEventsPartitions], w)) (Inl io_error) (Inl io_error) (\<lambda>w. w)),
     kc_ReadOffsets = (\<lambda>conn. external (\<lambda>w. (let n = int (length (w_topic w conn)) in
       if n < partition_cap then Inr (0, n) else Inl io_error, w)) (Inl io_error) (Inl io_error) (\<lambda>w. w)),
     kc_CloseConn = (\<lambda>conn. internal (\<lambda>w. ((), w))),
     kc_NewReader = (\<lambda>rc. internal (\<lambda>w. (rc_Partition rc, w\<lparr>w_reader := (w_reader w)(rc_Partition rc := 0)\<rparr>))),
     kc_SetOffset = (\<lambda>r i. external (\<lambda>w. (Inr (), w\<lparr>w_reader := (w_reader w)(r := i)\<rparr>)) (Inl io_error) (Inl io_error) (\<lambda>w. w)),
     kc_ReadMessage = (\<lambda>c r. external (read_message r) (Inl io_error) (Inl io_error) (\<lambda>w. w)),
     kc_CloseReader = (\<lambda>r. internal (\<lambda>w. ((), w))),
     kc_WriteMessages = (\<lambda>wc c key v. let p = wc_Balancer wc key [0..<RunEventsPartitions] in
       external (\<lambda>w. (Inr (), add_message p key v w)) (Inl io_error) (Inl io_error)
         (\<lambda>w. add_message p key v (add_message p key v w))),
     kc_CloseWriter = external (\<lambda>w. (Inr (), w)) (Inl io_error) (Inl io_error) (\<lambda>w. w)\<rparr>"

definition sim_views :: "string \<Rightarrow> world \<Rightarrow> views" where
  "sim_views path w = (\<lambda>key. sim_view path key w)"

lemma sim_view_topic [simp]: "sim_view path key (w\<lparr>w_topic := T\<rparr>) = sim_view path key w"
  and sim_view_reader [simp]: "sim_view path key (w\<lparr>w_reader := r\<rparr>) = sim_view path key w"
  and sim_view_model [simp]: "sim_view path key (w\<lparr>w_model := m\<rparr>) = sim_view path key w"
  by (simp_all add: sim_view_def effects_under_def)

lemma add_message_view [simp]: "sim_view path key (add_message p k v w) = sim_view path key w"
  by (simp add: add_message_def)

lemma calm_views: "(\<And>key. calm_prog (sim_view path key) m) \<Longrightarrow> all_calm (sim_views path w) (sim_views path (snd (m w)))"
  unfolding all_calm_def sim_views_def calm_prog_def by blast

lemma looks_topic: "looks m \<Longrightarrow> w_topic (snd (m w)) = w_topic w"
  by (simp add: looks_def drift_fields)

lemma kafka_looks:
  "looks (kc_DialContext sim_kafka c b)" "looks (kc_DialLeader sim_kafka c b T p)" "looks (kc_CreateTopics sim_kafka n tc)"
  "looks (kc_ReadPartitions sim_kafka n T)" "looks (kc_ReadOffsets sim_kafka n)" "looks (kc_CloseConn sim_kafka n)"
  "looks (kc_CloseReader sim_kafka r)" "looks (kc_CloseWriter sim_kafka)"
  by (auto simp: sim_kafka_def intro!: internal_looks external_looks)

lemma looks_run: "looks m \<Longrightarrow> m w = (x, w') \<Longrightarrow> drift w w'"
  unfolding looks_def by (metis snd_conv)

lemma sim_write:
  assumes "kc_WriteMessages sim_kafka wc c key v w = (x, w')" and "p = wc_Balancer wc key [0..<RunEventsPartitions]"
  shows "\<exists>n. w_topic w' = (w_topic w)(p := w_topic w p @ replicate n (key, v)) \<and> (x = Done (Inr ()) \<longrightarrow> 0 < n)"
proof -
  have "external (\<lambda>w. (Inr (), add_message p key v w)) (Inl io_error) (Inl io_error)
         (\<lambda>w. add_message p key v (add_message p key v w)) w = (x, w')"
    using assms by (simp add: sim_kafka_def Let_def)
  then show ?thesis
  proof (cases rule: external_drift)
    case idle
    then show ?thesis by (intro exI [of _ 0]) (auto simp: drift_fields)
  next
    case (acts w1 res w2)
    then show ?thesis by (intro exI [of _ 1]) (auto simp: drift_fields add_message_def)
  next
    case (garbles w1)
    then show ?thesis by (intro exI [of _ 2]) (auto simp: drift_fields add_message_def numeral_2_eq_2)
  qed
qed

lemma kafka_calm: "calm_prog (sim_view path key) (kc_WriteMessages sim_kafka wc c k v)"
  "calm_prog (sim_view path key) (kc_NewReader sim_kafka rc)" "calm_prog (sim_view path key) (kc_SetOffset sim_kafka r i)"
  "calm_prog (sim_view path key) (kc_ReadMessage sim_kafka c r)"
  unfolding sim_kafka_def kafka_client.select_convs Let_def
  by (auto intro!: external_calm internal_calm simp: read_message_def Let_def)

interpretation sim_log: kafka_log sim_kafka hash brokers partition_cap w_topic "\<lambda>w c. Some c" "\<lambda>w r. Some (r, w_reader w r)" "sim_views path"
  for hash brokers path
proof
  show "all_calm (sim_views path s) (sim_views path s') \<and> (\<exists>n. w_topic s' = (w_topic s)(p := w_topic s p @ replicate n (key, v))
      \<and> (x = Done (Inr ()) \<longrightarrow> 0 < n))"
    if "kc_WriteMessages sim_kafka (NewEventPublisher hash brokers) ctx key v s = (x, s')"
      "p = wc_Balancer (NewEventPublisher hash brokers) key [0..<RunEventsPartitions]" for ctx key v s x s' p
    using calm_views [where path = path and w = s, OF kafka_calm(1) [of path _ "NewEventPublisher hash brokers" ctx key v]] that
      sim_write [OF that] by simp
  show "w_topic s' = w_topic s \<and> (\<forall>c. y = Done (Inr c) \<longrightarrow> Some c = Some p)"
    if "kc_DialLeader sim_kafka ctx broker T p s = (y, s')" for ctx broker T p s y s'
  proof -
    have "external (\<lambda>w. (Inr p, w)) (Inl io_error) (Inl io_error) (\<lambda>w. w) s = (y, s')" using that by (simp add: sim_kafka_def)
    then have "y = Done (Inr c) \<Longrightarrow> c = p" for c by (cases rule: external_drift) auto
    with looks_run [OF kafka_looks(2) that] show ?thesis by (auto simp: drift_fields)
  qed
  show "w_topic s' = w_topic s \<and> (\<forall>first hwm. z = Done (Inr (first, hwm)) \<longrightarrow> first = 0 \<and> hwm = int (length (w_topic s p)) \<and> hwm < partition_cap)"
    if "kc_ReadOffsets sim_kafka c s = (z, s')" "Some c = Some p" for c s z s' p
  proof -
    have "external (\<lambda>w. (let n = int (length (w_topic w c)) in if n < partition_cap then Inr (0, n) else Inl io_error, w))
        (Inl io_error) (Inl io_error) (\<lambda>w. w) s = (z, s')" using that by (simp add: sim_kafka_def)
    then have "z = Done (Inr (first, hwm)) \<Longrightarrow> first = 0 \<and> hwm = int (length (w_topic s p)) \<and> hwm < partition_cap" for first hwm
      by (cases rule: external_drift) (use that in \<open>auto simp: drift_fields Let_def split: if_splits\<close>)
    with looks_run [OF kafka_looks(5) that(1)] show ?thesis by (auto simp: drift_fields)
  qed
  show "partition_cap \<le> 2 ^ 63" by (simp add: partition_cap_def)
  show "w_topic (snd (kc_CloseConn sim_kafka c s)) = w_topic s" "w_topic (snd (kc_CloseReader sim_kafka r s)) = w_topic s" for c r s
    by (simp_all add: looks_topic kafka_looks)
  show "w_topic s' = w_topic s \<and> (\<forall>r. w = Done r \<longrightarrow> (\<exists>i. Some (r, w_reader s' r) = Some (rc_Partition rc, i)))"
    if "kc_NewReader sim_kafka rc s = (w, s')" for rc s w s'
  proof -
    have "internal (\<lambda>w. (rc_Partition rc, w\<lparr>w_reader := (w_reader w)(rc_Partition rc := 0)\<rparr>)) s = (w, s')"
      using that by (simp add: sim_kafka_def)
    then show ?thesis by (cases rule: internal_drift) (auto simp: drift_fields)
  qed
  show "w_topic s' = w_topic s \<and> (u = Done (Inr ()) \<longrightarrow> Some (r, w_reader s' r) = Some (p, i))"
    if "kc_SetOffset sim_kafka r i s = (u, s')" "Some (r, w_reader s r) = Some (p, i')" for r i s u s' p i'
  proof -
    have "external (\<lambda>w. (Inr (), w\<lparr>w_reader := (w_reader w)(r := i)\<rparr>)) (Inl io_error) (Inl io_error) (\<lambda>w. w) s = (u, s')"
      using that by (simp add: sim_kafka_def)
    then show ?thesis by (cases rule: external_drift) (use that in \<open>auto simp: drift_fields\<close>)
  qed
  show "w_topic s' = w_topic s \<and> (\<forall>msg. m = Done (Inr msg) \<longrightarrow> 0 \<le> i \<and> i < int (length (w_topic s p))
        \<and> Some (r, w_reader s' r) = Some (p, i + 1)
        \<and> (\<exists>key v. w_topic s p ! nat i = (key, v) \<and> msg = \<lparr>km_Key = key, km_Value = Some v, km_Offset = i\<rparr>))"
    if "kc_ReadMessage sim_kafka ctx r s = (m, s')" "Some (r, w_reader s r) = Some (p, i)" for ctx r s m s' p i
  proof -
    have "external (read_message r) (Inl io_error) (Inl io_error) (\<lambda>w. w) s = (m, s')" using that by (simp add: sim_kafka_def)
    then show ?thesis
      by (cases rule: external_drift) (use that in \<open>auto simp: drift_fields read_message_def Let_def split: if_splits\<close>)
  qed
qed

interpretation sim_ending_log: ending_log sim_kafka hash brokers partition_cap w_topic "\<lambda>w c. Some c" "\<lambda>w r. Some (r, w_reader w r)" "sim_views path"
  for hash brokers path
  by unfold_locales (simp_all add: sim_kafka_def ends_external ends_internal)


section \<open>The model\<close>

definition string_member :: "(string \<times> json) list \<Rightarrow> string \<Rightarrow> string" where
  "string_member ms name = (case map_of ms name of Some (JStr x) \<Rightarrow> x | _ \<Rightarrow> [])"

definition sim_block :: "json \<Rightarrow> content_block" where
  "sim_block doc = (case doc of
     JObj ms \<Rightarrow>
       if map_of ms ''type'' = Some (JStr ''text'') then TextBlock (string_member ms ''text'')
       else if map_of ms ''type'' = Some (JStr ''tool_use'')
       then ToolUseBlock (string_member ms ''id'') (string_member ms ''name'') (map_of ms ''input'')
       else OtherBlock doc
   | _ \<Rightarrow> OtherBlock doc)"

definition sim_blocks :: block_decoder where
  "sim_blocks r = (case r of Some (JArr docs) \<Rightarrow> Inr (map sim_block docs) | _ \<Rightarrow> Inl json_error)"

definition sim_block_param :: "block_param \<Rightarrow> json" where
  "sim_block_param b = (case b of
     ToParam (TextBlock x) \<Rightarrow> JObj [(''type'', JStr ''text''), (''text'', JStr x)]
   | ToParam (ToolUseBlock tid name input) \<Rightarrow> JObj [(''type'', JStr ''tool_use''), (''id'', JStr tid),
       (''name'', JStr name), (''input'', enc_raw input)]
   | ToParam (OtherBlock doc) \<Rightarrow> doc
   | NewTextBlock x \<Rightarrow> JObj [(''type'', JStr ''text''), (''text'', JStr x)]
   | NewToolResultBlock tid x isError \<Rightarrow> JObj [(''type'', JStr ''tool_result''), (''tool_use_id'', JStr tid),
       (''content'', JStr x), (''is_error'', JBool isError)])"

definition sim_sdk :: message_encoder where
  "sim_sdk ms = Inr (JArr (map (\<lambda>m. case m of
     NewUserMessage bs \<Rightarrow> JObj [(''role'', JStr ''user''), (''content'', JArr (map sim_block_param bs))]
   | NewAssistantMessage bs \<Rightarrow> JObj [(''role'', JStr ''assistant''), (''content'', JArr (map sim_block_param bs))]) ms))"

text \<open>
  The script's next answer: an API error, with or without a status, or a message. A message has at most one
  tool use per token of its budget; when the script is at its end the model says so.
\<close>

definition max_uses :: nat where "max_uses = nat maxTokens"

definition tool_uses_in :: "Message \<Rightarrow> nat" where
  "tool_uses_in m = (case those (msg_Content m) of None \<Rightarrow> 0 | Some docs \<Rightarrow> length (tool_use_ids (map sim_block docs)))"

definition api_error :: "int option \<Rightarrow> llm_error" where
  "api_error code = \<lparr>ll_err = Errorf ''api error'', ll_StatusCode = code, ll_NetError = (code = None)\<rparr>"

definition model_reply :: "int option + Message \<Rightarrow> llm_error + Message option" where
  "model_reply r = (case r of
     Inl code \<Rightarrow> Inl (api_error code)
   | Inr m \<Rightarrow> if tool_uses_in m \<le> max_uses then Inr (Some m) else Inl (api_error (Some 500)))"

definition farewell :: Message where
  "farewell = \<lparr>msg_Content = [Some (JObj [(''type'', JStr ''text''), (''text'', JStr ''done'')])], msg_StopReason = ''end_turn''\<rparr>"

definition sim_messages_New :: "string \<Rightarrow> ctx \<Rightarrow> MessageNewParams \<Rightarrow> (world, llm_error + Message option) prog" where
  "sim_messages_New apiKey c params = external (\<lambda>w. case w_model w of
       [] \<Rightarrow> (model_reply (Inr farewell), w) | r # rs \<Rightarrow> (model_reply r, w\<lparr>w_model := rs\<rparr>))
     (Inl (api_error None)) (Inl (api_error None)) (\<lambda>w. w)"

lemma model_calm: "calm_prog (sim_view path key) (sim_messages_New apiKey c params)"
  unfolding sim_messages_New_def by (rule external_calm) (auto split: list.split)

lemma model_topic: "w_topic (snd (sim_messages_New apiKey c params w)) = w_topic w"
proof -
  obtain x w' where x: "sim_messages_New apiKey c params w = (x, w')" by fastforce
  then have "w_topic w' = w_topic w"
    unfolding sim_messages_New_def by (cases rule: external_drift) (auto simp: drift_fields split: list.splits)
  with x show ?thesis by simp
qed

lemma sim_message:
  assumes "anthropic_CreateMessage (sim_messages_New apiKey) c params w = (Done r, w')"
  shows "(\<exists>code. r = Inl \<lparr>ll_err = Errorw ''calling anthropic messages api: '' (ll_err (api_error code)),
       ll_StatusCode = code, ll_NetError = (code = None)\<rparr>) \<or> (\<exists>m. r = Inr (Some m) \<and> tool_uses_in m \<le> max_uses)"
proof -
  obtain y u where y: "sim_messages_New apiKey c params w = (Done y, u)"
    and r: "(case y of Inl e \<Rightarrow> preturn (Inl (e\<lparr>ll_err := Errorw ''calling anthropic messages api: '' (ll_err e)\<rparr>))
      | Inr msg \<Rightarrow> preturn (Inr msg)) u = (Done r, w')"
    using assms unfolding anthropic_CreateMessage_def by (blast dest: pbind_eq_DoneD)
  have f: "tool_uses_in farewell \<le> max_uses"
    by (simp add: tool_uses_in_def farewell_def max_uses_def maxTokens_def sim_block_def)
  have "(\<exists>code. y = Inl (api_error code)) \<or> (\<exists>m. y = Inr (Some m) \<and> tool_uses_in m \<le> max_uses)"
    using y unfolding sim_messages_New_def
    by (cases rule: external_drift)
      (auto simp: model_reply_def f split: list.splits sum.splits if_splits)
  with r show ?thesis by (auto simp: api_error_def)
qed

end
