(* ===== verification/Sim_Worker.thy ===== *)
theory Sim_Worker
  imports Sim_Cluster
begin

text \<open>
  The worker in the simulated world: the loop \<open>buildLoop\<close> wires keeps the contracts of the loop's locales, and a
  whole worker process, fresh or resuming, keeps the run's journal replayable and tied to the world.
\<close>

section \<open>The process and its loop\<close>

definition sim_Stderr :: "string \<Rightarrow> (world, unit) prog" where
  "sim_Stderr txtline = internal (\<lambda>w. ((), w))"

definition sim_process :: "balancer \<Rightarrow> nat \<Rightarrow> nat \<Rightarrow> nat \<Rightarrow> world process" where
  "sim_process hash polls reads rounds = \<lparr>ps_rt = sim_runtime, ps_kafka = sim_kafka, ps_hash = hash,
     ps_redis = (\<lambda>addr. sim_redis),
     ps_Ping = (\<lambda>addr c. external (\<lambda>w. (Inr (), w)) (Inl io_error) (Inl io_error) (\<lambda>w. w)),
     ps_CloseRedis = (\<lambda>addr. internal (\<lambda>w. ((), w))),
     ps_messages_New = sim_messages_New, ps_model = ''claude'', ps_blocks = sim_blocks, ps_sdk = sim_sdk,
     ps_num = Some, ps_Hostname = Inr ''host'', ps_uuid_Parse = (\<lambda>s. Inr ()),
     ps_Stdout = sim_Stdout, ps_Stderr = sim_Stderr, ps_polls = polls, ps_reads = reads, ps_rounds = rounds\<rparr>"

definition built_guard :: "config \<Rightarrow> CrashHook \<Rightarrow> string \<Rightarrow> world Guard" where
  "built_guard cfg crash name =
     (sim_guard (cf_toolTimeout cfg) DefaultStaleGrace (cf_idemTTL cfg) crash)\<lparr>g_claimedBy := name\<rparr>"

definition built_loop :: "balancer \<Rightarrow> nat \<Rightarrow> string \<Rightarrow> config \<Rightarrow> string \<Rightarrow> CrashHook \<Rightarrow> string \<Rightarrow> world Loop" where
  "built_loop hash polls apiKey cfg runID crash name = \<lparr>lp_llm = anthropic_CreateMessage (sim_messages_New apiKey),
     lp_registry = worker_registry sim_runtime (cf_ledgerPath cfg), lp_model = ''claude'', lp_maxTokens = maxTokens,
     lp_maxSteps = maxSteps, lp_out = sim_Stdout,
     lp_journal = worker_journal (Publish sim_kafka (NewEventPublisher hash (cf_brokers cfg))) cfg runID,
     lp_fence = Some (Guard_Run polls (built_guard cfg crash name)),
     lp_rt = sim_runtime, lp_blocks = sim_blocks, lp_sdk = sim_sdk, lp_num = Some\<rparr>"

lemma buildLoop_sim:
  "buildLoop (sim_process hash polls reads rounds) apiKey cfg (Publish sim_kafka (NewEventPublisher hash (cf_brokers cfg))) runID
    = (case ParseCrashSpec (cf_crashSpec cfg) of
        Inl err \<Rightarrow> preturn (Inl (Errorw ''parsing DAE_CRASH_AT: '' err))
      | Inr crash \<Rightarrow> pbind (rt_Getpid sim_runtime) (\<lambda>pid.
          preturn (Inr (built_loop hash polls apiKey cfg runID crash (''host-'' @ show_int pid)))))"
proof -
  have b: "pbind (pbind m (\<lambda>x. preturn (f x))) g = pbind m (\<lambda>x. g (f x))" for m :: "(world, 'a) prog" and f g
    by (rule ext) (simp add: pbind_def split: prod.split exec.split)
  have "\<not> maxSteps \<le> 0" "rt_Sleep sim_runtime = sim_Sleep" by (simp_all add: maxSteps_def sim_runtime_def)
  then show ?thesis
    by (simp add: buildLoop_def NewGuard_def NewLoop_def b built_loop_def built_guard_def sim_guard_def
        sim_process_def split: sum.split) (simp add: preturn_def)
qed

definition logged :: "balancer \<Rightarrow> string \<Rightarrow> world \<Rightarrow> Envelope list" where
  "logged hash runID w = run_log hash runID (w_topic w)"

lemma quietI:
  assumes "\<And>view. unmoved view \<Longrightarrow> calm_prog view m" shows "quiet (logged hash runID) (sim_views path) m"
  unfolding quiet_def
proof (intro allI conjI)
  show "all_calm (sim_views path w) (sim_views path (snd (m w)))" for w
    by (intro calm_views assms unmoved_sim_view)
  show "logged hash runID (snd (m w)) = logged hash runID w" for w
    unfolding logged_def by (subst topic_kept) (auto intro: assms beside_unmoved [OF beside_topic])
qed

lemma worker_Lookup:
  assumes "Lookup (worker_registry sim_runtime path) name = Some tool"
  shows "tool \<in> mock_tools path"
    and "t_HasSideEffect tool \<longleftrightarrow> tool \<in> effect_tools path"
proof -
  show m: "tool \<in> mock_tools path"
  proof -
    have "tool \<in> set (rev [CloneRepoTool sim_runtime, RunTestsTool sim_runtime path, ApplyFixTool sim_runtime path,
        OpenPRTool sim_runtime path])"
      using assms unfolding worker_registry_def Lookup_def map_of_NewRegistry find_Some_iff by (metis nth_mem)
    then show ?thesis by (auto simp only: mock_tools_def effect_tools_def set_rev list.set insert_iff Un_iff empty_iff)
  qed
  have "t_HasSideEffect (ApplyFixTool sim_runtime path)" "t_HasSideEffect (OpenPRTool sim_runtime path)"
    "\<not> t_HasSideEffect (CloneRepoTool sim_runtime)" "\<not> t_HasSideEffect (RunTestsTool sim_runtime path)"
    by (simp_all add: CloneRepoTool_def RunTestsTool_def ApplyFixTool_def OpenPRTool_def)
  with m show "t_HasSideEffect tool \<longleftrightarrow> tool \<in> effect_tools path" unfolding mock_tools_def effect_tools_def by blast
qed

definition sound :: "config \<Rightarrow> bool" where
  "sound cfg \<longleftrightarrow> ExpiryMargin < cf_idemTTL cfg \<and> cf_idemTTL cfg \<le> max64"

lemma wired_built_guard: "wired (cf_idemTTL cfg) (built_guard cfg crash name)"
  by (simp add: wired_def built_guard_def sim_guard_def)

lemma journal_RunID [simp]: "jc_RunID (worker_journal p cfg runID) = runID"
  and journal_Publisher [simp]: "jc_Publisher (worker_journal p cfg runID) = p"
  by (simp_all add: worker_journal_def NewJournalConfig_def Let_def split: option.split)

lemma sim_journaled_loop:
  assumes "sound cfg"
  shows "journaled_loop (built_loop hash polls apiKey cfg runID crash name) (logged hash runID) (sim_views (cf_ledgerPath cfg))
    max_uses (cf_idemTTL cfg)"
proof
  let ?l = "built_loop hash polls apiKey cfg runID crash name" and ?path = "cf_ledgerPath cfg" and ?ttl = "cf_idemTTL cfg"
  let ?v = "sim_views ?path" and ?log = "logged hash runID" and ?f = "Guard_Run polls (built_guard cfg crash name)"
  have l: "lp_journal ?l = worker_journal (Publish sim_kafka (NewEventPublisher hash (cf_brokers cfg))) cfg runID"
    "lp_rt ?l = sim_runtime" "lp_out ?l = sim_Stdout" "lp_llm ?l = anthropic_CreateMessage (sim_messages_New apiKey)"
    "lp_registry ?l = worker_registry sim_runtime ?path" "lp_fence ?l = Some ?f" "lp_blocks ?l = sim_blocks" "lp_sdk ?l = sim_sdk"
    by (simp_all add: built_loop_def)
  show "appends ?log ?v e (jc_Publisher (lp_journal ?l) ctx e)" if "sendable e" "RunID e = jc_RunID (lp_journal ?l)" for e ctx
    using sim_log.Publish_appends [OF that(1), where path = ?path and hash = hash and brokers = "cf_brokers cfg" and ctx = ctx] that(2)
    by (simp add: l logged_def [abs_def])
  show "quiet ?log ?v (rt_Now (lp_rt ?l))" "quiet ?log ?v (rt_UUID (lp_rt ?l))"
    "quiet ?log ?v (rt_Sleep (lp_rt ?l) ctx d)" "quiet ?log ?v (lp_out ?l txtline)" for ctx d txtline
    by (auto simp: l intro!: quietI unmoved_ops)
  show "rt_Now (lp_rt ?l) s = (Done t, s') \<Longrightarrow> t \<le> fv_clock (?v s' k)" for s t s' k
    using sim_now_value by (fastforce simp: l sim_views_def)
  show "quiet ?log ?v (lp_llm ?l ctx params)" for ctx params
  proof -
    have m: "quiet ?log ?v (sim_messages_New apiKey ctx params)"
      unfolding quiet_def logged_def using model_topic calm_views [OF model_calm] by simp
    show ?thesis unfolding l anthropic_CreateMessage_def
      by (rule quiet_bind [OF m]) (simp split: sum.split)
  qed
  show "quiet ?log ?v (t_Execute tool ctx invo args)"
    if "Lookup (lp_registry ?l) name' = Some tool" "\<not> t_HasSideEffect tool" for name' tool ctx invo args
  proof -
    have "tool \<in> {CloneRepoTool sim_runtime, RunTestsTool sim_runtime ?path}"
      using worker_Lookup that unfolding l mock_tools_def by blast
    then show ?thesis
      by (auto simp: CloneRepoTool_def RunTestsTool_def CloneRepo_Execute_def RunTests_Execute_def
          intro!: quietI calm_rules mock_delay_unmoved Entries_unmoved wrapping_calm)
  qed
  show "?log s' = ?log s \<and> safe ?ttl (tc_InvokedAt call) (?v s' key)
        \<and> (\<forall>k. k \<noteq> key \<longrightarrow> calm (?v s k) (?v s' k))
        \<and> (\<forall>oc. x = Done (Inr oc) \<longrightarrow> told (oc_Status oc) (?v s' key))"
    if f: "lp_fence ?l = Some f" and tool: "Lookup (lp_registry ?l) name' = Some tool" "t_HasSideEffect tool"
      and key: "iv_IdempotencyKey invo = Some key" and step: "in64 (iv_Step invo)"
      and run: "f ctx invo call tool s = (x, s')" and sf: "safe ?ttl (tc_InvokedAt call) (?v s key)"
    for f name' tool invo key ctx call s x s'
  proof -
    have g: "Guard_Run polls (built_guard cfg crash name) ctx invo call tool s = (x, s')" using f run by (simp add: l)
    have t: "tool \<in> effect_tools ?path" using worker_Lookup(2) tool unfolding l by blast
    have b: "ExpiryMargin < ?ttl" "?ttl \<le> max64" using assms by (simp_all add: sound_def)
    have aside: "calm_prog view (Guard_Run polls (built_guard cfg crash name) ctx invo call tool)" if "beside key view" for view
    proof (cases "ArgsHash (tc_ToolName call) (tc_ToolArgs call)")
      case (Inl err)
      then show ?thesis by (simp add: Guard_Run_def key)
    next
      case (Inr h)
      let ?r = "\<lparr>r_g = built_guard cfg crash name, r_inv = invo, r_tc = call, r_tool = tool, r_key = key, r_argsHash = h\<rparr>"
      have "fenced_run ?path ?ttl ?r" using wired_built_guard t key step b by (simp add: fenced_run_def)
      from bystander.Guard_Run_calm [OF sim_bystander [OF fenced_keyed [OF this]]] that key Inr show ?thesis by simp
    qed
    have "w_topic s' = w_topic s"
      using topic_kept [OF aside [OF beside_topic], of s] g by simp
    moreover have "calm (?v s k) (?v s' k)" if "k \<noteq> key" for k
      using aside [OF beside_other_key [OF that, of ?path]] g unfolding calm_prog_def sim_views_def by (metis snd_conv)
    ultimately show ?thesis
      using guard_run_safe [OF wired_built_guard t key step b sf [unfolded sim_views_def] g]
      by (auto simp: logged_def told_def sim_views_def) (simp_all add: sim_view_def)
  qed
  show "\<exists>c. lp_blocks ?l (Some (JArr docs)) = Inr c \<and> length (tool_use_ids c) \<le> max_uses"
    if "lp_llm ?l ctx params s = (Done (Inr (Some resp)), s')" "those (msg_Content resp) = Some docs" for ctx params s resp s' docs
    using sim_message [of apiKey ctx params s "Inr (Some resp)" s'] that
    by (auto simp: l sim_blocks_def tool_uses_in_def)
  show "foreign (ll_err callErr)" if "lp_llm ?l ctx params s = (Done (Inl callErr), s')" for ctx params s callErr s'
    using sim_message [of apiKey ctx params s "Inl callErr" s'] that
    by (auto simp: l foreign_def resumable_def api_error_def)
  show "lp_sdk ?l ms = Inl err \<Longrightarrow> foreign err" for ms err
    by (simp add: l sim_sdk_def)
qed

text \<open>The worker's default configuration.\<close>

definition default_config :: "string \<Rightarrow> string \<Rightarrow> int option \<Rightarrow> config" where
  "default_config resume crash after = \<lparr>cf_brokers = [defaultKafkaBrokers], cf_redisAddr = defaultRedisAddr,
     cf_idemTTL = defaultIdemTTL, cf_toolTimeout = defaultToolTimeout, cf_ledgerPath = defaultLedgerPath,
     cf_resumeRunID = resume, cf_crashSpec = crash, cf_crashAfterSeq = after\<rparr>"

lemma default_sound [simp]: "sound (default_config resume crash after)"
  by (simp add: sound_def default_config_def defaultIdemTTL_def ExpiryMargin_def Hour_def Minute_def max64_def)

interpretation sim_worker: journaled_loop "built_loop hash polls apiKey (default_config resume spec after) runID crash name"
  "logged hash runID" "sim_views (cf_ledgerPath (default_config resume spec after))" max_uses
  "cf_idemTTL (default_config resume spec after)"
  for hash polls apiKey resume spec after runID crash name
  by (rule sim_journaled_loop) simp



section \<open>The loop ends\<close>

definition prompt :: "nat \<Rightarrow> config \<Rightarrow> bool" where
  "prompt polls cfg \<longleftrightarrow> 0 < polls \<and> wrap64 (cf_toolTimeout cfg + DefaultStaleGrace) \<le> (int polls - 1) * Second"

lemma sim_ending_loop:
  assumes "sound cfg" and "prompt polls cfg"
  shows "ending_loop (built_loop hash polls apiKey cfg runID crash name) (logged hash runID) (sim_views (cf_ledgerPath cfg))
    max_uses (cf_idemTTL cfg) (on_time (cf_ledgerPath cfg))"
proof (intro ending_loop.intro ending_loop_axioms.intro sim_journaled_loop [OF assms(1)])
  let ?l = "built_loop hash polls apiKey cfg runID crash name" and ?ok = "on_time (cf_ledgerPath cfg)"
  have l: "lp_journal ?l = worker_journal (Publish sim_kafka (NewEventPublisher hash (cf_brokers cfg))) cfg runID"
    "lp_rt ?l = sim_runtime" "lp_out ?l = sim_Stdout" "lp_llm ?l = anthropic_CreateMessage (sim_messages_New apiKey)"
    "lp_registry ?l = worker_registry sim_runtime (cf_ledgerPath cfg)"
    "lp_fence ?l = Some (Guard_Run polls (built_guard cfg crash name))"
    by (simp_all add: built_loop_def)
  show "orderly ?ok (rt_Now (lp_rt ?l))" "orderly ?ok (rt_UUID (lp_rt ?l))" "orderly ?ok (rt_Sleep (lp_rt ?l) ctx d)"
    "orderly ?ok (lp_out ?l x)" for ctx d x
    by (auto simp: l intro!: calm_on_time unmoved_sim_view unmoved_ops ends_runtime)
  have w: "orderly ?ok (kc_WriteMessages sim_kafka wc ctx key v)" for wc ctx key v
    by (rule calm_on_time [OF _ kafka_calm(1)]) (simp add: sim_kafka_def Let_def ends_external)
  show "orderly ?ok (jc_Publisher (lp_journal ?l) ctx e)" for ctx e
    unfolding l journal_Publisher Publish_def by (intro orderly_rules w)
  have m: "orderly ?ok (sim_messages_New apiKey ctx params)" for ctx params
    by (rule calm_on_time [OF _ model_calm]) (simp add: sim_messages_New_def ends_external)
  show "orderly ?ok (lp_llm ?l ctx params)" for ctx params
    unfolding l anthropic_CreateMessage_def by (intro orderly_rules m)
  show "orderly ?ok (t_Execute tool ctx invo args)" if "Lookup (lp_registry ?l) name' = Some tool" for name' tool ctx invo args
  proof -
    have "t_Execute tool \<in> {CloneRepo_Execute sim_runtime, RunTests_Execute sim_runtime (cf_ledgerPath cfg),
        ApplyFix_Execute sim_runtime (cf_ledgerPath cfg), OpenPR_Execute sim_runtime (cf_ledgerPath cfg)}"
      using worker_Lookup(1) that unfolding l
      by (fastforce simp: mock_tools_def effect_tools_def CloneRepoTool_def RunTestsTool_def ApplyFixTool_def OpenPRTool_def)
    then show ?thesis by (auto intro!: redis_view_on_time ends_tools tools_redis_view)
  qed
  have b: "ExpiryMargin < cf_idemTTL cfg" "cf_idemTTL cfg \<le> max64" using assms(1) by (simp_all add: sound_def)
  have p: "enough_polls polls (built_guard cfg crash name)"
    using assms(2) by (simp add: enough_polls_def prompt_def built_guard_def sim_guard_def)
  show "orderly ?ok (fence ctx invo call tool)"
    if "lp_fence ?l = Some fence" "Lookup (lp_registry ?l) name' = Some tool" "in64 (iv_Step invo)"
    for fence name' tool ctx invo call
    using that worker_Lookup(1) by (auto simp: l intro!: sim_guard_orderly [OF wired_built_guard _ _ b p])
qed

interpretation sim_ending: ending_loop "built_loop hash 151 apiKey (default_config resume spec after) runID crash name"
  "logged hash runID" "sim_views (cf_ledgerPath (default_config resume spec after))" max_uses
  "cf_idemTTL (default_config resume spec after)" "on_time (cf_ledgerPath (default_config resume spec after))"
  for hash apiKey resume spec after runID crash name
  by (rule sim_ending_loop [OF default_sound])
    (simp add: prompt_def default_config_def defaultToolTimeout_def DefaultStaleGrace_def Minute_def Second_def wrap64_def)

end
