(* ===== verification/Sim_Runs.thy ===== *)
theory Sim_Runs
  imports Sim_Worker
begin

text \<open>
  Whole worker processes in the simulated world: creating the topic, pinging Redis, replaying the run or
  starting a fresh one, the loop and the exit code. What holds of a run between processes is \<open>sim_held\<close>.
\<close>

section \<open>Correctness with and without ending\<close>

text \<open>One judgement for both: what is kept, and when \<open>tot\<close> is set, that the program ends and does not panic.\<close>

definition judged :: "bool \<Rightarrow> ('s \<Rightarrow> bool) \<Rightarrow> ('s, 'a) prog \<Rightarrow> ('a \<Rightarrow> 's \<Rightarrow> bool) \<Rightarrow> ('s \<Rightarrow> bool) \<Rightarrow> bool" where
  "judged tot P m Q R \<longleftrightarrow> triple P m Q R \<and> (tot \<longrightarrow> finishes P m)"

lemma judgedD: "judged tot P m Q R \<Longrightarrow> triple P m Q R" and judged_finishes: "judged True P m Q R \<Longrightarrow> finishes P m"
  by (simp_all add: judged_def)

lemma judged_return: "(\<And>s. P s \<Longrightarrow> Q a s) \<Longrightarrow> judged tot P (preturn a) Q R"
  by (simp add: judged_def triple_return)

lemma judged_bind: "judged tot P m Q' R \<Longrightarrow> (\<And>a. judged tot (Q' a) (f a) Q R) \<Longrightarrow> judged tot P (pbind m f) Q R"
  unfolding judged_def by (auto intro: triple_bind finishes_bind)

lemma judged_conseq: "judged tot P' m Q' R' \<Longrightarrow> (\<And>s. P s \<Longrightarrow> P' s) \<Longrightarrow> (\<And>a s. Q' a s \<Longrightarrow> Q a s)
    \<Longrightarrow> (\<And>s. R' s \<Longrightarrow> R s) \<Longrightarrow> judged tot P m Q R"
  unfolding judged_def by (auto intro: triple_conseq finishes_pre)

lemma judged_pre: "judged tot P' m Q R \<Longrightarrow> (\<And>s. P s \<Longrightarrow> P' s) \<Longrightarrow> judged tot P m Q R"
  by (erule judged_conseq) auto

lemma judged_if: "(b \<Longrightarrow> judged tot P m Q R) \<Longrightarrow> (\<not> b \<Longrightarrow> judged tot P n Q R) \<Longrightarrow> judged tot P (if b then m else n) Q R"
  by simp

lemma judged_sum:
  "(\<And>e. r = Inl e \<Longrightarrow> judged tot P (f e) Q R) \<Longrightarrow> (\<And>a. r = Inr a \<Longrightarrow> judged tot P (g a) Q R)
    \<Longrightarrow> judged tot P (case r of Inl e \<Rightarrow> f e | Inr a \<Rightarrow> g a) Q R"
  by (cases r) auto

lemma judged_fact: "(\<And>s. P s \<Longrightarrow> F) \<Longrightarrow> (F \<Longrightarrow> judged tot P m Q R) \<Longrightarrow> judged tot P m Q R"
  unfolding judged_def using triple_fact [of P F m Q R] finishes_fact [of P F m] by blast

lemma judged_triple: "triple P m Q R \<Longrightarrow> ends m \<Longrightarrow> judged tot P m Q R"
  by (simp add: judged_def ends_finishes)


section \<open>What is kept between processes\<close>

definition sim_held :: "bool \<Rightarrow> balancer \<Rightarrow> string \<Rightarrow> duration \<Rightarrow> string \<Rightarrow> RunState \<Rightarrow> world \<Rightarrow> bool" where
  "sim_held tot hash path ttl runID st w \<longleftrightarrow> fold_loop sim_blocks RunState_zero (logged hash runID w) = Inr st
     \<and> (isEmpty st \<or> s_RunID st = runID)
     \<and> tied (worker_registry sim_runtime path) runID ttl st (sim_views path w) \<and> (tot \<longrightarrow> on_time path w)"

abbreviation config_held :: "bool \<Rightarrow> balancer \<Rightarrow> config \<Rightarrow> string \<Rightarrow> RunState \<Rightarrow> world \<Rightarrow> bool" where
  "config_held tot hash cfg \<equiv> sim_held tot hash (cf_ledgerPath cfg) (cf_idemTTL cfg)"

lemma loop_held:
  assumes "sound cfg"
  shows "journaled_loop.held (built_loop hash polls apiKey cfg runID crash name) (logged hash runID)
    (sim_views (cf_ledgerPath cfg)) (cf_idemTTL cfg) st w \<and> (tot \<longrightarrow> on_time (cf_ledgerPath cfg) w)
      \<longleftrightarrow> config_held tot hash cfg runID st w"
  unfolding journaled_loop.held_def [OF sim_journaled_loop [OF assms]] sim_held_def by (simp add: built_loop_def)

definition steady :: "(world \<Rightarrow> bool) \<Rightarrow> bool" where
  "steady P \<longleftrightarrow> (\<forall>w w'. drift w w' \<longrightarrow> P w \<longrightarrow> P w')"

lemma drift_views: "drift w w' \<Longrightarrow> all_calm (sim_views path w) (sim_views path w')"
  by (simp add: all_calm_def sim_views_def unmovedD(1) [OF unmoved_sim_view])

lemma held_closed:
  assumes "sim_held tot hash path ttl runID st w" and "all_calm (sim_views path w) (sim_views path w')"
    and "w_topic w' = w_topic w"
  shows "sim_held tot hash path ttl runID st w'"
proof -
  have "on_time path w \<Longrightarrow> on_time path w'"
    using assms(2) stable_punctual unfolding all_calm_def sim_views_def on_time_def stable_def by blast
  then show ?thesis using assms closed_tied unfolding closed_def sim_held_def logged_def by metis
qed

lemma steady_held: "steady (sim_held tot hash path ttl runID st)"
  unfolding steady_def by (blast intro: held_closed drift_views drift_fields(7))

lemma steady_conj: "steady P \<Longrightarrow> steady Q \<Longrightarrow> steady (\<lambda>w. P w \<and> Q w)"
  by (auto simp: steady_def)

lemma steady_fresh: "steady (\<lambda>w. runID = token (w_fresh w))"
  by (simp add: steady_def drift_fields)

lemma steady_ex: "(\<And>x. steady (P x)) \<Longrightarrow> steady (\<lambda>w. \<exists>x. P x w)"
  unfolding steady_def by blast

lemma looks_triple: "looks m \<Longrightarrow> steady P \<Longrightarrow> judged tot P m (\<lambda>_. P) P"
proof (rule judged_triple)
  show "looks m \<Longrightarrow> steady P \<Longrightarrow> triple P m (\<lambda>_. P) P"
    unfolding steady_def by (rule tripleI; blast dest: looks_run)
qed (simp add: looks_def)

lemma held_triple:
  assumes "\<And>key. calm_prog (sim_view path key) m" and "\<And>w. w_topic (snd (m w)) = w_topic w"
  shows "triple (sim_held tot hash path ttl runID st) m (\<lambda>_. sim_held tot hash path ttl runID st) (sim_held tot hash path ttl runID st)"
proof -
  have "sim_held tot hash path ttl runID st (snd (m w))" if "sim_held tot hash path ttl runID st w" for w
    by (rule held_closed [OF that calm_views [OF assms(1)] assms(2)])
  then show ?thesis by - (rule tripleI; metis snd_conv)
qed

lemma out_triple:
  "judged tot (sim_held tot hash path ttl runID st) (sim_Stdout x) (\<lambda>_. sim_held tot hash path ttl runID st) (sim_held tot hash path ttl runID st)"
  by (rule judged_triple [OF held_triple ends_runtime(14)])
    (auto intro!: unmoved_ops unmoved_sim_view topic_kept beside_unmoved [OF beside_topic])

text \<open>What a process leaves behind when it ends by itself, with its exit code.\<close>

definition exit_held :: "bool \<Rightarrow> balancer \<Rightarrow> string \<Rightarrow> duration \<Rightarrow> string \<Rightarrow> int \<Rightarrow> world \<Rightarrow> bool" where
  "exit_held tot hash path ttl runID code w \<longleftrightarrow> (\<exists>st. sim_held tot hash path ttl runID st w
     \<and> (code = exitOK \<longrightarrow> s_Status st = StatusCompleted)
     \<and> (code = exitFenceUnavailable \<longrightarrow> \<not> isTerminalStatus (s_Status st)))"

definition some_held :: "bool \<Rightarrow> balancer \<Rightarrow> string \<Rightarrow> duration \<Rightarrow> string \<Rightarrow> world \<Rightarrow> bool" where
  "some_held tot hash path ttl runID w \<longleftrightarrow> (\<exists>st. sim_held tot hash path ttl runID st w)"

lemma steady_some: "steady (some_held tot hash path ttl runID)"
  unfolding some_held_def by (intro steady_ex steady_held)

lemma steady_exit: "steady (exit_held tot hash path ttl runID code)"
  unfolding exit_held_def using steady_held unfolding steady_def by blast

lemma exit_failed: "sim_held tot hash path ttl runID st w \<Longrightarrow> code \<notin> {exitOK, exitFenceUnavailable} \<Longrightarrow> exit_held tot hash path ttl runID code w"
  by (auto simp: exit_held_def)

lemma exit_some: "exit_held tot hash path ttl runID code w \<Longrightarrow> some_held tot hash path ttl runID w"
  and held_some: "sim_held tot hash path ttl runID st w \<Longrightarrow> some_held tot hash path ttl runID w"
  by (auto simp: exit_held_def some_held_def)


section \<open>Before the loop\<close>

lemma looks_wrapping: "looks (wrapping pre e)"
  by (simp add: wrapping_def)

lemma looks_bindM: "looks m \<Longrightarrow> (\<And>e. looks (h e)) \<Longrightarrow> (\<And>a. looks (f a)) \<Longrightarrow> looks (pbindM m h f)"
  unfolding pbindM_def by (rule looks_bind) (auto intro!: looks_bind split: sum.split)

lemma looks_if: "looks m \<Longrightarrow> looks n \<Longrightarrow> looks (if b then m else n)"
  by simp

lemma looks_deferring: "looks d \<Longrightarrow> looks m \<Longrightarrow> looks (deferring d m)"
  unfolding deferring_def by (intro looks_bind looks_return)

lemma looks_topics: "looks (EnsureTopics sim_kafka ctx brokers)"
  unfolding EnsureTopics_def
  by (cases brokers) (auto intro!: looks_bindM looks_wrapping looks_deferring looks_if kafka_looks)

lemma looks_ping: "looks (pingRedis (sim_process hash polls reads rounds) ctx addr)"
  unfolding pingRedis_def WithTimeout_def
  by (auto intro!: looks_bind looks_bindM looks_wrapping runtime_looks external_looks simp: sim_process_def)

lemma looks_Stderr: "looks (sim_Stderr x)"
  unfolding sim_Stderr_def by (rule internal_looks) simp

lemma looks_complain: "looks (complain (sim_process hash polls reads rounds) pre err)"
  by (simp add: complain_def sim_process_def looks_Stderr)

lemma looks_closes:
  "looks (ps_CloseRedis (sim_process hash polls reads rounds) addr)" "looks (close_publisher (sim_process hash polls reads rounds))"
proof -
  show "looks (ps_CloseRedis (sim_process hash polls reads rounds) addr)"
    by (simp add: sim_process_def internal_looks)
  have "looks (Publisher_Close sim_kafka)"
    unfolding Publisher_Close_def by (intro looks_bindM kafka_looks looks_wrapping looks_return)
  moreover have "ps_kafka (sim_process hash polls reads rounds) = sim_kafka" by (simp add: sim_process_def)
  ultimately show "looks (close_publisher (sim_process hash polls reads rounds))"
    unfolding close_publisher_def by (auto intro!: looks_bind looks_complain split: sum.split)
qed

lemma deferring_looks:
  assumes "judged tot P m Q R" and "looks d" and "\<And>a. steady (Q a)" and "\<And>a w. Q a w \<Longrightarrow> R w"
  shows "judged tot P (deferring d m) Q R"
  unfolding deferring_def
proof (rule judged_bind [OF assms(1)])
  fix a
  have "judged tot (Q a) d (\<lambda>_. Q a) R"
    by (rule judged_conseq [OF looks_triple [OF assms(2,3)]]) (auto dest: assms(4))
  then show "judged tot (Q a) (pbind d (\<lambda>_. preturn a)) Q R" by (rule judged_bind) (rule judged_return)
qed

text \<open>Replaying moves nothing but readers.\<close>

lemma calm_deferring: "calm_prog view d \<Longrightarrow> calm_prog view m \<Longrightarrow> calm_prog view (deferring d m)"
  unfolding deferring_def by (intro calm_rules)

lemma read_loop_calm: "calm_prog (sim_view path key) (read_loop fuel sim_kafka ctx p r hwm runID out)"
proof (induction fuel arbitrary: out)
  case (Suc fuel)
  show ?case
    unfolding read_loop.simps Let_def
    by (intro calm_rules kafka_calm wrapping_calm Suc)
qed (simp add: calm_prog_def pstuck_def)

lemma dial_leader_calm: "calm_prog (sim_view path key) (dial_leader sim_kafka ctx p brokers err)"
  by (induction brokers arbitrary: err)
    (auto intro!: calm_rules looks_calm [OF unmoved_sim_view kafka_looks(2)])

lemma replay_calm: "calm_prog (sim_view path key) (replay_from blocks fuel hash sim_kafka brokers ctx runID)"
proof -
  note lk = looks_calm [OF unmoved_sim_view]
  have "calm_prog (sim_view path key) (KafkaEventSource_Events fuel hash sim_kafka brokers ctx runID)"
    unfolding KafkaEventSource_Events_def Let_def split_def
    by (intro calm_rules calm_deferring dial_leader_calm wrapping_calm kafka_calm read_loop_calm
        lk [OF kafka_looks(6)] lk [OF kafka_looks(5)] lk [OF kafka_looks(7)])
  then show ?thesis unfolding replay_from_def by (intro calm_rules)
qed

lemma length_AList_update: "length (AList.update k v xs) \<le> Suc (length xs)"
  by (induction xs) auto

lemma Apply_seen_length:
  assumes "Apply blocks s e = Inr s'" shows "length (s_seen s') \<le> Suc (length (s_seen s))"
  using assms
proof (cases rule: Apply_InrE)
  case (applied p n)
  then have "s_seen n = s_seen (start_event s e)" using applyPayload_frame(1) by blast
  then show ?thesis using applied length_AList_update [of "SequenceNumber e" "EventID e" "s_seen s"] by simp
qed simp

lemma fold_loop_seen_length:
  "fold_loop blocks s es = Inr s' \<Longrightarrow> length (s_seen s') \<le> length (s_seen s) + length es"
proof (induction es arbitrary: s)
  case (Cons e es)
  then obtain u where "Apply blocks s e = Inr u" "fold_loop blocks u es = Inr s'" by (auto split: sum.splits)
  with Cons.IH [of u] Apply_seen_length [of blocks s e u] show ?case by simp
qed simp

text \<open>A replay may read as many messages as the run's partition has.\<close>

definition readable :: "bool \<Rightarrow> balancer \<Rightarrow> string \<Rightarrow> nat \<Rightarrow> world \<Rightarrow> bool" where
  "readable tot hash runID reads w \<longleftrightarrow> tot \<longrightarrow> length (w_topic w (PartitionFor hash runID RunEventsPartitions)) \<le> reads"

lemma steady_readable: "steady (readable tot hash runID reads)"
  by (simp add: steady_def readable_def drift_fields)

lemma replay_held:
  "judged tot (\<lambda>w. sim_held tot hash path ttl runID st w \<and> readable tot hash runID reads w)
    (replay_from sim_blocks reads hash sim_kafka brokers ctx runID)
    (\<lambda>r w. sim_held tot hash path ttl runID st w \<and> (\<forall>st'. r = Inr st' \<longrightarrow> st' = st \<and> \<not> isEmpty st \<and> s_RunID st = runID \<and> length (s_seen st) < 2 ^ 62))
    (sim_held tot hash path ttl runID st)"
proof -
  let ?m = "replay_from sim_blocks reads hash sim_kafka brokers ctx runID"
  have kept: "w_topic (snd (?m w)) = w_topic w" for w
  proof -
    obtain x w' where x: "?m w = (x, w')" by fastforce
    have tr: "triple (\<lambda>v. w_topic v = w_topic w) ?m (\<lambda>_ v. w_topic v = w_topic w) (\<lambda>v. w_topic v = w_topic w)"
      by (rule triple_post [OF sim_log.replay_triple]) simp
    show ?thesis
      using x triple_DoneD [OF tr refl, of _ w'] triple_HaltD [OF tr refl, of _ w'] triple_FuelD [OF tr refl, of w']
      by (cases x) auto
  qed
  have val: "st' = st \<and> \<not> isEmpty st \<and> s_RunID st = runID \<and> length (s_seen st) < 2 ^ 62"
    if h: "sim_held tot hash path ttl runID st w" and r: "?m w = (Done (Inr st'), w')" for w w' st'
  proof -
    have l: "run_log hash runID (w_topic w) \<noteq> []" "int (length (run_log hash runID (w_topic w))) < partition_cap"
      and f: "fold_loop sim_blocks RunState_zero (run_log hash runID (w_topic w)) = Inr st'"
      using triple_DoneD [OF sim_log.replay_triple [where T = "w_topic w"] refl r] by simp_all
    have "length (s_seen st') \<le> length (run_log hash runID (w_topic w))"
      using fold_loop_seen_length [OF f] by (simp add: RunState_zero_def)
    moreover have "\<not> isEmpty st'"
      by (rule Fold_nonempty [of sim_blocks "run_log hash runID (w_topic w)"]) (simp add: Fold_def l(1) f)
    ultimately show ?thesis using f h l(2) by (auto simp: sim_held_def logged_def partition_cap_def)
  qed
  have "triple (\<lambda>w. sim_held tot hash path ttl runID st w \<and> readable tot hash runID reads w) ?m
    (\<lambda>r w. sim_held tot hash path ttl runID st w \<and> (\<forall>st'. r = Inr st' \<longrightarrow> st' = st \<and> \<not> isEmpty st \<and> s_RunID st = runID \<and> length (s_seen st) < 2 ^ 62))
    (sim_held tot hash path ttl runID st)"
    using held_triple [OF replay_calm kept, of tot hash path ttl runID st] val
    by (intro tripleI) (blast dest: triple_DoneD triple_HaltD triple_FuelD)+
  moreover have "finishes (\<lambda>w. sim_held tot hash path ttl runID st w \<and> readable tot hash runID reads w) ?m" if tot
  proof (unfold finishes_def, intro allI impI)
    fix w assume "sim_held tot hash path ttl runID st w \<and> readable tot hash runID reads w"
    with that have "length (w_topic w (PartitionFor hash runID RunEventsPartitions)) \<le> reads" by (simp add: readable_def)
    from sim_ending_log.replay_finishes [where T = "w_topic w", OF this]
    show "case fst (?m w) of Done _ \<Rightarrow> True | Halt c \<Rightarrow> c \<noteq> 2 | OutOfFuel \<Rightarrow> False" by (simp add: finishes_def)
  qed
  ultimately show ?thesis by (simp add: judged_def)
qed


section \<open>The starting state\<close>

lemma start_fresh:
  assumes "cf_resumeRunID cfg = []"
  shows "judged tot (\<lambda>w. sim_held tot hash path ttl runID RunState_zero w \<and> runID = token (w_fresh w))
    (startingState (sim_process hash polls reads rounds) ctx cfg)
    (\<lambda>r w. sim_held tot hash path ttl runID RunState_zero w \<and> r = Inr (runID, RunState_zero))
    (some_held tot hash path ttl runID)"
proof -
  let ?H = "sim_held tot hash path ttl runID RunState_zero"
  have H: "triple ?H (rt_UUID sim_runtime) (\<lambda>_. ?H) ?H"
    by (rule held_triple)
      (auto intro!: unmoved_ops unmoved_sim_view topic_kept beside_unmoved [OF beside_topic])
  have "triple (\<lambda>w. runID = token (w_fresh w)) (rt_UUID sim_runtime) (\<lambda>u _. u = runID) (\<lambda>_. True)"
  proof (rule tripleI)
    fix w u w' assume f: "runID = token (w_fresh w)" and r: "rt_UUID sim_runtime w = (Done u, w')"
    have "internal (\<lambda>w. (token (w_fresh w), w\<lparr>w_fresh := w_fresh w + 1\<rparr>)) w = (Done u, w')"
      using r by (simp add: sim_runtime_def)
    then show "u = runID" by (cases rule: internal_drift) (auto simp: f drift_fields)
  qed simp_all
  from judged_triple [OF triple_conj [OF H this] ends_runtime(2)]
  have uuid: "judged tot (\<lambda>w. ?H w \<and> runID = token (w_fresh w)) (rt_UUID sim_runtime) (\<lambda>u w. ?H w \<and> u = runID)
      (some_held tot hash path ttl runID)"
    by (rule judged_conseq) (auto intro: held_some)
  have rest: "judged tot (\<lambda>w. ?H w \<and> u = runID) (pbind (sim_Stdout x) (\<lambda>_. preturn (Inr (u, RunState_zero))))
      (\<lambda>r w. ?H w \<and> r = Inr (runID, RunState_zero)) (some_held tot hash path ttl runID)" for u x
  proof (rule judged_fact [where F = "u = runID"], simp)
    assume "u = runID"
    then show "judged tot (\<lambda>w. ?H w \<and> u = runID) (pbind (sim_Stdout x) (\<lambda>_. preturn (Inr (u, RunState_zero))))
        (\<lambda>r w. ?H w \<and> r = Inr (runID, RunState_zero)) (some_held tot hash path ttl runID)"
      by (intro judged_bind [OF judged_conseq [OF out_triple]] judged_return) (auto intro: held_some)
  qed
  have ps: "ps_rt (sim_process hash polls reads rounds) = sim_runtime"
    "ps_Stdout (sim_process hash polls reads rounds) = sim_Stdout" by (simp_all add: sim_process_def)
  show ?thesis
    unfolding startingState_def assms ps by (simp only: if_True simp_thms) (rule judged_bind [OF uuid rest])
qed

text \<open>A resumed process goes on from the state the journal folds to, or stops with an exit code that says why.\<close>

definition start_ok :: "string \<Rightarrow> RunState \<Rightarrow> int + string \<times> RunState \<Rightarrow> bool" where
  "start_ok runID st r \<longleftrightarrow> (case r of
     Inl code \<Rightarrow> code \<noteq> exitFenceUnavailable \<and> (code = exitOK \<longrightarrow> s_Status st = StatusCompleted)
   | Inr (rid, st') \<Rightarrow> rid = runID \<and> st' = st \<and> \<not> isEmpty st \<and> length (s_seen st) < 2 ^ 62)"

lemma start_resumed:
  assumes "cf_resumeRunID cfg = runID" and "runID \<noteq> []" and "tot \<Longrightarrow> cf_brokers cfg \<noteq> []"
  shows "judged tot (\<lambda>w. sim_held tot hash path ttl runID st w \<and> readable tot hash runID reads w) (startingState (sim_process hash polls reads rounds) ctx cfg)
    (\<lambda>r w. sim_held tot hash path ttl runID st w \<and> start_ok runID st r) (some_held tot hash path ttl runID)"
proof -
  let ?H = "sim_held tot hash path ttl runID st" and ?ps = "sim_process hash polls reads rounds"
  let ?R = "some_held tot hash path ttl runID" and ?Q = "\<lambda>r w. ?H w \<and> start_ok runID st r"
  have ps: "ps_kafka ?ps = sim_kafka" "ps_blocks ?ps = sim_blocks" "ps_Stdout ?ps = sim_Stdout" "ps_Stderr ?ps = sim_Stderr"
    "ps_hash ?ps = hash" "ps_reads ?ps = reads" by (simp_all add: sim_process_def)
  have out: "judged tot ?H (sim_Stdout x) (\<lambda>_. ?H) ?R" for x
    by (rule judged_conseq [OF out_triple]) (auto intro: held_some)
  have err: "judged tot ?H (sim_Stderr x) (\<lambda>_. ?H) ?R" for x
    by (rule judged_conseq [OF looks_triple [OF looks_Stderr steady_held]]) (auto intro: held_some)
  have say: "judged tot ?H (pbind (sim_Stdout x) (\<lambda>_. preturn r)) ?Q ?R" "judged tot ?H (pbind (sim_Stderr x) (\<lambda>_. preturn r)) ?Q ?R"
    if "start_ok runID st r" for x r
    using that by (auto intro!: judged_bind [OF out] judged_bind [OF err] judged_return)
  have replayed: "judged tot (\<lambda>w. ?H w \<and> (\<forall>st'. r = Inr st' \<longrightarrow> st' = st \<and> \<not> isEmpty st \<and> s_RunID st = runID \<and> length (s_seen st) < 2 ^ 62))
     (case r of
        Inl err \<Rightarrow>
          if errors_Is err SRunNotFound
          then pbind (sim_Stderr (x1 err)) (\<lambda>_. preturn (Inl exitRunNotFound))
          else pbind (complain ?ps x2 err) (\<lambda>_. preturn (Inl exitFailed))
      | Inr state \<Rightarrow> (case terminalExitCode (s_Status state) of
          (True, code) \<Rightarrow> pbind (sim_Stdout (x3 state)) (\<lambda>_. preturn (Inl code))
        | (False, _) \<Rightarrow> pbind (sim_Stdout (x4 state)) (\<lambda>_. preturn (Inr (s_RunID state, state))))) ?Q ?R" for r x1 x2 x3 x4
  proof (cases r)
    case (Inl e)
    have "start_ok runID st (Inl exitRunNotFound)" "start_ok runID st (Inl exitFailed)" by (simp_all add: start_ok_def exit_defs)
    then show ?thesis
      unfolding Inl sum.case complain_def ps by (intro judged_if judged_pre [OF say(2)]) simp_all
  next
    case (Inr state)
    show ?thesis
      unfolding Inr sum.case
    proof (rule judged_fact [where F = "state = st \<and> \<not> isEmpty st \<and> s_RunID st = runID \<and> length (s_seen st) < 2 ^ 62"], simp)
      assume s: "state = st \<and> \<not> isEmpty st \<and> s_RunID st = runID \<and> length (s_seen st) < 2 ^ 62"
      have ok: "case terminalExitCode (s_Status state) of (True, code) \<Rightarrow> start_ok runID st (Inl code)
          | (False, _) \<Rightarrow> start_ok runID st (Inr (s_RunID state, state))"
        using s by (simp add: terminalExitCode_def start_ok_def exit_defs split: RunStatus.split)
      show "judged tot (\<lambda>w. ?H w \<and> (\<forall>st'. (Inr state :: goerror + RunState) = Inr st' \<longrightarrow> st' = st \<and> \<not> isEmpty st \<and> s_RunID st = runID \<and> length (s_seen st) < 2 ^ 62))
        (case terminalExitCode (s_Status state) of
          (True, code) \<Rightarrow> pbind (sim_Stdout (x3 state)) (\<lambda>_. preturn (Inl code))
        | (False, _) \<Rightarrow> pbind (sim_Stdout (x4 state)) (\<lambda>_. preturn (Inr (s_RunID state, state)))) ?Q ?R"
        by (rule judged_pre [where P' = ?H]) (use ok in \<open>auto intro!: say split: prod.split bool.split\<close>)
    qed
  qed
  have rep: "judged tot (\<lambda>w. ?H w \<and> readable tot hash runID reads w) (replay_from sim_blocks reads hash sim_kafka brokers ctx runID)
      (\<lambda>r w. ?H w \<and> (\<forall>st'. r = Inr st' \<longrightarrow> st' = st \<and> \<not> isEmpty st \<and> s_RunID st = runID \<and> length (s_seen st) < 2 ^ 62)) ?R" for brokers
    by (rule judged_conseq [OF replay_held]) (auto intro: held_some)
  have src: "judged tot (\<lambda>w. ?H w \<and> readable tot hash runID reads w) (NewKafkaEventSource (cf_brokers cfg))
      (\<lambda>_ w. ?H w \<and> readable tot hash runID reads w) ?R"
    using assms(3) unfolding NewKafkaEventSource_def
    by (auto simp: judged_def intro!: triple_halt triple_return intro: held_some)
  show ?thesis
    unfolding startingState_def assms(1) ps if_not_P [OF assms(2)]
    by (rule judged_bind [OF src], rule judged_bind [OF rep], rule replayed)
qed


section \<open>The loop and the exit code\<close>

text \<open>What the loop's result says, as \<open>run_post\<close> of the loop's locale does.\<close>

definition result_held :: "bool \<Rightarrow> balancer \<Rightarrow> string \<Rightarrow> duration \<Rightarrow> string \<Rightarrow> goerror + RunOutcome \<Rightarrow> world \<Rightarrow> bool" where
  "result_held tot hash path ttl runID r w \<longleftrightarrow> (\<exists>st. sim_held tot hash path ttl runID st w \<and> (case r of
     Inl err \<Rightarrow> resumable err \<longrightarrow> \<not> isTerminalStatus (s_Status st) | Inr oc \<Rightarrow> verdict st oc))"

lemma loop_post:
  assumes "sound cfg"
  shows "journaled_loop.run_post (built_loop hash polls apiKey cfg runID crash name) (logged hash runID)
    (sim_views (cf_ledgerPath cfg)) (cf_idemTTL cfg) r w \<and> (tot \<longrightarrow> on_time (cf_ledgerPath cfg) w)
      \<longleftrightarrow> result_held tot hash (cf_ledgerPath cfg) (cf_idemTTL cfg) runID r w"
  unfolding journaled_loop.run_post_def [OF sim_journaled_loop [OF assms]] result_held_def
    loop_held [OF assms, where hash = hash and polls = polls and apiKey = apiKey and crash = crash and name = name, symmetric]
  by (auto split: sum.split)

lemma loop_replays:
  assumes "sound cfg"
  shows "journaled_loop.replays (built_loop hash polls apiKey cfg runID crash name) (logged hash runID)
    (sim_views (cf_ledgerPath cfg)) (cf_idemTTL cfg) w \<and> (tot \<longrightarrow> on_time (cf_ledgerPath cfg) w)
      \<longleftrightarrow> some_held tot hash (cf_ledgerPath cfg) (cf_idemTTL cfg) runID w"
  unfolding journaled_loop.replays_def [OF sim_journaled_loop [OF assms]] some_held_def
    loop_held [OF assms, where hash = hash and polls = polls and apiKey = apiKey and crash = crash and name = name, symmetric]
  by auto

lemma steady_result: "steady (result_held tot hash path ttl runID r)"
  unfolding result_held_def using steady_held unfolding steady_def by blast

lemma exit_triple:
  "judged tot (result_held tot hash path ttl runID r) (exitCodeFor (sim_process hash polls reads rounds) r)
    (\<lambda>code. exit_held tot hash path ttl runID code) (some_held tot hash path ttl runID)"
proof (cases r)
  case (Inl err)
  have l: "judged tot (result_held tot hash path ttl runID r) (complain (sim_process hash polls reads rounds) ''worker failed: '' err)
      (\<lambda>_. result_held tot hash path ttl runID r) (some_held tot hash path ttl runID)"
    by (rule judged_conseq [OF looks_triple [OF looks_complain steady_result]])
      (auto simp: result_held_def some_held_def)
  show ?thesis
    unfolding exitCodeFor_def Inl sum.case
    by (rule judged_bind [OF l [unfolded Inl]], rule judged_return)
      (auto simp: result_held_def exit_held_def resumable_def exit_defs)
next
  case (Inr oc)
  show ?thesis
    unfolding exitCodeFor_def Inr sum.case
    by (rule judged_return) (auto simp: result_held_def exit_held_def verdict_def exit_defs)
qed

lemma loop_judged:
  fixes cfg hash polls apiKey runID crash name
  defines "l \<equiv> built_loop hash polls apiKey cfg runID crash name" and "path \<equiv> cf_ledgerPath cfg" and "ttl \<equiv> cf_idemTTL cfg"
  assumes "sound cfg"
    and "tot \<Longrightarrow> total (\<lambda>w. journaled_loop.held l (logged hash runID) (sim_views path) ttl st w \<and> on_time path w) m
      (\<lambda>r w. journaled_loop.run_post l (logged hash runID) (sim_views path) ttl r w \<and> on_time path w)
      (\<lambda>w. journaled_loop.replays l (logged hash runID) (sim_views path) ttl w \<and> on_time path w)"
    and "\<not> tot \<Longrightarrow> triple (journaled_loop.held l (logged hash runID) (sim_views path) ttl st) m
      (journaled_loop.run_post l (logged hash runID) (sim_views path) ttl) (journaled_loop.replays l (logged hash runID) (sim_views path) ttl)"
  shows "judged tot (config_held tot hash cfg runID st) m (result_held tot hash path ttl runID) (some_held tot hash path ttl runID)"
proof -
  have "triple (\<lambda>w. journaled_loop.held l (logged hash runID) (sim_views path) ttl st w \<and> (tot \<longrightarrow> on_time path w)) m
      (\<lambda>r w. journaled_loop.run_post l (logged hash runID) (sim_views path) ttl r w \<and> (tot \<longrightarrow> on_time path w))
      (\<lambda>w. journaled_loop.replays l (logged hash runID) (sim_views path) ttl w \<and> (tot \<longrightarrow> on_time path w))"
    using assms(5,6) by (cases tot) (simp_all add: total_def)
  moreover have "tot \<Longrightarrow> finishes (\<lambda>w. journaled_loop.held l (logged hash runID) (sim_views path) ttl st w \<and> (tot \<longrightarrow> on_time path w)) m"
    using assms(5) by (simp add: total_def)
  ultimately show ?thesis
    unfolding judged_def l_def path_def ttl_def loop_held [OF assms(4)] loop_post [OF assms(4)] loop_replays [OF assms(4)] by blast
qed

text \<open>Rounds for the run a process starts or goes on with, and polls for its guard.\<close>

definition enough :: "bool \<Rightarrow> nat \<Rightarrow> nat \<Rightarrow> config \<Rightarrow> RunState \<Rightarrow> bool" where
  "enough tot polls rounds cfg st \<longleftrightarrow> tot \<longrightarrow> prompt polls cfg
     \<and> (if isEmpty st then (nat maxSteps + 1) * Suc max_uses < rounds else rounds_left max_uses st < rounds)"

lemma run_task_triple:
  assumes "sound cfg" and fuel: "enough tot polls rounds cfg st" and "\<not> isEmpty st \<and> length (s_seen st) + 2 * rounds < 2 ^ 63 \<or> st = RunState_zero \<and> 2 * rounds + 1 < 2 ^ 63"
    and "cf_resumeRunID cfg = [] \<longleftrightarrow> st = RunState_zero"
  shows "judged tot (config_held tot hash cfg runID st) (run_task (sim_process hash polls reads rounds) ctx apiKey cfg runID st)
    (exit_held tot hash (cf_ledgerPath cfg) (cf_idemTTL cfg) runID) (some_held tot hash (cf_ledgerPath cfg) (cf_idemTTL cfg) runID)"
proof -
  let ?ps = "sim_process hash polls reads rounds" and ?H = "config_held tot hash cfg runID st"
  let ?X = "exit_held tot hash (cf_ledgerPath cfg) (cf_idemTTL cfg) runID" and ?R = "some_held tot hash (cf_ledgerPath cfg) (cf_idemTTL cfg) runID"
  let ?P = "result_held tot hash (cf_ledgerPath cfg) (cf_idemTTL cfg) runID"
  let ?l = "\<lambda>crash name. built_loop hash polls apiKey cfg runID crash name"
  have resumed: "judged tot ?H (drive rounds (?l crash name) ctx st) ?P ?R"
    if "\<not> isEmpty st" "length (s_seen st) + 2 * rounds < 2 ^ 63" for crash name
  proof -
    note jl = sim_journaled_loop [OF assms(1), of hash polls apiKey runID crash name]
    have room: "journaled_loop.room (2 * rounds) st" using that(2) by (simp add: journaled_loop.room_def [OF jl])
    have "prompt polls cfg \<and> rounds_left max_uses st < rounds" if tot using fuel that \<open>\<not> isEmpty st\<close> by (simp add: enough_def)
    then show ?thesis
      using ending_loop.drive_total [OF sim_ending_loop [OF assms(1)] that(1) room]
        journaled_loop.drive_triple [OF jl that(1) room]
      by (intro loop_judged [OF assms(1), where crash = crash and name = name and polls = polls and apiKey = apiKey]) blast+
  qed
  have fresh: "judged tot (config_held tot hash cfg runID RunState_zero) (Loop_Run rounds (?l crash name) ctx task) ?P ?R"
    if "2 * rounds + 1 < 2 ^ 63" "st = RunState_zero" for crash name task
  proof -
    note jl = sim_journaled_loop [OF assms(1), of hash polls apiKey runID crash name]
    have ms: "lp_maxSteps (?l crash name) = maxSteps" "in64 maxSteps"
      by (simp_all add: built_loop_def maxSteps_def in64_def min64_def max64_def)
    have "isEmpty RunState_zero" by (simp add: isEmpty_iff) (simp add: RunState_zero_def)
    then have "prompt polls cfg \<and> (nat (lp_maxSteps (?l crash name)) + 1) * Suc max_uses < rounds" if tot
      using fuel that \<open>st = RunState_zero\<close> by (simp add: enough_def ms)
    then show ?thesis
      using ending_loop.Loop_Run_total [OF sim_ending_loop [OF assms(1)] _ that(1), of polls hash apiKey runID crash name]
        journaled_loop.Loop_Run_triple [OF jl _ that(1)] ms
      by (intro loop_judged [OF assms(1), where crash = crash and name = name and polls = polls and apiKey = apiKey]) auto
  qed
  have ne: "\<not> isEmpty st \<Longrightarrow> st \<noteq> RunState_zero" by (auto simp: isEmpty_iff RunState_zero_def)
  have loop: "judged tot ?H (pbind (if cf_resumeRunID cfg \<noteq> [] then Resume rounds (?l crash name) ctx st
         else Loop_Run rounds (?l crash name) ctx \<lparr>tk_Prompt = fakeTaskPrompt\<rparr>) (exitCodeFor ?ps)) ?X ?R" for crash name
    unfolding Resume_def
    by (rule judged_bind [OF _ exit_triple]) (use assms(3,4) resumed fresh ne in auto)
  have pid: "judged tot ?H (rt_Getpid sim_runtime) (\<lambda>_. ?H) ?R"
    by (rule judged_conseq [OF looks_triple [OF runtime_looks(4) steady_held]]) (auto intro: held_some)
  have bad: "judged tot ?H (pbind (complain ?ps pre err) (\<lambda>_. preturn exitFailed)) ?X ?R" for pre err
    by (rule judged_bind [OF judged_conseq [OF looks_triple [OF looks_complain steady_held]] judged_return])
      (auto intro: held_some exit_failed simp: exit_defs)
  have ps: "ps_kafka ?ps = sim_kafka" "ps_hash ?ps = hash" "ps_rounds ?ps = rounds" by (simp_all add: sim_process_def)
  show ?thesis
  proof (cases "ParseCrashSpec (cf_crashSpec cfg)")
    case (Inl err)
    show ?thesis
      unfolding run_task_def ps buildLoop_sim Inl sum.case pbind_preturn by (rule bad)
  next
    case (Inr crash)
    have assoc: "pbind (pbind m (\<lambda>x. preturn (f x))) g = pbind m (\<lambda>x. g (f x))" for m :: "(world, int) prog" and f :: "int \<Rightarrow> goerror + world Loop" and g :: "goerror + world Loop \<Rightarrow> (world, int) prog"
      by (rule ext) (simp add: pbind_def split: prod.split exec.split)
    show ?thesis
      unfolding run_task_def ps buildLoop_sim Inr sum.case assoc by (rule judged_bind [OF pid loop])
  qed
qed

lemma run_worker_triple:
  assumes start: "judged tot P (startingState (sim_process hash polls reads rounds) ctx cfg)
      (\<lambda>r w. config_held tot hash cfg runID st w \<and> start_ok' r) (some_held tot hash (cf_ledgerPath cfg) (cf_idemTTL cfg) runID)"
    and task: "\<And>rid st'. start_ok' (Inr (rid, st')) \<Longrightarrow> judged tot (config_held tot hash cfg runID st)
      (run_task (sim_process hash polls reads rounds) ctx apiKey cfg rid st')
      (exit_held tot hash (cf_ledgerPath cfg) (cf_idemTTL cfg) runID) (some_held tot hash (cf_ledgerPath cfg) (cf_idemTTL cfg) runID)"
    and code: "\<And>code. start_ok' (Inl code) \<Longrightarrow> code \<noteq> exitFenceUnavailable \<and> (code = exitOK \<longrightarrow> s_Status st = StatusCompleted)"
    and P: "steady P" "\<And>w. P w \<Longrightarrow> config_held tot hash cfg runID st w"
  shows "judged tot P (run_worker (sim_process hash polls reads rounds) ctx apiKey cfg)
    (exit_held tot hash (cf_ledgerPath cfg) (cf_idemTTL cfg) runID) (some_held tot hash (cf_ledgerPath cfg) (cf_idemTTL cfg) runID)"
proof -
  let ?ps = "sim_process hash polls reads rounds"
  let ?X = "exit_held tot hash (cf_ledgerPath cfg) (cf_idemTTL cfg) runID" and ?R = "some_held tot hash (cf_ledgerPath cfg) (cf_idemTTL cfg) runID"
  have lk: "judged tot P m (\<lambda>_. P) ?R" if "looks m" for m
    by (rule judged_conseq [OF looks_triple [OF that P(1)]]) (auto dest: P(2) held_some)
  have bad: "judged tot P (pbind (complain ?ps pre err) (\<lambda>_. preturn exitFailed)) ?X ?R" for pre err
    by (rule judged_bind [OF lk [OF looks_complain] judged_return])
      (auto dest: P(2) intro: exit_failed simp: exit_defs)
  have go: "judged tot (\<lambda>w. config_held tot hash cfg runID st w \<and> start_ok' r) (case r of
             Inl code \<Rightarrow> preturn code
           | Inr (rid, state) \<Rightarrow> deferring (close_publisher ?ps) (run_task ?ps ctx apiKey cfg rid state)) ?X ?R" for r
  proof (rule judged_fact [where F = "start_ok' r"], simp)
    assume ok: "start_ok' r"
    show "judged tot (\<lambda>w. config_held tot hash cfg runID st w \<and> start_ok' r) (case r of
             Inl code \<Rightarrow> preturn code
           | Inr (rid, state) \<Rightarrow> deferring (close_publisher ?ps) (run_task ?ps ctx apiKey cfg rid state)) ?X ?R"
    proof (cases r)
      case (Inl c)
      show ?thesis unfolding Inl sum.case by (rule judged_return) (use code ok Inl in \<open>auto simp: exit_held_def\<close>)
    next
      case (Inr p)
      obtain rid state where p: "p = (rid, state)" by (cases p)
      have "judged tot (config_held tot hash cfg runID st) (deferring (close_publisher ?ps) (run_task ?ps ctx apiKey cfg rid state)) ?X ?R"
        by (rule deferring_looks [OF task looks_closes(2) steady_exit]) (use ok Inr p in \<open>auto intro: exit_some\<close>)
      then show ?thesis unfolding Inr p sum.case prod.case by (rule judged_pre) simp
    qed
  qed
  have ping: "judged tot P (pbind (pingRedis ?ps ctx (cf_redisAddr cfg)) (\<lambda>ping. case ping of
           Inl err \<Rightarrow> pbind (complain ?ps (pre err) err) (\<lambda>_. preturn exitFailed)
         | Inr _ \<Rightarrow> pbind (startingState ?ps ctx cfg) (\<lambda>start. case start of
             Inl code \<Rightarrow> preturn code
           | Inr (rid, state) \<Rightarrow> deferring (close_publisher ?ps) (run_task ?ps ctx apiKey cfg rid state)))) ?X ?R" for pre
    by (rule judged_bind [OF lk [OF looks_ping]], rule judged_sum [OF bad judged_bind [OF start go]])
  have ps: "ps_kafka ?ps = sim_kafka" by (simp add: sim_process_def)
  show ?thesis
    unfolding run_worker_def ps
    by (rule judged_bind [OF lk [OF looks_topics]], rule judged_sum [OF bad])
      (rule deferring_looks [OF ping looks_closes(1) steady_exit exit_some])
qed

text \<open>A fresh process, and one that resumes the run.\<close>

lemma worker_fresh:
  assumes "sound cfg" and "cf_resumeRunID cfg = []" and "2 * rounds + 1 < 2 ^ 63" and "enough tot polls rounds cfg RunState_zero"
  shows "judged tot (\<lambda>w. config_held tot hash cfg runID RunState_zero w \<and> runID = token (w_fresh w))
    (run_worker (sim_process hash polls reads rounds) ctx apiKey cfg)
    (exit_held tot hash (cf_ledgerPath cfg) (cf_idemTTL cfg) runID) (some_held tot hash (cf_ledgerPath cfg) (cf_idemTTL cfg) runID)"
  by (rule run_worker_triple [where start_ok' = "\<lambda>r. r = Inr (runID, RunState_zero)", OF start_fresh [OF assms(2)]])
    (auto intro!: run_task_triple assms steady_conj steady_held steady_fresh simp: assms(2))

lemma worker_resumed:
  assumes "sound cfg" and "cf_resumeRunID cfg = runID" and "runID \<noteq> []" and "2 * rounds < 2 ^ 62"
    and "enough tot polls rounds cfg st" and "tot \<Longrightarrow> cf_brokers cfg \<noteq> []"
  shows "judged tot (\<lambda>w. config_held tot hash cfg runID st w \<and> readable tot hash runID reads w)
    (run_worker (sim_process hash polls reads rounds) ctx apiKey cfg)
    (exit_held tot hash (cf_ledgerPath cfg) (cf_idemTTL cfg) runID) (some_held tot hash (cf_ledgerPath cfg) (cf_idemTTL cfg) runID)"
proof (rule run_worker_triple [where start_ok' = "start_ok runID st", OF start_resumed [OF assms(2,3,6)]])
  show "judged tot (config_held tot hash cfg runID st) (run_task (sim_process hash polls reads rounds) ctx apiKey cfg rid st')
      (exit_held tot hash (cf_ledgerPath cfg) (cf_idemTTL cfg) runID) (some_held tot hash (cf_ledgerPath cfg) (cf_idemTTL cfg) runID)"
    if "start_ok runID st (Inr (rid, st'))" for rid st'
  proof -
    have "rid = runID" "st' = st" "\<not> isEmpty st" "length (s_seen st) < 2 ^ 62" using that by (simp_all add: start_ok_def)
    then show ?thesis using assms by (auto intro!: run_task_triple simp: isEmpty_iff RunState_zero_def)
  qed
qed (auto simp: start_ok_def intro: steady_held steady_conj steady_readable)

end
