(* ===== verification/Worker_Properties.thy ===== *)
theory Worker_Properties
  imports Sim_Runs
begin

text \<open>
  The life of a run: a fresh worker process, then any number of processes that resume it, each of which may
  be killed anywhere, with restarts in between. The properties are those a user of the runtime relies on.
\<close>

section \<open>Histories of worker processes\<close>

text \<open>Between two processes time passes, and the adversary, the model and the process's surroundings change.\<close>

definition restarted :: "nat \<Rightarrow> (mishap \<times> nat \<times> nat) list \<Rightarrow> nat \<Rightarrow> (string \<Rightarrow> string) \<Rightarrow> (int option + Message) list
    \<Rightarrow> world \<Rightarrow> world" where
  "restarted n sch pid env model w = tick n w\<lparr>w_schedule := sch, w_pid := pid, w_env := env, w_model := model\<rparr>"

text \<open>
  A configuration with a given ledger and TTL that starts the run, or resumes it. The history keeps how the last process ended.
\<close>

inductive worker_history :: "balancer \<Rightarrow> string \<Rightarrow> duration \<Rightarrow> string \<Rightarrow> world \<Rightarrow> int exec \<Rightarrow> world \<Rightarrow> bool"
  for hash path ttl runID w0 where
  fresh: "cf_ledgerPath cfg = path \<Longrightarrow> cf_idemTTL cfg = ttl \<Longrightarrow> cf_resumeRunID cfg = [] \<Longrightarrow> runID = token (w_fresh w0)
    \<Longrightarrow> 2 * rounds + 1 < 2 ^ 63 \<Longrightarrow> run_worker (sim_process hash polls reads rounds) ctx apiKey cfg w0 = (x, w)
    \<Longrightarrow> worker_history hash path ttl runID w0 x w"
| resume: "worker_history hash path ttl runID w0 x w
    \<Longrightarrow> cf_ledgerPath cfg = path \<Longrightarrow> cf_idemTTL cfg = ttl \<Longrightarrow> cf_resumeRunID cfg = runID
    \<Longrightarrow> 2 * rounds < 2 ^ 62 \<Longrightarrow> run_worker (sim_process hash polls reads rounds) ctx apiKey cfg w = (x', w')
    \<Longrightarrow> worker_history hash path ttl runID w0 x' w'"
| restart: "worker_history hash path ttl runID w0 x w
    \<Longrightarrow> worker_history hash path ttl runID w0 x (restarted n sch pid env model w)"

text \<open>Before the run: no event of it, nothing in Redis and nothing in the ledger under its keys.\<close>

definition unused_run :: "balancer \<Rightarrow> string \<Rightarrow> string \<Rightarrow> world \<Rightarrow> bool" where
  "unused_run hash path runID w \<longleftrightarrow> logged hash runID w = [] \<and> (\<forall>n tid. w_redis w (Key runID (int n + 1) tid) = None
     \<and> effects_under path (Key runID (int n + 1) tid) w = 0)"

lemma unused_held: "unused_run hash path runID w \<Longrightarrow> (tot \<Longrightarrow> on_time path w) \<Longrightarrow> sim_held tot hash path ttl runID RunState_zero w"
proof -
  have "isEmpty RunState_zero" by (simp add: isEmpty_iff) (simp add: RunState_zero_def)
  then show "unused_run hash path runID w \<Longrightarrow> (tot \<Longrightarrow> on_time path w) \<Longrightarrow> sim_held tot hash path ttl runID RunState_zero w"
    by (simp add: sim_held_def unused_run_def tied_zero no_trace_def sim_views_def sim_view_def)
qed

lemma restarted_held:
  assumes "sim_held False hash path ttl runID st w"
  shows "sim_held False hash path ttl runID st (restarted n sch pid env model w)"
proof (rule held_closed [OF assms])
  have "sim_view path key (restarted n sch pid env model w) = sim_view path key (tick n w)" for key
    by (simp add: restarted_def sim_view_def effects_under_def)
  then show "all_calm (sim_views path w) (sim_views path (restarted n sch pid env model w))"
    by (simp add: all_calm_def sim_views_def tick_calm)
qed (simp add: restarted_def tick_def)

lemma history_held:
  assumes "worker_history hash path ttl runID w0 x w" and "unused_run hash path runID w0"
    and "ExpiryMargin < ttl" and "ttl \<le> max64"
  shows "some_held False hash path ttl runID w \<and> (\<forall>code. x = Done code \<longrightarrow> exit_held False hash path ttl runID code w)"
  using assms(1)
proof induction
  case (fresh cfg rounds polls reads ctx apiKey x w)
  then have s: "sound cfg" using assms(3,4) by (simp add: sound_def)
  have pre: "config_held False hash cfg runID RunState_zero w0 \<and> runID = token (w_fresh w0)"
    using unused_held [OF assms(2)] fresh by simp
  have "enough False polls rounds cfg RunState_zero" by (simp add: enough_def)
  note tr = judgedD [OF worker_fresh [OF s fresh(3,5) this, of hash runID reads ctx apiKey]]
  show ?case
    using fresh(6) fresh(1,2) triple_DoneD [OF tr pre] triple_HaltD [OF tr pre] triple_FuelD [OF tr pre]
    by (cases x) (auto dest: exit_some)
next
  case (resume x w cfg rounds polls reads ctx apiKey x' w')
  then have s: "sound cfg" using assms(3,4) by (simp add: sound_def)
  obtain st where st: "config_held False hash cfg runID st w" using resume by (auto simp: some_held_def)
  have ne: "runID \<noteq> []" using resume.hyps(1) by induction (simp_all add: token_def)
  have "enough False polls rounds cfg st" by (simp add: enough_def)
  then have "judged False (\<lambda>w. config_held False hash cfg runID st w \<and> readable False hash runID reads w)
      (run_worker (sim_process hash polls reads rounds) ctx apiKey cfg)
      (exit_held False hash (cf_ledgerPath cfg) (cf_idemTTL cfg) runID) (some_held False hash (cf_ledgerPath cfg) (cf_idemTTL cfg) runID)"
    by (intro worker_resumed s resume(4,5) ne) simp_all
  note tr = judgedD [OF this]
  have st: "config_held False hash cfg runID st w \<and> readable False hash runID reads w"
    using st by (simp add: readable_def)
  show ?case
    using resume(6) resume(2,3) triple_DoneD [OF tr st] triple_HaltD [OF tr st] triple_FuelD [OF tr st]
    by (cases x') (auto dest: exit_some)
next
  case (restart x w n sch pid env model)
  then show ?case unfolding some_held_def exit_held_def by (blast intro: restarted_held)
qed

text \<open>
  C2. The journal of a run always replays: however often the worker is started again on a run, whatever the
  adversary refuses, drops or writes twice, wherever it kills the process and whatever the model answers,
  the events of the run on its partition are either none or fold without an error to a state of that run.
\<close>

theorem Worker_journal_replays:
  assumes "worker_history hash path ttl runID w0 x w" and "unused_run hash path runID w0"
    and "ExpiryMargin < ttl" and "ttl \<le> max64"
  shows "logged hash runID w = [] \<or> (\<exists>st. Fold sim_blocks (logged hash runID w) = Inr st \<and> s_RunID st = runID)"
proof -
  obtain st where "sim_held False hash path ttl runID st w"
    using history_held [OF assms] by (auto simp: some_held_def)
  then show ?thesis
    using Fold_nonempty [of sim_blocks "logged hash runID w" st] by (auto simp: sim_held_def Fold_def)
qed

text \<open>
  C1. No side effect happens twice, and the journal is the truth about each: after any such history, and for
  every call (numbered by step and tool use), the ledger holds at most one entry under the call's key. It
  holds none if the folded journal does not show the call invoked, or shows it without a side effect; and
  once the journal shows a result, that result is \<open>success\<close> and the entry is there, or \<open>error\<close> and it is not.
\<close>

theorem Worker_effects_journaled:
  assumes "worker_history hash path ttl runID w0 x w" and "unused_run hash path runID w0"
    and "ExpiryMargin < ttl" and "ttl \<le> max64"
  shows "let effects = effects_under path (Key runID (int n + 1) tid) w in
    effects \<le> 1 \<and> (\<forall>st. Fold sim_blocks (logged hash runID w) = Inr st \<longrightarrow>
      (case invocation_at st n tid of
         None \<Rightarrow> effects = 0
       | Some i \<Rightarrow> if in_hasSideEffect i
           then (\<forall>r. result_at st n tid = Some r \<longrightarrow>
             tr_Status r = ''success'' \<and> effects = 1 \<or> tr_Status r = ''error'' \<and> effects = 0)
           else effects = 0))"
proof -
  obtain st where h: "sim_held False hash path ttl runID st w"
    using history_held [OF assms] by (auto simp: some_held_def)
  then have ok: "call_ok (worker_registry sim_runtime path) runID ttl st (sim_views path w) n tid"
    by (simp add: sim_held_def tied_def)
  have same: "Fold sim_blocks (logged hash runID w) = Inr st' \<Longrightarrow> st' = st" for st'
    using h by (auto simp: sim_held_def dest: Fold_loopD)
  have e: "fv_effects (sim_views path w k) = effects_under path k w" for k by (simp add: sim_views_def sim_view_def)
  show ?thesis
    using ok same e [of "Key runID (int n + 1) tid"]
    by (auto simp: call_ok_def Let_def no_trace_def told_def safe_def split: option.splits)
qed

text \<open>
  C3. The exit code tells the truth: a worker process that ends with code 0 has left a journal that folds to
  a completed run, and one that ends with code 4 (the fence was unavailable, or an outcome is unknown) has
  left the run without a terminal event, so that it can be resumed.
\<close>

theorem Worker_exit_code:
  assumes "worker_history hash path ttl runID w0 x w" and "unused_run hash path runID w0"
    and "ExpiryMargin < ttl" and "ttl \<le> max64"
  shows "\<exists>st. fold_loop sim_blocks RunState_zero (logged hash runID w) = Inr st
    \<and> (x = Done 0 \<longrightarrow> s_Status st = StatusCompleted) \<and> (x = Done 4 \<longrightarrow> \<not> isTerminalStatus (s_Status st))"
proof -
  have "some_held False hash path ttl runID w \<and> (\<forall>code. x = Done code \<longrightarrow> exit_held False hash path ttl runID code w)"
    by (rule history_held [OF assms])
  then show ?thesis by (cases x) (auto simp: some_held_def exit_held_def sim_held_def exit_defs)
qed


section \<open>Ending\<close>

lemma judged_run:
  assumes "judged True P m Q R" and "P w" and "m w = (x, w')" and "\<And>a. Q a w' \<Longrightarrow> R w'"
  shows "x \<noteq> OutOfFuel \<and> x \<noteq> Halt 2 \<and> R w'"
proof -
  have "case fst (m w) of Done _ \<Rightarrow> True | Halt c \<Rightarrow> c \<noteq> 2 | OutOfFuel \<Rightarrow> False"
    using judged_finishes [OF assms(1)] assms(2) by (simp add: finishes_def)
  moreover have "R w'"
    using judgedD [OF assms(1)] assms by (cases x) (blast dest: triple_DoneD triple_HaltD triple_FuelD)+
  ultimately show ?thesis using assms(3) by (cases x) auto
qed

text \<open>
  C5. A fresh worker process always ends: with its default timeouts, 151 polls for a claim and 11276 rounds
  are enough for it to return an exit code or to be killed, whatever the adversary and the model do. It does
  not wait for ever, and it never panics (exit status 2); and no claim is left that is dated in the future.
\<close>

theorem Worker_fresh_ends:
  assumes "unused_run hash path runID w" and "on_time path w" and "runID = token (w_fresh w)"
    and "cfg = default_config [] spec after" and "path = cf_ledgerPath cfg"
    and "run_worker (sim_process hash 151 reads 11276) ctx apiKey cfg w = (x, w')"
  shows "x \<noteq> OutOfFuel \<and> x \<noteq> Halt 2 \<and> on_time path w'"
proof -
  have s: "sound cfg" "cf_resumeRunID cfg = []" by (simp add: assms(4)) (simp add: assms(4) default_config_def)
  have z: "isEmpty RunState_zero" by (simp add: isEmpty_iff) (simp add: RunState_zero_def)
  have "prompt 151 cfg"
    by (simp add: assms(4) prompt_def default_config_def defaultToolTimeout_def DefaultStaleGrace_def Minute_def Second_def wrap64_def)
  then have e: "enough True 151 11276 cfg RunState_zero"
    using z by (simp add: enough_def maxSteps_def max_uses_def maxTokens_def)
  have h: "config_held True hash cfg runID RunState_zero w \<and> runID = token (w_fresh w)"
    using unused_held [OF assms(1)] assms(2,3,5) by simp
  have "x \<noteq> OutOfFuel \<and> x \<noteq> Halt 2 \<and> some_held True hash (cf_ledgerPath cfg) (cf_idemTTL cfg) runID w'"
    by (rule judged_run [OF worker_fresh [OF s _ e] h assms(6) exit_some]) simp_all
  then show ?thesis by (auto simp: some_held_def sim_held_def assms(5))
qed

text \<open>
  C4. A worker process that resumes a run always ends too, from any world such a run can be left in, if it
  may read as many messages as the run's partition holds, poll for the time a claim takes to go stale, and
  take one round more than the steps and tool uses the folded run has left.
\<close>

theorem Worker_resume_ends:
  assumes "worker_history hash path ttl runID w0 y w" and "unused_run hash path runID w0"
    and "ExpiryMargin < ttl" and "ttl \<le> max64" and "on_time path w"
    and "cf_ledgerPath cfg = path" and "cf_idemTTL cfg = ttl" and "cf_resumeRunID cfg = runID" and "cf_brokers cfg \<noteq> []"
    and "prompt polls cfg" and "length (w_topic w (PartitionFor hash runID RunEventsPartitions)) \<le> reads"
    and "\<And>st. Fold sim_blocks (logged hash runID w) = Inr st \<Longrightarrow> rounds_left max_uses st < rounds"
    and "11275 < rounds" and "2 * rounds < 2 ^ 62"
    and "run_worker (sim_process hash polls reads rounds) ctx apiKey cfg w = (x, w')"
  shows "x \<noteq> OutOfFuel \<and> x \<noteq> Halt 2 \<and> on_time path w'"
proof -
  have s: "sound cfg" using assms(3,4,7) by (simp add: sound_def)
  obtain st where st: "sim_held False hash path ttl runID st w"
    using history_held [OF assms(1-4)] by (auto simp: some_held_def)
  have ne: "runID \<noteq> []" using assms(1) by induction (simp_all add: token_def)
  have "rounds_left max_uses st < rounds" if "\<not> isEmpty st"
  proof (rule assms(12))
    have "logged hash runID w \<noteq> []"
      using that st isEmpty_iff [of RunState_zero] by (auto simp: sim_held_def RunState_zero_def)
    then show "Fold sim_blocks (logged hash runID w) = Inr st" using st by (simp add: Fold_def sim_held_def)
  qed
  then have e: "enough True polls rounds cfg st"
    using assms(10,13) by (simp add: enough_def maxSteps_def max_uses_def maxTokens_def)
  have h: "config_held True hash cfg runID st w \<and> readable True hash runID reads w"
    using st assms(5-7,11) by (simp add: sim_held_def readable_def)
  have "x \<noteq> OutOfFuel \<and> x \<noteq> Halt 2 \<and> some_held True hash (cf_ledgerPath cfg) (cf_idemTTL cfg) runID w'"
    by (rule judged_run [OF worker_resumed [OF s assms(8) ne assms(14) e assms(9)] h assms(15) exit_some])
  then show ?thesis by (auto simp: some_held_def sim_held_def assms(6))
qed


section \<open>Instances\<close>

text \<open>
  The model asks for a fix and then says it is done. The first process is killed in the middle of a call,
  after a publish was refused; the second one resumes.
\<close>

definition one_partition :: balancer where "one_partition key ps = 0"

definition sample_fix :: Message where
  "sample_fix = \<lparr>msg_Content = [Some (JObj [(''type'', JStr ''tool_use''), (''id'', JStr ''t1''),
     (''name'', JStr ''apply_fix''), (''input'', JObj [(''description'', JStr ''fix it'')])])], msg_StopReason = ''tool_use''\<rparr>"

definition sample_start :: world where
  "sample_start = (sample_world (replicate 13 (Smooth, 1, 0) @ [(Refuse, 0, 3)] @ replicate 40 (Smooth, 0, 1)
     @ [(KillAfter, 0, 0)]))\<lparr>w_model := [Inr sample_fix]\<rparr>"

definition sample_process :: "world process" where "sample_process = sim_process one_partition 151 1000 11276"

definition sample_crashed :: "int exec \<times> world" where
  "sample_crashed = run_worker sample_process Background ''key'' (default_config [] [] None) sample_start"

definition sample_resumed :: "int exec \<times> world" where
  "sample_resumed = run_worker sample_process Background ''key'' (default_config (token 0) [] None)
     (restarted 9 [] 8 (\<lambda>_. []) [] (snd sample_crashed))"

lemma sample_unused: "unused_run one_partition defaultLedgerPath (token 0) sample_start"
  by (simp add: unused_run_def logged_def run_log_def run_values_def sample_start_def sample_world_def effects_under_def)

lemma sample_start_fresh: "token 0 = token (w_fresh sample_start)"
  by (simp add: sample_start_def sample_world_def)

lemma sample_ttl: "ExpiryMargin < defaultIdemTTL" "defaultIdemTTL \<le> max64"
  by (simp_all add: defaultIdemTTL_def ExpiryMargin_def Hour_def Minute_def max64_def)

lemma default_fields [simp]: "cf_ledgerPath (default_config r s a) = defaultLedgerPath" "cf_idemTTL (default_config r s a) = defaultIdemTTL"
  "cf_resumeRunID (default_config r s a) = r" "cf_brokers (default_config r s a) = [defaultKafkaBrokers]"
  by (simp_all add: default_config_def)

lemma sample_crashed_history:
  "worker_history one_partition defaultLedgerPath defaultIdemTTL (token 0) sample_start (fst sample_crashed) (snd sample_crashed)"
  by (rule worker_history.fresh [where cfg = "default_config [] [] None", OF _ _ _ sample_start_fresh])
    (simp_all add: sample_crashed_def sample_process_def)

lemma sample_resumed_history:
  "worker_history one_partition defaultLedgerPath defaultIdemTTL (token 0) sample_start (fst sample_resumed) (snd sample_resumed)"
  by (rule worker_history.resume [where cfg = "default_config (token 0) [] None", OF worker_history.restart [OF sample_crashed_history]])
    (simp_all add: sample_resumed_def sample_process_def)

theorem Worker_journal_replays_witness:
  "logged one_partition (token 0) (snd sample_resumed) = []
   \<or> (\<exists>st. Fold sim_blocks (logged one_partition (token 0) (snd sample_resumed)) = Inr st \<and> s_RunID st = token 0)"
  by (rule Worker_journal_replays [OF sample_resumed_history sample_unused sample_ttl])

theorem Worker_effects_journaled_witness:
  "effects_under defaultLedgerPath (Key (token 0) 1 ''t1'') (snd sample_resumed) \<le> 1"
  using Worker_effects_journaled [OF sample_resumed_history sample_unused sample_ttl, of 0 "''t1''"]
  by (simp add: Let_def)

theorem Worker_exit_code_witness:
  "\<exists>st. fold_loop sim_blocks RunState_zero (logged one_partition (token 0) (snd sample_resumed)) = Inr st
    \<and> (fst sample_resumed = Done 0 \<longrightarrow> s_Status st = StatusCompleted)
    \<and> (fst sample_resumed = Done 4 \<longrightarrow> \<not> isTerminalStatus (s_Status st))"
  by (rule Worker_exit_code [OF sample_resumed_history sample_unused sample_ttl])

lemma sample_on_time: "on_time path sample_start"
  by (simp add: on_time_def punctual_def key_holds_def sim_view_def sample_start_def sample_world_def)

theorem Worker_fresh_ends_witness: "fst sample_crashed \<noteq> OutOfFuel \<and> fst sample_crashed \<noteq> Halt 2"
  using Worker_fresh_ends [OF sample_unused sample_on_time sample_start_fresh, where cfg = "default_config [] [] None"
      and x = "fst sample_crashed" and w' = "snd sample_crashed" and reads = 1000 and ctx = Background and apiKey = "''key''"]
  by (simp add: sample_crashed_def sample_process_def)


text \<open>A process that is killed at its first call, and the one that resumes its run: there is nothing to resume.\<close>

definition sample_killed :: world where "sample_killed = sample_start\<lparr>w_schedule := []\<rparr>"

lemma sample_killed_run:
  "run_worker sample_process Background ''key'' (default_config [] [] None) (sample_start\<lparr>w_schedule := [(KillBefore, 0, 0)]\<rparr>)
    = (Halt 137, sample_killed)"
  by (simp add: run_worker_def EnsureTopics_def pbindM_def pbind_def sample_process_def sim_process_def sim_kafka_def
      external_def next_event_def tick_def sample_killed_def sample_start_def)

lemma sample_killed_history:
  "worker_history one_partition defaultLedgerPath defaultIdemTTL (token 0)
    (sample_start\<lparr>w_schedule := [(KillBefore, 0, 0)]\<rparr>) (Halt 137) sample_killed"
  by (rule worker_history.fresh [where cfg = "default_config [] [] None", OF _ _ _ _ _ sample_killed_run [unfolded sample_process_def]])
    (simp_all add: sample_start_def sample_world_def)

theorem Worker_resume_ends_witness:
  "\<exists>x w'. run_worker sample_process Background ''key'' (default_config (token 0) [] None) sample_killed = (x, w')
    \<and> x \<noteq> OutOfFuel \<and> x \<noteq> Halt 2"
proof -
  obtain x w' where run: "run_worker sample_process Background ''key'' (default_config (token 0) [] None) sample_killed = (x, w')"
    by fastforce
  have u: "unused_run one_partition defaultLedgerPath (token 0) (sample_start\<lparr>w_schedule := [(KillBefore, 0, 0)]\<rparr>)"
    using sample_unused by (simp add: unused_run_def logged_def effects_under_def)
  have t: "on_time defaultLedgerPath sample_killed"
    by (simp add: on_time_def punctual_def key_holds_def sim_view_def sample_killed_def sample_start_def sample_world_def)
  have e: "w_topic sample_killed = (\<lambda>_. [])" by (simp add: sample_killed_def sample_start_def sample_world_def)
  have p: "prompt 151 (default_config (token 0) [] None)"
    by (simp add: prompt_def default_config_def defaultToolTimeout_def DefaultStaleGrace_def Minute_def Second_def wrap64_def)
  have "x \<noteq> OutOfFuel \<and> x \<noteq> Halt 2 \<and> on_time defaultLedgerPath w'"
    by (rule Worker_resume_ends [OF sample_killed_history u sample_ttl t _ _ _ _ p _ _ _ _ run [unfolded sample_process_def]])
      (simp_all add: e logged_def run_log_def run_values_def Fold_def)
  with run show ?thesis by blast
qed

end
