(* ===== verification/Store.thy ===== *)
theory Store
  imports Tools Fold
begin

text \<open>
  \<open>internal/store\<close>: the Postgres projection of the journal. The tables of \<open>001_init.sql\<close> are a record, each SQL
  statement of \<open>projection.go\<close> and \<open>reader.go\<close> a function on them, and the \<open>pgx\<close> pool a record of the calls made
  on it. How Postgres converts a parameter to a column's type is the parameter \<open>pg_types\<close>: it answers the value
  the column then holds, or the SQLSTATE code of the error.
\<close>

section \<open>Errors (errors.go)\<close>

fun pg_code :: "sentinel list \<Rightarrow> string option" where
  "pg_code [] = None"
| "pg_code (SPgError code # xs) = Some code"
| "pg_code (_ # xs) = pg_code xs"

text \<open>\<open>errors.As(err, &pgErr)\<close>, and the code of the error found.\<close>

definition errors_As_PgError :: "goerror \<Rightarrow> string option" where
  "errors_As_PgError err = pg_code (err_chain err)"

text \<open>\<open>None\<close> is the slice panic on a code of fewer than two characters.\<close>

definition IsTransientError :: "goerror \<Rightarrow> bool option" where
  "IsTransientError err = (case errors_As_PgError err of
     None \<Rightarrow> Some True
   | Some code \<Rightarrow> if length code < 2 then None
       else Some (take 2 code \<in> {''08'', ''53'', ''57'', ''40''}))"


section \<open>Mapping (mapping.go)\<close>

definition statusForEvent :: "EventType \<Rightarrow> string" where
  "statusForEvent t =
     (if t = EventAwaitingApproval then RunStatus_string StatusAwaitingApproval
      else if t = EventRunCompleted then RunStatus_string StatusCompleted
      else if t = EventRunFailed then RunStatus_string StatusFailed
      else if t = EventRunCancelled then RunStatus_string StatusCancelled
      else RunStatus_string StatusRunning)"

primrec stepFromPayload :: "Payload \<Rightarrow> int option" where
  "stepFromPayload (PRunStarted p) = None"
| "stepFromPayload (PLLMResponded p) = Some (lr_Step p)"
| "stepFromPayload (PToolInvoked p) = Some (ti_Step p)"
| "stepFromPayload (PToolResulted p) = Some (tr_Step p)"
| "stepFromPayload (PAwaitingApproval p) = Some (aa_Step p)"
| "stepFromPayload (PRunApproved p) = Some (ra_Step p)"
| "stepFromPayload (PRunCompleted p) = None"
| "stepFromPayload (PRunFailed p) = Some (rf_Step p)"
| "stepFromPayload (PRunCancelled p) = Some (rx_Step p)"


section \<open>The tables (migrations/001_init.sql)\<close>

text \<open>The rows of \<open>events\<close> are kept in the order of their serial \<open>id\<close>.\<close>

record event_row =
  ev_event_id :: string
  ev_run_id :: string
  ev_tenant_id :: string
  ev_sequence_number :: int
  ev_event_type :: string
  ev_payload :: json
  ev_occurred_at :: gotime
  ev_idempotency_key :: "string option"

record run_row =
  rn_tenant_id :: string
  rn_workload_type :: string
  rn_status :: string
  rn_current_step :: int
  rn_created_at :: gotime
  rn_updated_at :: gotime
  rn_last_event_id :: string

record tables =
  tb_events :: "event_row list"
  tb_runs :: "string \<Rightarrow> run_row option"

text \<open>\<open>CREATE TABLE IF NOT EXISTS\<close>: \<open>None\<close> is a database without the tables.\<close>

definition initSchema :: "tables option \<Rightarrow> tables option" where
  "initSchema db = (case db of
     None \<Rightarrow> Some \<lparr>tb_events = [], tb_runs = (\<lambda>_. None)\<rparr> | Some T \<Rightarrow> Some T)"

record pg_types =
  pt_uuid :: "string \<Rightarrow> string + string"
  pt_text :: "string \<Rightarrow> string + string"
  pt_int4 :: "int \<Rightarrow> string + int"
  pt_jsonb :: "raw \<Rightarrow> string + json"
  pt_timestamptz :: "gotime \<Rightarrow> string + gotime"

text \<open>A nil pointer is stored as \<open>NULL\<close>.\<close>

definition nullable :: "('a \<Rightarrow> string + 'b) \<Rightarrow> 'a option \<Rightarrow> string + 'b option" where
  "nullable convert v = (case v of None \<Rightarrow> Inr None | Some x \<Rightarrow> map_sum id Some (convert x))"

definition bindS :: "string + 'a \<Rightarrow> ('a \<Rightarrow> string + 'b) \<Rightarrow> string + 'b" where
  "bindS r f = (case r of Inl code \<Rightarrow> Inl code | Inr a \<Rightarrow> f a)"


section \<open>The statements (projection.go, reader.go)\<close>

definition event_row_of :: "pg_types \<Rightarrow> Envelope \<Rightarrow> string + event_row" where
  "event_row_of ty e =
     bindS (pt_uuid ty (EventID e)) (\<lambda>event_id.
     bindS (pt_uuid ty (RunID e)) (\<lambda>run_id.
     bindS (pt_text ty (TenantID e)) (\<lambda>tenant_id.
     bindS (pt_int4 ty (SequenceNumber e)) (\<lambda>seq.
     bindS (pt_text ty (EventType_of e)) (\<lambda>event_type.
     bindS (pt_jsonb ty (PayloadRaw e)) (\<lambda>payload.
     bindS (pt_timestamptz ty (OccurredAt e)) (\<lambda>occurred_at.
     bindS (nullable (pt_text ty) (IdempotencyKey e)) (\<lambda>key.
     Inr \<lparr>ev_event_id = event_id, ev_run_id = run_id, ev_tenant_id = tenant_id,
       ev_sequence_number = seq, ev_event_type = event_type, ev_payload = payload,
       ev_occurred_at = occurred_at, ev_idempotency_key = key\<rparr>))))))))"

definition same_slot :: "event_row \<Rightarrow> event_row \<Rightarrow> bool" where
  "same_slot row r \<longleftrightarrow> ev_run_id r = ev_run_id row \<and> ev_sequence_number r = ev_sequence_number row"

text \<open>
  \<open>INSERT INTO events ... ON CONFLICT (run_id, sequence_number) DO NOTHING\<close>: the number of rows inserted. A row
  that takes no slot twice but repeats an \<open>event_id\<close> violates the other unique constraint.
\<close>

definition insert_event :: "pg_types \<Rightarrow> tables \<Rightarrow> Envelope \<Rightarrow> string + nat \<times> tables" where
  "insert_event ty T e = bindS (event_row_of ty e) (\<lambda>row.
     if list_ex (same_slot row) (tb_events T) then Inr (0, T)
     else if list_ex (\<lambda>r. ev_event_id r = ev_event_id row) (tb_events T) then Inl ''23505''
     else Inr (1, T\<lparr>tb_events := tb_events T @ [row]\<rparr>))"

text \<open>\<open>SELECT event_id FROM events WHERE run_id = $1 AND sequence_number = $2\<close>.\<close>

definition select_event_id :: "pg_types \<Rightarrow> tables \<Rightarrow> string \<Rightarrow> int \<Rightarrow> string + string option" where
  "select_event_id ty T runID seq =
     bindS (pt_uuid ty runID) (\<lambda>run_id. bindS (pt_int4 ty seq) (\<lambda>n.
     Inr (map_option ev_event_id
       (find (\<lambda>r. ev_run_id r = run_id \<and> ev_sequence_number r = n) (tb_events T)))))"

record run_args =
  ua_RunID :: string
  ua_TenantID :: string
  ua_workloadType :: string
  ua_status :: string
  ua_step :: "int option"
  ua_OccurredAt :: gotime
  ua_EventID :: string

definition coalesce :: "'a option \<Rightarrow> 'a \<Rightarrow> 'a" where
  "coalesce v def = (case v of None \<Rightarrow> def | Some x \<Rightarrow> x)"

text \<open>\<open>INSERT INTO runs ... ON CONFLICT (run_id) DO UPDATE\<close>.\<close>

definition upsert_run :: "pg_types \<Rightarrow> tables \<Rightarrow> run_args \<Rightarrow> string + tables" where
  "upsert_run ty T a =
     bindS (pt_uuid ty (ua_RunID a)) (\<lambda>run_id.
     bindS (pt_text ty (ua_TenantID a)) (\<lambda>tenant_id.
     bindS (pt_text ty (ua_workloadType a)) (\<lambda>workload_type.
     bindS (pt_text ty (ua_status a)) (\<lambda>status.
     bindS (nullable (pt_int4 ty) (ua_step a)) (\<lambda>step.
     bindS (pt_timestamptz ty (ua_OccurredAt a)) (\<lambda>occurred_at.
     bindS (pt_uuid ty (ua_EventID a)) (\<lambda>event_id.
     let row = (case tb_runs T run_id of
         None \<Rightarrow> \<lparr>rn_tenant_id = tenant_id, rn_workload_type = workload_type, rn_status = status,
           rn_current_step = coalesce step 0, rn_created_at = occurred_at, rn_updated_at = occurred_at,
           rn_last_event_id = event_id\<rparr>
       | Some old \<Rightarrow> old\<lparr>rn_status := status, rn_current_step := coalesce step (rn_current_step old),
           rn_updated_at := occurred_at, rn_last_event_id := event_id\<rparr>)
     in Inr (T\<lparr>tb_runs := (tb_runs T)(run_id \<mapsto> row)\<rparr>))))))))"

text \<open>\<open>SELECT ... FROM events WHERE run_id = $1 ORDER BY sequence_number\<close>.\<close>

definition select_events :: "pg_types \<Rightarrow> tables \<Rightarrow> string \<Rightarrow> string + event_row list" where
  "select_events ty T runID = bindS (pt_uuid ty runID) (\<lambda>run_id.
     Inr (sort_key ev_sequence_number (filter (\<lambda>r. ev_run_id r = run_id) (tb_events T))))"


section \<open>The client\<close>

text \<open>
  A transaction is a handle. A query for events answers the rows that \<open>Next\<close> and \<open>Scan\<close> step through, each
  with its scan error if it has one, and what \<open>Err\<close> says at the end.
\<close>

record 's pg_client =
  pg_ExecSchema :: "ctx \<Rightarrow> ('s, goerror + unit) prog"
  pg_Begin :: "ctx \<Rightarrow> ('s, goerror + nat) prog"
  pg_InsertEvent :: "nat \<Rightarrow> ctx \<Rightarrow> Envelope \<Rightarrow> ('s, goerror + nat) prog"
  pg_SelectEventID :: "nat \<Rightarrow> ctx \<Rightarrow> string \<Rightarrow> int \<Rightarrow> ('s, goerror + string) prog"
  pg_UpsertRun :: "nat \<Rightarrow> ctx \<Rightarrow> run_args \<Rightarrow> ('s, goerror + unit) prog"
  pg_Commit :: "nat \<Rightarrow> ctx \<Rightarrow> ('s, goerror + unit) prog"
  pg_Rollback :: "nat \<Rightarrow> ctx \<Rightarrow> ('s, goerror + unit) prog"
  pg_SelectEvents :: "ctx \<Rightarrow> string \<Rightarrow> ('s, goerror + (goerror + event_row) list \<times> (goerror + unit)) prog"

definition migrate :: "'s pg_client \<Rightarrow> ctx \<Rightarrow> ('s, goerror + unit) prog" where
  "migrate pg ctx = pbindM (pg_ExecSchema pg ctx) (wrapping ''running schema migration: '') (\<lambda>_. preturn (Inr ()))"

definition Projection_Migrate :: "'s pg_client \<Rightarrow> ctx \<Rightarrow> ('s, goerror + unit) prog" where
  "Projection_Migrate pg ctx = migrate pg ctx"


section \<open>Applying an event (projection.go)\<close>

definition run_args_of :: "Envelope \<Rightarrow> Payload \<Rightarrow> run_args" where
  "run_args_of e payload = \<lparr>ua_RunID = RunID e, ua_TenantID = TenantID e,
     ua_workloadType = (case payload of PRunStarted p \<Rightarrow> rs_WorkloadType p | _ \<Rightarrow> []),
     ua_status = statusForEvent (EventType_of e), ua_step = stepFromPayload payload,
     ua_OccurredAt = OccurredAt e, ua_EventID = EventID e\<rparr>"

definition upsertRun :: "'s pg_client \<Rightarrow> ctx \<Rightarrow> nat \<Rightarrow> Envelope \<Rightarrow> ('s, goerror + unit) prog" where
  "upsertRun pg ctx tx e = (case DecodePayload e of
     Inl err \<Rightarrow> preturn (Inl (Errorw ''decoding payload for runs upsert: '' err))
   | Inr payload \<Rightarrow>
     pbindM (pg_UpsertRun pg tx ctx (run_args_of e payload)) (wrapping (''upserting run '' @ RunID e @ '': ''))
       (\<lambda>_. preturn (Inr ())))"

definition run_seq :: "Envelope \<Rightarrow> string" where
  "run_seq e = ''run_id='' @ RunID e @ '' seq='' @ show_int (SequenceNumber e)"

definition checkExistingEvent :: "'s pg_client \<Rightarrow> ctx \<Rightarrow> nat \<Rightarrow> Envelope \<Rightarrow> ('s, goerror + unit) prog" where
  "checkExistingEvent pg ctx tx e =
     pbindM (pg_SelectEventID pg tx ctx (RunID e) (SequenceNumber e))
       (wrapping (''checking existing event at '' @ run_seq e @ '': '')) (\<lambda>existingEventID.
     if existingEventID \<noteq> EventID e
     then preturn (Inl (Errorw (run_seq e @ '' already holds event_id='' @ existingEventID
       @ '', got event_id='' @ EventID e @ '': '') ErrConflictingEvent))
     else pbindM (pg_Commit pg tx ctx) (wrapping ''committing no-op redelivery transaction: '')
       (\<lambda>_. preturn (Inr ())))"

definition ApplyEvent :: "'s pg_client \<Rightarrow> ctx \<Rightarrow> Envelope \<Rightarrow> ('s, goerror + bool) prog" where
  "ApplyEvent pg ctx e =
     pbindM (pg_Begin pg ctx) (wrapping ''beginning transaction: '') (\<lambda>tx.
     deferring (pbind (pg_Rollback pg tx ctx) (\<lambda>_. preturn ())) (
       pbindM (pg_InsertEvent pg tx ctx e)
         (wrapping (''inserting event '' @ EventID e @ '' ('' @ run_seq e @ ''): '')) (\<lambda>rowsAffected.
       if rowsAffected = 0
       then pbindE (checkExistingEvent pg ctx tx e) (\<lambda>_. preturn (Inr False))
       else pbindE (upsertRun pg ctx tx e) (\<lambda>_.
         pbindM (pg_Commit pg tx ctx) (wrapping ''committing transaction: '') (\<lambda>_. preturn (Inr True))))))"


section \<open>Reading a run back (reader.go)\<close>

definition scanned :: "event_row \<Rightarrow> Envelope" where
  "scanned r = \<lparr>EventID = ev_event_id r, RunID = ev_run_id r, TenantID = ev_tenant_id r,
     SequenceNumber = ev_sequence_number r, EventType_of = ev_event_type r,
     PayloadRaw = Some (ev_payload r), OccurredAt = ev_occurred_at r,
     IdempotencyKey = ev_idempotency_key r\<rparr>"

fun scan_loop :: "string \<Rightarrow> (goerror + event_row) list \<Rightarrow> Envelope list \<Rightarrow> goerror + Envelope list" where
  "scan_loop runID [] out = Inr out"
| "scan_loop runID (r # rows) out = (case r of
     Inl err \<Rightarrow> Inl (Errorw (''scanning event row for run '' @ runID @ '': '') err)
   | Inr row \<Rightarrow> scan_loop runID rows (out @ [scanned row]))"

definition EventReader_Events :: "'s pg_client \<Rightarrow> ctx \<Rightarrow> string \<Rightarrow> ('s, goerror + Envelope list) prog" where
  "EventReader_Events pg ctx runID =
     pbindM (pg_SelectEvents pg ctx runID) (wrapping (''querying events for run '' @ runID @ '': '')) (\<lambda>(rows, rowsErr).
     preturn (case scan_loop runID rows [] of
       Inl err \<Rightarrow> Inl err
     | Inr out \<Rightarrow> (case rowsErr of
         Inl err \<Rightarrow> Inl (Errorw (''reading event rows for run '' @ runID @ '': '') err)
       | Inr _ \<Rightarrow> if length out = 0 then Inl ErrRunNotFound else Inr out)))"

end
