(* ===== verification/Store_Facts.thy ===== *)
theory Store_Facts
  imports Store
begin

text \<open>
  What the projection promises, against an interface: a database whose transactions see the tables as they were
  when they began and take effect as a whole. Applying an event is atomic, a redelivered event changes nothing, and
  the reader gives back the rows.
\<close>

section \<open>Applying an event, as one step on the tables\<close>

definition apply_event :: "pg_types \<Rightarrow> tables \<Rightarrow> Envelope \<Rightarrow> (bool \<times> tables) option" where
  "apply_event ty T e = (case insert_event ty T e of
     Inl _ \<Rightarrow> None
   | Inr (n, T') \<Rightarrow>
     if n = 0 then (if select_event_id ty T' (RunID e) (SequenceNumber e) = Inr (Some (EventID e)) then Some (False, T') else None)
     else (case DecodePayload e of
       Inl _ \<Rightarrow> None
     | Inr p \<Rightarrow> (case upsert_run ty T' (run_args_of e p) of Inl _ \<Rightarrow> None | Inr T'' \<Rightarrow> Some (True, T''))))"

text \<open>The event's place in its run is taken by another event.\<close>

definition conflicting :: "pg_types \<Rightarrow> tables \<Rightarrow> Envelope \<Rightarrow> bool" where
  "conflicting ty T e \<longleftrightarrow> (\<exists>x. select_event_id ty T (RunID e) (SequenceNumber e) = Inr (Some x) \<and> x \<noteq> EventID e)"

lemma bindS_Inr: "bindS r f = Inr b \<longleftrightarrow> (\<exists>a. r = Inr a \<and> f a = Inr b)"
  by (cases r) (simp_all add: bindS_def)

lemma insert_eventD:
  assumes "insert_event ty T e = Inr (n, T')"
  obtains row where "event_row_of ty e = Inr row"
    "n = 0 \<and> T' = T \<and> list_ex (same_slot row) (tb_events T)
     \<or> n = 1 \<and> T' = T\<lparr>tb_events := tb_events T @ [row]\<rparr> \<and> \<not> list_ex (same_slot row) (tb_events T)
       \<and> \<not> list_ex (\<lambda>r. ev_event_id r = ev_event_id row) (tb_events T)"
  using assms by (auto simp: insert_event_def bindS_Inr split: if_splits)

lemma apply_event_skip: "apply_event ty T e = Some (False, T') \<Longrightarrow> T' = T"
  by (auto simp: apply_event_def split: sum.splits if_splits prod.splits elim!: insert_eventD)

section \<open>The database\<close>

locale postgres =
  fixes pg :: "'s pg_client" and ty :: pg_types and db :: "'s \<Rightarrow> tables option" and tx :: "'s \<Rightarrow> nat \<Rightarrow> tables option"
  assumes schema: "pg_ExecSchema pg c s = (r0, s') \<Longrightarrow> (db s' = db s \<or> db s' = initSchema (db s))
      \<and> (r0 = Done (Inr ()) \<longrightarrow> db s' = initSchema (db s))"
    and begin_tx: "pg_Begin pg c s = (r1, s') \<Longrightarrow> db s' = db s
      \<and> (\<forall>t. r1 = Done (Inr t) \<longrightarrow> tx s' t = db s) \<and> (\<forall>err. r1 = Done (Inl err) \<longrightarrow> \<not> errors_Is err SConflictingEvent)"
    and insert_tx: "pg_InsertEvent pg t c e s = (r2, s') \<Longrightarrow> db s' = db s
      \<and> (\<forall>n T. r2 = Done (Inr n) \<longrightarrow> tx s t = Some T \<longrightarrow> (\<exists>T'. insert_event ty T e = Inr (n, T') \<and> tx s' t = Some T'))
      \<and> (\<forall>err. r2 = Done (Inl err) \<longrightarrow> \<not> errors_Is err SConflictingEvent)"
    and select_tx: "pg_SelectEventID pg t c runID seq s = (r3, s') \<Longrightarrow> db s' = db s
      \<and> (\<forall>x T. r3 = Done (Inr x) \<longrightarrow> tx s t = Some T \<longrightarrow> select_event_id ty T runID seq = Inr (Some x) \<and> tx s' t = Some T)
      \<and> (\<forall>err. r3 = Done (Inl err) \<longrightarrow> \<not> errors_Is err SConflictingEvent)"
    and upsert_tx: "pg_UpsertRun pg t c a s = (r4, s') \<Longrightarrow> db s' = db s
      \<and> (\<forall>T. r4 = Done (Inr ()) \<longrightarrow> tx s t = Some T \<longrightarrow> (\<exists>T'. upsert_run ty T a = Inr T' \<and> tx s' t = Some T'))
      \<and> (\<forall>err. r4 = Done (Inl err) \<longrightarrow> \<not> errors_Is err SConflictingEvent)"
    and commit_tx: "pg_Commit pg t c s = (r5, s') \<Longrightarrow> tx s t = Some T \<Longrightarrow> (db s' = db s \<or> db s' = Some T)
      \<and> (r5 = Done (Inr ()) \<longrightarrow> db s' = Some T) \<and> (\<forall>err. r5 = Done (Inl err) \<longrightarrow> \<not> errors_Is err SConflictingEvent)"
    and rollback_tx: "db (snd (pg_Rollback pg t c s)) = db s"
    and select_rows: "pg_SelectEvents pg c runID s = (r6, s') \<Longrightarrow> db s' = db s
      \<and> (\<forall>rows T. r6 = Done (Inr (map Inr rows, Inr ())) \<longrightarrow> db s = Some T \<longrightarrow> select_events ty T runID = Inr rows)"
begin

text \<open>What an event applied leaves: the tables as they were, or with the event in.\<close>

definition in_or_out :: "tables \<Rightarrow> Envelope \<Rightarrow> 's \<Rightarrow> bool" where
  "in_or_out T e s \<longleftrightarrow> db s = Some T \<or> (\<exists>b T'. apply_event ty T e = Some (b, T') \<and> db s = Some T')"

definition apply_post :: "tables \<Rightarrow> Envelope \<Rightarrow> goerror + bool \<Rightarrow> 's \<Rightarrow> bool" where
  "apply_post T e r s \<longleftrightarrow> (case r of
     Inr b \<Rightarrow> \<exists>T'. apply_event ty T e = Some (b, T') \<and> db s = Some T'
   | Inl err \<Rightarrow> in_or_out T e s \<and> (errors_Is err SConflictingEvent \<longrightarrow> db s = Some T \<and> conflicting ty T e))"

text \<open>A triple from the law of a call: its three ways to end at once.\<close>

lemma call_triple:
  assumes "\<And>s r s'. P s \<Longrightarrow> m s = (r, s') \<Longrightarrow> R s' \<and> (\<forall>a. r = Done a \<longrightarrow> Q a s')"
  shows "triple P m Q R"
  by (rule tripleI) (use assms in blast)+

lemma begin_triple:
  "triple (\<lambda>s. db s = Some T) (pg_Begin pg c)
    (\<lambda>r s. db s = Some T \<and> (case r of Inl err \<Rightarrow> \<not> errors_Is err SConflictingEvent | Inr t \<Rightarrow> tx s t = Some T)) (in_or_out T e)"
  by (rule call_triple) (auto dest: begin_tx simp: in_or_out_def split: sum.split)

lemma insert_triple:
  "triple (\<lambda>s. db s = Some T \<and> tx s t = Some T) (pg_InsertEvent pg t c e)
    (\<lambda>r s. db s = Some T \<and> (case r of Inl err \<Rightarrow> \<not> errors_Is err SConflictingEvent
       | Inr n \<Rightarrow> \<exists>T'. insert_event ty T e = Inr (n, T') \<and> tx s t = Some T')) (in_or_out T e)"
  by (rule call_triple) (auto dest: insert_tx simp: in_or_out_def split: sum.split)

lemma select_triple:
  "triple (\<lambda>s. db s = Some T \<and> tx s t = Some T') (pg_SelectEventID pg t c runID seq)
    (\<lambda>r s. db s = Some T \<and> (case r of Inl err \<Rightarrow> \<not> errors_Is err SConflictingEvent
       | Inr x \<Rightarrow> select_event_id ty T' runID seq = Inr (Some x) \<and> tx s t = Some T')) (in_or_out T e)"
  by (rule call_triple) (auto dest: select_tx simp: in_or_out_def split: sum.split)

lemma upsert_triple:
  "triple (\<lambda>s. db s = Some T \<and> tx s t = Some T') (pg_UpsertRun pg t c a)
    (\<lambda>r s. db s = Some T \<and> (case r of Inl err \<Rightarrow> \<not> errors_Is err SConflictingEvent
       | Inr _ \<Rightarrow> \<exists>T''. upsert_run ty T' a = Inr T'' \<and> tx s t = Some T'')) (in_or_out T e)"
  by (rule call_triple) (auto dest: upsert_tx simp: in_or_out_def split: sum.split)

lemma commit_triple:
  "apply_event ty T e = Some (b, T')
    \<Longrightarrow> triple (\<lambda>s. db s = Some T \<and> tx s t = Some T') (pg_Commit pg t c)
      (\<lambda>r s. in_or_out T e s \<and> (case r of Inl err \<Rightarrow> \<not> errors_Is err SConflictingEvent | Inr _ \<Rightarrow> db s = Some T')) (in_or_out T e)"
  by (rule call_triple) (auto dest!: commit_tx simp: in_or_out_def split: sum.split)

lemma apply_failed: "in_or_out T e s \<Longrightarrow> \<not> errors_Is err SConflictingEvent \<Longrightarrow> apply_post T e (Inl err) s"
  by (simp add: apply_post_def)

lemma rollback_triple:
  assumes "triple P m (apply_post T e) (in_or_out T e)"
  shows "triple P (deferring (pbind (pg_Rollback pg t c) (\<lambda>_. preturn ())) m) (apply_post T e) (in_or_out T e)"
  unfolding deferring_def
proof (rule triple_bind [OF assms])
  fix r
  have db: "db s' = db s" if "pg_Rollback pg t c s = (x, s')" for s s' x using rollback_tx [of t c s] that by simp
  have "triple (apply_post T e r) (pg_Rollback pg t c) (\<lambda>_. apply_post T e r) (in_or_out T e)"
    by (rule call_triple) (auto dest!: db simp: apply_post_def in_or_out_def split: sum.splits)
  then show "triple (apply_post T e r) (pbind (pbind (pg_Rollback pg t c) (\<lambda>_. preturn ())) (\<lambda>_. preturn r)) (apply_post T e) (in_or_out T e)"
    by (intro triple_bind [where Q' = "\<lambda>_. apply_post T e r"] triple_return) simp_all
qed

lemma existing_triple:
  assumes "insert_event ty T e = Inr (0, T')"
  shows "triple (\<lambda>s. db s = Some T \<and> tx s t = Some T') (checkExistingEvent pg c t e)
    (\<lambda>r. apply_post T e (map_sum id (\<lambda>_. False) r)) (in_or_out T e)"
  unfolding checkExistingEvent_def
proof (rule triple_bindM [OF select_triple], goal_cases)
  case (1 err)
  show ?case by (auto simp: wrapping_def in_or_out_def intro!: triple_return apply_failed)
next
  case (2 x)
  have TT: "T' = T" using assms by (auto elim!: insert_eventD)
  show ?case
  proof (cases "x = EventID e")
    case False
    with TT show ?thesis by (auto simp: apply_post_def in_or_out_def conflicting_def intro!: triple_return)
  next
    case True
    have a: "apply_event ty T e = Some (False, T')" if "select_event_id ty T' (RunID e) (SequenceNumber e) = Inr (Some x)"
      using that True assms by (simp add: apply_event_def)
    show ?thesis
      by (rule triple_fact [where F = "apply_event ty T e = Some (False, T')"])
        (auto simp: True a wrapping_def apply_post_def intro!: triple_bindM [OF triple_pre [OF commit_triple]] triple_return)
  qed
qed

text \<open>A transaction that has inserted the event's row and is about to be committed with its run.\<close>

definition upserted :: "tables \<Rightarrow> tables \<Rightarrow> Envelope \<Rightarrow> nat \<Rightarrow> 's \<Rightarrow> bool" where
  "upserted T T' e t s \<longleftrightarrow> db s = Some T
     \<and> (\<exists>p T''. DecodePayload e = Inr p \<and> upsert_run ty T' (run_args_of e p) = Inr T'' \<and> tx s t = Some T'')"

lemma upsertRun_triple:
  "triple (\<lambda>s. db s = Some T \<and> tx s t = Some T') (upsertRun pg c t e)
    (\<lambda>r s. case r of Inl err \<Rightarrow> apply_post T e (Inl err) s | Inr _ \<Rightarrow> upserted T T' e t s) (in_or_out T e)"
proof (cases "DecodePayload e")
  case (Inl err)
  then have "\<not> errors_Is err SConflictingEvent"
    by (auto simp: DecodePayload_def Let_def unmarshalPayload_def ErrInvalidPayload_def ErrUnknownEventType_def
        split: if_splits sum.splits)
  then show ?thesis by (auto simp: upsertRun_def Inl in_or_out_def intro!: triple_return apply_failed)
next
  case (Inr p)
  show ?thesis
    unfolding upsertRun_def Inr sum.case
    by (rule triple_bindM [OF upsert_triple])
      (auto simp: wrapping_def in_or_out_def upserted_def Inr intro!: triple_return apply_failed)
qed

lemma inserted_triple:
  assumes "insert_event ty T e = Inr (n, T')" and "n \<noteq> 0"
  shows "triple (\<lambda>s. db s = Some T \<and> tx s t = Some T')
    (pbindE (upsertRun pg c t e) (\<lambda>_. pbindM (pg_Commit pg t c) (wrapping ''committing transaction: '') (\<lambda>_. preturn (Inr True))))
    (apply_post T e) (in_or_out T e)"
proof (rule triple_bindE [OF upsertRun_triple], goal_cases)
  case (2 a)
  have a: "apply_event ty T e = Some (True, T'') \<and> db s = Some T \<and> tx s t = Some T''"
    if "upserted T T' e t s" "tx s t = Some T''" for s T''
    using that assms by (auto simp: apply_event_def upserted_def)
  have "triple (\<lambda>s. upserted T T' e t s \<and> tx s t = Some T'')
      (pbindM (pg_Commit pg t c) (wrapping ''committing transaction: '') (\<lambda>_. preturn (Inr True))) (apply_post T e) (in_or_out T e)" for T''
  proof (rule triple_fact [where F = "apply_event ty T e = Some (True, T'')"])
    assume ap: "apply_event ty T e = Some (True, T'')"
    show "triple (\<lambda>s. upserted T T' e t s \<and> tx s t = Some T'')
        (pbindM (pg_Commit pg t c) (wrapping ''committing transaction: '') (\<lambda>_. preturn (Inr True))) (apply_post T e) (in_or_out T e)"
      by (rule triple_bindM [OF triple_pre [OF commit_triple [OF ap]]])
        (auto simp: wrapping_def ap apply_post_def upserted_def intro!: triple_return)
  qed (use a in blast)
  from triple_ex [OF this] show ?case by (rule triple_pre) (auto simp: upserted_def)
qed simp

lemma apply_triple: "triple (\<lambda>s. db s = Some T) (ApplyEvent pg c e) (apply_post T e) (in_or_out T e)"
  unfolding ApplyEvent_def
proof (rule triple_bindM [OF begin_triple], goal_cases)
  case (1 err)
  show ?case by (auto simp: wrapping_def in_or_out_def intro!: triple_return apply_failed)
next
  case (2 t)
  show ?case
  proof (rule rollback_triple, rule triple_bindM [OF triple_pre [OF insert_triple]], goal_cases)
    case (2 err)
    show ?case by (auto simp: wrapping_def in_or_out_def intro!: triple_return apply_failed)
  next
    case (3 n)
    show ?case
    proof (rule triple_fact [where F = "\<exists>T'. insert_event ty T e = Inr (n, T')"], simp, blast, elim exE)
      fix T' assume i: "insert_event ty T e = Inr (n, T')"
      have "triple (\<lambda>s. db s = Some T \<and> tx s t = Some T') (if n = 0 then pbindE (checkExistingEvent pg c t e) (\<lambda>_. preturn (Inr False))
          else pbindE (upsertRun pg c t e) (\<lambda>_. pbindM (pg_Commit pg t c) (wrapping ''committing transaction: '') (\<lambda>_. preturn (Inr True))))
          (apply_post T e) (in_or_out T e)"
      proof (rule triple_if)
        assume n: "n = 0"
        show "triple (\<lambda>s. db s = Some T \<and> tx s t = Some T') (pbindE (checkExistingEvent pg c t e) (\<lambda>_. preturn (Inr False)))
            (apply_post T e) (in_or_out T e)"
          by (rule triple_bindE [OF existing_triple [OF i [unfolded n]]]) (auto intro: triple_return)
      qed (rule inserted_triple [OF i])
      then show ?case by (rule triple_pre) (use i in auto)
    qed
  qed simp
qed

text \<open>A triple for every state of the tables, when they exist.\<close>

lemma migrate_triple:
  "triple (\<lambda>s. db s = d) (Projection_Migrate pg c)
    (\<lambda>r s. (db s = d \<or> db s = initSchema d) \<and> (r = Inr () \<longrightarrow> db s = initSchema d)) (\<lambda>s. db s = d \<or> db s = initSchema d)"
proof -
  have "triple (\<lambda>s. db s = d) (pg_ExecSchema pg c)
      (\<lambda>r s. (db s = d \<or> db s = initSchema d) \<and> (r = Inr () \<longrightarrow> db s = initSchema d)) (\<lambda>s. db s = d \<or> db s = initSchema d)"
    by (rule call_triple) (auto dest: schema)
  then show ?thesis
    unfolding Projection_Migrate_def migrate_def
    by (rule triple_bindM) (auto simp: wrapping_def intro!: triple_return)
qed

end

lemma scan_loop_Inr: "scan_loop runID rows out = Inr es \<Longrightarrow> \<exists>rs. rows = map Inr rs \<and> es = out @ map scanned rs"
proof (induction rows arbitrary: out)
  case (Cons r rows)
  then obtain row where "r = Inr row" "scan_loop runID rows (out @ [scanned row]) = Inr es" by (auto split: sum.splits)
  with Cons.IH [of "out @ [scanned row]"] show ?case by (metis append.assoc append_Cons append_Nil list.simps(9))
qed simp

context postgres
begin

lemma events_triple:
  "triple (\<lambda>s. db s = Some T) (EventReader_Events pg c runID)
    (\<lambda>r s. db s = Some T \<and> (\<forall>es. r = Inr es \<longrightarrow> es \<noteq> [] \<and> map_sum id (map scanned) (select_events ty T runID) = Inr es))
    (\<lambda>s. db s = Some T)"
proof -
  have "triple (\<lambda>s. db s = Some T) (pg_SelectEvents pg c runID)
      (\<lambda>r s. db s = Some T \<and> (\<forall>rows. r = Inr (map Inr rows, Inr ()) \<longrightarrow> select_events ty T runID = Inr rows)) (\<lambda>s. db s = Some T)"
    by (rule call_triple) (auto dest!: select_rows)
  then show ?thesis
    unfolding EventReader_Events_def
    by (rule triple_bindM) (auto simp: wrapping_def split: prod.split sum.split dest!: scan_loop_Inr intro!: triple_return)
qed

end

end
