(* ===== verification/Projection.thy ===== *)
theory Projection
  imports Store_Facts Fold_Properties
begin

text \<open>
  What the tables hold after a history of events has been applied to them: the rows of a run are its events
  without the redelivered ones, in order, and its row in \<open>runs\<close> is that of the last of them. It agrees with the
  fold of the same events.
\<close>

section \<open>Histories\<close>

definition no_rows :: tables where "no_rows = \<lparr>tb_events = [], tb_runs = (\<lambda>_. None)\<rparr>"

fun apply_all :: "pg_types \<Rightarrow> Envelope list \<Rightarrow> tables \<Rightarrow> tables option" where
  "apply_all ty [] T = Some T"
| "apply_all ty (e # es) T = (case apply_event ty T e of None \<Rightarrow> None | Some (b, T') \<Rightarrow> apply_all ty es T')"

lemma apply_all_append:
  "apply_all ty (es @ es') T = (case apply_all ty es T of None \<Rightarrow> None | Some T' \<Rightarrow> apply_all ty es' T')"
  by (induction es arbitrary: T) (auto split: option.split)

text \<open>A slot is taken once its event is applied, and stays so: applying the event again changes nothing.\<close>

definition taken :: "pg_types \<Rightarrow> tables \<Rightarrow> Envelope \<Rightarrow> bool" where
  "taken ty T e \<longleftrightarrow> (\<exists>row. event_row_of ty e = Inr row \<and> list_ex (same_slot row) (tb_events T))"

lemma upsert_run_events: "upsert_run ty T a = Inr T' \<Longrightarrow> tb_events T' = tb_events T"
  by (auto simp: upsert_run_def bindS_Inr Let_def)

lemma apply_eventE:
  assumes "apply_event ty T e = Some (b, T')"
  obtains (again) row where "\<not> b" "T' = T" "event_row_of ty e = Inr row" "list_ex (same_slot row) (tb_events T)"
      "select_event_id ty T (RunID e) (SequenceNumber e) = Inr (Some (EventID e))"
  | (fresh) row p where "b" "event_row_of ty e = Inr row" "\<not> list_ex (same_slot row) (tb_events T)"
      "\<not> list_ex (\<lambda>r. ev_event_id r = ev_event_id row) (tb_events T)" "DecodePayload e = Inr p"
      "upsert_run ty (T\<lparr>tb_events := tb_events T @ [row]\<rparr>) (run_args_of e p) = Inr T'" "tb_events T' = tb_events T @ [row]"
proof -
  obtain n T1 where i: "insert_event ty T e = Inr (n, T1)"
    using assms by (auto simp: apply_event_def split: sum.splits)
  from i obtain row where r: "event_row_of ty e = Inr row" and c: "n = 0 \<and> T1 = T \<and> list_ex (same_slot row) (tb_events T)
     \<or> n = 1 \<and> T1 = T\<lparr>tb_events := tb_events T @ [row]\<rparr> \<and> \<not> list_ex (same_slot row) (tb_events T)
       \<and> \<not> list_ex (\<lambda>r. ev_event_id r = ev_event_id row) (tb_events T)" by (rule insert_eventD)
  from c show thesis
  proof
    assume "n = 0 \<and> T1 = T \<and> list_ex (same_slot row) (tb_events T)"
    with assms i r show thesis by (intro again) (auto simp: apply_event_def split: if_splits)
  next
    assume f: "n = 1 \<and> T1 = T\<lparr>tb_events := tb_events T @ [row]\<rparr> \<and> \<not> list_ex (same_slot row) (tb_events T)
       \<and> \<not> list_ex (\<lambda>r. ev_event_id r = ev_event_id row) (tb_events T)"
    with assms i obtain p where "b" "DecodePayload e = Inr p" "upsert_run ty T1 (run_args_of e p) = Inr T'"
      by (auto simp: apply_event_def split: sum.splits)
    with f r upsert_run_events [of ty T1 "run_args_of e p" T'] show thesis by (intro fresh) simp_all
  qed
qed

lemma apply_event_taken: "apply_event ty T e = Some (b, T') \<Longrightarrow> taken ty T' e"
  by (erule apply_eventE) (auto simp: taken_def same_slot_def)

lemma apply_event_keeps: "apply_event ty T e' = Some (b, T') \<Longrightarrow> taken ty T e \<Longrightarrow> taken ty T' e"
  by (erule apply_eventE) (auto simp: taken_def)

lemma apply_all_keeps: "apply_all ty es T = Some T' \<Longrightarrow> taken ty T e \<Longrightarrow> taken ty T' e"
  by (induction es arbitrary: T) (auto split: option.splits dest: apply_event_keeps)

lemma apply_all_taken: "apply_all ty es T = Some T' \<Longrightarrow> e \<in> set es \<Longrightarrow> taken ty T' e"
  by (induction es arbitrary: T) (auto split: option.splits dest: apply_event_taken apply_all_keeps)

lemma apply_taken: "taken ty T e \<Longrightarrow> apply_event ty T e = Some (b, T') \<Longrightarrow> \<not> b \<and> T' = T"
  by (erule apply_eventE) (auto simp: taken_def)


text \<open>The event that took its place is found there, so that it is no conflict when it comes again.\<close>

definition found_at :: "pg_types \<Rightarrow> tables \<Rightarrow> Envelope \<Rightarrow> bool" where
  "found_at ty T e \<longleftrightarrow> select_event_id ty T (RunID e) (SequenceNumber e) = Inr (Some (EventID e))"

lemma find_append: "find P (xs @ ys) = (case find P xs of None \<Rightarrow> find P ys | Some x \<Rightarrow> Some x)"
  by (induction xs) auto

lemma apply_event_found:
  assumes "apply_event ty T e = Some (b, T')" and "\<forall>y. pt_uuid ty (EventID e) = Inr y \<longrightarrow> y = EventID e"
  shows "found_at ty T' e"
  using assms(1)
proof (cases rule: apply_eventE)
  case (fresh row p)
  from fresh(2) assms(2) have r: "pt_uuid ty (RunID e) = Inr (ev_run_id row)" "pt_int4 ty (SequenceNumber e) = Inr (ev_sequence_number row)"
    "ev_event_id row = EventID e" by (auto simp: event_row_of_def bindS_Inr)
  have "find (\<lambda>r. ev_run_id r = ev_run_id row \<and> ev_sequence_number r = ev_sequence_number row) (tb_events T) = None"
    using fresh(3) by (auto simp: find_None_iff list_ex_iff same_slot_def)
  with r fresh(7) show ?thesis by (simp add: found_at_def select_event_id_def bindS_def find_append)
qed (simp add: found_at_def)

lemma apply_event_keeps_found: "apply_event ty T e' = Some (b, T') \<Longrightarrow> found_at ty T e \<Longrightarrow> found_at ty T' e"
  by (erule apply_eventE) (auto simp: found_at_def select_event_id_def bindS_Inr find_append)

lemma apply_all_found:
  "apply_all ty es T = Some T' \<Longrightarrow> e \<in> set es \<or> found_at ty T e \<Longrightarrow> \<forall>y. pt_uuid ty (EventID e) = Inr y \<longrightarrow> y = EventID e
    \<Longrightarrow> found_at ty T' e"
  by (induction es arbitrary: T) (auto split: option.splits dest: apply_event_found apply_event_keeps_found)


section \<open>The rows of a run\<close>

text \<open>
  The documented conversions: texts and integers are kept as they are, an integer column has 32 bits, and a
  time of whole microseconds is kept.
\<close>

definition plain_types :: "pg_types \<Rightarrow> bool" where
  "plain_types ty \<longleftrightarrow> (\<forall>x y. pt_text ty x = Inr y \<longrightarrow> y = x)
     \<and> (\<forall>i j. pt_int4 ty i = Inr j \<longrightarrow> j = i \<and> - (2 ^ 31) \<le> i \<and> i < 2 ^ 31)
     \<and> (\<forall>t t'. truncate_us t = t \<longrightarrow> pt_timestamptz ty t = Inr t' \<longrightarrow> t' = t)"

text \<open>An event whose ids are in the form Postgres prints them, at a time of whole microseconds.\<close>

definition storable :: "pg_types \<Rightarrow> Envelope \<Rightarrow> bool" where
  "storable ty e \<longleftrightarrow> (\<forall>y. pt_uuid ty (EventID e) = Inr y \<longrightarrow> y = EventID e)
     \<and> (\<forall>y. pt_uuid ty (RunID e) = Inr y \<longrightarrow> y = RunID e) \<and> truncate_us (OccurredAt e) = OccurredAt e"

lemma nullable_Inr: "nullable f v = Inr w \<longleftrightarrow> (case v of None \<Rightarrow> w = None | Some x \<Rightarrow> \<exists>y. f x = Inr y \<and> w = Some y)"
  by (cases "case v of None \<Rightarrow> Inl [] | Some x \<Rightarrow> f x") (auto simp: nullable_def split: option.splits)

lemma stored_row:
  assumes "plain_types ty" and "storable ty e" and "event_row_of ty e = Inr row"
  shows "scanned row = e\<lparr>PayloadRaw := Some (ev_payload row)\<rparr>" and "pt_jsonb ty (PayloadRaw e) = Inr (ev_payload row)"
    and "ev_event_id row = EventID e" "ev_run_id row = RunID e" "ev_sequence_number row = SequenceNumber e"
    and "SequenceNumber e < 2 ^ 31"
  using assms
  by (auto simp: event_row_of_def bindS_Inr nullable_Inr scanned_def storable_def plain_types_def split: option.splits)

definition rows_of :: "string \<Rightarrow> tables \<Rightarrow> event_row list" where
  "rows_of runID T = filter (\<lambda>r. ev_run_id r = runID) (tb_events T)"

text \<open>The events without those whose sequence number was there before.\<close>

definition add_fresh :: "Envelope \<Rightarrow> Envelope list \<Rightarrow> Envelope list" where
  "add_fresh e es = (if SequenceNumber e \<in> SequenceNumber ` set es then es else es @ [e])"

definition fresh_events :: "Envelope list \<Rightarrow> Envelope list" where
  "fresh_events es = fold add_fresh es []"

lemma fresh_events_simps [simp]: "fresh_events [] = []" "fresh_events (es @ [e]) = add_fresh e (fresh_events es)"
  by (simp_all add: fresh_events_def)

definition events_of :: "string \<Rightarrow> Envelope list \<Rightarrow> Envelope list" where
  "events_of runID es = filter (\<lambda>e. RunID e = runID) es"

definition row_for_event :: "pg_types \<Rightarrow> event_row \<Rightarrow> Envelope \<Rightarrow> bool" where
  "row_for_event ty row e \<longleftrightarrow> event_row_of ty e = Inr row \<and> ev_sequence_number row = SequenceNumber e"

lemma row_seqs:
  assumes "list_all2 (row_for_event ty) rows es" shows "map ev_sequence_number rows = map SequenceNumber es"
  using assms by (induction rule: list_all2_induct) (simp_all add: row_for_event_def)

lemma slot_iff:
  assumes "plain_types ty" and "storable ty e" and "event_row_of ty e = Inr row"
    and "list_all2 (row_for_event ty) (rows_of (RunID e) T) es"
  shows "list_ex (same_slot row) (tb_events T) \<longleftrightarrow> SequenceNumber e \<in> SequenceNumber ` set es"
proof -
  have "SequenceNumber ` set es = ev_sequence_number ` set (rows_of (RunID e) T)"
    using row_seqs [OF assms(4)] by (metis image_set)
  then show ?thesis
    using stored_row [OF assms(1-3)] by (auto simp: list_ex_iff same_slot_def rows_of_def image_iff)
qed

lemma rows_are_fresh:
  assumes "plain_types ty"
  shows "apply_all ty es no_rows = Some T \<Longrightarrow> \<forall>e \<in> set es. storable ty e
    \<Longrightarrow> list_all2 (row_for_event ty) (rows_of runID T) (fresh_events (events_of runID es))"
proof (induction es arbitrary: T rule: rev_induct)
  case Nil
  then show ?case by (auto simp: no_rows_def rows_of_def events_of_def)
next
  case (snoc e es)
  from snoc.prems obtain T1 b where T1: "apply_all ty es no_rows = Some T1" and a: "apply_event ty T1 e = Some (b, T)"
    by (auto simp: apply_all_append split: option.splits)
  have IH: "list_all2 (row_for_event ty) (rows_of runID T1) (fresh_events (events_of runID es))" using snoc T1 by simp
  obtain row where row: "event_row_of ty e = Inr row" using a by (cases rule: apply_eventE) auto
  have st: "storable ty e" using snoc.prems(2) by simp
  note k = stored_row [OF assms st row]
  have re: "row_for_event ty row e" using row k by (simp add: row_for_event_def)
  show ?case
  proof (cases "RunID e = runID")
    case True
    note slot = slot_iff [OF assms st row IH [folded True]]
    from a show ?thesis
    proof (cases rule: apply_eventE)
      case again
      with True row slot IH show ?thesis by (simp add: events_of_def add_fresh_def)
    next
      case (fresh row' p)
      with True row slot IH k re show ?thesis
        by (auto simp: events_of_def add_fresh_def rows_of_def intro!: list_all2_appendI)
    qed
  next
    case False
    with a k row have "rows_of runID T = rows_of runID T1"
      by (cases rule: apply_eventE) (auto simp: rows_of_def)
    with False IH show ?thesis by (simp add: events_of_def)
  qed
qed


section \<open>The fold of the same events\<close>

lemma fold_fresh:
  "fold_loop blocks RunState_zero es = Inr s
    \<Longrightarrow> fold_loop blocks RunState_zero (fresh_events es) = Inr s
      \<and> map (\<lambda>e. (SequenceNumber e, EventID e)) (fresh_events es) = s_seen s"
proof (induction es arbitrary: s rule: rev_induct)
  case Nil
  then show ?case by (auto simp: RunState_zero_def)
next
  case (snoc e es)
  then obtain s1 where f: "fold_loop blocks RunState_zero es = Inr s1" and a: "Apply blocks s1 e = Inr s"
    by (auto simp: fold_loop_append split: sum.splits)
  from snoc.IH [OF f] have IH: "fold_loop blocks RunState_zero (fresh_events es) = Inr s1"
    "map (\<lambda>e. (SequenceNumber e, EventID e)) (fresh_events es) = s_seen s1" by simp_all
  have seqs: "SequenceNumber ` set (fresh_events es) = fst ` set (s_seen s1)"
    unfolding IH(2) [symmetric] by (force simp: image_iff)
  from a show ?case
  proof (cases rule: Apply_InrE)
    case redelivered
    then have "SequenceNumber e \<in> fst ` set (s_seen s1)" by (metis map_of_SomeD fst_conv imageI)
    with redelivered IH seqs show ?thesis by (simp add: add_fresh_def)
  next
    case (applied p n)
    have u: "map_of (s_seen s1) (SequenceNumber e) = None" using applied(1) by (rule admitted_fresh)
    then have "SequenceNumber e \<notin> SequenceNumber ` set (fresh_events es)" by (simp add: seqs map_of_eq_None_iff)
    moreover have "s_seen n = s_seen s1" using applied(3) applyPayload_frame(1) by fastforce
    ultimately show ?thesis
      using applied IH a u by (simp add: add_fresh_def fold_loop_append update_fresh)
  qed
qed

text \<open>The sequence numbers of a log that folds count up from 0.\<close>

lemma fresh_seqs:
  assumes "fold_loop blocks RunState_zero es = Inr s" and "\<forall>e \<in> set (fresh_events es). SequenceNumber e < 2 ^ 31"
  shows "map SequenceNumber (fresh_events es) = map int [0..<length (fresh_events es)]"
proof -
  let ?f = "fresh_events es"
  have len: "length ?f = length (s_seen s)" using fold_fresh [OF assms(1)] by (metis length_map)
  have "map SequenceNumber ?f = map fst (s_seen s)"
    using fold_fresh [OF assms(1)] by (metis (no_types, lifting) comp_apply fst_conv list.map_comp map_eq_conv)
  also have "\<dots> = map (\<lambda>i. wrap64 (int i)) [0..<length ?f]"
    using fold_loop_wf_run [OF assms(1) wf_run_zero] by (simp add: wf_run_def wf_seen_def len)
  finally have w: "map SequenceNumber ?f = map (\<lambda>i. wrap64 (int i)) [0..<length ?f]" .
  have "length ?f \<le> 2 ^ 31"
  proof (rule ccontr)
    assume "\<not> length ?f \<le> 2 ^ 31"
    then have l: "2 ^ 31 < length ?f" by simp
    then have "map SequenceNumber ?f ! (2 ^ 31) = wrap64 (int (2 ^ 31))" unfolding w by simp
    with l have "SequenceNumber (?f ! (2 ^ 31)) = 2 ^ 31" by (simp add: wrap64_nat)
    with assms(2) l show False by (metis less_irrefl nth_mem)
  qed
  then have "map (\<lambda>i. wrap64 (int i)) [0..<length ?f] = map int [0..<length ?f]"
    by (intro map_cong) (auto intro!: wrap64_nat)
  with w show ?thesis by simp
qed

text \<open>
  The projection of a foldable log: the rows of the run are its events in order, and the reader gives them back,
  each with the payload Postgres made of it.
\<close>

definition read_back :: "pg_types \<Rightarrow> Envelope \<Rightarrow> Envelope \<Rightarrow> bool" where
  "read_back ty e e' \<longleftrightarrow> (\<exists>j. pt_jsonb ty (PayloadRaw e) = Inr j \<and> e' = e\<lparr>PayloadRaw := Some j\<rparr>)"

lemma select_fresh:
  assumes "plain_types ty" and "apply_all ty es no_rows = Some T" and "\<forall>e \<in> set es. storable ty e"
    and "fold_loop blocks RunState_zero (events_of runID es) = Inr s" and "pt_uuid ty runID = Inr runID"
  shows "\<exists>rows. select_events ty T runID = Inr rows
    \<and> list_all2 (read_back ty) (fresh_events (events_of runID es)) (map scanned rows)"
proof -
  let ?f = "fresh_events (events_of runID es)"
  have r: "list_all2 (row_for_event ty) (rows_of runID T) ?f"
    by (rule rows_are_fresh [OF assms(1-3)])
  have sub: "set ?f \<subseteq> set es"
  proof -
    have "set (fresh_events xs) \<subseteq> set xs" for xs :: "Envelope list"
      by (induction xs rule: rev_induct) (auto simp: add_fresh_def)
    from this [of "events_of runID es"] show ?thesis by (auto simp: events_of_def)
  qed
  have st: "storable ty e" if "e \<in> set ?f" for e using that sub assms(3) by blast
  have "SequenceNumber e < 2 ^ 31" if e: "e \<in> set ?f" for e
  proof -
    obtain i where i: "i < length ?f" "e = ?f ! i" using e by (auto simp: in_set_conv_nth)
    then obtain row where "event_row_of ty e = Inr row" using r by (auto simp: list_all2_conv_all_nth row_for_event_def)
    from stored_row(6) [OF assms(1) st [OF e] this] show ?thesis .
  qed
  then have "map SequenceNumber ?f = map int [0..<length ?f]" using fresh_seqs [OF assms(4)] by blast
  moreover note row_seqs [OF r]
  ultimately have "sorted (map ev_sequence_number (rows_of runID T))" by (simp add: sorted_map)
  then have "sort_key ev_sequence_number (rows_of runID T) = rows_of runID T" by (rule sort_key_id_if_sorted)
  then have "select_events ty T runID = Inr (rows_of runID T)"
    by (simp only: select_events_def assms(5) bindS_def sum.case rows_of_def)
  moreover have "list_all2 (read_back ty) ?f (map scanned (rows_of runID T))"
    unfolding list_all2_conv_all_nth
  proof (intro conjI allI impI)
    fix i assume i: "i < length ?f"
    then have "event_row_of ty (?f ! i) = Inr (rows_of runID T ! i)" and l: "i < length (rows_of runID T)"
      using r by (simp_all add: list_all2_conv_all_nth row_for_event_def)
    from stored_row(1,2) [OF assms(1) st this(1)] i l
    show "read_back ty (?f ! i) (map scanned (rows_of runID T) ! i)" by (auto simp: read_back_def)
  qed (use r in \<open>simp add: list_all2_conv_all_nth\<close>)
  ultimately show ?thesis by blast
qed


section \<open>The run's row\<close>

text \<open>What the row says after the events \<open>es\<close> of the run: the step is the last one a payload named.\<close>

definition named_step :: "int \<Rightarrow> Envelope \<Rightarrow> int" where
  "named_step step e = (case DecodePayload e of
     Inl _ \<Rightarrow> step | Inr p \<Rightarrow> (case stepFromPayload p of None \<Rightarrow> step | Some n \<Rightarrow> n))"

definition last_step :: "Envelope list \<Rightarrow> int" where
  "last_step es = foldl named_step 0 es"

definition row_says :: "RunState \<Rightarrow> Envelope list \<Rightarrow> run_row \<Rightarrow> bool" where
  "row_says s es row \<longleftrightarrow> rn_tenant_id row = s_TenantID s \<and> rn_last_event_id row = s_LastEventID s
     \<and> rn_updated_at row = s_LastEventAt s \<and> rn_status row = statusForEvent (EventType_of (last es))
     \<and> rn_current_step row = last_step es"

lemma upserted_row:
  assumes "plain_types ty" and "storable ty e" and "upsert_run ty T (run_args_of e p) = Inr T'" and "DecodePayload e = Inr p"
  shows "tb_runs T' = (tb_runs T)(RunID e \<mapsto> (case tb_runs T (RunID e) of
      None \<Rightarrow> \<lparr>rn_tenant_id = TenantID e, rn_workload_type = ua_workloadType (run_args_of e p),
        rn_status = statusForEvent (EventType_of e), rn_current_step = named_step 0 e,
        rn_created_at = OccurredAt e, rn_updated_at = OccurredAt e, rn_last_event_id = EventID e\<rparr>
    | Some old \<Rightarrow> old\<lparr>rn_status := statusForEvent (EventType_of e), rn_current_step := named_step (rn_current_step old) e,
        rn_updated_at := OccurredAt e, rn_last_event_id := EventID e\<rparr>))"
proof -
  have str: "\<And>x y. pt_text ty x = Inr y \<Longrightarrow> y = x" and int4: "\<And>i j. pt_int4 ty i = Inr j \<Longrightarrow> j = i"
    and time: "\<And>t. pt_timestamptz ty (OccurredAt e) = Inr t \<Longrightarrow> t = OccurredAt e"
    and uuid: "\<And>y. pt_uuid ty (EventID e) = Inr y \<Longrightarrow> y = EventID e" "\<And>y. pt_uuid ty (RunID e) = Inr y \<Longrightarrow> y = RunID e"
    using assms(1,2) by (simp_all add: plain_types_def storable_def)
  show ?thesis
    using assms(3,4)
    by (cases "tb_runs T (RunID e)"; cases "stepFromPayload p";
      auto simp: upsert_run_def bindS_Inr run_args_of_def nullable_Inr Let_def coalesce_def named_step_def
        dest!: str int4 time uuid)
qed

lemma finish_event_last [simp]: "s_LastEventID (finish_event e n) = EventID e" "s_LastEventAt (finish_event e n) = OccurredAt e"
  by (simp_all add: finish_event_def Let_def)

lemma run_row_says:
  assumes "plain_types ty"
  shows "apply_all ty es no_rows = Some T \<Longrightarrow> \<forall>e \<in> set es. storable ty e
    \<Longrightarrow> fold_loop blocks RunState_zero (events_of runID es) = Inr s
    \<Longrightarrow> if events_of runID es = [] then tb_runs T runID = None
      else (\<exists>row. tb_runs T runID = Some row \<and> row_says s (fresh_events (events_of runID es)) row)"
proof (induction es arbitrary: T s rule: rev_induct)
  case Nil
  then show ?case by (auto simp: no_rows_def events_of_def)
next
  case (snoc e es)
  from snoc.prems obtain T1 b where T1: "apply_all ty es no_rows = Some T1" and a: "apply_event ty T1 e = Some (b, T)"
    by (auto simp: apply_all_append split: option.splits)
  have st: "storable ty e" "\<forall>e \<in> set es. storable ty e" using snoc.prems(2) by simp_all
  show ?case
  proof (cases "RunID e = runID")
    case False
    have "tb_runs T runID = tb_runs T1 runID"
      using a by (cases rule: apply_eventE) (use False upserted_row [OF assms st(1)] in auto)
    with False snoc.IH [OF T1 st(2)] snoc.prems(3) show ?thesis by (auto simp: events_of_def)
  next
    case True
    then have eo: "events_of runID (es @ [e]) = events_of runID es @ [e]" by (simp add: events_of_def)
    with snoc.prems(3) obtain s1 where f1: "fold_loop blocks RunState_zero (events_of runID es) = Inr s1"
      and ap: "Apply blocks s1 e = Inr s" by (auto simp: fold_loop_append split: sum.splits)
    note IH = snoc.IH [OF T1 st(2) f1]
    obtain row where row: "event_row_of ty e = Inr row" using a by (cases rule: apply_eventE) auto
    have slot: "list_ex (same_slot row) (tb_events T1) \<longleftrightarrow> SequenceNumber e \<in> SequenceNumber ` set (fresh_events (events_of runID es))"
      by (rule slot_iff [OF assms st(1) row]) (simp add: True rows_are_fresh [OF assms T1 st(2)])
    have seen: "SequenceNumber ` set (fresh_events (events_of runID es)) = fst ` set (s_seen s1)"
      unfolding conjunct2 [OF fold_fresh [OF f1], symmetric] by (force simp: image_iff)
    from ap show ?thesis
    proof (cases rule: Apply_InrE)
      case redelivered
      then have "SequenceNumber e \<in> fst ` set (s_seen s1)" by (metis map_of_SomeD fst_conv imageI)
      then have old: "SequenceNumber e \<in> SequenceNumber ` set (fresh_events (events_of runID es))" by (simp add: seen)
      from a have "T = T1" by (cases rule: apply_eventE) (use old row slot in auto)
      moreover have "events_of runID es \<noteq> []" using old by auto
      ultimately show ?thesis using IH redelivered old by (simp add: eo add_fresh_def)
    next
      case (applied p n)
      then have "SequenceNumber e \<notin> fst ` set (s_seen s1)" by (metis admitted_fresh map_of_eq_None_iff)
      then have new: "SequenceNumber e \<notin> SequenceNumber ` set (fresh_events (events_of runID es))" by (simp add: seen)
      from a show ?thesis
      proof (cases rule: apply_eventE)
        case again
        with row slot new show ?thesis by auto
      next
        case (fresh row' q)
        have ten: "s_TenantID s = (if isEmpty s1 then TenantID e else s_TenantID s1)"
          using applied(3,4) applyPayload_frame(3) by (fastforce simp: start_event_def)
        have emp: "isEmpty s1 \<longleftrightarrow> events_of runID es = []"
        proof (cases "events_of runID es = []")
          case True
          with f1 show ?thesis by (auto simp: isEmpty_iff RunState_zero_def)
        next
          case False
          with f1 show ?thesis using Fold_nonempty [of blocks "events_of runID es" s1] by (simp add: Fold_def)
        qed
        show ?thesis
          using upserted_row [OF assms st(1) fresh(6,5)] IH new ten emp True applied(4)
          by (auto simp: eo add_fresh_def row_says_def last_step_def)
      qed
    qed
  qed
qed


text \<open>Without approvals, the status the last event maps to is the status of the folded state.\<close>

lemma fresh_events_nonempty: "es \<noteq> [] \<Longrightarrow> fresh_events es \<noteq> []"
  by (induction es rule: rev_induct) (auto simp: add_fresh_def)

lemma status_agrees:
  "fold_loop blocks RunState_zero es = Inr s \<Longrightarrow> es \<noteq> []
    \<Longrightarrow> \<forall>e \<in> set es. EventType_of e \<noteq> EventAwaitingApproval
    \<Longrightarrow> statusForEvent (EventType_of (last (fresh_events es))) = RunStatus_string (s_Status s)
      \<and> s_Status s \<in> {StatusRunning, StatusCompleted, StatusFailed, StatusCancelled}"
proof (induction es arbitrary: s rule: rev_induct)
  case (snoc e es)
  then obtain s1 where f1: "fold_loop blocks RunState_zero es = Inr s1" and ap: "Apply blocks s1 e = Inr s"
    by (auto simp: fold_loop_append split: sum.splits)
  have seen: "SequenceNumber ` set (fresh_events es) = fst ` set (s_seen s1)"
    unfolding conjunct2 [OF fold_fresh [OF f1], symmetric] by (force simp: image_iff)
  from ap show ?case
  proof (cases rule: Apply_InrE)
    case redelivered
    then have "SequenceNumber e \<in> fst ` set (s_seen s1)" by (metis map_of_SomeD fst_conv imageI)
    then have "SequenceNumber e \<in> SequenceNumber ` set (fresh_events es)" by (simp add: seen)
    moreover from this have "es \<noteq> []" by auto
    ultimately show ?thesis using snoc.IH [OF f1] snoc.prems(3) redelivered by (simp add: add_fresh_def)
  next
    case (applied p n)
    then have "SequenceNumber e \<notin> fst ` set (s_seen s1)" by (metis admitted_fresh map_of_eq_None_iff)
    then have new: "SequenceNumber e \<notin> SequenceNumber ` set (fresh_events es)" by (simp add: seen)
    have ty: "EventType_of e = payload_EventType p" using DecodePayload_type [OF applied(2)] by simp
    have run: "s_Status s1 = StatusRunning" if "es \<noteq> []"
    proof -
      have "\<not> isEmpty s1" using Fold_nonempty [of blocks es s1] f1 that by (simp add: Fold_def)
      then have "\<not> isTerminalStatus (s_Status s1)" using applied(1) by (simp add: admitted_def)
      then show ?thesis using snoc.IH [OF f1 that] snoc.prems(3) by auto
    qed
    have first: "es = [] \<Longrightarrow> EventType_of e = EventRunStarted"
      using applied(1) f1 by (auto simp: admitted_def isEmpty_iff RunState_zero_def)
    have st: "s_Status s = s_Status n" by (simp add: applied(4))
    have l: "last (fresh_events (es @ [e])) = e" using new by (simp add: add_fresh_def)
    show ?thesis
      unfolding l using applyPayload_status [OF applied(3)] run first ty snoc.prems(3)
      by (cases "es = []"; cases p) (auto simp: st statusForEvent_def EventType_defs)
  qed
qed simp

end
