(* ===== verification/Projector_Facts.thy ===== *)
theory Projector_Facts
  imports Projection Projector
begin

text \<open>
  The projector against the interface of its surroundings: a database, and a consumer group on the partitions of
  the topic. What is in the tables is always the projection of a history of messages, each partition's in order
  and without a gap, that reaches at least as far as the committed offsets.
\<close>

section \<open>The history in the tables\<close>

type_synonym topic = "nat \<Rightarrow> (string \<times> json) list"

text \<open>The events of the messages handled first, partition by partition.\<close>

definition part_events :: "nat \<Rightarrow> (nat \<times> Envelope) list \<Rightarrow> Envelope list" where
  "part_events p hist = map snd (filter (\<lambda>h. fst h = p) hist)"

text \<open>\<open>n p\<close> messages of each partition are in the tables.\<close>

definition projects :: "pg_types \<Rightarrow> topic \<Rightarrow> (nat \<times> Envelope) list \<Rightarrow> tables \<Rightarrow> (nat \<Rightarrow> nat) \<Rightarrow> bool" where
  "projects ty topic hist T n \<longleftrightarrow> apply_all ty (map snd hist) no_rows = Some T
     \<and> (\<forall>p. n p \<le> length (topic p)
       \<and> map (\<lambda>m. Decode (Some (snd m))) (take (n p) (topic p)) = map Inr (part_events p hist))"

definition projected :: "pg_types \<Rightarrow> topic \<Rightarrow> tables \<Rightarrow> (nat \<Rightarrow> nat) \<Rightarrow> bool" where
  "projected ty topic T n \<longleftrightarrow> (\<exists>hist. projects ty topic hist T n)"

lemma projected_empty: "projected ty topic no_rows (\<lambda>_. 0)"
  by (auto simp: projected_def projects_def part_events_def intro!: exI [of _ "[]"])

lemma projects_taken:
  assumes "projects ty topic hist T n" and "i < n p" and "Decode (Some (snd (topic p ! i))) = Inr e"
  shows "taken ty T e"
proof -
  have "map (\<lambda>m. Decode (Some (snd m))) (take (n p) (topic p)) ! i = map Inr (part_events p hist) ! i"
    and l: "n p \<le> length (topic p)" using assms(1) by (simp_all add: projects_def)
  moreover have len: "length (part_events p hist) = n p"
    using assms(1) by (metis (no_types, lifting) length_map length_take min.absorb2 projects_def)
  ultimately have "part_events p hist ! i = e" using assms(2,3) by simp
  with len assms(2) have "e \<in> set (part_events p hist)" by (metis nth_mem)
  then have "e \<in> set (map snd hist)" by (auto simp: part_events_def)
  with assms(1) show ?thesis by (metis projects_def apply_all_taken)
qed

text \<open>The message at a partition's end is new, one before it is there already.\<close>

lemma projected_step:
  assumes "projected ty topic T n" and "i \<le> n p" and "i < length (topic p)"
    and "Decode (Some (snd (topic p ! i))) = Inr e" and "apply_event ty T e = Some (b, T')"
  shows "projected ty topic T' (n(p := max (n p) (Suc i)))"
proof -
  obtain hist where h: "projects ty topic hist T n" using assms(1) by (auto simp: projected_def)
  show ?thesis
  proof (cases "i < n p")
    case True
    from apply_taken [OF projects_taken [OF h True assms(4)] assms(5)] have "T' = T" by simp
    moreover have "n(p := max (n p) (Suc i)) = n" using True by (simp add: fun_eq_iff)
    ultimately show ?thesis using assms(1) by simp
  next
    case False
    with assms(2) have i: "i = n p" by simp
    have "projects ty topic (hist @ [(p, e)]) T' (n(p := Suc i))"
      using h assms(3-5) i by (auto simp: projects_def apply_all_append part_events_def take_Suc_conv_app_nth)
    then show ?thesis using i by (auto simp: projected_def max_def)
  qed
qed

text \<open>A topic that has grown still has what was projected.\<close>

definition topic_grows :: "topic \<Rightarrow> topic \<Rightarrow> bool" where
  "topic_grows t t' \<longleftrightarrow> (\<forall>p. \<exists>ms. t' p = t p @ ms)"

lemma projected_grows: "projected ty topic T n \<Longrightarrow> topic_grows topic topic' \<Longrightarrow> projected ty topic' T n"
  unfolding projected_def projects_def topic_grows_def
  by (elim exE conjE, intro exI conjI allI, assumption) (metis le_add1 length_append order_trans take_append append_Nil2 diff_is_0_eq' take_0)+



section \<open>The interface\<close>

text \<open>
  The consumer group's view of the world: the topic, what is committed, and where the reader is. A group that
  rebalances goes back to what is committed.
\<close>

locale consumer = postgres "pj_pg pj" ty db tx
  for pj :: "'s projector" and ty :: pg_types and db :: "'s \<Rightarrow> tables option" and tx :: "'s \<Rightarrow> nat \<Rightarrow> tables option" +
  fixes topic :: "'s \<Rightarrow> topic" and committed position :: "'s \<Rightarrow> nat \<Rightarrow> nat"
  assumes pg_leaves:
      "leaves (\<lambda>s. (topic s, committed s, position s)) (pg_ExecSchema (pj_pg pj) c)"
      "leaves (\<lambda>s. (topic s, committed s, position s)) (pg_Begin (pj_pg pj) c)"
      "leaves (\<lambda>s. (topic s, committed s, position s)) (pg_InsertEvent (pj_pg pj) t c e)"
      "leaves (\<lambda>s. (topic s, committed s, position s)) (pg_SelectEventID (pj_pg pj) t c runID seq)"
      "leaves (\<lambda>s. (topic s, committed s, position s)) (pg_UpsertRun (pj_pg pj) t c a)"
      "leaves (\<lambda>s. (topic s, committed s, position s)) (pg_Commit (pj_pg pj) t c)"
      "leaves (\<lambda>s. (topic s, committed s, position s)) (pg_Rollback (pj_pg pj) t c)"
    and calls_leave:
      "leaves (\<lambda>s. (db s, topic s, committed s, position s)) (pj_log pj line)"
      "leaves (\<lambda>s. (db s, topic s, committed s, position s)) (rt_Sleep (pj_rt pj) c d)"
      "leaves (\<lambda>s. (db s, topic s, committed s, position s)) (pj_CloseReader pj r)"
      "leaves (\<lambda>s. (db s, topic s, committed s, position s)) (pj_NewPool pj c dsn)"
      "leaves (\<lambda>s. (db s, topic s, committed s, position s)) (pj_ClosePool pj)"
      "leaves (\<lambda>s. (db s, topic s, committed s, position s)) (kc_DialContext (pj_kafka pj) c broker)"
      "leaves (\<lambda>s. (db s, topic s, committed s, position s)) (kc_CreateTopics (pj_kafka pj) conn tc)"
      "leaves (\<lambda>s. (db s, topic s, committed s, position s)) (kc_ReadPartitions (pj_kafka pj) conn T)"
      "leaves (\<lambda>s. (db s, topic s, committed s, position s)) (kc_CloseConn (pj_kafka pj) conn)"
    and new_reader: "pj_NewReader pj gc s = (r0, s') \<Longrightarrow> db s' = db s \<and> topic s' = topic s \<and> committed s' = committed s
      \<and> (\<forall>r. r0 = Done r \<longrightarrow> position s' = committed s)"
    and fetch: "pj_FetchMessage pj r c s = (r1, s') \<Longrightarrow> db s' = db s \<and> topic s' = topic s \<and> committed s' = committed s
      \<and> (\<forall>msg. r1 = Done (Inr msg) \<longrightarrow> (\<exists>cur \<in> {position s, committed s}. let p = fm_Partition msg; i = cur p in
          i < length (topic s p) \<and> fm_Offset msg = int i \<and> fm_Value msg = Some (snd (topic s p ! i))
          \<and> position s' = cur(p := Suc i)))"
    and commit_offset: "pj_CommitMessages pj r c msg s = (r2, s') \<Longrightarrow> db s' = db s \<and> topic s' = topic s \<and> position s' = position s
      \<and> (committed s' = committed s \<or> committed s' = (committed s)(fm_Partition msg := nat (fm_Offset msg) + 1))"
begin

text \<open>
  \<open>tracked n\<close>: the tables hold \<open>n p\<close> messages of each partition, and no offset beyond them is committed. Between
  messages the reader is not beyond them either; while a message is handled it is one ahead.
\<close>

definition tracked :: "(nat \<Rightarrow> nat) \<Rightarrow> tables option \<times> topic \<times> (nat \<Rightarrow> nat) \<times> (nat \<Rightarrow> nat) \<Rightarrow> bool" where
  "tracked n v \<longleftrightarrow> (case v of (d, t, com, pos) \<Rightarrow>
     (case d of None \<Rightarrow> \<forall>p. n p = 0 | Some T \<Rightarrow> projected ty t T n) \<and> com \<le> n)"

definition kept :: "tables option \<times> topic \<times> (nat \<Rightarrow> nat) \<times> (nat \<Rightarrow> nat) \<Rightarrow> bool" where
  "kept v \<longleftrightarrow> (\<exists>n. tracked n v)"

definition caught_up :: "tables option \<times> topic \<times> (nat \<Rightarrow> nat) \<times> (nat \<Rightarrow> nat) \<Rightarrow> bool" where
  "caught_up v \<longleftrightarrow> fst v \<noteq> None \<and> (\<exists>n. tracked n v \<and> snd (snd (snd v)) \<le> n)"

definition holding :: "nat \<Rightarrow> nat \<Rightarrow> Envelope \<Rightarrow> tables option \<times> topic \<times> (nat \<Rightarrow> nat) \<times> (nat \<Rightarrow> nat) \<Rightarrow> bool" where
  "holding q i e v \<longleftrightarrow> fst v \<noteq> None \<and> (\<exists>n. tracked n v \<and> i \<le> n q \<and> i < length (fst (snd v) q)
     \<and> Decode (Some (snd (fst (snd v) q ! i))) = Inr e
     \<and> snd (snd (snd v)) \<le> n(q := max (n q) (Suc i)))"

definition applied_at :: "nat \<Rightarrow> nat \<Rightarrow> tables option \<times> topic \<times> (nat \<Rightarrow> nat) \<times> (nat \<Rightarrow> nat) \<Rightarrow> bool" where
  "applied_at q i v \<longleftrightarrow> fst v \<noteq> None \<and> (\<exists>n. tracked n v \<and> snd (snd (snd v)) \<le> n \<and> Suc i \<le> n q)"

abbreviation cursors :: "'s \<Rightarrow> tables option \<times> topic \<times> (nat \<Rightarrow> nat) \<times> (nat \<Rightarrow> nat)" where
  "cursors s \<equiv> (db s, topic s, committed s, position s)"

lemma tracked_kept: "caught_up v \<Longrightarrow> kept v" "holding q i e v \<Longrightarrow> kept v" "applied_at q i v \<Longrightarrow> kept v"
  by (auto simp: kept_def caught_up_def holding_def applied_at_def)

lemma applied_idle: "applied_at q i v \<Longrightarrow> caught_up v"
  by (auto simp: caught_up_def applied_at_def)

lemma tracked_step:
  assumes "tracked n (Some T, t, com, pos)" and "i \<le> n q" and "i < length (t q)"
    and "Decode (Some (snd (t q ! i))) = Inr e" and "apply_event ty T e = Some (b, T')"
  shows "tracked (n(q := max (n q) (Suc i))) (Some T', t, com, pos)"
proof -
  have "n \<le> n(q := max (n q) (Suc i))" by (simp add: le_fun_def)
  then have "com \<le> n \<Longrightarrow> com \<le> n(q := max (n q) (Suc i))" by (rule order_trans [rotated])
  then show ?thesis using assms projected_step [of ty t T n i q e b T'] by (simp add: tracked_def)
qed

lemma holding_applied:
  assumes "holding q i e (Some T, t, com, pos)" and "apply_event ty T e = Some (b, T')"
  shows "applied_at q i (Some T', t, com, pos)" and "holding q i e (Some T', t, com, pos)"
proof -
  from assms(1) obtain n where n: "tracked n (Some T, t, com, pos)" "i \<le> n q" "i < length (t q)"
    "Decode (Some (snd (t q ! i))) = Inr e" "pos \<le> n(q := max (n q) (Suc i))"
    by (auto simp: holding_def)
  note tr = tracked_step [OF n(1-4) assms(2)]
  show "applied_at q i (Some T', t, com, pos)" using tr n(5) by (auto simp: applied_at_def)
  show "holding q i e (Some T', t, com, pos)"
    using tr n by (simp add: holding_def, intro exI [of _ "n(q := max (n q) (Suc i))"]) simp
qed

lemma committing: "applied_at q i (d, t, com, pos) \<Longrightarrow> caught_up (d, t, com(q := Suc i), pos)"
  by (auto simp: applied_at_def caught_up_def tracked_def le_fun_def)


subsection \<open>The loop\<close>

lemmas steps_leave = leaves_rules pg_leaves

lemma ApplyEvent_leaves: "leaves (\<lambda>s. (topic s, committed s, position s)) (ApplyEvent (pj_pg pj) c e)"
  unfolding ApplyEvent_def checkExistingEvent_def upsertRun_def wrapping_def by (intro steps_leave allI impI)

lemma ApplyEvent_holding:
  "triple (\<lambda>s. holding q i e (cursors s)) (ApplyEvent (pj_pg pj) c e)
    (\<lambda>r s. case r of Inl _ \<Rightarrow> holding q i e (cursors s) | Inr _ \<Rightarrow> applied_at q i (cursors s)) (\<lambda>s. holding q i e (cursors s))"
proof -
  have l: "triple (\<lambda>s. db s = Some T \<and> v = (topic s, committed s, position s)) (ApplyEvent (pj_pg pj) c e)
      (\<lambda>r s. apply_post T e r s \<and> v = (topic s, committed s, position s))
      (\<lambda>s. in_or_out T e s \<and> v = (topic s, committed s, position s))" for T v
    by (rule triple_conj [OF apply_triple leaves_triple [OF ApplyEvent_leaves]])
  have k: "triple (\<lambda>s. holding q i e (Some T, v) \<and> db s = Some T \<and> v = (topic s, committed s, position s))
      (ApplyEvent (pj_pg pj) c e)
      (\<lambda>r s. case r of Inl _ \<Rightarrow> holding q i e (cursors s) | Inr _ \<Rightarrow> applied_at q i (cursors s)) (\<lambda>s. holding q i e (cursors s))" for T v
  proof (rule triple_fact [where F = "holding q i e (Some T, v)"])
    assume h: "holding q i e (Some T, v)"
    obtain t com pos where v: "v = (t, com, pos)" by (cases v)
    note app = holding_applied [OF h [unfolded v]]
    show "triple (\<lambda>s. holding q i e (Some T, v) \<and> db s = Some T \<and> v = (topic s, committed s, position s)) (ApplyEvent (pj_pg pj) c e)
      (\<lambda>r s. case r of Inl _ \<Rightarrow> holding q i e (cursors s) | Inr _ \<Rightarrow> applied_at q i (cursors s)) (\<lambda>s. holding q i e (cursors s))"
      by (rule triple_conseq [OF l [of T v]]) (use h v app in \<open>auto simp: apply_post_def in_or_out_def split: sum.splits\<close>)
  qed (elim conjE)
  show ?thesis
  proof (rule triple_pre [OF triple_ex [OF triple_ex [OF k]]])
    fix s assume h: "holding q i e (cursors s)"
    then obtain T where "db s = Some T" by (auto simp: holding_def)
    with h show "\<exists>v T. holding q i e (Some T, v) \<and> db s = Some T \<and> v = (topic s, committed s, position s)" by auto
  qed
qed

lemma logging: "triple (\<lambda>s. P (cursors s)) (pj_log pj line) (\<lambda>_ s. P (cursors s)) (\<lambda>s. P (cursors s))"
  using calls_leave(1) by (rule leaves_triple)

lemma apply_retry_loop_holding:
  "triple (\<lambda>s. holding q i e (cursors s)) (apply_retry_loop k pj c e backoff)
    (\<lambda>r s. case r of Inl _ \<Rightarrow> kept (cursors s) | Inr _ \<Rightarrow> applied_at q i (cursors s)) (\<lambda>s. kept (cursors s))"
proof (induction k arbitrary: backoff)
  case 0
  show ?case unfolding apply_retry_loop.simps by (rule triple_stuck) (rule tracked_kept)
next
  case (Suc k)
  have w: "triple (\<lambda>s. holding q i e (cursors s)) (pbind (pj_log pj line) (\<lambda>_. pbind (rt_Sleep (pj_rt pj) c d) (\<lambda>slept.
      case slept of Inl ctxErr \<Rightarrow> preturn (Inl ctxErr) | Inr _ \<Rightarrow> apply_retry_loop k pj c e b)))
      (\<lambda>r s. case r of Inl _ \<Rightarrow> kept (cursors s) | Inr _ \<Rightarrow> applied_at q i (cursors s)) (\<lambda>s. kept (cursors s))" for line d b
    by (rule triple_bind [OF triple_conseq [OF logging [of "holding q i e"]]], assumption, assumption, rule tracked_kept, assumption,
      rule triple_bind [OF triple_conseq [OF leaves_triple [OF calls_leave(2), where P = "holding q i e"]]],
      assumption, assumption, rule tracked_kept, assumption, rule triple_sum, rule triple_return, simp add: tracked_kept, rule Suc.IH)
  show ?case
    unfolding apply_retry_loop.simps
    by (rule triple_bind [OF triple_conseq [OF ApplyEvent_holding]], assumption, assumption, rule tracked_kept, assumption)
      (auto simp: tracked_kept intro!: triple_return triple_halt triple_sum triple_option w)
qed

text \<open>A call that fails ends the loop, after a line on the log.\<close>

lemma shutdown_kept:
  "triple (\<lambda>s. kept (cursors s)) (shutdown_or pj err line) (\<lambda>_ s. kept (cursors s)) (\<lambda>s. kept (cursors s))"
  unfolding shutdown_or_def
  by (rule triple_if, rule triple_return, assumption, rule triple_bind [OF logging], rule triple_return, assumption)

lemma fetched_holding:
  assumes "caught_up (cursors s)" and "pj_FetchMessage pj r c s = (x, s')"
  shows "kept (cursors s')"
    and "x = Done (Inr msg) \<Longrightarrow> Decode (fm_Value msg) = Inr e
      \<Longrightarrow> \<exists>i. fm_Offset msg = int i \<and> holding (fm_Partition msg) i e (cursors s')"
proof -
  from fetch [OF assms(2)] assms(1) show "kept (cursors s')"
    by (auto simp: caught_up_def kept_def tracked_def)
  assume x: "x = Done (Inr msg)" and d: "Decode (fm_Value msg) = Inr e"
  let ?p = "fm_Partition msg"
  from fetch [OF assms(2)] x obtain cur where same: "db s' = db s" "topic s' = topic s" "committed s' = committed s"
    and f: "cur ?p < length (topic s ?p)" "fm_Offset msg = int (cur ?p)" "fm_Value msg = Some (snd (topic s ?p ! cur ?p))"
      "position s' = cur(?p := Suc (cur ?p))" and pos: "cur = position s \<or> cur = committed s" by (auto simp: Let_def)
  from assms(1) obtain n where n: "tracked n (cursors s)" "position s \<le> n" "db s \<noteq> None" by (auto simp: caught_up_def)
  with pos have "cur \<le> n" by (auto simp: tracked_def)
  then have "cur ?p \<le> n ?p" and "cur(?p := Suc (cur ?p)) \<le> n(?p := max (n ?p) (Suc (cur ?p)))" by (simp_all add: le_fun_def)
  with n same f d show "\<exists>i. fm_Offset msg = int i \<and> holding ?p i e (cursors s')"
    by (auto simp: holding_def tracked_def intro!: exI [of _ n])
qed

lemma commit_caught_up:
  "triple (\<lambda>s. applied_at (fm_Partition msg) i (cursors s)) (pj_CommitMessages pj r c msg)
    (\<lambda>_ s. caught_up (cursors s)) (\<lambda>s. caught_up (cursors s))" if "fm_Offset msg = int i"
proof (rule call_triple)
  fix s x s' assume a: "applied_at (fm_Partition msg) i (cursors s)" and c: "pj_CommitMessages pj r c msg s = (x, s')"
  have "Suc i = nat (fm_Offset msg) + 1" by (simp add: that)
  with a committing [OF a] applied_idle [OF a] commit_offset [OF c]
  show "caught_up (cursors s') \<and> (\<forall>b. x = Done b \<longrightarrow> caught_up (cursors s'))" by auto
qed

lemma commit_message_kept:
  assumes "fm_Offset msg = int i" and "\<And>n. triple (\<lambda>s. caught_up (cursors s)) (again n) (\<lambda>_ s. kept (cursors s)) (\<lambda>s. kept (cursors s))"
  shows "triple (\<lambda>s. applied_at (fm_Partition msg) i (cursors s)) (commit_message pj c r crash msg consumed again)
    (\<lambda>_ s. kept (cursors s)) (\<lambda>s. kept (cursors s))"
  unfolding commit_message_def
  by (rule triple_if, rule triple_halt, erule tracked_kept,
    rule triple_bind [OF triple_conseq [OF commit_caught_up [OF assms(1)]]], assumption, assumption, erule tracked_kept,
    rule triple_sum, rule triple_pre [OF shutdown_kept], erule tracked_kept, rule assms(2))

text \<open>A message read at offset \<open>i\<close>, if it decodes at all, is handled to the end before the next one.\<close>

definition at_hand :: "fetched \<Rightarrow> 's \<Rightarrow> bool" where
  "at_hand msg s \<longleftrightarrow> kept (cursors s) \<and> (\<forall>e. Decode (fm_Value msg) = Inr e
     \<longrightarrow> (\<exists>i. fm_Offset msg = int i \<and> holding (fm_Partition msg) i e (cursors s)))"

lemma handle_message_kept:
  assumes "\<And>n. triple (\<lambda>s. caught_up (cursors s)) (again n) (\<lambda>_ s. kept (cursors s)) (\<lambda>s. kept (cursors s))"
  shows "triple (at_hand msg) (handle_message pj c r crash msg consumed again) (\<lambda>_ s. kept (cursors s)) (\<lambda>s. kept (cursors s))"
  unfolding handle_message_def
proof (rule triple_sum)
  fix err
  show "triple (at_hand msg) (pbind (pj_log pj (line err)) (\<lambda>_. preturn 1)) (\<lambda>_ s. kept (cursors s)) (\<lambda>s. kept (cursors s))" for line
    by (rule triple_pre [OF triple_bind [OF logging [of kept]]]) (auto simp: at_hand_def intro: triple_return)
next
  fix e assume e: "Decode (fm_Value msg) = Inr e"
  have h: "triple (\<lambda>s. holding (fm_Partition msg) i e (cursors s)) (pbind (applyWithRetry pj c e) (\<lambda>x. case x of
        Inl err \<Rightarrow> shutdown_or pj err line
      | Inr inserted \<Rightarrow> pbind (pj_log pj (line' inserted)) (\<lambda>_. commit_message pj c r crash msg consumed' again)))
      (\<lambda>_ s. kept (cursors s)) (\<lambda>s. kept (cursors s))" if o: "fm_Offset msg = int i" for i line line' consumed'
  proof (rule triple_bind [OF apply_retry_loop_holding [where k = "pj_attempts pj" and backoff = dbRetryInitialBackoff, folded applyWithRetry_def]])
    fix x
    show "triple (\<lambda>s. case x of Inl _ \<Rightarrow> kept (cursors s) | Inr _ \<Rightarrow> applied_at (fm_Partition msg) i (cursors s)) (case x of
        Inl err \<Rightarrow> shutdown_or pj err line
      | Inr inserted \<Rightarrow> pbind (pj_log pj (line' inserted)) (\<lambda>_. commit_message pj c r crash msg consumed' again))
      (\<lambda>_ s. kept (cursors s)) (\<lambda>s. kept (cursors s))"
      by (cases x, simp add: shutdown_kept, simp,
        rule triple_bind [OF triple_conseq [OF logging [of "applied_at (fm_Partition msg) i"]]],
        assumption, assumption, erule tracked_kept, rule commit_message_kept [OF o assms])
  qed
  show "triple (at_hand msg) (pbind (applyWithRetry pj c e) (\<lambda>x. case x of
        Inl err \<Rightarrow> shutdown_or pj err line
      | Inr inserted \<Rightarrow> pbind (pj_log pj (line' inserted)) (\<lambda>_. commit_message pj c r crash msg consumed' again)))
      (\<lambda>_ s. kept (cursors s)) (\<lambda>s. kept (cursors s))" for line line' consumed'
    by (rule triple_pre [where P' = "\<lambda>s. \<exists>i. fm_Offset msg = int i \<and> holding (fm_Partition msg) i e (cursors s)"],
      rule triple_ex, rule triple_fact, erule conjunct1, erule triple_pre [OF h]) (simp_all add: at_hand_def e)
qed

lemma consume_loop_kept:
  "triple (\<lambda>s. caught_up (cursors s)) (consume_loop k pj c r crash consumed) (\<lambda>_ s. kept (cursors s)) (\<lambda>s. kept (cursors s))"
proof (induction k arbitrary: consumed)
  case 0
  show ?case unfolding consume_loop.simps by (rule triple_stuck) (rule tracked_kept)
next
  case (Suc k)
  have f: "triple (\<lambda>s. caught_up (cursors s)) (pj_FetchMessage pj r c)
      (\<lambda>x s. case x of Inl _ \<Rightarrow> kept (cursors s) | Inr msg \<Rightarrow> at_hand msg s) (\<lambda>s. kept (cursors s))"
    by (rule call_triple) (auto simp: at_hand_def dest: fetched_holding split: sum.split)
  show ?case
    unfolding consume_loop.simps
    by (rule triple_bind [OF f], rule triple_sum) (simp_all add: shutdown_kept handle_message_kept [OF Suc.IH])
qed


subsection \<open>The process\<close>

lemma close_reader_leaves: "leaves cursors (close_reader pj r)"
  unfolding close_reader_def by (intro leaves_rules calls_leave allI impI)

lemma schema_kept: "kept (d, v) \<Longrightarrow> kept (initSchema d, v)"
  using projected_empty [of ty]
  by (cases d) (auto simp: kept_def tracked_def initSchema_def no_rows_def fun_eq_iff le_fun_def intro!: exI [of _ "\<lambda>_. 0"])

lemma migrate_kept:
  "triple (\<lambda>s. kept (cursors s)) (Projection_Migrate (pj_pg pj) c)
    (\<lambda>x s. kept (cursors s) \<and> (x = Inr () \<longrightarrow> db s \<noteq> None)) (\<lambda>s. kept (cursors s))"
proof -
  have l: "leaves (\<lambda>s. (topic s, committed s, position s)) (Projection_Migrate (pj_pg pj) c)"
    unfolding Projection_Migrate_def migrate_def wrapping_def by (intro steps_leave allI impI)
  have "triple (\<lambda>s. kept (d, v) \<and> db s = d \<and> v = (topic s, committed s, position s)) (Projection_Migrate (pj_pg pj) c)
    (\<lambda>x s. kept (cursors s) \<and> (x = Inr () \<longrightarrow> db s \<noteq> None)) (\<lambda>s. kept (cursors s))" for d v
  proof (rule triple_fact [where F = "kept (d, v)"])
    assume "kept (d, v)"
    with schema_kept [of d v] show "triple (\<lambda>s. kept (d, v) \<and> db s = d \<and> v = (topic s, committed s, position s))
      (Projection_Migrate (pj_pg pj) c) (\<lambda>x s. kept (cursors s) \<and> (x = Inr () \<longrightarrow> db s \<noteq> None)) (\<lambda>s. kept (cursors s))"
      by (intro triple_conseq [OF triple_conj [OF migrate_triple [where d = d] leaves_triple [OF l, where P = "\<lambda>w. v = w"]]])
        (auto simp: initSchema_def split: option.splits)
  qed (elim conjE)
  then have "triple (\<lambda>s. \<exists>d v. kept (d, v) \<and> db s = d \<and> v = (topic s, committed s, position s)) (Projection_Migrate (pj_pg pj) c)
    (\<lambda>x s. kept (cursors s) \<and> (x = Inr () \<longrightarrow> db s \<noteq> None)) (\<lambda>s. kept (cursors s))" by (intro triple_ex)
  then show ?thesis by (rule triple_pre) auto
qed

lemma new_reader_caught_up:
  "triple (\<lambda>s. kept (cursors s) \<and> db s \<noteq> None) (pj_NewReader pj gc) (\<lambda>_ s. caught_up (cursors s)) (\<lambda>s. kept (cursors s))"
  by (rule call_triple) (auto dest!: new_reader simp: kept_def caught_up_def tracked_def)

lemma failing_kept:
  assumes "triple (\<lambda>s. kept (cursors s)) m Q (\<lambda>s. kept (cursors s))" and "\<And>r s. Q r s \<Longrightarrow> kept (cursors s)"
    and "\<And>a. triple (Q (Inr a)) (f a) (\<lambda>_ s. kept (cursors s)) (\<lambda>s. kept (cursors s))"
  shows "triple (\<lambda>s. kept (cursors s)) (failing pj line m f) (\<lambda>_ s. kept (cursors s)) (\<lambda>s. kept (cursors s))"
  unfolding failing_def
proof (rule triple_bind [OF assms(1)])
  fix r
  show "triple (Q r) (case r of Inl err \<Rightarrow> pbind (pj_log pj (line @ err_msg err)) (\<lambda>_. preturn 1) | Inr a \<Rightarrow> f a)
      (\<lambda>_ s. kept (cursors s)) (\<lambda>s. kept (cursors s))"
    by (cases r, simp, rule triple_pre [OF triple_bind [OF logging [of kept]]])
      (auto intro: triple_return dest: assms(2) simp: assms(3))
qed

lemma deferring_kept:
  assumes "leaves cursors d" and "triple P m (\<lambda>_ s. kept (cursors s)) (\<lambda>s. kept (cursors s))"
  shows "triple P (deferring d m) (\<lambda>_ s. kept (cursors s)) (\<lambda>s. kept (cursors s))"
  unfolding deferring_def
  by (rule triple_bind [OF assms(2)], rule triple_bind [OF leaves_triple [OF assms(1)]], rule triple_return)

lemma EnsureTopics_leaves: "leaves cursors (EnsureTopics (pj_kafka pj) c brokers)"
  unfolding EnsureTopics_def wrapping_def
  by (cases brokers) (auto intro!: leaves_bindM leaves_deferring leaves_if calls_leave)

lemma crash_env_leaves: "leaves cursors (crashBeforeOffsetCommitFromEnv pj getenv)"
  unfolding crashBeforeOffsetCommitFromEnv_def Let_def by (intro leaves_rules calls_leave allI impI)

lemma run_projector_kept:
  "triple (\<lambda>s. kept (cursors s)) (run_projector pj c getenv) (\<lambda>_ s. kept (cursors s)) (\<lambda>s. kept (cursors s))"
  unfolding run_projector_def Let_def
proof (rule triple_bind [OF leaves_triple [OF crash_env_leaves]],
    rule failing_kept [OF leaves_triple [OF EnsureTopics_leaves]], assumption,
    rule failing_kept [OF leaves_triple [OF calls_leave(4)]], assumption,
    rule deferring_kept [OF calls_leave(5)], rule failing_kept [OF migrate_kept], erule conjunct1)
  fix u :: unit and crash line
  show "triple (\<lambda>s. kept (cursors s) \<and> (Inr u = Inr () \<longrightarrow> db s \<noteq> None))
      (pbind (pj_NewReader pj gc) (\<lambda>reader. deferring (close_reader pj reader) (consumeLoop pj c reader crash)))
      (\<lambda>_ s. kept (cursors s)) (\<lambda>s. kept (cursors s))" for gc
    unfolding consumeLoop_def
    by (rule triple_bind [OF triple_pre [OF new_reader_caught_up]], simp,
      rule deferring_kept [OF close_reader_leaves consume_loop_kept])
qed

lemma main_kept:
  "kept (cursors s) \<Longrightarrow> kept (cursors (snd (projector_main pj getenv s)))"
proof -
  assume k: "kept (cursors s)"
  have "triple (\<lambda>s. kept (cursors s)) (projector_main pj getenv) (\<lambda>_ s. kept (cursors s)) (\<lambda>s. kept (cursors s))"
    unfolding projector_main_def by (rule triple_bind [OF run_projector_kept], rule triple_halt)
  from triple_DoneD [OF this k] triple_HaltD [OF this k] triple_FuelD [OF this k] show ?thesis
    by (metis exec.exhaust prod.collapse)
qed

text \<open>The projector only reads the topic.\<close>

lemma leaves_part: "leaves (\<lambda>s. (x s, topic s, y s)) m \<Longrightarrow> leaves topic m" "leaves (\<lambda>s. (topic s, z s)) m \<Longrightarrow> leaves topic m"
  by (simp_all add: leaves_def)

lemma topic_calls:
  "leaves topic (pj_log pj line)" "leaves topic (rt_Sleep (pj_rt pj) c d)" "leaves topic (pj_NewPool pj c dsn)"
  "leaves topic (pj_ClosePool pj)" "leaves topic (ApplyEvent (pj_pg pj) c e)" "leaves topic (EnsureTopics (pj_kafka pj) c brokers)"
  "leaves topic (crashBeforeOffsetCommitFromEnv pj getenv)" "leaves topic (close_reader pj r)" "leaves topic (pg_ExecSchema (pj_pg pj) c)"
  by (rule leaves_part(1) [OF calls_leave(1)], rule leaves_part(1) [OF calls_leave(2)], rule leaves_part(1) [OF calls_leave(4)],
    rule leaves_part(1) [OF calls_leave(5)], rule leaves_part(2) [OF ApplyEvent_leaves], rule leaves_part(1) [OF EnsureTopics_leaves],
    rule leaves_part(1) [OF crash_env_leaves], rule leaves_part(1) [OF close_reader_leaves], rule leaves_part(2) [OF pg_leaves(1)])

lemma topic_group:
  "leaves topic (pj_NewReader pj gc)" "leaves topic (pj_FetchMessage pj r c)" "leaves topic (pj_CommitMessages pj r c msg)"
  unfolding leaves_def by (metis new_reader prod.collapse, metis fetch prod.collapse, metis commit_offset prod.collapse)

lemma topic_retry: "leaves topic (apply_retry_loop k pj c e backoff)"
  by (induction k arbitrary: backoff) (auto intro!: leaves_rules topic_calls)

lemma topic_consume: "leaves topic (consume_loop k pj c r crash consumed)"
  by (induction k arbitrary: consumed)
    (auto intro!: leaves_rules topic_calls topic_group topic_retry
      simp: handle_message_def commit_message_def shutdown_or_def applyWithRetry_def)

lemma main_topic: "topic (snd (projector_main pj getenv s)) = topic s"
proof -
  have "leaves topic (projector_main pj getenv)"
    unfolding projector_main_def run_projector_def failing_def consumeLoop_def Projection_Migrate_def migrate_def wrapping_def Let_def
    by (intro leaves_rules topic_calls topic_group topic_consume allI impI)
  then show ?thesis by (simp add: leaves_def)
qed

end

end
