(* ===== verification/Sim_Store.thy ===== *)
theory Sim_Store
  imports Sim_Cluster Projector_Facts
begin

text \<open>
  The simulated world with a Postgres server and a consumer group beside it: a site. The projector's calls are
  subject to the same adversary as the worker's. The interfaces of the database and of the consumer group are
  discharged on it.
\<close>

section \<open>The site\<close>

text \<open>
  The tables, the open transactions, what the group has committed, where its reader is, when it
  rebalances, and what the projector has logged.
\<close>

record site =
  st_world :: world
  st_db :: "tables option"
  st_txs :: "nat \<Rightarrow> tables option"
  st_txno :: nat
  st_group :: "nat \<Rightarrow> nat"
  st_fetch :: "nat \<Rightarrow> nat"
  st_rebalance :: "bool list"
  st_log :: "string list"

definition on_world :: "(world, 'a) prog \<Rightarrow> (site, 'a) prog" where
  "on_world m x = (case m (st_world x) of (r, w) \<Rightarrow> (r, x\<lparr>st_world := w\<rparr>))"

text \<open>A call to a server that is not part of the worker's world.\<close>

definition site_tick :: "nat \<Rightarrow> site \<Rightarrow> site" where
  "site_tick n x = x\<lparr>st_world := tick n (st_world x)\<rparr>"

definition call :: "(site \<Rightarrow> 'a \<times> site) \<Rightarrow> 'a \<Rightarrow> 'a \<Rightarrow> (site, 'a) prog" where
  "call act refused lost x = (case next_event (st_world x) of ((m, lead, lag), w0) \<Rightarrow>
     let x1 = site_tick lead (x\<lparr>st_world := w0\<rparr>); (res, x2) = act x1 in
     case m of
       Smooth \<Rightarrow> (Done res, site_tick lag x2)
     | Refuse \<Rightarrow> (Done refused, site_tick lag x1)
     | LoseReply \<Rightarrow> (Done lost, site_tick lag x2)
     | Garble \<Rightarrow> (Done lost, site_tick lag x1)
     | KillBefore \<Rightarrow> (Halt 137, x1)
     | KillAfter \<Rightarrow> (Halt 137, site_tick lag x2))"

definition passes :: "site \<Rightarrow> site \<Rightarrow> bool" where
  "passes x x' \<longleftrightarrow> (\<exists>w. x' = x\<lparr>st_world := w\<rparr> \<and> w_topic w = w_topic (st_world x))"

lemma passes_fields:
  assumes "passes x x'"
  shows "st_db x' = st_db x" "st_txs x' = st_txs x" "st_group x' = st_group x" "st_fetch x' = st_fetch x"
    "w_topic (st_world x') = w_topic (st_world x)"
  using assms by (auto simp: passes_def)

lemma passes_refl [simp]: "passes x x"
  unfolding passes_def by (rule exI [of _ "st_world x"]) simp

lemma passes_trans: "passes x y \<Longrightarrow> passes y z \<Longrightarrow> passes x z"
  by (auto simp: passes_def)

lemma passes_tick [simp]: "passes x (site_tick n x)"
  unfolding passes_def site_tick_def by (intro exI conjI, rule refl) (simp add: tick_def)

lemma passes_event: "next_event (st_world x) = (e, w0) \<Longrightarrow> passes x (x\<lparr>st_world := w0\<rparr>)"
  unfolding passes_def by (intro exI conjI, rule refl) (auto simp: next_event_def split: list.splits)

lemma call_cases:
  assumes "call act refused lost x = (r, x')"
  obtains (idle) "passes x x'" "r = Done refused \<or> r = Done lost \<or> r = Halt 137"
  | (acts) x1 res x2 where "passes x x1" "act x1 = (res, x2)" "passes x2 x'" "r = Done res \<or> r = Done lost \<or> r = Halt 137"
proof -
  obtain m lead lag w0 where n: "next_event (st_world x) = ((m, lead, lag), w0)"
    by (cases "next_event (st_world x)") auto
  let ?x1 = "site_tick lead (x\<lparr>st_world := w0\<rparr>)"
  obtain res x2 where a: "act ?x1 = (res, x2)" by fastforce
  have d: "passes x ?x1" by (rule passes_trans [OF passes_event [OF n]]) simp
  show thesis
    using assms n a d idle acts [OF d a] passes_trans [OF d passes_tick] by (cases m) (auto simp: call_def)
qed


section \<open>The Postgres server\<close>

text \<open>Postgres keeps of a document what its canonical form says: no order of members, the last of equal keys.\<close>

definition sim_types :: pg_types where
  "sim_types = \<lparr>pt_uuid = Inr, pt_text = (\<lambda>s. if CHR 0x00 \<in> set s then Inl ''22021'' else Inr s),
     pt_int4 = (\<lambda>i. if - (2 ^ 31) \<le> i \<and> i < 2 ^ 31 then Inr i else Inl ''22003''),
     pt_jsonb = (\<lambda>d. case d of None \<Rightarrow> Inl ''23502'' | Some j \<Rightarrow> Inr (canon j)),
     pt_timestamptz = (\<lambda>t. Inr (truncate_us t))\<rparr>"

definition pg_error :: "string \<Rightarrow> goerror" where
  "pg_error code = GoError (''ERROR: (SQLSTATE '' @ code @ '')'') [SPgError code]"

definition no_rows_found :: goerror where "no_rows_found = Errorf ''no rows in result set''"

definition in_tx :: "nat \<Rightarrow> (tables \<Rightarrow> goerror + 'a \<times> tables) \<Rightarrow> (site, goerror + 'a) prog" where
  "in_tx t f = call (\<lambda>x. case st_txs x t of
       None \<Rightarrow> (Inl (pg_error ''42P01''), x)
     | Some T \<Rightarrow> (case f T of
         Inl err \<Rightarrow> (Inl err, x) | Inr (a, T') \<Rightarrow> (Inr a, x\<lparr>st_txs := (st_txs x)(t \<mapsto> T')\<rparr>)))
     (Inl io_error) (Inl io_error)"

definition server :: "string + 'a \<Rightarrow> goerror + 'a" where
  "server r = map_sum pg_error id r"

definition sim_pg :: "site pg_client" where
  "sim_pg = \<lparr>
     pg_ExecSchema = (\<lambda>c. call (\<lambda>x. (Inr (), x\<lparr>st_db := initSchema (st_db x)\<rparr>)) (Inl io_error) (Inl io_error)),
     pg_Begin = (\<lambda>c. call (\<lambda>x. (Inr (st_txno x), x\<lparr>st_txs := (st_txs x)(st_txno x := st_db x), st_txno := st_txno x + 1\<rparr>))
       (Inl io_error) (Inl io_error)),
     pg_InsertEvent = (\<lambda>t c e. in_tx t (\<lambda>T. server (insert_event sim_types T e))),
     pg_SelectEventID = (\<lambda>t c runID seq. in_tx t (\<lambda>T. case server (select_event_id sim_types T runID seq) of
         Inl err \<Rightarrow> Inl err | Inr None \<Rightarrow> Inl no_rows_found | Inr (Some found) \<Rightarrow> Inr (found, T))),
     pg_UpsertRun = (\<lambda>t c a. in_tx t (\<lambda>T. map_sum id (\<lambda>T'. ((), T')) (server (upsert_run sim_types T a)))),
     pg_Commit = (\<lambda>t c. call (\<lambda>x. (Inr (), x\<lparr>st_db := st_txs x t, st_txs := (st_txs x)(t := None)\<rparr>))
       (Inl io_error) (Inl io_error)),
     pg_Rollback = (\<lambda>t c. call (\<lambda>x. (Inr (), x\<lparr>st_txs := (st_txs x)(t := None)\<rparr>)) (Inl io_error) (Inl io_error)),
     pg_SelectEvents = (\<lambda>c runID. call (\<lambda>x. (case st_db x of
         None \<Rightarrow> Inl (pg_error ''42P01'')
       | Some T \<Rightarrow> map_sum id (\<lambda>rows. (map Inr rows, Inr ())) (server (select_events sim_types T runID)), x))
       (Inl io_error) (Inl io_error))\<rparr>"

lemma pg_errors [simp]: "\<not> errors_Is io_error SConflictingEvent" "\<not> errors_Is (pg_error code) SConflictingEvent"
  "\<not> errors_Is no_rows_found SConflictingEvent"
  by (simp_all add: io_error_def pg_error_def no_rows_found_def errors_Is_def Errorf_def)

lemma server_simps: "server r = Inr a \<longleftrightarrow> r = Inr a" "server r = Inl err \<longleftrightarrow> (\<exists>code. r = Inl code \<and> err = pg_error code)"
  by (cases r; auto simp: server_def)+

lemma upserts: "map_sum id (\<lambda>T'. ((), T')) r = Inr (u, T) \<longleftrightarrow> r = Inr T" "map_sum id (\<lambda>T'. ((), T')) r = Inl err \<longleftrightarrow> r = Inl err"
  by (cases r; simp)+

lemma finds:
  "(case server r of Inl err \<Rightarrow> Inl err | Inr None \<Rightarrow> Inl no_rows_found | Inr (Some a) \<Rightarrow> Inr (a, T)) = Inr (b, T')
    \<longleftrightarrow> r = Inr (Some b) \<and> T' = T"
  by (cases r) (auto simp: server_def split: option.splits)

lemma finds_error:
  "(case server r of Inl err \<Rightarrow> Inl err | Inr None \<Rightarrow> Inl no_rows_found | Inr (Some a) \<Rightarrow> Inr (a, T)) = Inl err
    \<Longrightarrow> \<not> errors_Is err SConflictingEvent"
  by (cases r) (auto simp: server_def split: option.splits)

lemma in_tx_law:
  assumes "in_tx t f x = (r, x')"
  shows "st_db x' = st_db x \<and> (\<forall>a T. r = Done (Inr a) \<longrightarrow> st_txs x t = Some T \<longrightarrow> (\<exists>T'. f T = Inr (a, T') \<and> st_txs x' t = Some T'))
    \<and> (\<forall>err. r = Done (Inl err) \<longrightarrow> errors_Is err SConflictingEvent \<longrightarrow> (\<exists>T. f T = Inl err))"
  using assms unfolding in_tx_def
proof (cases rule: call_cases)
  case (acts x1 res x2)
  then show ?thesis
    by (auto simp: passes_fields split: option.splits sum.splits prod.splits)
qed (auto simp: passes_fields)

interpretation sim_postgres: postgres sim_pg sim_types st_db st_txs
proof
  show "(st_db s' = st_db s \<or> st_db s' = initSchema (st_db s)) \<and> (r0 = Done (Inr ()) \<longrightarrow> st_db s' = initSchema (st_db s))"
    if "pg_ExecSchema sim_pg c s = (r0, s')" for c s r0 s'
    using that unfolding sim_pg_def pg_client.select_convs by (cases rule: call_cases) (auto simp: passes_fields)
  show "st_db s' = st_db s \<and> (\<forall>t. r1 = Done (Inr t) \<longrightarrow> st_txs s' t = st_db s)
      \<and> (\<forall>err. r1 = Done (Inl err) \<longrightarrow> \<not> errors_Is err SConflictingEvent)"
    if "pg_Begin sim_pg c s = (r1, s')" for c s r1 s'
    using that unfolding sim_pg_def pg_client.select_convs by (cases rule: call_cases) (auto simp: passes_fields)
  show "st_db s' = st_db s
      \<and> (\<forall>n T. r2 = Done (Inr n) \<longrightarrow> st_txs s t = Some T \<longrightarrow> (\<exists>T'. insert_event sim_types T e = Inr (n, T') \<and> st_txs s' t = Some T'))
      \<and> (\<forall>err. r2 = Done (Inl err) \<longrightarrow> \<not> errors_Is err SConflictingEvent)"
    if "pg_InsertEvent sim_pg t c e s = (r2, s')" for t c e s r2 s'
    using in_tx_law [OF that [unfolded sim_pg_def pg_client.select_convs]] by (auto simp: server_simps)
  show "st_db s' = st_db s
      \<and> (\<forall>x T. r3 = Done (Inr x) \<longrightarrow> st_txs s t = Some T \<longrightarrow> select_event_id sim_types T runID seq = Inr (Some x) \<and> st_txs s' t = Some T)
      \<and> (\<forall>err. r3 = Done (Inl err) \<longrightarrow> \<not> errors_Is err SConflictingEvent)"
    if "pg_SelectEventID sim_pg t c runID seq s = (r3, s')" for t c runID seq s r3 s'
    using in_tx_law [OF that [unfolded sim_pg_def pg_client.select_convs]]
    by (auto simp: finds dest: finds_error)
  show "st_db s' = st_db s
      \<and> (\<forall>T. r4 = Done (Inr ()) \<longrightarrow> st_txs s t = Some T \<longrightarrow> (\<exists>T'. upsert_run sim_types T a = Inr T' \<and> st_txs s' t = Some T'))
      \<and> (\<forall>err. r4 = Done (Inl err) \<longrightarrow> \<not> errors_Is err SConflictingEvent)"
    if "pg_UpsertRun sim_pg t c a s = (r4, s')" for t c a s r4 s'
    using in_tx_law [OF that [unfolded sim_pg_def pg_client.select_convs]]
    by (fastforce simp: server_simps upserts)
  show "(st_db s' = st_db s \<or> st_db s' = Some T) \<and> (r5 = Done (Inr ()) \<longrightarrow> st_db s' = Some T)
      \<and> (\<forall>err. r5 = Done (Inl err) \<longrightarrow> \<not> errors_Is err SConflictingEvent)"
    if "pg_Commit sim_pg t c s = (r5, s')" "st_txs s t = Some T" for t c s r5 s' T
    using that unfolding sim_pg_def pg_client.select_convs by (cases rule: call_cases) (auto simp: passes_fields)
  show "st_db (snd (pg_Rollback sim_pg t c s)) = st_db s" for t c s
  proof -
    obtain r s' where x: "pg_Rollback sim_pg t c s = (r, s')" by fastforce
    then show ?thesis
      unfolding sim_pg_def pg_client.select_convs by (cases rule: call_cases) (use x in \<open>auto simp: passes_fields sim_pg_def\<close>)
  qed
  show "st_db s' = st_db s
      \<and> (\<forall>rows T. r6 = Done (Inr (map Inr rows, Inr ())) \<longrightarrow> st_db s = Some T \<longrightarrow> select_events sim_types T runID = Inr rows)"
    if "pg_SelectEvents sim_pg c runID s = (r6, s')" for c runID s r6 s'
    using that unfolding sim_pg_def pg_client.select_convs
  proof (cases rule: call_cases)
    case (acts x1 res x2)
    then show ?thesis by (auto simp: passes_fields server_def map_sum_def inj_map_eq_map split: option.splits sum.splits)
  qed (auto simp: passes_fields)
qed


section \<open>The consumer group\<close>

definition site_runtime :: "site runtime" where
  "site_runtime = \<lparr>rt_Now = on_world (rt_Now sim_runtime), rt_UUID = on_world (rt_UUID sim_runtime),
     rt_Err = (\<lambda>c. on_world (rt_Err sim_runtime c)), rt_Sleep = (\<lambda>c d. on_world (rt_Sleep sim_runtime c d)),
     rt_Getenv = (\<lambda>n. on_world (rt_Getenv sim_runtime n)), rt_Getpid = on_world (rt_Getpid sim_runtime),
     rt_MkdirAll = (\<lambda>d. on_world (rt_MkdirAll sim_runtime d)), rt_OpenAppend = (\<lambda>p. on_world (rt_OpenAppend sim_runtime p)),
     rt_Write = (\<lambda>p j. on_world (rt_Write sim_runtime p j)), rt_Sync = (\<lambda>p. on_world (rt_Sync sim_runtime p)),
     rt_Close = (\<lambda>p. on_world (rt_Close sim_runtime p)), rt_ReadFile = (\<lambda>p. on_world (rt_ReadFile sim_runtime p))\<rparr>"

definition site_kafka :: "site kafka_client" where
  "site_kafka = \<lparr>
     kc_DialContext = (\<lambda>c b. on_world (kc_DialContext sim_kafka c b)),
     kc_DialLeader = (\<lambda>c b T p. on_world (kc_DialLeader sim_kafka c b T p)),
     kc_CreateTopics = (\<lambda>conn tc. on_world (kc_CreateTopics sim_kafka conn tc)),
     kc_ReadPartitions = (\<lambda>conn T. on_world (kc_ReadPartitions sim_kafka conn T)),
     kc_ReadOffsets = (\<lambda>conn. on_world (kc_ReadOffsets sim_kafka conn)),
     kc_CloseConn = (\<lambda>conn. on_world (kc_CloseConn sim_kafka conn)),
     kc_NewReader = (\<lambda>rc. on_world (kc_NewReader sim_kafka rc)),
     kc_SetOffset = (\<lambda>r i. on_world (kc_SetOffset sim_kafka r i)),
     kc_ReadMessage = (\<lambda>c r. on_world (kc_ReadMessage sim_kafka c r)),
     kc_CloseReader = (\<lambda>r. on_world (kc_CloseReader sim_kafka r)),
     kc_WriteMessages = (\<lambda>wc c key v. on_world (kc_WriteMessages sim_kafka wc c key v)),
     kc_CloseWriter = on_world (kc_CloseWriter sim_kafka)\<rparr>"

text \<open>
  A fetch answers a message from a partition with one to read, chosen by the time of day. With nothing to read
  it waits until the process is told to stop.
\<close>

definition site_topic :: "site \<Rightarrow> topic" where "site_topic x = w_topic (st_world x)"

definition fetch_message :: "site \<Rightarrow> (goerror + fetched) \<times> site" where
  "fetch_message x = (let cur = (if st_rebalance x \<noteq> [] \<and> hd (st_rebalance x) then st_group x else st_fetch x);
       x' = x\<lparr>st_rebalance := tl (st_rebalance x)\<rparr> in
     case find (\<lambda>p. cur p < length (site_topic x p)) (rotate (nat (w_now (st_world x))) [0..<RunEventsPartitions]) of
       None \<Rightarrow> (Inl ctx_canceled, x')
     | Some p \<Rightarrow> (Inr \<lparr>fm_Partition = p, fm_Offset = int (cur p), fm_Value = Some (snd (site_topic x p ! cur p))\<rparr>,
         x'\<lparr>st_fetch := cur(p := Suc (cur p))\<rparr>))"

definition commit_offset :: "fetched \<Rightarrow> site \<Rightarrow> site" where
  "commit_offset msg x = x\<lparr>st_group := (st_group x)(fm_Partition msg := nat (fm_Offset msg) + 1)\<rparr>"

definition sim_projector :: "nat \<Rightarrow> nat \<Rightarrow> site projector" where
  "sim_projector messages attempts = \<lparr>pj_rt = site_runtime, pj_kafka = site_kafka,
     pj_NewReader = (\<lambda>gc x. (Done 0, x\<lparr>st_fetch := st_group x\<rparr>)),
     pj_FetchMessage = (\<lambda>r c. call fetch_message (Inl io_error) (Inl io_error)),
     pj_CommitMessages = (\<lambda>r c msg. call (\<lambda>x. (Inr (), commit_offset msg x)) (Inl io_error) (Inl io_error)),
     pj_CloseReader = (\<lambda>r. call (\<lambda>x. (Inr (), x)) (Inl io_error) (Inl io_error)),
     pj_NewPool = (\<lambda>c dsn. call (\<lambda>x. (Inr (), x)) (Inl io_error) (Inl io_error)),
     pj_ClosePool = call (\<lambda>x. ((), x)) () (), pj_pg = sim_pg,
     pj_log = (\<lambda>line. call (\<lambda>x. ((), x\<lparr>st_log := st_log x @ [line]\<rparr>)) () ()),
     pj_messages = messages, pj_attempts = attempts\<rparr>"

abbreviation site_cursors :: "site \<Rightarrow> tables option \<times> topic \<times> (nat \<Rightarrow> nat) \<times> (nat \<Rightarrow> nat)" where
  "site_cursors x \<equiv> (st_db x, site_topic x, st_group x, st_fetch x)"

lemma passes_cursors: "passes x y \<Longrightarrow> site_cursors y = site_cursors x"
  by (auto simp: passes_fields site_topic_def)

lemma call_leaves:
  assumes "\<And>x y. passes x y \<Longrightarrow> view y = view x" and "\<And>x. view (snd (act x)) = view x"
  shows "leaves view (call act refused lost)"
  unfolding leaves_def
proof
  fix x
  obtain r x' where c: "call act refused lost x = (r, x')" by fastforce
  then have "view x' = view x"
  proof (cases rule: call_cases)
    case (acts x1 res x2)
    then show ?thesis using assms(1) [OF acts(1)] assms(1) [OF acts(3)] assms(2) [of x1] by simp
  qed (rule assms(1))
  with c show "view (snd (call act refused lost x)) = view x" by simp
qed

lemma on_world_leaves:
  assumes "\<And>w. w_topic (snd (m w)) = w_topic w" shows "leaves site_cursors (on_world m)"
  unfolding leaves_def on_world_def using assms by (auto simp: site_topic_def split: prod.split) (metis snd_conv)

lemma sleep_topic: "w_topic (snd (rt_Sleep sim_runtime c d w)) = w_topic w"
proof -
  obtain r w' where s: "rt_Sleep sim_runtime c d w = (r, w')" by fastforce
  then have "external (\<lambda>w. (case earliest c of
       None \<Rightarrow> (Inr (), tick (nat d) w)
     | Some t \<Rightarrow> if t < w_now w + d then (Inl ctx_deadline, tick (nat (t - w_now w)) w)
         else (Inr (), tick (nat d) w))) (Inl ctx_canceled) (Inl ctx_canceled) (\<lambda>w. w) w = (r, w')"
    by (simp add: sim_runtime_def sim_Sleep_def)
  then have "w_topic w' = w_topic w"
  proof (cases rule: external_drift)
    case (acts w1 res w2)
    then have "drift w1 w2" using sleep_drift [of d w1 c w2] by simp
    with acts show ?thesis by (simp add: drift_fields)
  qed (simp_all add: drift_fields)
  with s show ?thesis by simp
qed

lemma pg_calls_leave:
  fixes view :: "site \<Rightarrow> topic \<times> (nat \<Rightarrow> nat) \<times> (nat \<Rightarrow> nat)"
  defines "view \<equiv> \<lambda>x. (site_topic x, st_group x, st_fetch x)"
  shows "leaves view (pg_ExecSchema sim_pg c)" "leaves view (pg_Begin sim_pg c)" "leaves view (pg_InsertEvent sim_pg t c e)"
    "leaves view (pg_SelectEventID sim_pg t c runID seq)" "leaves view (pg_UpsertRun sim_pg t c a)"
    "leaves view (pg_Commit sim_pg t c)" "leaves view (pg_Rollback sim_pg t c)"
  unfolding sim_pg_def pg_client.select_convs in_tx_def
  by (rule call_leaves, simp add: view_def passes_fields site_topic_def,
    simp add: view_def site_topic_def split: option.split sum.split prod.split)+

lemma find_SomeD: "find P xs = Some a \<Longrightarrow> P a"
  by (induction xs) (auto split: if_splits)

lemma sim_projector_pg: "pj_pg (sim_projector messages attempts) = sim_pg"
  by (simp add: sim_projector_def)

interpretation sim_consumer: consumer "sim_projector messages attempts" sim_types st_db st_txs site_topic st_group st_fetch
  for messages attempts
proof (rule consumer.intro, unfold sim_projector_pg, rule sim_postgres.postgres_axioms, rule consumer_axioms.intro, unfold sim_projector_pg)
  let ?pj = "sim_projector messages attempts"
  show "leaves (\<lambda>s. (site_topic s, st_group s, st_fetch s)) (pg_ExecSchema sim_pg c)"
    "leaves (\<lambda>s. (site_topic s, st_group s, st_fetch s)) (pg_Begin sim_pg c)"
    "leaves (\<lambda>s. (site_topic s, st_group s, st_fetch s)) (pg_InsertEvent sim_pg t c e)"
    "leaves (\<lambda>s. (site_topic s, st_group s, st_fetch s)) (pg_SelectEventID sim_pg t c runID seq)"
    "leaves (\<lambda>s. (site_topic s, st_group s, st_fetch s)) (pg_UpsertRun sim_pg t c a)"
    "leaves (\<lambda>s. (site_topic s, st_group s, st_fetch s)) (pg_Commit sim_pg t c)"
    "leaves (\<lambda>s. (site_topic s, st_group s, st_fetch s)) (pg_Rollback sim_pg t c)" for c t e runID seq a
    by (rule pg_calls_leave)+
  show "leaves site_cursors (pj_log ?pj line)" "leaves site_cursors (pj_CloseReader ?pj r)"
    "leaves site_cursors (pj_NewPool ?pj c dsn)" "leaves site_cursors (pj_ClosePool ?pj)" for line r c dsn
    unfolding sim_projector_def projector.select_convs
    by (rule call_leaves, rule passes_cursors, assumption, simp add: site_topic_def)+
  show "leaves site_cursors (rt_Sleep (pj_rt ?pj) c d)" for c d
    by (simp add: sim_projector_def site_runtime_def on_world_leaves sleep_topic)
  show "leaves site_cursors (kc_DialContext (pj_kafka ?pj) c b)" "leaves site_cursors (kc_CreateTopics (pj_kafka ?pj) n tc)"
    "leaves site_cursors (kc_ReadPartitions (pj_kafka ?pj) n T)" "leaves site_cursors (kc_CloseConn (pj_kafka ?pj) n)" for c b n tc T
    unfolding sim_projector_def projector.select_convs site_kafka_def kafka_client.select_convs
    by (rule on_world_leaves, rule looks_topic, rule kafka_looks)+
  show "st_db s' = st_db s \<and> site_topic s' = site_topic s \<and> st_group s' = st_group s \<and> (\<forall>r. r0 = Done r \<longrightarrow> st_fetch s' = st_group s)"
    if "pj_NewReader ?pj gc s = (r0, s')" for gc s r0 s'
    using that by (auto simp: sim_projector_def site_topic_def)
  show "st_db s' = st_db s \<and> site_topic s' = site_topic s \<and> st_group s' = st_group s
      \<and> (\<forall>msg. r1 = Done (Inr msg) \<longrightarrow> (\<exists>cur \<in> {st_fetch s, st_group s}. let p = fm_Partition msg; i = cur p in
          i < length (site_topic s p) \<and> fm_Offset msg = int i \<and> fm_Value msg = Some (snd (site_topic s p ! i))
          \<and> st_fetch s' = cur(p := Suc i)))"
    if "pj_FetchMessage ?pj r c s = (r1, s')" for r c s r1 s'
    using that unfolding sim_projector_def projector.select_convs
  proof (cases rule: call_cases)
    case (acts x1 res x2)
    then show ?thesis
      by (auto simp: fetch_message_def Let_def site_topic_def passes_fields split: option.splits if_splits dest!: find_SomeD)
  qed (auto simp: passes_fields site_topic_def)
  show "st_db s' = st_db s \<and> site_topic s' = site_topic s \<and> st_fetch s' = st_fetch s
      \<and> (st_group s' = st_group s \<or> st_group s' = (st_group s)(fm_Partition msg := nat (fm_Offset msg) + 1))"
    if "pj_CommitMessages ?pj r c msg s = (r2, s')" for r c msg s r2 s'
    using that unfolding sim_projector_def projector.select_convs
  proof (cases rule: call_cases)
    case (acts x1 res x2)
    then show ?thesis by (auto simp: commit_offset_def passes_fields site_topic_def)
  qed (auto simp: passes_fields site_topic_def)
qed

end
