(* ===== verification/Sim_Topic.thy ===== *)
theory Sim_Topic
  imports Sim_Worker
begin

text \<open>
  What a worker does to the topic, whatever run it works on and however it ends: it appends events that are keyed
  by their run, on the run's partition, dated on a whole microsecond.
\<close>

section \<open>Programs that only move forward\<close>

locale step_order =
  fixes rel :: "'s \<Rightarrow> 's \<Rightarrow> bool"
  assumes rel_refl: "rel s s" and rel_trans: "rel s t \<Longrightarrow> rel t u \<Longrightarrow> rel s u"
begin

definition moves :: "('s, 'a) prog \<Rightarrow> bool" where
  "moves m \<longleftrightarrow> (\<forall>s. rel s (snd (m s)))"

lemma movesD: "moves m \<Longrightarrow> m s = (x, s') \<Longrightarrow> rel s s'"
  unfolding moves_def by (metis snd_conv)

lemma moves_return: "moves (preturn a)" and moves_halt: "moves (phalt c)" and moves_stuck: "moves pstuck"
  by (simp_all add: moves_def rel_refl)

lemma moves_bind: "moves m \<Longrightarrow> (\<And>a. moves (f a)) \<Longrightarrow> moves (pbind m f)"
  unfolding moves_def pbind_def by (auto split: prod.splits exec.splits) (metis rel_trans snd_conv)+

lemma moves_sum: "(\<And>e. r = Inl e \<Longrightarrow> moves (f e)) \<Longrightarrow> (\<And>a. r = Inr a \<Longrightarrow> moves (g a)) \<Longrightarrow> moves (case r of Inl e \<Rightarrow> f e | Inr a \<Rightarrow> g a)"
  by (simp split: sum.split)

lemma moves_option: "(r = None \<Longrightarrow> moves f) \<Longrightarrow> (\<And>a. r = Some a \<Longrightarrow> moves (g a)) \<Longrightarrow> moves (case r of None \<Rightarrow> f | Some a \<Rightarrow> g a)"
  by (simp split: option.split)

lemma moves_if: "(b \<Longrightarrow> moves m) \<Longrightarrow> (\<not> b \<Longrightarrow> moves n) \<Longrightarrow> moves (if b then m else n)"
  by simp

lemma moves_prod: "(\<And>a b. moves (f a b)) \<Longrightarrow> moves (case r of (a, b) \<Rightarrow> f a b)"
  by (simp split: prod.split)

lemma moves_bool: "moves m \<Longrightarrow> moves n \<Longrightarrow> moves (case b of True \<Rightarrow> m | False \<Rightarrow> n)"
  by (simp split: bool.split)

lemma moves_bindE: "moves m \<Longrightarrow> (\<And>a. moves (f a)) \<Longrightarrow> moves (pbindE m f)"
  unfolding pbindE_def by (intro moves_bind moves_sum moves_return)

lemma moves_bindM: "moves m \<Longrightarrow> (\<And>e. moves (h e)) \<Longrightarrow> (\<And>a. moves (f a)) \<Longrightarrow> moves (pbindM m h f)"
  unfolding pbindM_def by (intro moves_bind moves_sum moves_return)

lemma moves_deferring: "moves d \<Longrightarrow> moves m \<Longrightarrow> moves (deferring d m)"
  unfolding deferring_def by (intro moves_bind moves_return)

lemmas moves_rules = moves_return moves_halt moves_stuck moves_bind moves_bindE moves_bindM moves_sum moves_option
  moves_if moves_bool moves_prod moves_deferring

end


section \<open>What workers append\<close>

definition from_worker :: "balancer \<Rightarrow> nat \<Rightarrow> string \<times> json \<Rightarrow> bool" where
  "from_worker hash p m \<longleftrightarrow> p = PartitionFor hash (fst m) RunEventsPartitions
     \<and> (\<exists>e. snd m = enc_envelope e \<and> RunID e = fst m \<and> json_year (OccurredAt e) \<and> truncate_us (OccurredAt e) = OccurredAt e)"

definition extended :: "balancer \<Rightarrow> world \<Rightarrow> world \<Rightarrow> bool" where
  "extended hash w w' \<longleftrightarrow> (\<forall>p. \<exists>ms. w_topic w' p = w_topic w p @ ms \<and> (\<forall>m \<in> set ms. from_worker hash p m))"

lemma extended_same: "w_topic w' = w_topic w \<Longrightarrow> extended hash w w'"
  by (simp add: extended_def)

interpretation extending: step_order "extended hash" for hash
proof
  show "extended hash s s" for s by (rule extended_same) simp
  show "extended hash s u" if a: "extended hash s t" and b: "extended hash t u" for s t u
    unfolding extended_def
  proof
    fix p
    from a b obtain ms ms' where "w_topic t p = w_topic s p @ ms" "w_topic u p = w_topic t p @ ms'"
      "\<forall>m \<in> set ms. from_worker hash p m" "\<forall>m \<in> set ms'. from_worker hash p m" unfolding extended_def by metis
    then show "\<exists>ms. w_topic u p = w_topic s p @ ms \<and> (\<forall>m \<in> set ms. from_worker hash p m)"
      by (intro exI [of _ "ms @ ms'"]) auto
  qed
qed


text \<open>Calls that leave the topic alone.\<close>

lemma kept_extends: "(\<And>w. w_topic (snd (m w)) = w_topic w) \<Longrightarrow> extending.moves hash m"
  by (simp add: extending.moves_def extended_same)

lemma looks_extends: "looks m \<Longrightarrow> extending.moves hash m"
  by (rule kept_extends) (rule looks_topic)

lemma calm_extends: "(\<And>T. calm_prog (topic_view T) m) \<Longrightarrow> extending.moves hash m"
  by (rule kept_extends) (rule topic_kept)

lemma unmoved_extends: "(\<And>view. unmoved view \<Longrightarrow> calm_prog view m) \<Longrightarrow> extending.moves hash m"
  by (rule calm_extends) (auto intro: beside_unmoved [OF beside_topic])

lemma external_extends:
  assumes "\<And>w. w_topic (snd (act w)) = w_topic w" and "\<And>w. w_topic (garbled w) = w_topic w"
  shows "extending.moves hash (external act refused lost garbled)"
proof (rule kept_extends)
  fix w
  obtain x w' where x: "external act refused lost garbled w = (x, w')" by fastforce
  then have "w_topic w' = w_topic w"
  proof (cases rule: external_drift)
    case (acts w1 res w2)
    then show ?thesis using assms(1) [of w1] by (simp add: drift_fields)
  qed (simp_all add: drift_fields assms(2))
  with x show "w_topic (snd (external act refused lost garbled w)) = w_topic w" by simp
qed

lemma internal_extends:
  assumes "\<And>w. w_topic (snd (act w)) = w_topic w" shows "extending.moves hash (internal act)"
proof (rule kept_extends)
  fix w
  obtain x w' where x: "internal act w = (x, w')" by fastforce
  then have "w_topic w' = w_topic w"
  proof (cases rule: internal_drift)
    case (acts w1 res w2)
    then show ?thesis using assms [of w1] by (simp add: drift_fields)
  qed (simp_all add: drift_fields)
  with x show "w_topic (snd (internal act w)) = w_topic w" by simp
qed

lemma wrapping_extends: "extending.moves hash (wrapping pre e)"
  unfolding wrapping_def by (rule extending.moves_return)

lemma runtime_extends:
  "extending.moves hash (rt_Now sim_runtime)" "extending.moves hash (rt_UUID sim_runtime)"
  "extending.moves hash (rt_Getpid sim_runtime)" "extending.moves hash (rt_Sleep sim_runtime c d)"
  "extending.moves hash (sim_Stdout x)" "extending.moves hash (sim_Stderr x)"
  by (auto intro!: unmoved_extends unmoved_ops internal_extends simp: sim_Stderr_def sim_runtime_def)

lemma kafka_extends:
  "extending.moves hash (kc_NewReader sim_kafka rc)" "extending.moves hash (kc_SetOffset sim_kafka r i)"
  "extending.moves hash (kc_ReadMessage sim_kafka c r)"
  unfolding sim_kafka_def kafka_client.select_convs
  by (auto intro!: external_extends internal_extends simp: read_message_def Let_def)

lemmas sim_extends = wrapping_extends runtime_extends kafka_extends kafka_looks [THEN looks_extends]

lemma model_extends: "extending.moves hash (sim_messages_New apiKey ctx params)"
  using model_topic by (intro kept_extends) metis


section \<open>Publishing\<close>

lemma publish_extends:
  assumes "truncate_us (OccurredAt e) = OccurredAt e"
  shows "extending.moves hash (Publish sim_kafka (NewEventPublisher hash brokers) ctx e)"
proof (cases "json_year (OccurredAt e)")
  case False
  then show ?thesis by (simp add: Publish_def Encode_def extending.moves_return)
next
  case True
  have "extending.moves hash (kc_WriteMessages sim_kafka (NewEventPublisher hash brokers) ctx (RunID e) (enc_envelope e))"
    unfolding extending.moves_def
  proof
    fix w
    let ?p = "PartitionFor hash (RunID e) RunEventsPartitions"
    obtain x w' where x: "kc_WriteMessages sim_kafka (NewEventPublisher hash brokers) ctx (RunID e) (enc_envelope e) w = (x, w')"
      by fastforce
    from sim_write [OF x publisher_partition [symmetric]] obtain n
      where n: "w_topic w' = (w_topic w)(?p := w_topic w ?p @ replicate n (RunID e, enc_envelope e))" by blast
    have "from_worker hash ?p (RunID e, enc_envelope e)" using True assms by (auto simp: from_worker_def)
    with n x show "extended hash w (snd (kc_WriteMessages sim_kafka (NewEventPublisher hash brokers) ctx (RunID e) (enc_envelope e) w))"
      by (auto simp: extended_def)
  qed
  with True show ?thesis by (simp add: Publish_def Encode_def, intro extending.moves_rules)
qed

text \<open>The loop, with what it needs of its parts.\<close>

locale extending_loop =
  fixes l :: "world Loop" and hash :: balancer
  assumes publishes: "truncate_us (OccurredAt e) = OccurredAt e \<Longrightarrow> extending.moves hash (jc_Publisher (lp_journal l) ctx e)"
    and calls: "extending.moves hash (rt_Now (lp_rt l))" "extending.moves hash (rt_UUID (lp_rt l))"
      "extending.moves hash (rt_Sleep (lp_rt l) ctx d)" "extending.moves hash (lp_out l x)" "extending.moves hash (lp_llm l ctx params)"
    and executes: "Lookup (lp_registry l) name = Some tool \<Longrightarrow> extending.moves hash (t_Execute tool ctx invo args)"
    and fences: "lp_fence l = Some f \<Longrightarrow> Lookup (lp_registry l) name = Some tool \<Longrightarrow> extending.moves hash (f ctx invo call tool)"
begin

lemmas steps = extending.moves_rules [where hash = hash] calls

lemma publish_loop_extends:
  "truncate_us (OccurredAt e) = OccurredAt e \<Longrightarrow> extending.moves hash (publish_loop l ctx e n backoff)"
  by (induction n arbitrary: backoff) (auto intro!: steps publishes)

lemma publishApplyPrint_extends: "extending.moves hash (publishApplyPrint l ctx st payload)"
  unfolding publishApplyPrint_def publishWithRetry_def NewEnvelope_def Let_def sum.case
  by (intro steps publish_loop_extends) (simp add: truncate_us_idem split: Payload.split)

lemma journal_extends:
  "extending.moves hash (callLLMAndJournal l ctx st)" "extending.moves hash (finishRun l ctx st)"
  "extending.moves hash (failMaxSteps l ctx st)" "extending.moves hash (failRun l ctx st cl m)"
  "extending.moves hash (journalToolResult l ctx st call oc)"
  unfolding callLLMAndJournal_def finishRun_def failMaxSteps_def failRun_def journalToolResult_def go_panic_def Let_def
  by (intro steps publishApplyPrint_extends allI impI)+

lemma runInFlightTool_extends: "extending.moves hash (runInFlightTool l ctx st)"
  unfolding runInFlightTool_def executeUnfenced_def executeFenced_def go_panic_def Let_def split_def
  by (intro steps journal_extends executes fences | assumption)+

lemma invokeToolAndJournal_extends: "extending.moves hash (invokeToolAndJournal l ctx st)"
  unfolding invokeToolAndJournal_def go_panic_def Let_def
  by (cases "s_PendingToolCalls st") (auto intro!: steps publishApplyPrint_extends runInFlightTool_extends)

lemma drive_extends: "extending.moves hash (drive fuel l ctx st)"
  by (induction fuel arbitrary: st)
    (auto intro!: steps journal_extends runInFlightTool_extends invokeToolAndJournal_extends simp: Let_def
      split: NextAction.split option.split)

lemma run_extends: "extending.moves hash (Loop_Run fuel l ctx task)" "extending.moves hash (Resume fuel l ctx st)"
  unfolding Loop_Run_def Resume_def by (intro steps publishApplyPrint_extends drive_extends)+

end

lemma guard_extends:
  assumes "tool \<in> mock_tools path"
  shows "extending.moves hash (Guard_Run polls (built_guard cfg crash name) ctx invo call tool)"
proof (cases "iv_IdempotencyKey invo")
  case None
  then show ?thesis by (simp add: Guard_Run_def extending.moves_return)
next
  case (Some key)
  show ?thesis
  proof (cases "ArgsHash (tc_ToolName call) (tc_ToolArgs call)")
    case (Inl err)
    then show ?thesis by (simp add: Guard_Run_def Some extending.moves_return)
  next
    case (Inr h)
    let ?r = "\<lparr>r_g = built_guard cfg crash name, r_inv = invo, r_tc = call, r_tool = tool, r_key = key, r_argsHash = h\<rparr>"
    have "bystander ?r (topic_view T)" for T
      by (rule sim_bystander_run [where path = path and ttl = "cf_idemTTL cfg"])
        (simp_all add: wired_built_guard assms Some beside_topic)
    from calm_extends [OF bystander.Guard_Run_calm [OF this]] Some Inr show ?thesis by simp
  qed
qed

interpretation sim_extending: extending_loop "built_loop hash polls apiKey cfg runID crash name" hash
  for hash polls apiKey cfg runID crash name
proof
  let ?l = "built_loop hash polls apiKey cfg runID crash name"
  show "extending.moves hash (jc_Publisher (lp_journal ?l) ctx e)" if "truncate_us (OccurredAt e) = OccurredAt e" for e ctx
    using publish_extends [OF that] by (simp add: built_loop_def)
  show "extending.moves hash (rt_Now (lp_rt ?l))" "extending.moves hash (rt_UUID (lp_rt ?l))"
    "extending.moves hash (rt_Sleep (lp_rt ?l) ctx d)" "extending.moves hash (lp_out ?l x)" for ctx d x
    by (simp_all add: built_loop_def sim_extends)
  show "extending.moves hash (lp_llm ?l ctx params)" for ctx params
    unfolding built_loop_def Loop.select_convs anthropic_CreateMessage_def
    by (intro extending.moves_rules model_extends)
  have reg: "lp_registry ?l = worker_registry sim_runtime (cf_ledgerPath cfg)" by (simp add: built_loop_def)
  show "extending.moves hash (t_Execute tool ctx invo args)" if "Lookup (lp_registry ?l) nm = Some tool" for nm tool ctx invo args
  proof -
    have "tool \<in> mock_tools (cf_ledgerPath cfg)" using worker_Lookup(1) that unfolding reg .
    then show ?thesis by (intro calm_extends tools_beside(1) [OF beside_topic refl])
  qed
  show "extending.moves hash (f ctx invo call tool)" if "lp_fence ?l = Some f" "Lookup (lp_registry ?l) nm = Some tool"
    for f nm tool ctx invo call
    using worker_Lookup(1) [of "cf_ledgerPath cfg" nm tool] that guard_extends [of tool "cf_ledgerPath cfg"]
    by (auto simp: built_loop_def)
qed


section \<open>The process\<close>

lemma read_loop_extends: "extending.moves hash (read_loop fuel sim_kafka ctx p r hwm runID out)"
  by (induction fuel arbitrary: out) (auto intro!: extending.moves_rules sim_extends simp: Let_def)

lemma dial_leader_extends: "extending.moves hash (dial_leader sim_kafka ctx p brokers err)"
  by (induction brokers arbitrary: err) (auto intro!: extending.moves_rules sim_extends)

lemma replay_extends: "extending.moves hash (replay_from blocks fuel h sim_kafka brokers ctx runID)"
  unfolding replay_from_def KafkaEventSource_Events_def Let_def
  by (intro extending.moves_rules sim_extends read_loop_extends dial_leader_extends)

lemma process_extends:
  assumes ps: "ps = sim_process hash polls reads rounds"
  shows "extending.moves hash (complain ps pre err)" "extending.moves hash (ps_CloseRedis ps addr)"
    "extending.moves hash (close_publisher ps)" "extending.moves hash (EnsureTopics (ps_kafka ps) ctx brokers)"
    "extending.moves hash (pingRedis ps ctx addr)" "extending.moves hash (startingState ps ctx cfg)"
proof -
  have p: "ps_rt ps = sim_runtime" "ps_kafka ps = sim_kafka" "ps_Stdout ps = sim_Stdout" "ps_Stderr ps = sim_Stderr"
    by (simp_all add: ps sim_process_def)
  show c: "extending.moves hash (complain ps pre err)" for pre err
    unfolding complain_def p by (intro sim_extends)
  show "extending.moves hash (ps_CloseRedis ps addr)"
    by (simp add: ps sim_process_def internal_extends)
  show "extending.moves hash (close_publisher ps)"
    unfolding close_publisher_def Publisher_Close_def p by (intro extending.moves_rules sim_extends c)
  show "extending.moves hash (EnsureTopics (ps_kafka ps) ctx brokers)"
    unfolding EnsureTopics_def p by (cases brokers) (auto intro!: extending.moves_rules sim_extends)
  have "extending.moves hash (ps_Ping ps addr c)" for c by (simp add: ps sim_process_def external_extends)
  then show "extending.moves hash (pingRedis ps ctx addr)"
    unfolding pingRedis_def WithTimeout_def p by (intro extending.moves_rules sim_extends)
  show "extending.moves hash (startingState ps ctx cfg)"
    unfolding startingState_def NewKafkaEventSource_def p
    by (intro extending.moves_rules sim_extends replay_extends c)
qed

lemma run_task_extends: "extending.moves hash (run_task (sim_process hash polls reads rounds) ctx apiKey cfg runID st)"
proof -
  have k: "ps_kafka (sim_process hash polls reads rounds) = sim_kafka" "ps_hash (sim_process hash polls reads rounds) = hash"
    by (simp_all add: sim_process_def)
  have "extending.moves hash (exitCodeFor (sim_process hash polls reads rounds) r)" for r
    unfolding exitCodeFor_def by (intro extending.moves_rules process_extends [OF refl])
  then show ?thesis
    unfolding run_task_def k buildLoop_sim
    by (cases "ParseCrashSpec (cf_crashSpec cfg)")
      (auto simp: pbind_assoc intro!: extending.moves_rules sim_extends process_extends [OF refl] sim_extending.run_extends)
qed

lemma run_worker_extends:
  "run_worker (sim_process hash polls reads rounds) ctx apiKey cfg w = (x, w') \<Longrightarrow> extended hash w w'"
proof (erule extending.movesD [rotated])
  show "extending.moves hash (run_worker (sim_process hash polls reads rounds) ctx apiKey cfg)"
    unfolding run_worker_def
    by (intro extending.moves_rules process_extends [OF refl] run_task_extends)
qed


section \<open>Reading what workers append\<close>

lemma from_worker_decodes:
  assumes "from_worker hash p m" and "Decode (Some (snd m)) = Inr e"
  shows "RunID e = fst m" and "truncate_us (OccurredAt e) = OccurredAt e" and "p = PartitionFor hash (RunID e) RunEventsPartitions"
proof -
  from assms(1) obtain e0 where e0: "snd m = enc_envelope e0" "RunID e0 = fst m" "json_year (OccurredAt e0)"
    "truncate_us (OccurredAt e0) = OccurredAt e0" "p = PartitionFor hash (fst m) RunEventsPartitions"
    by (auto simp: from_worker_def)
  have "RunID e = RunID e0 \<and> OccurredAt e = OccurredAt e0"
    using assms(2) unfolding e0(1)
    by (auto simp: Decode_def enc_envelope_def unmarshal_members Envelope_fields_def Envelope_zero_def find_field_def
        dec_enc e0(3) dec_int_def enc_int_def split: option.splits sum.splits if_splits)
  with e0 show "RunID e = fst m" "truncate_us (OccurredAt e) = OccurredAt e" "p = PartitionFor hash (RunID e) RunEventsPartitions"
    by simp_all
qed

end
