(* ===== verification/Sim_Site.thy ===== *)
theory Sim_Site
  imports Sim_Store Sim_Topic
begin

text \<open>
  The projection of whole sites: worker processes of any runs and projector processes come and go, each may be
  killed at any call, and what Postgres holds is still what the journal says.
\<close>

section \<open>Histories of a site\<close>

inductive site_history :: "balancer \<Rightarrow> site \<Rightarrow> site \<Rightarrow> bool" for hash x0 where
  start: "site_history hash x0 x0"
| project: "site_history hash x0 x \<Longrightarrow> projector_main (sim_projector messages attempts) getenv x = (r, x')
    \<Longrightarrow> site_history hash x0 x'"
| work: "site_history hash x0 x \<Longrightarrow> run_worker (sim_process hash polls reads rounds) ctx apiKey cfg (st_world x) = (r, w)
    \<Longrightarrow> site_history hash x0 (x\<lparr>st_world := w\<rparr>)"
| pause: "site_history hash x0 x \<Longrightarrow> site_history hash x0
    (x\<lparr>st_world := (tick n (st_world x))\<lparr>w_schedule := sch, w_pid := pid, w_env := env, w_model := model\<rparr>, st_rebalance := rb\<rparr>)"

text \<open>A new site: no tables, nothing committed, an empty topic.\<close>

definition new_site :: "site \<Rightarrow> bool" where
  "new_site x \<longleftrightarrow> st_db x = None \<and> st_group x = (\<lambda>_. 0) \<and> site_topic x = (\<lambda>_. [])"

definition journaled :: "balancer \<Rightarrow> site \<Rightarrow> bool" where
  "journaled hash x \<longleftrightarrow> (\<forall>p. \<forall>m \<in> set (site_topic x p). from_worker hash p m)"

lemma kept_grows:
  assumes "sim_consumer.kept (d, t, com, pos)" and "topic_grows t t'"
  shows "sim_consumer.kept (d, t', com, pos')"
  using assms by (auto simp: sim_consumer.kept_def sim_consumer.tracked_def dest: projected_grows split: option.splits)

lemma extended_grows: "extended hash w w' \<Longrightarrow> topic_grows (w_topic w) (w_topic w')"
  unfolding extended_def topic_grows_def by metis

lemma site_kept:
  assumes "site_history hash x0 x" and "new_site x0"
  shows "sim_consumer.kept (site_cursors x) \<and> journaled hash x"
  using assms(1)
proof induction
  case start
  have "topic_grows t t" for t by (simp add: topic_grows_def)
  then show ?case
    using assms(2) by (auto simp: new_site_def journaled_def sim_consumer.kept_def sim_consumer.tracked_def)
next
  case (project x messages attempts getenv r x')
  have t: "site_topic x' = site_topic x"
    using sim_consumer.main_topic [of messages attempts getenv x] project(2) by simp
  with project sim_consumer.main_kept [of x messages attempts getenv] show ?case by (simp add: journaled_def)
next
  case (work x polls reads rounds ctx apiKey cfg r w)
  have e: "extended hash (st_world x) w" by (rule run_worker_extends [OF work(2)])
  have "sim_consumer.kept (st_db x, w_topic (st_world x), st_group x, st_fetch x)" using work(3) by (simp add: site_topic_def)
  from kept_grows [OF this extended_grows [OF e]] have "sim_consumer.kept (site_cursors (x\<lparr>st_world := w\<rparr>))"
    by (simp add: site_topic_def)
  moreover have "journaled hash (x\<lparr>st_world := w\<rparr>)"
    using e work(3) unfolding extended_def journaled_def site_topic_def by (auto, metis Un_iff set_append)
  ultimately show ?case by blast
next
  case (pause x n sch pid env model rb)
  then show ?case by (simp add: journaled_def site_topic_def tick_def)
qed


text \<open>
  What is in the tables: a history of messages, partition by partition a prefix of the topic that reaches at
  least to what is committed.
\<close>

definition tables_of :: "site \<Rightarrow> tables" where
  "tables_of x = (case st_db x of None \<Rightarrow> no_rows | Some T \<Rightarrow> T)"

lemma site_projects:
  assumes "site_history hash x0 x" and "new_site x0"
  shows "\<exists>hist n. projects sim_types (site_topic x) hist (tables_of x) n \<and> (\<forall>p. st_group x p \<le> n p)"
proof -
  obtain n where n: "sim_consumer.tracked n (site_cursors x)"
    using site_kept [OF assms] by (auto simp: sim_consumer.kept_def)
  show ?thesis
  proof (cases "st_db x")
    case None
    with n have "projects sim_types (site_topic x) [] (tables_of x) n" "st_group x \<le> n"
      by (simp_all add: tables_of_def sim_consumer.tracked_def projects_def part_events_def)
    then show ?thesis by (auto simp: le_fun_def)
  next
    case (Some T)
    with n show ?thesis by (auto simp: tables_of_def sim_consumer.tracked_def projected_def le_fun_def)
  qed
qed

section \<open>The events of a run\<close>

lemma sim_plain: "plain_types sim_types"
  by (auto simp: plain_types_def sim_types_def split: if_splits)

lemma part_values:
  assumes "map (\<lambda>m. Decode (Some (snd m))) msgs = map Inr es" and "\<forall>m \<in> set msgs. from_worker hash p m"
  shows "events_of runID es = map event_in (run_values runID msgs)"
  using assms
proof (induction msgs arbitrary: es)
  case (Cons m msgs)
  then obtain e es' where es: "es = e # es'" "Decode (Some (snd m)) = Inr e" "map (\<lambda>m. Decode (Some (snd m))) msgs = map Inr es'"
    by (cases es) auto
  moreover from this have "RunID e = fst m" using Cons.prems(2) from_worker_decodes(1) [of hash p m e] by simp
  ultimately have "RunID e = fst m" "event_in (snd m) = e" by (simp_all add: event_in_def)
  with Cons.IH [OF es(3)] Cons.prems(2) es(1) show ?case by (simp add: events_of_def run_values_def)
qed (simp add: events_of_def run_values_def)

lemma hist_event:
  assumes "projects ty topic hist T n" and "(q, e) \<in> set hist"
  shows "\<exists>m \<in> set (topic q). Decode (Some (snd m)) = Inr e"
proof -
  have "e \<in> set (part_events q hist)" using assms(2) by (force simp: part_events_def)
  then have "Inr e \<in> set (map (\<lambda>m. Decode (Some (snd m))) (take (n q) (topic q)))"
    using assms(1) by (metis projects_def image_eqI set_map)
  then obtain m where "m \<in> set (take (n q) (topic q))" "Decode (Some (snd m)) = Inr e" by auto
  then show ?thesis by (meson in_set_takeD)
qed

lemma run_prefix:
  assumes "projects sim_types (site_topic x) hist T n" and "journaled hash x"
    and p: "p = PartitionFor hash runID RunEventsPartitions"
  shows "events_of runID (map snd hist) = map event_in (run_values runID (take (n p) (site_topic x p)))"
    and "\<forall>e \<in> set (map snd hist). storable sim_types e"
proof -
  have dec: "q = PartitionFor hash (RunID e) RunEventsPartitions \<and> truncate_us (OccurredAt e) = OccurredAt e"
    if qe: "(q, e) \<in> set hist" for q e
  proof -
    obtain m where "m \<in> set (site_topic x q)" "Decode (Some (snd m)) = Inr e" using hist_event [OF assms(1) qe] by blast
    with assms(2) from_worker_decodes(2,3) show ?thesis unfolding journaled_def by blast
  qed
  have "events_of runID (map snd hs) = events_of runID (part_events p hs)" if "set hs \<subseteq> set hist" for hs
    using that dec by (induction hs) (auto simp: events_of_def part_events_def p)
  then have "events_of runID (map snd hist) = events_of runID (part_events p hist)" by simp
  also have "\<dots> = map event_in (run_values runID (take (n p) (site_topic x p)))"
  proof (rule part_values)
    show "map (\<lambda>m. Decode (Some (snd m))) (take (n p) (site_topic x p)) = map Inr (part_events p hist)"
      using assms(1) by (simp add: projects_def)
    show "\<forall>m \<in> set (take (n p) (site_topic x p)). from_worker hash p m"
      using assms(2) by (auto simp: journaled_def dest: in_set_takeD)
  qed
  finally show "events_of runID (map snd hist) = map event_in (run_values runID (take (n p) (site_topic x p)))" .
  show "\<forall>e \<in> set (map snd hist). storable sim_types e" using dec by (auto simp: storable_def sim_types_def)
qed

text \<open>How much of a run's log is committed, and how much of it is in the tables.\<close>

definition committed_events :: "balancer \<Rightarrow> string \<Rightarrow> site \<Rightarrow> nat" where
  "committed_events hash runID x = (let p = PartitionFor hash runID RunEventsPartitions in
     length (run_values runID (take (st_group x p) (site_topic x p))))"

lemma run_taken:
  assumes "site_history hash x0 x" and "new_site x0"
  obtains es m where "apply_all sim_types es no_rows = Some (tables_of x)" and "\<forall>e \<in> set es. storable sim_types e"
    and "events_of runID es = take m (logged hash runID (st_world x))"
    and "committed_events hash runID x \<le> m" and "m \<le> length (logged hash runID (st_world x))"
proof -
  obtain hist n where h: "projects sim_types (site_topic x) hist (tables_of x) n" and g: "\<forall>p. st_group x p \<le> n p"
    using site_projects [OF assms] by blast
  have j: "journaled hash x" using site_kept [OF assms] by simp
  let ?p = "PartitionFor hash runID RunEventsPartitions"
  let ?front = "map event_in (run_values runID (take (n ?p) (site_topic x ?p)))"
  have log: "logged hash runID (st_world x) = ?front @ map event_in (run_values runID (drop (n ?p) (site_topic x ?p)))"
    unfolding logged_def run_log_def site_topic_def [symmetric] map_append [symmetric] run_values_append [symmetric] by simp
  have "take (st_group x ?p) (site_topic x ?p) = take (st_group x ?p) (take (n ?p) (site_topic x ?p))"
    using g by (simp add: min_def)
  then have "\<exists>ms. take (n ?p) (site_topic x ?p) = take (st_group x ?p) (site_topic x ?p) @ ms"
    by (metis append_take_drop_id)
  then obtain ms where "take (n ?p) (site_topic x ?p) = take (st_group x ?p) (site_topic x ?p) @ ms" ..
  then have "committed_events hash runID x \<le> length ?front" by (simp add: committed_events_def Let_def)
  with h run_prefix [OF h j refl [of ?p]] log show thesis
    by (intro that [of "map snd hist" "length ?front"]) (simp_all add: projects_def)
qed

lemma folds_prefix: "Fold blocks es = Inr st \<Longrightarrow> \<exists>s. fold_loop blocks RunState_zero (take m es) = Inr s"
proof -
  assume "Fold blocks es = Inr st"
  then have "fold_loop blocks RunState_zero (take m es @ drop m es) = Inr st" by (auto dest: Fold_loopD)
  then show ?thesis unfolding fold_loop_append by (auto split: sum.splits)
qed

end
