(* ===== verification/Sim_Catchup.thy ===== *)
theory Sim_Catchup
  imports Sim_Site Worker_Properties
begin

text \<open>
  A projector that is left alone: with drained refused and nobody killed it projects every message there is,
  commits all of it, and goes on waiting.
\<close>

section \<open>Events that can be applied\<close>

definition applicable :: "pg_types \<Rightarrow> Envelope \<Rightarrow> bool" where
  "applicable ty e \<longleftrightarrow> (\<exists>row. event_row_of ty e = Inr row \<and> ev_event_id row = EventID e \<and> ev_run_id row = RunID e
       \<and> ev_sequence_number row = SequenceNumber e)
     \<and> (\<exists>p. DecodePayload e = Inr p \<and> (\<forall>T. \<exists>T'. upsert_run ty T (run_args_of e p) = Inr T'))"

text \<open>Two events have the same place exactly when they have the same id.\<close>

definition agree :: "Envelope \<Rightarrow> Envelope \<Rightarrow> bool" where
  "agree e e' \<longleftrightarrow> (EventID e = EventID e' \<longleftrightarrow> RunID e = RunID e' \<and> SequenceNumber e = SequenceNumber e')"

lemma rows_from:
  "apply_all ty es T = Some T' \<Longrightarrow> r \<in> set (tb_events T') \<Longrightarrow> r \<in> set (tb_events T) \<or> (\<exists>e \<in> set es. event_row_of ty e = Inr r)"
proof (induction es arbitrary: T)
  case (Cons e es)
  then obtain b T1 where a: "apply_event ty T e = Some (b, T1)" "apply_all ty es T1 = Some T'" by (auto split: option.splits)
  from Cons.IH [OF a(2) Cons.prems(2)] show ?case
  proof
    assume "r \<in> set (tb_events T1)"
    with a(1) show ?thesis by (cases rule: apply_eventE) auto
  qed auto
qed simp

lemma apply_event_works:
  assumes "apply_all ty es no_rows = Some T" and "\<forall>e \<in> set es. applicable ty e \<and> agree e e0" and "applicable ty e0"
  shows "\<exists>b T'. apply_event ty T e0 = Some (b, T')"
proof -
  from assms(3) obtain row p where row: "event_row_of ty e0 = Inr row" "ev_event_id row = EventID e0" "ev_run_id row = RunID e0"
    "ev_sequence_number row = SequenceNumber e0" and p: "DecodePayload e0 = Inr p" "\<And>T. \<exists>T'. upsert_run ty T (run_args_of e0 p) = Inr T'"
    by (auto simp: applicable_def)
  have key: "(ev_run_id r = RunID e0 \<and> ev_sequence_number r = SequenceNumber e0) = (ev_event_id r = EventID e0)"
    if r: "r \<in> set (tb_events T)" for r
  proof -
    obtain e where e: "e \<in> set es" "event_row_of ty e = Inr r" using rows_from [OF assms(1) r] by (auto simp: no_rows_def)
    with assms(2) have "applicable ty e" "agree e e0" by auto
    with e(2) show ?thesis by (auto simp: applicable_def agree_def)
  qed
  have conv: "pt_uuid ty (RunID e0) = Inr (RunID e0)" "pt_int4 ty (SequenceNumber e0) = Inr (SequenceNumber e0)"
    using row by (auto simp: event_row_of_def bindS_Inr)
  have slot: "same_slot row = (\<lambda>r. ev_run_id r = RunID e0 \<and> ev_sequence_number r = SequenceNumber e0)"
    using row by (auto simp: same_slot_def fun_eq_iff)
  show ?thesis
  proof (cases "find (same_slot row) (tb_events T)")
    case (Some r)
    then have "r \<in> set (tb_events T)" "same_slot row r" by (metis find_Some_iff nth_mem)+
    with key have "ev_event_id r = EventID e0" by (simp add: slot)
    moreover from \<open>r \<in> set (tb_events T)\<close> \<open>same_slot row r\<close> have "list_ex (same_slot row) (tb_events T)"
      by (auto simp: list_ex_iff)
    ultimately show ?thesis
      using row(1) Some conv
      by (intro exI [of _ False] exI [of _ T]) (simp add: apply_event_def insert_event_def bindS_def select_event_id_def slot)
  next
    case None
    then have "\<not> list_ex (same_slot row) (tb_events T)" by (auto simp: list_ex_iff find_None_iff)
    moreover from this key have "\<not> list_ex (\<lambda>r. ev_event_id r = ev_event_id row) (tb_events T)"
      using row(2) by (auto simp: list_ex_iff slot)
    moreover obtain T' where "upsert_run ty (T\<lparr>tb_events := tb_events T @ [row]\<rparr>) (run_args_of e0 p) = Inr T'" using p(2) by blast
    ultimately show ?thesis using row(1) p(1)
      by (intro exI [of _ True] exI [of _ T']) (simp add: apply_event_def insert_event_def bindS_def)
  qed
qed

section \<open>Smooth calls\<close>

definition smooth :: "site \<Rightarrow> bool" where
  "smooth x \<longleftrightarrow> w_schedule (st_world x) = [] \<and> st_rebalance x = []"

lemma smooth_call: "smooth x \<Longrightarrow> call act refused lost x = (case act x of (res, x2) \<Rightarrow> (Done res, x2))"
  by (cases x) (simp add: smooth_def call_def next_event_def site_tick_def tick_def Let_def)

lemma smooth_in_tx:
  "smooth x \<Longrightarrow> st_txs x t = Some T \<Longrightarrow> f T = Inr (a, T')
    \<Longrightarrow> in_tx t f x = (Done (Inr a), x\<lparr>st_txs := (st_txs x)(t \<mapsto> T')\<rparr>)"
  by (simp add: in_tx_def smooth_call)

lemma smooth_update [simp]: "smooth (x\<lparr>st_db := d\<rparr>) = smooth x" "smooth (x\<lparr>st_txs := t\<rparr>) = smooth x" "smooth (x\<lparr>st_txno := n\<rparr>) = smooth x"
  "smooth (x\<lparr>st_group := g\<rparr>) = smooth x" "smooth (x\<lparr>st_fetch := g\<rparr>) = smooth x" "smooth (x\<lparr>st_log := l\<rparr>) = smooth x"
  by (simp_all add: smooth_def)

text \<open>Where a step leaves the tables, the other parts of the site being as they were.\<close>

definition goes :: "site \<Rightarrow> tables option \<Rightarrow> site \<Rightarrow> bool" where
  "goes x d x' \<longleftrightarrow> smooth x' \<and> st_world x' = st_world x \<and> st_group x' = st_group x \<and> st_fetch x' = st_fetch x \<and> st_db x' = d"

lemma smooth_ApplyEvent:
  assumes "smooth x" and "st_db x = Some T" and "apply_event sim_types T e = Some (b, T')"
  shows "\<exists>x'. ApplyEvent sim_pg c e x = (Done (Inr b), x') \<and> goes x (Some T') x'"
proof -
  let ?t = "st_txno x"
  let ?x1 = "x\<lparr>st_txs := (st_txs x)(?t := Some T), st_txno := Suc ?t\<rparr>"
  have b: "pg_Begin sim_pg c x = (Done (Inr ?t), ?x1)"
    using assms by (simp add: sim_pg_def smooth_call)
  have r: "pg_Rollback sim_pg ?t c y = (Done (Inr ()), y\<lparr>st_txs := (st_txs y)(?t := None)\<rparr>)" if "smooth y" for y
    using that by (simp add: sim_pg_def smooth_call)
  have k: "pg_Commit sim_pg ?t c y = (Done (Inr ()), y\<lparr>st_db := st_txs y ?t, st_txs := (st_txs y)(?t := None)\<rparr>)" if "smooth y" for y
    using that by (simp add: sim_pg_def smooth_call)
  show ?thesis
    using assms(3)
  proof (cases rule: apply_eventE)
    case (again row)
    have "insert_event sim_types T e = Inr (0, T)" using again by (simp add: insert_event_def bindS_def)
    then have i: "pg_InsertEvent sim_pg ?t c e ?x1 = (Done (Inr 0), ?x1)"
      using assms(1) by (simp add: sim_pg_def smooth_in_tx server_def)
    have s: "pg_SelectEventID sim_pg ?t c (RunID e) (SequenceNumber e) ?x1 = (Done (Inr (EventID e)), ?x1)"
      using assms(1) again(5) by (simp add: sim_pg_def smooth_in_tx server_def)
    show ?thesis
      unfolding ApplyEvent_def checkExistingEvent_def pbindM_def pbindE_def deferring_def
      using assms(1,2) again(1,2) by (simp add: pbind_def b i s k r goes_def)
  next
    case (fresh row p)
    let ?T1 = "T\<lparr>tb_events := tb_events T @ [row]\<rparr>"
    let ?x2 = "\<lambda>T. x\<lparr>st_txno := Suc ?t, st_txs := (st_txs x)(?t \<mapsto> T)\<rparr>"
    have "insert_event sim_types T e = Inr (1, ?T1)" using fresh by (simp add: insert_event_def bindS_def)
    then have i: "pg_InsertEvent sim_pg ?t c e ?x1 = (Done (Inr 1), ?x2 ?T1)"
      using assms(1) by (simp add: sim_pg_def smooth_in_tx server_def)
    have u: "pg_UpsertRun sim_pg ?t c (run_args_of e p) (?x2 ?T1)
        = (Done (Inr ()), ?x2 T')"
      using assms(1) fresh(6) by (simp add: sim_pg_def smooth_in_tx server_def)
    show ?thesis
      unfolding ApplyEvent_def upsertRun_def pbindM_def pbindE_def deferring_def
      using assms(1,2) fresh(1,5) by (simp add: pbind_def b i u k r goes_def)
  qed
qed

section \<open>Catching up\<close>

text \<open>A topic all of whose messages can be applied, whatever was applied before.\<close>

definition projectable :: "topic \<Rightarrow> bool" where
  "projectable topic \<longleftrightarrow> (\<forall>p. \<forall>m \<in> set (topic p). \<exists>e. Decode (Some (snd m)) = Inr e \<and> applicable sim_types e)
     \<and> (\<forall>p q. \<forall>m \<in> set (topic p). \<forall>m' \<in> set (topic q). \<forall>e e'. Decode (Some (snd m)) = Inr e \<longrightarrow> Decode (Some (snd m')) = Inr e' \<longrightarrow> agree e e')"

lemma projectable_step:
  assumes "projectable topic" and "projected sim_types topic T n" and "m \<in> set (topic q)"
  obtains e b T' where "Decode (Some (snd m)) = Inr e" and "apply_event sim_types T e = Some (b, T')"
proof -
  obtain hist where h: "projects sim_types topic hist T n" using assms(2) by (auto simp: projected_def)
  obtain e where e: "Decode (Some (snd m)) = Inr e" "applicable sim_types e" using assms(1,3) unfolding projectable_def by blast
  have "applicable sim_types e' \<and> agree e' e" if e': "e' \<in> set (map snd hist)" for e'
  proof -
    obtain p m' where m': "m' \<in> set (topic p)" "Decode (Some (snd m')) = Inr e'" using e' hist_event [OF h] by fastforce
    with assms(1) obtain e'' where "Decode (Some (snd m')) = Inr e''" "applicable sim_types e''" unfolding projectable_def by blast
    moreover have "agree e' e" using assms(1,3) m' e(1) unfolding projectable_def by blast
    ultimately show ?thesis using m'(2) by simp
  qed
  then show thesis using apply_event_works [of sim_types "map snd hist" T e] h e that by (auto simp: projects_def)
qed

definition unread :: "site \<Rightarrow> nat" where
  "unread x = (\<Sum>p < RunEventsPartitions. length (site_topic x p) - st_fetch x p)"

lemma unread_step:
  assumes "p < RunEventsPartitions" and "st_fetch x p < length (site_topic x p)" and "st_world y = st_world x"
    and "st_fetch y = (st_fetch x)(p := Suc (st_fetch x p))"
  shows "unread y < unread x"
  unfolding unread_def
proof (rule sum_strict_mono_ex1)
  show "\<exists>a \<in> {..<RunEventsPartitions}. length (site_topic y a) - st_fetch y a < length (site_topic x a) - st_fetch x a"
    using assms by (intro bexI [of _ p]) (auto simp: site_topic_def)
qed (use assms in \<open>auto simp: site_topic_def\<close>)

lemma smooth_retry:
  assumes "smooth x" and "st_db x = Some T" and "apply_event sim_types T e = Some (b, T')"
  shows "\<exists>x'. applyWithRetry (sim_projector messages (Suc attempts)) c e x = (Done (Inr b), x') \<and> goes x (Some T') x'"
  using smooth_ApplyEvent [OF assms, of c]
  by (auto simp: applyWithRetry_def sim_projector_pg pbind_def) (simp add: sim_projector_def)

lemma smooth_log: "smooth x \<Longrightarrow> pj_log (sim_projector messages attempts) line x = (Done (), x\<lparr>st_log := st_log x @ [line]\<rparr>)"
  by (simp add: sim_projector_def smooth_call)

lemma smooth_handle:
  assumes "smooth x" and "st_db x = Some T" and "apply_event sim_types T e = Some (b, T')" and "Decode (fm_Value msg) = Inr e"
  shows "\<exists>y consumed'. handle_message (sim_projector messages (Suc attempts)) c r 0 msg consumed again x = again consumed' y
    \<and> smooth y \<and> st_world y = st_world x \<and> st_db y = Some T' \<and> st_fetch y = st_fetch x
    \<and> st_group y = (st_group x)(fm_Partition msg := nat (fm_Offset msg) + 1)"
proof -
  obtain x1 where a: "applyWithRetry (sim_projector messages (Suc attempts)) c e x = (Done (Inr b), x1)" and g: "goes x (Some T') x1"
    using smooth_retry [OF assms(1-3)] by blast
  let ?line = "''projected seq='' @ show_int (SequenceNumber e) @ '' run_id='' @ RunID e
         @ '' event='' @ EventType_of e @ '' inserted='' @ show_bool b @ '' '' @ at_offset msg"
  let ?x2 = "x1\<lparr>st_log := st_log x1 @ [?line]\<rparr>"
  have s: "smooth x1" "smooth ?x2" using g by (simp_all add: goes_def)
  have k: "pj_CommitMessages (sim_projector messages (Suc attempts)) r c msg y = (Done (Inr ()), commit_offset msg y)"
    if "smooth y" for y using that by (simp add: sim_projector_def smooth_call)
  have "handle_message (sim_projector messages (Suc attempts)) c r 0 msg consumed again x = again (wrap64 (consumed + 1)) (commit_offset msg ?x2)"
    unfolding handle_message_def commit_message_def assms(4) sum.case
    by (simp add: pbind_def a smooth_log [OF s(1)] k s)
  moreover have "smooth (commit_offset msg ?x2) \<and> st_world (commit_offset msg ?x2) = st_world x \<and> st_db (commit_offset msg ?x2) = Some T'
      \<and> st_fetch (commit_offset msg ?x2) = st_fetch x
      \<and> st_group (commit_offset msg ?x2) = (st_group x)(fm_Partition msg := nat (fm_Offset msg) + 1)"
    using s g by (simp add: commit_offset_def goes_def)
  ultimately show ?thesis by blast
qed

lemma smooth_fetch:
  assumes "smooth x"
  obtains (message) p where "p < RunEventsPartitions" "st_fetch x p < length (site_topic x p)"
      "pj_FetchMessage (sim_projector messages attempts) r c x = (Done (Inr \<lparr>fm_Partition = p, fm_Offset = int (st_fetch x p),
         fm_Value = Some (snd (site_topic x p ! st_fetch x p))\<rparr>), x\<lparr>st_fetch := (st_fetch x)(p := Suc (st_fetch x p))\<rparr>)"
  | (drained) "\<forall>p < RunEventsPartitions. length (site_topic x p) \<le> st_fetch x p"
      "pj_FetchMessage (sim_projector messages attempts) r c x = (Done (Inl ctx_canceled), x)"
proof -
  let ?ps = "rotate (nat (w_now (st_world x))) [0..<RunEventsPartitions]"
  have rb: "st_rebalance x = []" using assms by (simp add: smooth_def)
  then have x: "x\<lparr>st_rebalance := []\<rparr> = x" by (cases x) simp
  have f: "pj_FetchMessage (sim_projector messages attempts) r c x
      = (case fetch_message x of (res, x2) \<Rightarrow> (Done res, x2))"
    using smooth_call [OF assms] by (simp add: sim_projector_def)
  show thesis
  proof (cases "find (\<lambda>p. st_fetch x p < length (site_topic x p)) ?ps")
    case None
    then have "\<forall>p < RunEventsPartitions. length (site_topic x p) \<le> st_fetch x p" by (auto simp: find_None_iff)
    moreover have "fetch_message x = (Inl ctx_canceled, x)" using None rb x by (simp add: fetch_message_def)
    ultimately show thesis by (intro drained) (simp_all add: f)
  next
    case (Some p)
    then have "p \<in> set ?ps" "st_fetch x p < length (site_topic x p)" by (metis find_Some_iff nth_mem, metis find_SomeD)
    moreover have "fetch_message x = (Inr \<lparr>fm_Partition = p, fm_Offset = int (st_fetch x p),
         fm_Value = Some (snd (site_topic x p ! st_fetch x p))\<rparr>, x\<lparr>st_fetch := (st_fetch x)(p := Suc (st_fetch x p))\<rparr>)"
      using Some rb by (cases x) (simp add: fetch_message_def Let_def)
    ultimately show thesis by (intro message [of p]) (simp_all add: f)
  qed
qed

lemma consume_catches_up:
  assumes "projectable (site_topic x)" and "smooth x" and "st_db x = Some T" and "projected sim_types (site_topic x) T n"
    and "st_fetch x \<le> n" and "st_group x = st_fetch x" and "unread x < k"
  shows "\<exists>y. consume_loop k (sim_projector messages (Suc attempts)) c r 0 consumed x = (Done 0, y) \<and> smooth y
    \<and> st_world y = st_world x \<and> st_db y \<noteq> None \<and> (\<forall>p < RunEventsPartitions. length (site_topic x p) \<le> st_group y p)"
  using assms
proof (induction k arbitrary: x T n consumed)
  case (Suc k)
  let ?pj = "sim_projector messages (Suc attempts)"
  from Suc.prems(2) show ?case
  proof (cases rule: smooth_fetch [where messages = messages and attempts = "Suc attempts" and r = r and c = c])
    case drained
    have "errors_Is ctx_canceled SContextCanceled" by (simp add: ctx_canceled_def)
    with drained Suc.prems show ?thesis by (simp add: pbind_def shutdown_or_def)
  next
    case (message p)
    let ?i = "st_fetch x p" and ?x1 = "x\<lparr>st_fetch := (st_fetch x)(p := Suc (st_fetch x p))\<rparr>"
    let ?msg = "\<lparr>fm_Partition = p, fm_Offset = int ?i, fm_Value = Some (snd (site_topic x p ! ?i))\<rparr>"
    obtain e b T' where e: "Decode (Some (snd (site_topic x p ! ?i))) = Inr e" "apply_event sim_types T e = Some (b, T')"
      by (rule projectable_step [OF Suc.prems(1,4) nth_mem [OF message(2)]])
    have x1: "smooth ?x1" "st_db ?x1 = Some T" using Suc.prems(2,3) by simp_all
    obtain y consumed' where y: "handle_message ?pj c r 0 ?msg consumed (consume_loop k ?pj c r 0) ?x1 = consume_loop k ?pj c r 0 consumed' y"
      "smooth y" "st_world y = st_world x" "st_db y = Some T'" "st_fetch y = (st_fetch x)(p := Suc ?i)"
      "st_group y = (st_group x)(p := Suc ?i)"
      using smooth_handle [OF x1 e(2), of ?msg messages attempts c r consumed "consume_loop k ?pj c r 0"] e(1) by auto
    have t: "site_topic y = site_topic x" by (simp add: site_topic_def y(3))
    have "?i \<le> n p" using Suc.prems(5) by (simp add: le_fun_def)
    from projected_step [OF Suc.prems(4) this message(2) e]
    have pr: "projected sim_types (site_topic y) T' (n(p := max (n p) (Suc ?i)))" by (simp add: t)
    have "st_fetch y \<le> n(p := max (n p) (Suc ?i))" using Suc.prems(5) by (simp add: y(5) le_fun_def)
    moreover have "st_group y = st_fetch y" by (simp add: y(5,6) Suc.prems(6))
    moreover have "unread y < k" using unread_step [OF message(1,2) y(3,5)] Suc.prems(7) by simp
    ultimately have "\<exists>z. consume_loop k ?pj c r 0 consumed' y = (Done 0, z) \<and> smooth z \<and> st_world z = st_world y
        \<and> st_db z \<noteq> None \<and> (\<forall>p < RunEventsPartitions. length (site_topic y p) \<le> st_group z p)"
      by (intro Suc.IH [OF _ y(2,4) pr]) (simp_all only: t Suc.prems(1))
    then obtain z where "consume_loop k ?pj c r 0 consumed' y = (Done 0, z)" "smooth z" "st_world z = st_world x" "st_db z \<noteq> None"
      "\<forall>p < RunEventsPartitions. length (site_topic x p) \<le> st_group z p"
      by (auto simp: t y(3))
    with message(3) y(1) show ?thesis by (simp add: pbind_def)
  qed
qed simp

text \<open>The process, from its first call to its last.\<close>

lemma smooth_on_world:
  assumes "smooth x" and "\<And>w. w_schedule w = [] \<Longrightarrow> m w = (Done a, w)" shows "on_world m x = (Done a, x)"
  using assms by (simp add: on_world_def smooth_def)

lemma smooth_topics:
  assumes "smooth x" and "brokers \<noteq> []"
  shows "EnsureTopics (pj_kafka (sim_projector messages attempts)) c brokers x = (Done (Inr ()), x)"
proof -
  have e: "external (\<lambda>w. (a, w)) b d (\<lambda>w. w) w = (Done a, w)" "internal (\<lambda>w. (a, w)) w = (Done a, w)" if "w_schedule w = []"
    for a b d and w :: world using that by (simp_all add: external_def internal_def next_event_def tick_def)
  obtain b bs where "brokers = b # bs" using assms(2) by (cases brokers) auto
  then show ?thesis
    by (simp add: EnsureTopics_def pbindM_def deferring_def sim_projector_def site_kafka_def sim_kafka_def pbind_def
        smooth_on_world [OF assms(1)] e)
qed

lemma smooth_projector:
  assumes "smooth x" and "projectable (site_topic x)" and "sim_consumer.kept (site_cursors x)"
    and "getenv ''DAE_PROJECTOR_CRASH_BEFORE_OFFSET_COMMIT'' = []"
    and "(\<Sum>p < RunEventsPartitions. length (site_topic x p)) < messages"
  shows "\<exists>y. projector_main (sim_projector messages (Suc attempts)) getenv x = (Halt 0, y)
    \<and> site_topic y = site_topic x \<and> st_db y \<noteq> None \<and> (\<forall>p < RunEventsPartitions. length (site_topic x p) \<le> st_group y p)"
proof -
  let ?pj = "sim_projector messages (Suc attempts)"
  have k: "kafkaBrokers getenv \<noteq> []" by (simp add: kafkaBrokers_def Let_def strings_Split_nonempty)
  let ?x1 = "x\<lparr>st_db := initSchema (st_db x)\<rparr>" and ?x2 = "x\<lparr>st_db := initSchema (st_db x), st_fetch := st_group x\<rparr>"
  obtain T where T: "initSchema (st_db x) = Some T" by (cases "st_db x") (auto simp: initSchema_def)
  have "sim_consumer.kept (site_cursors ?x1)"
    using sim_consumer.schema_kept [of "st_db x"] assms(3) by (simp add: site_topic_def)
  then obtain n where n: "projected sim_types (site_topic x) T n" "st_group x \<le> n"
    by (auto simp: sim_consumer.kept_def sim_consumer.tracked_def T site_topic_def)
  have "unread ?x2 \<le> (\<Sum>p < RunEventsPartitions. length (site_topic x p))"
    unfolding unread_def by (rule sum_mono) (simp add: site_topic_def)
  then have "\<exists>y. consume_loop messages ?pj Background 0 0 0 ?x2 = (Done 0, y) \<and> smooth y \<and> st_world y = st_world ?x2
      \<and> st_db y \<noteq> None \<and> (\<forall>p < RunEventsPartitions. length (site_topic ?x2 p) \<le> st_group y p)"
    using assms n T by (intro consume_catches_up [where T = T and n = n]) (simp_all add: site_topic_def smooth_def)
  then obtain y where y: "consume_loop messages ?pj Background 0 0 0 ?x2 = (Done 0, y)" "smooth y" "st_world y = st_world x"
    "st_db y \<noteq> None" "\<forall>p < RunEventsPartitions. length (site_topic x p) \<le> st_group y p" by (auto simp: site_topic_def)
  have calls: "pj_NewPool ?pj c d x = (Done (Inr ()), x)" "pj_ClosePool ?pj y = (Done (), y)" "pj_CloseReader ?pj r y = (Done (Inr ()), y)"
    "pg_ExecSchema sim_pg c x = (Done (Inr ()), ?x1)" "pj_NewReader ?pj gc ?x1 = (Done 0, ?x2)" for c d r gc
    using assms(1) y(2) by (simp_all add: sim_projector_def smooth_call sim_pg_def)
  have "consumeLoop ?pj Background 0 0 ?x2 = (Done 0, y)" using y(1) by (simp add: consumeLoop_def) (simp add: sim_projector_def)
  then have "run_projector ?pj Background getenv x = (Done 0, y)"
    unfolding run_projector_def crashBeforeOffsetCommitFromEnv_def assms(4) Projection_Migrate_def migrate_def sim_projector_pg
      failing_def deferring_def pbindM_def close_reader_def Let_def
    by (simp add: pbind_def calls smooth_topics [OF assms(1) k])
  with y(3-5) show ?thesis by (simp add: projector_main_def pbind_def site_topic_def)
qed

end
