(* ===== verification/Sample_Site.thy ===== *)
theory Sample_Site
  imports Sim_Catchup
begin

text \<open>
  A concrete site that the theorems about the projection are applied to: a worker process is killed right after it
  has published its run's first event, and a projector that is left alone then projects that event.
\<close>

section \<open>The worker process\<close>

abbreviation go :: "mishap \<times> nat \<times> nat" where "go \<equiv> (Smooth, 0, 0)"

definition site_config :: config where "site_config = default_config [] [] None"

definition site_start :: world where
  "site_start = sample_start\<lparr>w_now := 0, w_schedule := [go, go, go, go, go, go, go, go, go, go, go, (KillAfter, 0, 0)]\<rparr>"

definition first_payload :: Payload where
  "first_payload = PRunStarted \<lparr>rs_WorkloadType = workloadType, rs_Input = Some (JObj [(''prompt'', JStr fakeTaskPrompt)]),
     rs_MaxSteps = maxSteps\<rparr>"

definition first_event :: Envelope where
  "first_event = \<lparr>EventID = token 1, RunID = token 0, TenantID = tenantID, SequenceNumber = 0,
     EventType_of = EventRunStarted, PayloadRaw = Some (enc_payload first_payload), OccurredAt = 0, IdempotencyKey = None\<rparr>"

lemma sample_process_simps:
  "ps_rt sample_process = sim_runtime" "ps_kafka sample_process = sim_kafka" "ps_hash sample_process = one_partition"
  "ps_Stdout sample_process = sim_Stdout" "ps_CloseRedis sample_process = (\<lambda>addr. internal (\<lambda>w. ((), w)))" "ps_rounds sample_process = 11276"
  "ps_Ping sample_process = (\<lambda>addr c. external (\<lambda>w. (Inr (), w)) (Inl io_error) (Inl io_error) (\<lambda>w. w))"
  "cf_resumeRunID site_config = []" "cf_brokers site_config = [defaultKafkaBrokers]" "cf_crashAfterSeq site_config = None"
  by (simp_all add: sample_process_def sim_process_def site_config_def default_config_def)

lemma smooth_step:
  "w_schedule w = (Smooth, 0, 0) # sch
    \<Longrightarrow> external act refused lost garbled w = (case act (w\<lparr>w_schedule := sch\<rparr>) of (r, w') \<Rightarrow> (Done r, w'))"
  "w_schedule w = (Smooth, 0, 0) # sch
    \<Longrightarrow> internal act' w = (case act' (w\<lparr>w_schedule := sch\<rparr>) of (r', w') \<Rightarrow> (Done r', w'))"
  by (simp_all add: external_def internal_def next_event_def tick_def split: prod.split)

lemma kill_step:
  "w_schedule w = (KillAfter, 0, 0) # sch
    \<Longrightarrow> external act refused lost garbled w = (Halt 137, snd (act (w\<lparr>w_schedule := sch\<rparr>)))"
  by (simp add: external_def next_event_def tick_def split: prod.split)

lemma site_topics:
  "w_schedule w = go # go # go # go # sch \<Longrightarrow> EnsureTopics sim_kafka c [b] w = (Done (Inr ()), w\<lparr>w_schedule := sch\<rparr>)"
  by (simp add: EnsureTopics_def pbindM_def deferring_def sim_kafka_def pbind_def smooth_step)

lemma site_ping:
  "w_schedule w = go # go # sch \<Longrightarrow> pingRedis sample_process c a w = (Done (Inr ()), w\<lparr>w_schedule := sch\<rparr>)"
  by (simp add: pingRedis_def WithTimeout_def sample_process_simps pbindM_def sim_runtime_def pbind_def smooth_step)

lemma site_starting:
  "w_schedule w = go # go # sch \<Longrightarrow> startingState sample_process c site_config w
    = (Done (Inr (token (w_fresh w), RunState_zero)),
       w\<lparr>w_schedule := sch, w_fresh := w_fresh w + 1, w_out := w_out w @ [''run_id='' @ token (w_fresh w) @ [CHR 0x0A]]\<rparr>)"
  by (simp add: startingState_def sample_process_simps sim_runtime_def pbind_def smooth_step sim_Stdout_def)

lemma getpid: "w_schedule w = go # sch \<Longrightarrow> rt_Getpid sim_runtime w = (Done (int (w_pid w mod 4194304)), w\<lparr>w_schedule := sch\<rparr>)"
  by (simp add: sim_runtime_def smooth_step)

lemma zero_year: "json_year 0" "truncate_us 0 = 0"
  by code_simp+

lemma site_publish:
  assumes "w_schedule w = (KillAfter, 0, 0) # sch"
  shows "publishWithRetry (built_loop one_partition polls k site_config r crash name) c first_event w
    = (Halt 137, add_message 0 (token 0) (enc_envelope first_event) (w\<lparr>w_schedule := sch\<rparr>))"
proof -
  let ?l = "built_loop one_partition polls k site_config r crash name"
  have "jc_Publisher (lp_journal ?l) = Publish sim_kafka (NewEventPublisher one_partition (cf_brokers site_config))"
    by (simp add: built_loop_def)
  moreover have "Publish sim_kafka (NewEventPublisher one_partition bs) c first_event w
      = (Halt 137, add_message 0 (token 0) (enc_envelope first_event) (w\<lparr>w_schedule := sch\<rparr>))" for bs
    using assms zero_year
    by (simp add: Publish_def Encode_def first_event_def pbind_def sim_kafka_def kill_step NewEventPublisher_def
        balanceByPartitionFor_def PartitionFor_def one_partition_def)
  ultimately show ?thesis by (simp add: publishWithRetry_def publishMaxAttempts_def numeral_eq_Suc)
qed

lemma site_first:
  assumes "w_schedule w = [(Smooth, 0, 0), (Smooth, 0, 0), (KillAfter, 0, 0)]" and "w_now w = 0" and "w_fresh w = 1"
  shows "Loop_Run n (built_loop one_partition polls k site_config (token 0) crash name) c \<lparr>tk_Prompt = fakeTaskPrompt\<rparr> w
    = (Halt 137, add_message 0 (token 0) (enc_envelope first_event) (w\<lparr>w_fresh := Suc (Suc 0), w_schedule := []\<rparr>))"
proof -
  let ?l = "built_loop one_partition polls k site_config (token 0) crash name"
  have l: "lp_rt ?l = sim_runtime" "jc_RunID (lp_journal ?l) = token 0" "jc_TenantID (lp_journal ?l) = tenantID"
    "jc_WorkloadType (lp_journal ?l) = workloadType" "lp_maxSteps ?l = maxSteps"
    by (simp_all add: built_loop_def worker_journal_def NewJournalConfig_def sample_process_simps)
  have e: "NewEnvelope (token (Suc 0)) (token 0) tenantID 0 first_payload 0 = Inr first_event"
    by (simp add: NewEnvelope_def first_event_def first_payload_def zero_year)
  have k: "(case first_payload of PToolInvoked p \<Rightarrow> f p | _ \<Rightarrow> first_event) = first_event" for f
    by (simp add: first_payload_def)
  have z: "s_NextSequence RunState_zero = 0" by (simp add: RunState_zero_def)
  have p: "publishApplyPrint ?l c RunState_zero first_payload w
      = (Halt 137, add_message 0 (token 0) (enc_envelope first_event) (w\<lparr>w_fresh := Suc (Suc 0), w_schedule := []\<rparr>))"
    unfolding publishApplyPrint_def l
    using assms by (simp add: sim_runtime_def pbind_def smooth_step e k z site_publish Let_def)
  have "Loop_Run n ?l c \<lparr>tk_Prompt = fakeTaskPrompt\<rparr> = pbindE (publishApplyPrint ?l c RunState_zero first_payload) (drive n ?l c)"
    by (simp add: Loop_Run_def first_payload_def l)
  then show ?thesis by (simp add: pbindE_def p)
qed

definition site_worker :: "int exec \<times> world" where
  "site_worker = run_worker sample_process Background ''key'' site_config site_start"

lemma site_worker_topic: "w_topic (snd site_worker) = (\<lambda>_. [])(0 := [(token 0, enc_envelope first_event)])"
proof -
  have b: "buildLoop sample_process ''key'' site_config (Publish sim_kafka (NewEventPublisher one_partition [defaultKafkaBrokers])) (token 0)
      = pbind (rt_Getpid sim_runtime) (\<lambda>pid.
          preturn (Inr (built_loop one_partition 151 ''key'' site_config (token 0) noCrash (''host-'' @ show_int pid))))"
    using buildLoop_sim [of one_partition 151 1000 11276 "''key''" site_config "token 0"]
    by (simp add: sample_process_def ParseCrashSpec_def site_config_def default_config_def)
  have t: "run_task sample_process Background ''key'' site_config (token 0) RunState_zero w
      = (Halt 137, add_message 0 (token 0) (enc_envelope first_event) (w\<lparr>w_fresh := Suc (Suc 0), w_schedule := []\<rparr>))"
    if "w_schedule w = [go, go, go, (KillAfter, 0, 0)]" "w_now w = 0" "w_fresh w = 1" for w
    unfolding run_task_def sample_process_simps b
    using that by (simp add: getpid site_first)
  show ?thesis
    unfolding site_worker_def run_worker_def sample_process_simps
    by (simp add: site_start_def deferring_def sample_start_def sample_world_def
        site_topics site_ping site_starting t add_message_def)
qed

section \<open>The site\<close>

definition sample_new :: site where
  "sample_new = \<lparr>st_world = site_start, st_db = None, st_txs = (\<lambda>_. None), st_txno = 0, st_group = (\<lambda>_. 0), st_fetch = (\<lambda>_. 0),
     st_rebalance = [], st_log = []\<rparr>"

definition sample_journaled :: site where
  "sample_journaled = sample_new\<lparr>st_world := (snd site_worker)\<lparr>w_schedule := []\<rparr>\<rparr>"

lemma sample_new_site: "new_site sample_new"
  by (simp add: new_site_def sample_new_def site_topic_def site_start_def sample_start_def sample_world_def)

lemma sample_journaled_history: "site_history one_partition sample_new sample_journaled"
proof -
  have "run_worker (sim_process one_partition 151 1000 11276) Background ''key'' site_config (st_world sample_new)
      = (fst site_worker, snd site_worker)"
    by (simp add: site_worker_def sample_process_def sample_new_def)
  from site_history.pause [OF site_history.work [OF site_history.start this], where n = 0 and sch = "[]" and rb = "[]"
      and pid = "w_pid (snd site_worker)" and env = "w_env (snd site_worker)" and model = "w_model (snd site_worker)"]
  show ?thesis by (simp add: sample_journaled_def sample_new_def tick_def)
qed

lemma sample_topic: "site_topic sample_journaled q = (if q = 0 then [(token 0, enc_envelope first_event)] else [])"
  by (simp add: sample_journaled_def site_topic_def site_worker_topic)

lemma first_type: "EventType_of first_event = payload_EventType first_payload"
  by (simp add: first_event_def first_payload_def)

lemma first_decodes: "Decode (Some (enc_envelope first_event)) = Inr first_event"
proof (rule Decode_enc_envelope)
  show "EventType_of first_event \<in> set knownEventTypes" unfolding first_type by simp
qed (simp_all add: first_event_def zero_year)

lemma first_payload_decodes: "DecodePayload first_event = Inr first_payload"
proof (rule DecodePayload_enc)
  show "wf_payload first_payload" by (simp add: first_payload_def maxSteps_def in64_def min64_def max64_def)
qed (simp_all add: first_type, simp add: first_event_def)

lemma sim_types_simps:
  "pt_uuid sim_types = Inr" "pt_text sim_types s = (if CHR 0x00 \<in> set s then Inl ''22021'' else Inr s)"
  "pt_int4 sim_types i = (if - (2 ^ 31) \<le> i \<and> i < 2 ^ 31 then Inr i else Inl ''22003'')"
  "pt_jsonb sim_types (Some j) = Inr (canon j)" "pt_timestamptz sim_types = (\<lambda>t. Inr (truncate_us t))"
  by (simp_all add: sim_types_def)

lemma first_texts:
  "CHR 0x00 \<notin> set tenantID" "CHR 0x00 \<notin> set workloadType" "CHR 0x00 \<notin> set EventRunStarted"
  "CHR 0x00 \<notin> set (statusForEvent EventRunStarted)"
  by code_simp+

lemma first_applicable: "applicable sim_types first_event"
  unfolding applicable_def first_payload_decodes
  by (simp add: event_row_of_def upsert_run_def run_args_of_def bindS_def sim_types_simps first_texts nullable_def Let_def
      first_event_def first_payload_def)

section \<open>The projector process\<close>

lemma sample_projectable: "projectable (site_topic sample_journaled)"
  by (auto simp: projectable_def sample_topic first_decodes first_applicable agree_def)

lemma sample_smooth: "smooth sample_journaled"
  by (simp add: smooth_def sample_journaled_def sample_new_def)

lemma sample_unread: "(\<Sum>p < RunEventsPartitions. length (site_topic sample_journaled p)) = 1"
  by (simp add: sample_topic RunEventsPartitions_def eval_nat_numeral)

definition sample_projected :: site where
  "sample_projected = snd (projector_main (sim_projector 2 (Suc 0)) (\<lambda>_. []) sample_journaled)"

lemma sample_projected_history: "site_history one_partition sample_new sample_projected"
  by (rule site_history.project [OF sample_journaled_history, of 2 "Suc 0" "\<lambda>_. []" "fst (projector_main (sim_projector 2 (Suc 0)) (\<lambda>_. []) sample_journaled)"])
    (simp add: sample_projected_def)

lemma sample_site_log: "logged one_partition (token 0) (st_world sample_projected) = [first_event]"
  and sample_committed: "committed_events one_partition (token 0) sample_projected = 1"
  and sample_tables: "\<exists>T. st_db sample_projected = Some T"
proof -
  have "sim_consumer.kept (site_cursors sample_journaled)" using site_kept [OF sample_journaled_history sample_new_site] by simp
  from smooth_projector [OF sample_smooth sample_projectable this, of "\<lambda>_. []" 2 0]
  have y: "site_topic sample_projected = site_topic sample_journaled" "st_db sample_projected \<noteq> None"
    "\<forall>p < RunEventsPartitions. length (site_topic sample_journaled p) \<le> st_group sample_projected p"
    by (auto simp: sample_unread sample_projected_def)
  from y(3) have "0 < st_group sample_projected 0" by (auto simp: sample_topic RunEventsPartitions_def dest: spec [of _ 0])
  with y(1) show "committed_events one_partition (token 0) sample_projected = 1"
    by (simp add: committed_events_def sample_topic PartitionFor_def one_partition_def run_values_def)
  from y show "logged one_partition (token 0) (st_world sample_projected) = [first_event]" "\<exists>T. st_db sample_projected = Some T"
    by (simp_all add: logged_def run_log_def site_topic_def [symmetric] sample_topic run_values_def event_in_def first_decodes
        PartitionFor_def one_partition_def)
qed

lemma first_folds: "\<exists>st. Fold sim_blocks [first_event] = Inr st"
proof -
  have z: "isEmpty RunState_zero" by (simp add: isEmpty_def RunState_zero_def)
  have a: "admitted RunState_zero first_event"
    using z by (simp add: admitted_def first_event_def) (simp add: RunState_zero_def)
  have "Unmarshal runStartedInput_fields (Some (JObj [(''prompt'', JStr fakeTaskPrompt)])) [] = Inr fakeTaskPrompt"
    by (simp add: unmarshal_members runStartedInput_fields_def find_field_def dec_enc)
  then show ?thesis
    by (simp add: Fold_def Apply_admitted [OF a] first_payload_decodes) (simp add: first_payload_def applyRunStarted_def)
qed

end
