(* ===== verification/Projector_Properties.thy ===== *)
theory Projector_Properties
  imports Sample_Site
begin

text \<open>
  What users of the projection rely on: it is a faithful, complete and safely restartable copy of the journal.
\<close>

section \<open>The properties\<close>

text \<open>
  C30. The projection lags but never lies: whatever workers and projectors have run on a site, and wherever each
  of them was killed or refused a call, what Postgres holds is exactly the result of applying, once and in
  order, some first messages of every partition of the topic; and no offset beyond those is committed, so
  that a projector that starts again misses nothing.
\<close>

theorem Projector_projects:
  assumes "site_history hash x0 x" and "new_site x0"
  shows "\<exists>hist n. apply_all sim_types (map snd hist) no_rows = Some (tables_of x)
    \<and> (\<forall>p. st_group x p \<le> n p \<and> n p \<le> length (site_topic x p)
      \<and> map (\<lambda>m. Decode (Some (snd m))) (take (n p) (site_topic x p)) = map Inr (part_events p hist))"
  using site_projects [OF assms] unfolding projects_def by blast

text \<open>
  C31. Reading a run back from Postgres gives the run's journal: for a run whose journal on Kafka folds, the rows
  that \<open>EventReader\<close>'s query selects are, in order and without the redelivered ones, the events of a first
  part of that journal, each with every field but the payload unchanged and the payload as \<open>JSONB\<close> keeps it. The
  part reaches to the committed offsets; in particular it is the whole journal when the group has caught up.
\<close>

theorem Projector_run_rows:
  assumes "site_history hash x0 x" and "new_site x0" and "st_db x = Some T"
    and "Fold sim_blocks (logged hash runID (st_world x)) = Inr st"
  shows "\<exists>m rows. committed_events hash runID x \<le> m \<and> m \<le> length (logged hash runID (st_world x))
    \<and> select_events sim_types T runID = Inr rows
    \<and> list_all2 (read_back sim_types) (fresh_events (take m (logged hash runID (st_world x)))) (map scanned rows)"
proof -
  obtain es m where es: "apply_all sim_types es no_rows = Some T" "\<forall>e \<in> set es. storable sim_types e"
    "events_of runID es = take m (logged hash runID (st_world x))"
    and m: "committed_events hash runID x \<le> m" "m \<le> length (logged hash runID (st_world x))"
    using run_taken [OF assms(1,2), of runID] assms(3) unfolding tables_of_def by auto
  obtain s where "fold_loop sim_blocks RunState_zero (events_of runID es) = Inr s"
    using folds_prefix [OF assms(4)] unfolding es(3) by blast
  from select_fresh [OF sim_plain es(1,2) this] es(3) m show ?thesis by (auto simp: sim_types_def)
qed

text \<open>
  C32. A run's row in \<open>runs\<close> agrees with the fold: it is there as soon as one of the run's events is projected, and
  then says the tenant, the last event's id and time, and (in a journal without approvals, the only journals the worker
  writes) the status of the state that the projected part of the journal folds to.
\<close>

theorem Projector_run_row:
  assumes "site_history hash x0 x" and "new_site x0" and "st_db x = Some T"
    and "Fold sim_blocks (logged hash runID (st_world x)) = Inr st"
    and "\<forall>e \<in> set (logged hash runID (st_world x)). EventType_of e \<noteq> EventAwaitingApproval"
  shows "\<exists>m s. committed_events hash runID x \<le> m \<and> m \<le> length (logged hash runID (st_world x))
    \<and> fold_loop sim_blocks RunState_zero (take m (logged hash runID (st_world x))) = Inr s
    \<and> (if m = 0 then tb_runs T runID = None
       else (\<exists>row. tb_runs T runID = Some row \<and> rn_tenant_id row = s_TenantID s \<and> rn_last_event_id row = s_LastEventID s
         \<and> rn_updated_at row = s_LastEventAt s \<and> rn_status row = RunStatus_string (s_Status s)))"
proof -
  let ?log = "logged hash runID (st_world x)"
  obtain es m where es: "apply_all sim_types es no_rows = Some T" "\<forall>e \<in> set es. storable sim_types e"
    "events_of runID es = take m ?log" and m: "committed_events hash runID x \<le> m" "m \<le> length ?log"
    using run_taken [OF assms(1,2), of runID] assms(3) unfolding tables_of_def by auto
  obtain s where s: "fold_loop sim_blocks RunState_zero (take m ?log) = Inr s" using folds_prefix [OF assms(4)] by blast
  have r: "if take m ?log = [] then tb_runs T runID = None
      else (\<exists>row. tb_runs T runID = Some row \<and> row_says s (fresh_events (take m ?log)) row)"
    using run_row_says [OF sim_plain es(1,2), of sim_blocks runID s] s unfolding es(3) by simp
  have ne: "?log \<noteq> []" using assms(4) by (auto simp: Fold_def)
  have "statusForEvent (EventType_of (last (fresh_events (take m ?log)))) = RunStatus_string (s_Status s)" if "take m ?log \<noteq> []"
    using status_agrees [OF s that] assms(5) by (auto dest: in_set_takeD)
  with r m s ne show ?thesis by (intro exI [of _ m] exI [of _ s]) (auto simp: row_says_def)
qed

text \<open>
  C33. Applying an event is atomic: however the call to \<open>ApplyEvent\<close> ends, the tables are as they were or with the
  whole event in; if it returns without an error the event is in, and it says truthfully whether it was new; and
  it reports a conflict only for an event whose place is taken by another, which it leaves alone.
\<close>

theorem ApplyEvent_atomic:
  assumes "ApplyEvent sim_pg c e x = (r, x')" and "st_db x = Some T"
  shows "(st_db x' = Some T \<or> (\<exists>b T'. apply_event sim_types T e = Some (b, T') \<and> st_db x' = Some T'))
    \<and> (\<forall>b. r = Done (Inr b) \<longrightarrow> (\<exists>T'. apply_event sim_types T e = Some (b, T') \<and> st_db x' = Some T'))
    \<and> (\<forall>err. r = Done (Inl err) \<longrightarrow> errors_Is err SConflictingEvent \<longrightarrow> st_db x' = Some T \<and> conflicting sim_types T e)"
proof -
  note tr = sim_postgres.apply_triple [of T c e]
  show ?thesis
    using triple_DoneD [OF tr assms(2)] triple_HaltD [OF tr assms(2)] triple_FuelD [OF tr assms(2)] assms(1)
    by (cases r) (auto simp: sim_postgres.apply_post_def sim_postgres.in_or_out_def split: sum.splits)
qed

text \<open>
  C34. Redelivery is harmless: applying an event that is already in the tables leaves them as they are, never reports
  it as new and never reports a conflict, however the call ends.
\<close>

theorem ApplyEvent_redelivered:
  assumes "apply_all sim_types es no_rows = Some T" and "e \<in> set es" and "st_db x = Some T"
    and "ApplyEvent sim_pg c e x = (r, x')"
  shows "st_db x' = Some T \<and> r \<noteq> Done (Inr True) \<and> (\<forall>err. r = Done (Inl err) \<longrightarrow> \<not> errors_Is err SConflictingEvent)"
proof -
  have "found_at sim_types T e" using apply_all_found [OF assms(1)] assms(2) by (simp add: sim_types_def)
  then have "\<not> conflicting sim_types T e" by (simp add: conflicting_def found_at_def)
  moreover have "\<not> b \<and> T' = T" if "apply_event sim_types T e = Some (b, T')" for b T'
    by (rule apply_taken [OF apply_all_taken [OF assms(1,2)] that])
  moreover note tr = sim_postgres.apply_triple [of T c e]
  ultimately show ?thesis
    using triple_DoneD [OF tr assms(3)] triple_HaltD [OF tr assms(3)] triple_FuelD [OF tr assms(3)] assms(4)
    by (cases r) (auto simp: sim_postgres.apply_post_def sim_postgres.in_or_out_def split: sum.splits)
qed

text \<open>
  C35. The projector catches up: started on a site with any history whose messages can all be stored, and then left alone
  (no call refused, nobody killed, no rebalance, more polls than there are messages), the process projects every message that is
  not yet committed, commits the whole topic, and still waits for more when it is told to stop, which it does with exit code 0.
\<close>

theorem Projector_catches_up:
  assumes "site_history hash x0 x" and "new_site x0" and "smooth x" and "projectable (site_topic x)"
    and "getenv ''DAE_PROJECTOR_CRASH_BEFORE_OFFSET_COMMIT'' = []"
    and "(\<Sum>p < RunEventsPartitions. length (site_topic x p)) < messages" and "0 < attempts"
  shows "\<exists>y hist. projector_main (sim_projector messages attempts) getenv x = (Halt 0, y)
    \<and> apply_all sim_types (map snd hist) no_rows = Some (tables_of y)
    \<and> (\<forall>p < RunEventsPartitions. st_group y p = length (site_topic x p)
      \<and> map (\<lambda>m. Decode (Some (snd m))) (site_topic x p) = map Inr (part_events p hist))"
proof -
  obtain a where a: "attempts = Suc a" using assms(7) by (cases attempts) auto
  obtain y where y: "projector_main (sim_projector messages attempts) getenv x = (Halt 0, y)" "site_topic y = site_topic x"
    "\<forall>p < RunEventsPartitions. length (site_topic x p) \<le> st_group y p"
    using smooth_projector [where getenv = getenv, OF assms(3,4) conjunct1 [OF site_kept [OF assms(1,2)]] assms(5,6), of a] a by blast
  obtain hist n where h: "projects sim_types (site_topic y) hist (tables_of y) n" "\<And>p. st_group y p \<le> n p"
    using site_projects [OF site_history.project [OF assms(1) y(1)] assms(2)] by blast
  have "n p \<le> length (site_topic x p)
      \<and> map (\<lambda>m. Decode (Some (snd m))) (take (n p) (site_topic x p)) = map Inr (part_events p hist)" for p
    using h(1) y(2) by (simp add: projects_def)
  moreover from this have "n p = length (site_topic x p) \<and> st_group y p = length (site_topic x p)" if "p < RunEventsPartitions" for p
    using y(3) h(2) that by (metis le_antisym le_trans)
  ultimately have "\<forall>p < RunEventsPartitions. st_group y p = length (site_topic x p)
      \<and> map (\<lambda>m. Decode (Some (snd m))) (site_topic x p) = map Inr (part_events p hist)" by (metis take_all_iff order_refl)
  with y(1) h(1) show ?thesis by (auto simp: projects_def)
qed

section \<open>A payload that does not decode\<close>

lemma DecodePayload_error:
  assumes "DecodePayload e = Inl err"
  shows "\<not> errors_Is (Errorw pre err) SConflictingEvent \<and> IsTransientError (Errorw pre err) = Some True"
proof -
  have "map_sum id f (unmarshalPayload t b flds zero) = Inl err \<Longrightarrow> err_chain err = [SInvalidPayload]" for f t b and flds :: "'r field list" and zero
    by (auto simp: unmarshalPayload_def Errorw_def Errorws_def ErrInvalidPayload_def errors_New_def split: sum.splits)
  note u = this
  have "err_chain err = [SInvalidPayload] \<or> err_chain err = [SUnknownEventType]"
    using assms by (auto simp: DecodePayload_def Let_def Errorw_def ErrUnknownEventType_def errors_New_def split: if_splits dest!: u)
  then show ?thesis by (auto simp: errors_Is_def Errorw_def IsTransientError_def errors_As_PgError_def)
qed

text \<open>A new event whose row Postgres accepts, but not its payload.\<close>

definition poisonous :: "tables \<Rightarrow> Envelope \<Rightarrow> bool" where
  "poisonous T e \<longleftrightarrow> (\<exists>err. DecodePayload e = Inl err) \<and> (\<exists>T'. insert_event sim_types T e = Inr (1, T'))"

lemma smooth_poison:
  assumes "smooth x" and "st_db x = Some T" and "poisonous T e"
  shows "\<exists>err x'. ApplyEvent sim_pg c e x = (Done (Inl err), x') \<and> goes x (Some T) x'
    \<and> \<not> errors_Is err SConflictingEvent \<and> IsTransientError err = Some True"
proof -
  obtain err T' where p: "DecodePayload e = Inl err" "insert_event sim_types T e = Inr (1, T')"
    using assms(3) by (auto simp: poisonous_def)
  let ?t = "st_txno x"
  let ?x1 = "x\<lparr>st_txs := (st_txs x)(?t := Some T), st_txno := Suc ?t\<rparr>"
  have b: "pg_Begin sim_pg c x = (Done (Inr ?t), ?x1)" using assms by (simp add: sim_pg_def smooth_call)
  have i: "pg_InsertEvent sim_pg ?t c e ?x1 = (Done (Inr 1), x\<lparr>st_txno := Suc ?t, st_txs := (st_txs x)(?t \<mapsto> T')\<rparr>)"
    using assms(1) p by (simp add: sim_pg_def smooth_in_tx server_def)
  have r: "pg_Rollback sim_pg ?t c y = (Done (Inr ()), y\<lparr>st_txs := (st_txs y)(?t := None)\<rparr>)" if "smooth y" for y
    using that by (simp add: sim_pg_def smooth_call)
  from DecodePayload_error [OF p(1)] show ?thesis
    unfolding ApplyEvent_def upsertRun_def pbindM_def pbindE_def deferring_def
    using assms(1,2) p(1) by (simp add: pbind_def b i r goes_def)
qed

lemma smooth_wait:
  assumes "smooth x"
  shows "\<exists>x'. rt_Sleep (pj_rt (sim_projector messages attempts)) Background d x = (Done (Inr ()), x') \<and> smooth x' \<and> st_db x' = st_db x"
  using assms
  by (auto simp: sim_projector_def site_runtime_def on_world_def sim_runtime_def sim_Sleep_def external_def next_event_def tick_def
      smooth_def split: list.splits)

lemma poison_retried:
  assumes "smooth x" and "st_db x = Some T" and "poisonous T e"
  shows "\<exists>x'. apply_retry_loop n (sim_projector messages attempts) Background e d x = (OutOfFuel, x') \<and> st_db x' = Some T"
  using assms(1,2)
proof (induction n arbitrary: x d)
  case (Suc n)
  let ?pj = "sim_projector messages attempts"
  obtain err x1 where a: "ApplyEvent (pj_pg ?pj) Background e x = (Done (Inl err), x1)" and g: "goes x (Some T) x1"
    and er: "\<not> errors_Is err SConflictingEvent" "IsTransientError err = Some True"
    using smooth_poison [OF Suc.prems assms(3), of Background] by (auto simp: sim_projector_pg)
  have s1: "smooth x1" "st_db x1 = Some T" using g by (simp_all add: goes_def)
  have l: "pj_log ?pj line x1 = (Done (), x1\<lparr>st_log := st_log x1 @ [line]\<rparr>)" for line
    by (rule smooth_log [OF s1(1)])
  have "\<exists>x2. rt_Sleep (pj_rt ?pj) Background d (x1\<lparr>st_log := st_log x1 @ [line]\<rparr>) = (Done (Inr ()), x2) \<and> smooth x2 \<and> st_db x2 = Some T" for line
    using smooth_wait [of "x1\<lparr>st_log := st_log x1 @ [line]\<rparr>" messages attempts d] s1 by auto
  then obtain X where w: "rt_Sleep (pj_rt ?pj) Background d (x1\<lparr>st_log := st_log x1 @ [line]\<rparr>) = (Done (Inr ()), X line)"
    "smooth (X line)" "st_db (X line) = Some T" for line by metis
  show ?case using Suc.IH [OF w(2,3)] by (simp add: pbind_def a er l w(1))
qed (simp add: pstuck_def)

text \<open>
  A message whose payload does not decode is never given up on, although nothing is wrong with the database: the error is
  not one of Postgres, so it counts as transient, and the projector retries for as long as it is let, where the comment on
  \<open>applyWithRetry\<close> wants it to stop.
\<close>

theorem poison_payload_retried:
  assumes "smooth x" and "st_db x = Some T" and "poisonous T e"
  shows "\<exists>x'. applyWithRetry (sim_projector messages attempts) Background e x = (OutOfFuel, x') \<and> st_db x' = Some T"
  unfolding applyWithRetry_def by (rule poison_retried [OF assms])

section \<open>A concrete site\<close>

theorem Projector_projects_witness:
  "\<exists>hist n. apply_all sim_types (map snd hist) no_rows = Some (tables_of sample_projected)
    \<and> (\<forall>p. st_group sample_projected p \<le> n p \<and> n p \<le> length (site_topic sample_projected p)
      \<and> map (\<lambda>m. Decode (Some (snd m))) (take (n p) (site_topic sample_projected p)) = map Inr (part_events p hist))"
  by (rule Projector_projects [OF sample_projected_history sample_new_site])

theorem Projector_run_rows_witness:
  "\<exists>T rows. st_db sample_projected = Some T \<and> select_events sim_types T (token 0) = Inr rows
    \<and> list_all2 (read_back sim_types) (fresh_events [first_event]) (map scanned rows)"
proof -
  obtain T where T: "st_db sample_projected = Some T" using sample_tables by blast
  obtain st where "Fold sim_blocks (logged one_partition (token 0) (st_world sample_projected)) = Inr st"
    using first_folds by (auto simp: sample_site_log)
  from Projector_run_rows [OF sample_projected_history sample_new_site T this] obtain m rows where
    "1 \<le> m" "m \<le> 1" "select_events sim_types T (token 0) = Inr rows"
    "list_all2 (read_back sim_types) (fresh_events (take m [first_event])) (map scanned rows)"
    unfolding sample_site_log sample_committed by auto
  with T show ?thesis by (auto dest: le_antisym)
qed

theorem Projector_run_row_witness:
  "\<exists>T s row. st_db sample_projected = Some T \<and> fold_loop sim_blocks RunState_zero [first_event] = Inr s
    \<and> tb_runs T (token 0) = Some row \<and> rn_status row = RunStatus_string (s_Status s)"
proof -
  obtain T where T: "st_db sample_projected = Some T" using sample_tables by blast
  obtain st where "Fold sim_blocks (logged one_partition (token 0) (st_world sample_projected)) = Inr st"
    using first_folds by (auto simp: sample_site_log)
  moreover have "\<forall>e \<in> set (logged one_partition (token 0) (st_world sample_projected)). EventType_of e \<noteq> EventAwaitingApproval"
    by (simp add: sample_site_log first_event_def EventType_defs)
  ultimately obtain m s where m: "1 \<le> m" "m \<le> length [first_event]"
    and s: "fold_loop sim_blocks RunState_zero (take m [first_event]) = Inr s"
    and row: "if m = 0 then tb_runs T (token 0) = None
      else \<exists>row. tb_runs T (token 0) = Some row \<and> rn_tenant_id row = s_TenantID s \<and> rn_last_event_id row = s_LastEventID s
        \<and> rn_updated_at row = s_LastEventAt s \<and> rn_status row = RunStatus_string (s_Status s)"
    using Projector_run_row [OF sample_projected_history sample_new_site T, of "token 0" st] unfolding sample_site_log sample_committed by blast
  from m have one: "m = 1" by simp
  from s have "fold_loop sim_blocks RunState_zero [first_event] = Inr s" unfolding one by (simp del: fold_loop.simps)
  moreover from row have "\<exists>row. tb_runs T (token 0) = Some row \<and> rn_status row = RunStatus_string (s_Status s)" by (auto simp: one)
  ultimately show ?thesis using T by (intro exI [of _ T] exI [of _ s]) (simp del: fold_loop.simps)
qed

lemma sample_poisonous: "poisonous no_rows (first_event\<lparr>PayloadRaw := Some (JArr [])\<rparr>)"
  by (simp add: poisonous_def DecodePayload_def unmarshalPayload_def Unmarshal_def insert_event_def event_row_of_def bindS_def
      sim_types_simps first_texts nullable_def no_rows_def) (simp add: first_event_def EventType_defs first_texts unmarshalPayload_def Unmarshal_def)

definition sample_migrated :: site where "sample_migrated = sample_journaled\<lparr>st_db := Some no_rows\<rparr>"

lemma sample_first_applied: "\<exists>T. apply_all sim_types [first_event] no_rows = Some T"
  using apply_event_works [of sim_types "[]" no_rows first_event] by (auto simp: first_applicable)

theorem ApplyEvent_atomic_witness:
  "let (r, x') = ApplyEvent sim_pg Background first_event sample_migrated in
   (st_db x' = Some no_rows \<or> (\<exists>b T'. apply_event sim_types no_rows first_event = Some (b, T') \<and> st_db x' = Some T'))
    \<and> (\<forall>b. r = Done (Inr b) \<longrightarrow> (\<exists>T'. apply_event sim_types no_rows first_event = Some (b, T') \<and> st_db x' = Some T'))
    \<and> (\<forall>err. r = Done (Inl err) \<longrightarrow> errors_Is err SConflictingEvent \<longrightarrow> st_db x' = Some no_rows \<and> conflicting sim_types no_rows first_event)"
  using ApplyEvent_atomic [of Background first_event sample_migrated]
  by (cases "ApplyEvent sim_pg Background first_event sample_migrated") (simp add: sample_migrated_def)

theorem ApplyEvent_redelivered_witness:
  "\<exists>T r x'. apply_all sim_types [first_event] no_rows = Some T
    \<and> ApplyEvent sim_pg Background first_event (sample_journaled\<lparr>st_db := Some T\<rparr>) = (r, x')
    \<and> st_db x' = Some T \<and> r \<noteq> Done (Inr True)"
proof -
  obtain T where T: "apply_all sim_types [first_event] no_rows = Some T" using sample_first_applied by blast
  let ?a = "ApplyEvent sim_pg Background first_event (sample_journaled\<lparr>st_db := Some T\<rparr>)"
  have a: "?a = (fst ?a, snd ?a)" by (rule prod.collapse [symmetric])
  have "st_db (snd ?a) = Some T \<and> fst ?a \<noteq> Done (Inr True)" using ApplyEvent_redelivered [OF T _ _ a] by simp
  with T a show ?thesis by (intro exI [of _ T] exI [of _ "fst ?a"] exI [of _ "snd ?a"] conjI) simp_all
qed

theorem Projector_catches_up_witness:
  "\<exists>y. projector_main (sim_projector 2 (Suc 0)) (\<lambda>_. []) sample_journaled = (Halt 0, y) \<and> st_group y 0 = 1"
proof -
  have "(\<Sum>p < RunEventsPartitions. length (site_topic sample_journaled p)) < 2" unfolding sample_unread by simp
  from Projector_catches_up [where getenv = "\<lambda>_. []", OF sample_journaled_history sample_new_site sample_smooth sample_projectable
      refl this zero_less_Suc [of 0]]
  obtain y where y: "projector_main (sim_projector 2 (Suc 0)) (\<lambda>_. []) sample_journaled = (Halt 0, y)"
    and g: "\<forall>p < RunEventsPartitions. st_group y p = length (site_topic sample_journaled p)"
    by (elim exE conjE) (rule that, assumption, simp)
  from g have "st_group y 0 = length (site_topic sample_journaled 0)" by (simp add: RunEventsPartitions_def)
  then have "st_group y 0 = 1" by (simp add: sample_topic)
  with y show ?thesis by (intro exI [of _ y] conjI)
qed

end
