(* ===== verification/Fold_Canon.thy ===== *)
theory Fold_Canon
  imports Digest Loop_Facts
begin

text \<open>
  Two copies of one journal whose documents differ only in the order of an object's members, as a database
  keeps them, fold to the same run: the states differ only in the documents they hold, and the digest does
  not see the difference.
\<close>

section \<open>Documents\<close>

lemma those_map_Some: "those (map f xs) = Some ys \<longleftrightarrow> list_all2 (\<lambda>x y. f x = Some y) xs ys"
proof (induction xs arbitrary: ys)
  case (Cons x xs)
  then show ?case by (cases ys) (auto split: option.splits simp: list_all2_Cons1)
qed auto

lemma canon_written [simp]:
  "canon (enc_raw r) = enc_raw (map_option canon r)" "canon (enc_int i) = enc_int i"
  "canon (enc_string_ptr p) = enc_string_ptr p"
  by (simp add: enc_raw_def split: option.split) (simp_all add: enc_int_def enc_string_ptr_def split: option.split)

text \<open>Members that are related one by one stay so when the last of equal keys are kept and sorted.\<close>

definition same_member :: "('a \<Rightarrow> 'b \<Rightarrow> bool) \<Rightarrow> string \<times> 'a \<Rightarrow> string \<times> 'b \<Rightarrow> bool" where
  "same_member R = (\<lambda>(k, v) (k', w). k = k' \<and> R v w)"

lemma same_member_keys: "list_all2 (same_member R) ms ns \<Longrightarrow> map fst ms = map fst ns"
  by (induction rule: list_all2_induct) (auto simp: same_member_def)

lemma same_member_keep_last:
  "list_all2 (same_member R) ms ns \<Longrightarrow> list_all2 (same_member R) (keep_last ms) (keep_last ns)"
proof (induction rule: list_all2_induct)
  case (Cons x xs y ys)
  have "fst ` set xs = fst ` set ys" using same_member_keys [OF Cons.hyps(2)] by (metis set_map)
  with Cons show ?case by (cases x; cases y) (auto simp: same_member_def)
qed simp

lemma same_member_insort:
  "list_all2 (same_member R) ms ns \<Longrightarrow> same_member R m n
    \<Longrightarrow> list_all2 (same_member R) (insort_key fst m ms) (insort_key fst n ns)"
  by (induction rule: list_all2_induct) (auto simp: same_member_def)

lemma same_member_sort:
  "list_all2 (same_member R) ms ns \<Longrightarrow> list_all2 (same_member R) (sort_key fst ms) (sort_key fst ns)"
  by (induction rule: list_all2_induct) (simp_all add: same_member_insort)

lemma any_of_obj:
  "any_of num (JObj ms) = Some j \<longleftrightarrow> (\<exists>ns. list_all2 (same_member (\<lambda>v w. any_of num v = Some w)) ms ns
     \<and> j = JObj (sort_key fst (keep_last ns)))"
proof -
  let ?f = "\<lambda>x. case map_prod id (any_of num) x of (k, v) \<Rightarrow> map_option (Pair k) v"
  have f: "(\<lambda>x y. ?f x = Some y) = same_member (\<lambda>v w. any_of num v = Some w)"
    by (intro ext) (auto simp: same_member_def split: prod.splits)
  have "any_of num (JObj ms) = map_option (\<lambda>ms. JObj (sort_key fst (keep_last ms))) (those (map ?f ms))"
    by (simp add: o_def)
  moreover have "those (map ?f ms) = Some ns \<longleftrightarrow> list_all2 (same_member (\<lambda>v w. any_of num v = Some w)) ms ns" for ns
    unfolding those_map_Some f ..
  ultimately show ?thesis by auto
qed

lemma any_of_canon: "any_of num j = Some a \<Longrightarrow> any_of num (canon j) = Some a"
proof (induction j arbitrary: a)
  case (JArr xs)
  then obtain as where as: "list_all2 (\<lambda>x y. any_of num x = Some y) xs as" "a = JArr as" by (auto simp: those_map_Some)
  have "list_all2 (\<lambda>x y. any_of num (canon x) = Some y) xs as"
    using as(1) JArr.IH by (auto simp: list_all2_conv_all_nth)
  then have "those (map (\<lambda>x. any_of num (canon x)) xs) = Some as" by (simp add: those_map_Some)
  with as(2) show ?case by (simp add: o_def)
next
  case (JObj ms)
  let ?R = "\<lambda>v w. any_of num v = Some w"
  obtain ns where ns: "list_all2 (same_member ?R) ms ns" "a = JObj (sort_key fst (keep_last ns))"
    using JObj.prems unfolding any_of_obj by blast
  have "same_member ?R (map_prod id canon m) n" if "m \<in> set ms" "same_member ?R m n" for m n
    using that JObj.IH [of m "snd m"] by (cases m; cases n) (auto simp: same_member_def)
  then have "list_all2 (same_member ?R) (map (map_prod id canon) ms) ns"
    using ns(1) by (auto simp: list_all2_conv_all_nth)
  then have "list_all2 (same_member ?R) (sort_key fst (keep_last (map (map_prod id canon) ms))) (sort_key fst (keep_last ns))"
    by (intro same_member_sort same_member_keep_last)
  moreover have "distinct (map fst (sort_key fst (keep_last ns)))"
    using keep_last_distinct [of ns] by (simp add: distinct_map)
  then have "sort_key fst (keep_last (sort_key fst (keep_last ns))) = sort_key fst (keep_last ns)"
    by (simp add: keep_last_id sort_key_id_if_sorted)
  ultimately have "any_of num (canon (JObj ms)) = Some (JObj (sort_key fst (keep_last ns)))"
    unfolding canon.simps any_of_obj by (intro exI [of _ "sort_key fst (keep_last ns)"] conjI) simp_all
  with ns(2) show ?case by simp
qed simp_all


section \<open>States up to the order of members\<close>

abbreviation canon_raw :: "raw \<Rightarrow> raw" where "canon_raw \<equiv> map_option canon"

definition canon_event :: "Envelope \<Rightarrow> Envelope" where
  "canon_event e = e\<lparr>PayloadRaw := canon_raw (PayloadRaw e)\<rparr>"

primrec canon_payload :: "Payload \<Rightarrow> Payload" where
  "canon_payload (PRunStarted p) = PRunStarted (p\<lparr>rs_Input := canon_raw (rs_Input p)\<rparr>)"
| "canon_payload (PLLMResponded p) = PLLMResponded (p\<lparr>lr_Content := canon_raw (lr_Content p)\<rparr>)"
| "canon_payload (PToolInvoked p) = PToolInvoked (p\<lparr>ti_ToolArgs := canon_raw (ti_ToolArgs p)\<rparr>)"
| "canon_payload (PToolResulted p) = PToolResulted p"
| "canon_payload (PAwaitingApproval p) = PAwaitingApproval (p\<lparr>aa_ApprovalPayload := canon_raw (aa_ApprovalPayload p)\<rparr>)"
| "canon_payload (PRunApproved p) = PRunApproved p"
| "canon_payload (PRunCompleted p) = PRunCompleted p"
| "canon_payload (PRunFailed p) = PRunFailed p"
| "canon_payload (PRunCancelled p) = PRunCancelled p"

primrec canon_block :: "content_block \<Rightarrow> content_block" where
  "canon_block (TextBlock x) = TextBlock x"
| "canon_block (ToolUseBlock tid name input) = ToolUseBlock tid name (canon_raw input)"
| "canon_block (OtherBlock j) = OtherBlock (canon j)"

definition canon_step :: "stepRecord \<Rightarrow> stepRecord" where
  "canon_step st = st\<lparr>sr_content := map canon_block (sr_content st)\<rparr>"

definition canon_call :: "ToolCall \<Rightarrow> ToolCall" where
  "canon_call tc = tc\<lparr>tc_ToolArgs := canon_raw (tc_ToolArgs tc)\<rparr>"

definition canon_state :: "RunState \<Rightarrow> RunState" where
  "canon_state s = s\<lparr>s_PendingToolCalls := map canon_call (s_PendingToolCalls s),
     s_InFlightTool := map_option canon_call (s_InFlightTool s), s_steps := map canon_step (s_steps s)\<rparr>"

lemma canon_event_simps [simp]:
  "EventID (canon_event e) = EventID e" "RunID (canon_event e) = RunID e" "TenantID (canon_event e) = TenantID e"
  "SequenceNumber (canon_event e) = SequenceNumber e" "EventType_of (canon_event e) = EventType_of e"
  "OccurredAt (canon_event e) = OccurredAt e" "PayloadRaw (canon_event e) = canon_raw (PayloadRaw e)"
  by (simp_all add: canon_event_def)

lemma canon_step_simps [simp]:
  "sr_content (canon_step st) = map canon_block (sr_content st)" "sr_isTerminal (canon_step st) = sr_isTerminal st"
  "sr_stopReason (canon_step st) = sr_stopReason st" "sr_invoked (canon_step st) = sr_invoked st"
  "sr_order (canon_step st) = sr_order st" "sr_invokedOrder (canon_step st) = sr_invokedOrder st"
  "sr_results (canon_step st) = sr_results st"
  by (simp_all add: canon_step_def)

lemma canon_state_simps [simp]:
  "s_RunID (canon_state s) = s_RunID s" "s_TenantID (canon_state s) = s_TenantID s" "s_Status (canon_state s) = s_Status s"
  "s_CurrentStep (canon_state s) = s_CurrentStep s" "s_MaxSteps (canon_state s) = s_MaxSteps s"
  "s_NextSequence (canon_state s) = s_NextSequence s" "s_NextAction (canon_state s) = s_NextAction s"
  "s_FinalOutput (canon_state s) = s_FinalOutput s" "s_Failure (canon_state s) = s_Failure s"
  "s_prompt (canon_state s) = s_prompt s" "s_seen (canon_state s) = s_seen s"
  "s_steps (canon_state s) = map canon_step (s_steps s)"
  "s_PendingToolCalls (canon_state s) = map canon_call (s_PendingToolCalls s)"
  "s_InFlightTool (canon_state s) = map_option canon_call (s_InFlightTool s)"
  by (simp_all add: canon_state_def)

lemma tool_use_ids_canon [simp]: "tool_use_ids (map canon_block bs) = tool_use_ids bs"
  by (induction bs rule: tool_use_ids.induct) simp_all

lemma toolCallFromContent_canon:
  "toolCallFromContent (map canon_block bs) tid = map_option canon_call (toolCallFromContent bs tid)"
  by (induction bs tid rule: toolCallFromContent.induct) (auto simp: canon_call_def split: content_block.split)

lemma allResulted_canon [simp]: "allResulted (canon_step st) = allResulted st"
  by (simp add: allResulted_def)

lemma currentStepFor_canon: "currentStepFor (canon_state s) tid = map_sum id canon_step (currentStepFor s tid)"
  by (simp add: currentStepFor_def last_map)

lemma set_last_step_canon: "set_last_step (canon_state s) (canon_step st) = canon_state (set_last_step s st)"
  by (simp add: set_last_step_def canon_state_def map_butlast)

lemma derive_loop_canon: "derive_loop (canon_step st) tids (canon_state s) = canon_state (derive_loop st tids s)"
proof (induction tids arbitrary: s)
  case (Cons tid tids)
  let ?s1 = "\<lambda>tc. s\<lparr>s_PendingToolCalls := s_PendingToolCalls s @ [tc]\<rparr>"
  have "(canon_state s)\<lparr>s_PendingToolCalls := map canon_call (s_PendingToolCalls s) @ [canon_call tc]\<rparr> = canon_state (?s1 tc)"
    "(canon_state s)\<lparr>s_InFlightTool := Some (canon_call tc)\<rparr> = canon_state (s\<lparr>s_InFlightTool := Some tc\<rparr>)" for tc
    by (simp_all add: canon_state_def)
  moreover have "canon_call tc\<lparr>tc_HasSideEffect := a, tc_IdempotencyKey := b, tc_InvokedAt := c\<rparr>
      = canon_call (tc\<lparr>tc_HasSideEffect := a, tc_IdempotencyKey := b, tc_InvokedAt := c\<rparr>)" for tc a b c
    by (simp add: canon_call_def)
  ultimately show ?case using Cons.IH
    by (simp add: toolCallFromContent_canon Let_def split: option.split)
qed simp

lemma deriveToolState_canon: "deriveToolState (canon_state s) = canon_state (deriveToolState s)"
proof -
  have "(canon_state s)\<lparr>s_PendingToolCalls := [], s_InFlightTool := None\<rparr>
      = canon_state (s\<lparr>s_PendingToolCalls := [], s_InFlightTool := None\<rparr>)" by (simp add: canon_state_def)
  then show ?thesis by (simp add: deriveToolState_def Let_def last_map derive_loop_canon)
qed

lemma computeNextAction_canon [simp]: "computeNextAction (canon_state s) = computeNextAction s"
  by (simp add: computeNextAction_def last_map)

lemma finish_event_canon: "finish_event (canon_event e) (canon_state n) = canon_state (finish_event e n)"
proof -
  have "(canon_state d)\<lparr>s_NextAction := a, s_NextSequence := b, s_LastEventID := i, s_LastEventAt := t, s_seen := x\<rparr>
      = canon_state (d\<lparr>s_NextAction := a, s_NextSequence := b, s_LastEventID := i, s_LastEventAt := t, s_seen := x\<rparr>)"
    for d a b i t x by (simp add: canon_state_def)
  then show ?thesis by (simp add: finish_event_def Let_def deriveToolState_canon)
qed

lemma start_event_canon: "start_event (canon_state s) (canon_event e) = canon_state (start_event s e)"
  unfolding start_event_def isEmpty_def canon_state_simps by (simp add: canon_state_def)

text \<open>
  A payload as the program writes it: a run's input is the one member the loop puts there, and the content is one
  that \<open>blocks\<close> reads as the same blocks in either copy.
\<close>

definition writable :: "block_decoder \<Rightarrow> Payload \<Rightarrow> bool" where
  "writable blocks p \<longleftrightarrow> journalable p \<and> (case p of
     PRunStarted q \<Rightarrow> (\<exists>t. rs_Input q = Some (JObj [(''prompt'', JStr t)]))
   | PLLMResponded q \<Rightarrow> blocks (canon_raw (lr_Content q)) = map_sum id (map canon_block) (blocks (lr_Content q))
   | _ \<Rightarrow> True)"

lemma applyPayload_canon:
  assumes "writable blocks p"
  shows "applyPayload blocks (canon_state s) (canon_payload p) t = map_sum id canon_state (applyPayload blocks s p t)"
proof (cases p)
  case (PRunStarted q)
  then show ?thesis using assms
    by (auto simp: writable_def applyRunStarted_def canon_state_def split: sum.split)
next
  case (PLLMResponded q)
  have "(canon_state s)\<lparr>s_CurrentStep := n, s_steps := map canon_step (s_steps s)
        @ [\<lparr>sr_content = map canon_block bs, sr_isTerminal = a, sr_stopReason = b, sr_invoked = [], sr_order = ids,
            sr_invokedOrder = [], sr_results = []\<rparr>]\<rparr>
      = canon_state (s\<lparr>s_CurrentStep := n, s_steps := s_steps s
        @ [\<lparr>sr_content = bs, sr_isTerminal = a, sr_stopReason = b, sr_invoked = [], sr_order = ids,
            sr_invokedOrder = [], sr_results = []\<rparr>]\<rparr>)" for n bs a b ids
    by (simp add: canon_state_def canon_step_def)
  with PLLMResponded assms show ?thesis
    by (cases "blocks (lr_Content q)") (simp_all add: writable_def applyLLMResponded_def last_map Let_def)
next
  case (PToolInvoked q)
  then show ?thesis
    by (cases "currentStepFor s (ti_ToolUseID q)")
      (auto simp: applyToolInvoked_def currentStepFor_canon set_last_step_canon [symmetric] canon_step_def
        intro!: arg_cong [of _ _ "set_last_step (canon_state s)"])
next
  case (PToolResulted q)
  then show ?thesis
    by (cases "currentStepFor s (tr_ToolUseID q)")
      (auto simp: applyToolResulted_def currentStepFor_canon set_last_step_canon [symmetric] canon_step_def
        intro!: arg_cong [of _ _ "set_last_step (canon_state s)"])
qed (simp_all add: canon_state_def)

lemma canon_payload_facts [simp]:
  "payload_EventType (canon_payload p) = payload_EventType p" "payload_in64 (canon_payload p) = payload_in64 p"
  by (cases p; simp)+

lemma writable_canon_journalable: "writable blocks p \<Longrightarrow> journalable (canon_payload p)"
  by (cases p) (auto simp: writable_def journalable_def)

text \<open>The canonical form of what the encoder writes is the same members of the other payload, in the order of their names.\<close>

lemma DecodePayload_canon:
  assumes "payload_in64 p" and "EventType_of e = payload_EventType p" and "PayloadRaw e = Some (enc_payload p)"
  shows "DecodePayload (canon_event e) = Inr (with_docs (canon_payload p))"
  using assms
  by (cases p)
    (simp_all add: DecodePayload_def unmarshalPayload_def unmarshal_members payload_fields payload_zeros EventType_defs
      find_field_def dec_enc)

lemma admitted_canon [simp]: "admitted (canon_state s) (canon_event e) = admitted s e"
  by (simp add: admitted_def isEmpty_def)

text \<open>An event as the program writes it.\<close>

definition written :: "block_decoder \<Rightarrow> Envelope \<Rightarrow> bool" where
  "written blocks e \<longleftrightarrow> (\<exists>p. EventType_of e = payload_EventType p \<and> PayloadRaw e = Some (enc_payload p) \<and> writable blocks p)"

lemma Apply_canon:
  assumes "written blocks e"
  shows "Apply blocks (canon_state s) (canon_event e) = map_sum id canon_state (Apply blocks s e)"
proof -
  obtain p where p: "EventType_of e = payload_EventType p" "PayloadRaw e = Some (enc_payload p)" "writable blocks p"
    using assms by (auto simp: written_def)
  then have j: "journalable p" "payload_in64 p" by (simp_all add: writable_def journalable_def)
  have d: "DecodePayload e = Inr (with_docs p)" by (rule DecodePayload_with_docs [OF j(2) p(1,2)])
  have d': "DecodePayload (canon_event e) = Inr (with_docs (canon_payload p))" by (rule DecodePayload_canon [OF j(2) p(1,2)])
  show ?thesis
  proof (cases "map_of (s_seen s) (SequenceNumber e)")
    case (Some i)
    then show ?thesis by (simp add: Apply_def)
  next
    case None
    show ?thesis
    proof (cases "admitted s e")
      case True
      then show ?thesis
        by (simp add: Apply_admitted d d' applyPayload_with_docs j writable_canon_journalable [OF p(3)] start_event_canon
            applyPayload_canon [OF p(3)] split: sum.split)
          (auto simp: finish_event_canon [symmetric])
    next
      case False
      with None show ?thesis by (simp add: Apply_rejected isEmpty_def)
    qed
  qed
qed

lemma fold_loop_canon:
  "\<forall>e \<in> set evs. written blocks e
    \<Longrightarrow> fold_loop blocks (canon_state s) (map canon_event evs) = map_sum id canon_state (fold_loop blocks s evs)"
  by (induction evs arbitrary: s) (auto simp: Apply_canon split: sum.split)

lemma Fold_canon:
  assumes "\<forall>e \<in> set evs. written blocks e"
  shows "Fold blocks (map canon_event evs) = map_sum id canon_state (Fold blocks evs)"
proof -
  have "canon_state RunState_zero = RunState_zero" by (simp add: canon_state_def RunState_zero_def)
  with fold_loop_canon [OF assms, of RunState_zero] show ?thesis by (simp add: Fold_def)
qed

section \<open>The digest\<close>

primrec canon_param :: "block_param \<Rightarrow> block_param" where
  "canon_param (ToParam b) = ToParam (canon_block b)"
| "canon_param (NewTextBlock x) = NewTextBlock x"
| "canon_param (NewToolResultBlock tid x isError) = NewToolResultBlock tid x isError"

primrec canon_message :: "MessageParam \<Rightarrow> MessageParam" where
  "canon_message (NewUserMessage bs) = NewUserMessage (map canon_param bs)"
| "canon_message (NewAssistantMessage bs) = NewAssistantMessage (map canon_param bs)"

lemma messages_loop_canon:
  "messages_loop (map canon_step sts) (map canon_message msgs) = map canon_message (messages_loop sts msgs)"
proof (induction sts msgs rule: messages_loop.induct)
  case (2 st sts msgs)
  let ?a = "NewAssistantMessage (map ToParam (sr_content st))"
  let ?u = "NewUserMessage (map (\<lambda>tid. let r = result_of st tid in NewToolResultBlock tid (tr_Result r) (tr_Status r = ''error'')) (sr_order st))"
  have "result_of (canon_step st) = result_of st" by (intro ext) (simp add: result_of_def)
  moreover have "canon_message ?a = NewAssistantMessage (map ToParam (map canon_block (sr_content st)))" by simp
  moreover have "canon_message ?u = ?u" by (simp add: Let_def)
  ultimately show ?case using 2 by (auto simp: Let_def o_def)
qed simp

lemma Messages_canon: "Messages (canon_state s) = map_sum id (map canon_message) (Messages s)"
  using messages_loop_canon [of "s_steps s" "[NewUserMessage [NewTextBlock (s_prompt s)]]"] by (simp add: Messages_def)

text \<open>
  What is asked of the SDK's encoder: messages that carry the same documents up to the order of members are written as
  documents that read the same.
\<close>

definition uniform :: "number_text \<Rightarrow> message_encoder \<Rightarrow> bool" where
  "uniform num sdk \<longleftrightarrow> (\<forall>msgs m a. sdk msgs = Inr m \<longrightarrow> any_of num m = Some a
     \<longrightarrow> (\<exists>m'. sdk (map canon_message msgs) = Inr m' \<and> any_of num m' = Some a))"

lemma any_of_member:
  assumes "any_of num (JObj ms) = Some a" and "(k, v) \<in> set ms"
  obtains w where "any_of num v = Some w"
proof -
  obtain ns where ns: "list_all2 (same_member (\<lambda>v w. any_of num v = Some w)) ms ns" using assms(1) unfolding any_of_obj by blast
  obtain i where "i < length ms" "ms ! i = (k, v)" using assms(2) by (auto simp: in_set_conv_nth)
  with list_all2_nthD [OF ns] that show thesis by (cases "ns ! i") (force simp: same_member_def)
qed

lemma any_of_members:
  assumes "any_of num (JObj ms) = Some a"
    and "list_all2 (same_member (\<lambda>v v'. \<forall>w. any_of num v = Some w \<longrightarrow> any_of num v' = Some w)) ms ms'"
  shows "any_of num (JObj ms') = Some a"
proof -
  let ?R = "\<lambda>v w. any_of num v = Some w"
  obtain ns where ns: "list_all2 (same_member ?R) ms ns" "a = JObj (sort_key fst (keep_last ns))"
    using assms(1) unfolding any_of_obj by blast
  have "list_all2 (same_member ?R) ms' ns"
  proof (rule list_all2_all_nthI)
    show "length ms' = length ns" using list_all2_lengthD [OF ns(1)] list_all2_lengthD [OF assms(2)] by simp
    show "same_member ?R (ms' ! i) (ns ! i)" if "i < length ms'" for i
    proof -
      have "i < length ms" using that list_all2_lengthD [OF assms(2)] by simp
      from list_all2_nthD [OF ns(1) this] list_all2_nthD [OF assms(2) this] show ?thesis
        by (cases "ms ! i"; cases "ms' ! i"; cases "ns ! i") (simp add: same_member_def)
    qed
  qed
  with ns(2) show ?thesis unfolding any_of_obj by blast
qed

lemma normalizeToolCall_canon:
  "normalizeToolCall num tc = Inr tc' \<Longrightarrow> normalizeToolCall num (canon_call tc) = Inr tc'"
  by (cases "tc_ToolArgs tc") (auto simp: normalizeToolCall_def canon_call_def unmarshal_any_def any_of_canon split: option.splits)

lemma normalize_calls_canon:
  "normalize_calls num tcs = Inr tcs' \<Longrightarrow> normalize_calls num (map canon_call tcs) = Inr tcs'"
proof (induction tcs arbitrary: tcs')
  case (Cons tc tcs)
  then obtain n ns where "normalizeToolCall num tc = Inr n" "normalize_calls num tcs = Inr ns" "tcs' = n # ns"
    by (auto split: sum.splits) (cases "normalize_calls num tcs", auto)
  with Cons.IH normalizeToolCall_canon show ?case by simp
qed simp

lemma normalize_in_flight_canon:
  "normalize_in_flight num t = Inr t' \<Longrightarrow> normalize_in_flight num (map_option canon_call t) = Inr t'"
  by (auto simp: normalize_in_flight_def normalizeToolCall_canon split: option.splits sum.splits)

lemma enc_digestView_messages:
  assumes "enc_digestView sdk v = Inr b" and "sdk (dv_Messages v) = Inr m" and "sdk msgs' = Inr m'"
  obtains pre post where "b = JObj (pre @ (''Messages'', m) # post)"
    and "enc_digestView sdk (v\<lparr>dv_Messages := msgs'\<rparr>) = Inr (JObj (pre @ (''Messages'', m') # post))"
proof -
  obtain ms where ms: "b = JObj ms" using assms(1,2) by (auto simp: enc_digestView_def split: if_splits)
  show thesis
    using assms ms
    by (intro that [of "take 6 ms" "drop 7 ms"]) (auto simp: enc_digestView_def split: if_splits)
qed

lemma canonicalize_canon:
  assumes "uniform num sdk" and "canonicalize num sdk v = Inr d"
  shows "canonicalize num sdk (v\<lparr>dv_Messages := map canon_message (dv_Messages v)\<rparr>) = Inr d"
proof -
  obtain b a where b: "enc_digestView sdk v = Inr b" and a: "any_of num b = Some a" "d = Marshal_text a"
    using assms(2) by (auto simp: canonicalize_def unmarshal_any_def split: sum.splits option.splits)
  obtain m where m: "sdk (dv_Messages v) = Inr m" using b by (auto simp: enc_digestView_def split: sum.splits)
  have "\<exists>w. any_of num m = Some w"
  proof -
    obtain pre post where "b = JObj (pre @ (''Messages'', m) # post)" by (rule enc_digestView_messages [OF b m m])
    with a(1) show ?thesis by (auto elim!: any_of_member [where k = "''Messages''" and v = m] simp del: any_of.simps)
  qed
  then obtain w m' where w: "any_of num m = Some w" "any_of num m' = Some w" "sdk (map canon_message (dv_Messages v)) = Inr m'"
    using assms(1) m unfolding uniform_def by blast
  obtain pre post where e: "b = JObj (pre @ (''Messages'', m) # post)"
    "enc_digestView sdk (v\<lparr>dv_Messages := map canon_message (dv_Messages v)\<rparr>) = Inr (JObj (pre @ (''Messages'', m') # post))"
    by (rule enc_digestView_messages [OF b m w(3)])
  have "any_of num (JObj (pre @ (''Messages'', m') # post)) = Some a"
    by (rule any_of_members [OF a(1) [unfolded e(1)]])
      (use w in \<open>auto simp: list_all2_append same_member_def intro!: list.rel_refl split: prod.splits\<close>)
  with e(2) a(2) show ?thesis by (simp add: canonicalize_def unmarshal_any_def del: any_of.simps)
qed

lemma RunState_Digest_canon:
  assumes "uniform num sdk" and "RunState_Digest num sdk s = Inr d"
  shows "RunState_Digest num sdk (canon_state s) = Inr d"
proof -
  obtain msgs pending t where p: "Messages s = Inr msgs" "normalize_calls num (s_PendingToolCalls s) = Inr pending"
    "normalize_in_flight num (s_InFlightTool s) = Inr t"
    using assms(2) by (auto simp: RunState_Digest_def split: sum.splits)
  let ?v = "\<lparr>dv_RunID = s_RunID s, dv_TenantID = s_TenantID s, dv_Status = s_Status s, dv_CurrentStep = s_CurrentStep s,
      dv_MaxSteps = s_MaxSteps s, dv_NextSequence = s_NextSequence s, dv_Messages = msgs, dv_PendingToolCalls = pending,
      dv_InFlightTool = t, dv_NextAction = s_NextAction s, dv_FinalOutput = s_FinalOutput s, dv_Failure = s_Failure s,
      dv_LastStepIsTerminal = lastStepIsTerminal s\<rparr>"
  obtain c where c: "canonicalize num sdk ?v = Inr c" "d = sha256_hex c"
    using assms(2) p by (auto simp: RunState_Digest_def Let_def split: sum.splits)
  have "lastStepIsTerminal (canon_state s) = lastStepIsTerminal s" by (simp add: lastStepIsTerminal_def last_map)
  with canonicalize_canon [OF assms(1) c(1)] p c(2) show ?thesis
    by (simp add: RunState_Digest_def Messages_canon normalize_calls_canon normalize_in_flight_canon Let_def)
qed

end
