(* ===== verification/Replay_Agreement.thy ===== *)
theory Replay_Agreement
  imports Fold_Canon Replay_Cli Sample_Site
begin

text \<open>
  The two sources of \<open>scripts/replay\<close>: what is printed of a run from Postgres is what is printed of it from Kafka.
\<close>

section \<open>Printing\<close>

lemma nextActionLine_canon [simp]: "nextActionLine (canon_state s) = nextActionLine s"
  by (auto simp: nextActionLine_def canon_call_def o_def split: option.split)

lemma results_loop_canon [simp]: "results_loop (canon_step st) tids = results_loop st tids"
  by (induction tids) (auto split: option.split)

lemma toolResultsLine_canon [simp]: "toolResultsLine (canon_state s) = toolResultsLine s"
  by (simp add: toolResultsLine_def ToolResults_def o_def)

lemma blockParamType_canon [simp]: "blockParamType (canon_param b) = blockParamType b"
proof (cases b)
  case (ToParam c)
  then show ?thesis by (cases c) simp_all
qed simp_all

lemma summarizeMessages_canon [simp]: "summarizeMessages (map canon_message msgs) = summarizeMessages msgs"
proof -
  have "summarizeMessage (canon_message m) = summarizeMessage m" for m by (cases m) (simp_all add: o_def)
  then show ?thesis by (simp add: summarizeMessages_def o_def)
qed

lemma printState_canon:
  assumes "uniform (rp_num rp) (rp_sdk rp)" and "RunState_Digest (rp_num rp) (rp_sdk rp) s = Inr d"
  shows "printState rp runID source n (canon_state s) = printState rp runID source n s"
proof -
  obtain msgs where "Messages s = Inr msgs" by (simp add: Messages_def)
  with RunState_Digest_canon [OF assms] assms(2) show ?thesis by (simp add: printState_def Messages_canon Let_def)
qed

section \<open>The simulated model's blocks\<close>

text \<open>A content array whose blocks name no member twice.\<close>

definition plain_doc :: "json \<Rightarrow> bool" where
  "plain_doc d = (case d of JObj ms \<Rightarrow> distinct (map fst ms) | _ \<Rightarrow> True)"

definition plain_content :: "raw \<Rightarrow> bool" where
  "plain_content r = (case r of Some (JArr ds) \<Rightarrow> list_all plain_doc ds | _ \<Rightarrow> True)"

lemma canon_is_string [simp]: "canon j = JStr s \<longleftrightarrow> j = JStr s"
  by (cases j) simp_all

lemma map_of_sorted: "distinct (map fst xs) \<Longrightarrow> map_of (sort_key fst xs) = map_of (xs :: (string \<times> 'v) list)"
  by (subst map_of_inject_set) (simp_all add: distinct_map)

lemma map_of_canon:
  assumes "distinct (map fst ms)"
  shows "map_of (sort_key fst (keep_last (map (map_prod id canon) ms))) k = canon_raw (map_of ms k)"
proof -
  let ?ms = "map (map_prod id canon) ms"
  have "map fst ?ms = map fst ms" by (induction ms) auto
  with assms have d: "distinct (map fst ?ms)" by simp
  then have "map_of (sort_key fst (keep_last ?ms)) = map_of ?ms" by (simp only: keep_last_id map_of_sorted)
  moreover have "map_of ?ms k = canon_raw (map_of ms k)" by (induction ms) auto
  ultimately show ?thesis by simp
qed

lemma sim_block_canon: "plain_doc d \<Longrightarrow> sim_block (canon d) = canon_block (sim_block d)"
proof (cases d)
  case (JObj ms)
  assume "plain_doc d"
  with JObj have m: "map_of (sort_key fst (keep_last (map (map_prod id canon) ms))) k = canon_raw (map_of ms k)" for k
    by (simp add: plain_doc_def map_of_canon)
  have s: "string_member (sort_key fst (keep_last (map (map_prod id canon) ms))) k = string_member ms k" for k
  proof (cases "map_of ms k")
    case (Some j)
    then show ?thesis by (cases j) (simp_all add: string_member_def m)
  qed (simp add: string_member_def m)
  have t: "canon_raw r = Some (JStr x) \<longleftrightarrow> r = Some (JStr x)" for r x by (cases r) simp_all
  show ?thesis by (simp add: sim_block_def JObj m s t)
qed (simp_all add: sim_block_def)

lemma sim_blocks_canon:
  assumes "plain_content r" shows "sim_blocks (canon_raw r) = map_sum id (map canon_block) (sim_blocks r)"
proof (cases r)
  case (Some j)
  with assms show ?thesis by (cases j) (auto simp: sim_blocks_def plain_content_def list_all_iff sim_block_canon)
qed (simp add: sim_blocks_def)

text \<open>An event of the worker's whose documents name no member twice.\<close>

definition journal_event :: "Envelope \<Rightarrow> bool" where
  "journal_event e \<longleftrightarrow> (\<exists>p. EventType_of e = payload_EventType p \<and> PayloadRaw e = Some (enc_payload p) \<and> journalable p
     \<and> (case p of PRunStarted q \<Rightarrow> (\<exists>t. rs_Input q = Some (JObj [(''prompt'', JStr t)]))
        | PLLMResponded q \<Rightarrow> plain_content (lr_Content q) | _ \<Rightarrow> True))"

lemma journal_event_written: "journal_event e \<Longrightarrow> written sim_blocks e"
  unfolding journal_event_def written_def writable_def
  by (elim ex_forward conj_forward) (auto simp: sim_blocks_canon split: Payload.splits)

text \<open>The simulated SDK writes the same documents for the same messages.\<close>

definition reads_as :: "number_text \<Rightarrow> json \<Rightarrow> json \<Rightarrow> bool" where
  "reads_as num j j' \<longleftrightarrow> (\<forall>w. any_of num j = Some w \<longrightarrow> any_of num j' = Some w)"

lemma reads_as_refl [simp]: "reads_as num j j"
  and reads_as_canon: "reads_as num j (canon j)"
  by (simp_all add: reads_as_def any_of_canon)

lemma reads_as_arr:
  assumes "list_all2 (reads_as num) xs ys" shows "reads_as num (JArr xs) (JArr ys)"
  unfolding reads_as_def
proof (intro allI impI)
  fix w assume "any_of num (JArr xs) = Some w"
  then obtain as where as: "list_all2 (\<lambda>x y. any_of num x = Some y) xs as" "w = JArr as" by (auto simp: those_map_Some)
  have "list_all2 (\<lambda>x y. any_of num x = Some y) ys as"
    using as(1) assms by (auto simp: list_all2_conv_all_nth reads_as_def)
  with as(2) show "any_of num (JArr ys) = Some w" by (simp add: those_map_Some)
qed

lemma reads_as_map: "(\<And>x. reads_as num (f x) (g x)) \<Longrightarrow> reads_as num (JArr (map f xs)) (JArr (map g xs))"
  by (rule reads_as_arr) (simp add: list_all2_conv_all_nth)

lemma reads_as_obj:
  assumes "list_all2 (same_member (reads_as num)) ms ns" shows "reads_as num (JObj ms) (JObj ns)"
proof -
  have "any_of num (JObj ns) = Some w" if "any_of num (JObj ms) = Some w" for w
    by (rule any_of_members [OF that]) (use assms in \<open>simp only: reads_as_def [abs_def]\<close>)
  then show ?thesis unfolding reads_as_def by blast
qed

lemma sim_block_param_canon: "reads_as num (sim_block_param b) (sim_block_param (canon_param b))"
proof (cases b)
  case (ToParam c)
  have "reads_as num (enc_raw r) (enc_raw (canon_raw r))" for r using reads_as_canon [of num "enc_raw r"] by simp
  with ToParam show ?thesis
    by (cases c) (auto simp: sim_block_param_def reads_as_canon same_member_def intro!: reads_as_obj)
qed (simp_all add: sim_block_param_def)

lemma sim_uniform: "uniform num sim_sdk"
proof -
  have bs: "reads_as num (JArr (map sim_block_param bs)) (JArr (map sim_block_param (map canon_param bs)))" for bs
    unfolding map_map o_def by (rule reads_as_map) (rule sim_block_param_canon)
  let ?f = "\<lambda>m. case m of
     NewUserMessage bs \<Rightarrow> JObj [(''role'', JStr ''user''), (''content'', JArr (map sim_block_param bs))]
   | NewAssistantMessage bs \<Rightarrow> JObj [(''role'', JStr ''assistant''), (''content'', JArr (map sim_block_param bs))]"
  have o: "reads_as num (JObj [(''role'', JStr r), (''content'', c)]) (JObj [(''role'', JStr r), (''content'', c')])"
    if "reads_as num c c'" for r c c'
    using that by (intro reads_as_obj) (simp add: same_member_def)
  have m: "reads_as num (?f m) (?f (canon_message m))" for m
    using o [OF bs] by (cases m) (simp_all only: canon_message.simps MessageParam.case)
  have "reads_as num (JArr (map ?f msgs)) (JArr (map ?f (map canon_message msgs)))" for msgs
    unfolding map_map o_def by (rule reads_as_map) (rule m)
  then show ?thesis by (simp add: uniform_def sim_sdk_def reads_as_def del: any_of.simps map_map)
qed


section \<open>Two sources, one answer\<close>

lemma read_back_canon: "read_back sim_types e e' \<Longrightarrow> e' = canon_event e"
  by (auto simp: read_back_def sim_types_def canon_event_def split: option.splits)

lemma fresh_events_subset: "set (fresh_events es) \<subseteq> set es"
  by (induction es rule: rev_induct) (auto simp: add_fresh_def)

lemma Fold_fresh:
  assumes "Fold blocks es = Inr s" shows "Fold blocks (fresh_events es) = Inr s"
proof -
  have f: "fold_loop blocks RunState_zero es = Inr s" and ne: "es \<noteq> []" using assms by (auto simp: Fold_def split: if_splits)
  from ne have "fresh_events es \<noteq> []" by (cases es rule: rev_cases) (auto simp: add_fresh_def)
  with fold_fresh [OF f] show ?thesis by (simp add: Fold_def)
qed



end
