(* ===== verification/Bounds_Properties.thy ===== *)
theory Bounds_Properties
  imports Fold_Properties Worker Projector
begin

text \<open>
  Ranges and limits: what a folded state's fields may be, what an accepted configuration guarantees, how long the
  retry loops wait, and when the projector's gives up.
\<close>

section \<open>The type of a folded state\<close>

text \<open>
  C37. A folded state is well formed: its status is one of the five of a started run, its step, limit and next sequence
  number are in the range of Go's \<open>int64\<close>, all steps but the last have every tool use answered, a step knows of
  invocations only for its own tool uses, of results only for what was invoked, of each at most once, and
  \<open>PendingToolCalls\<close>, \<open>InFlightTool\<close> and \<open>NextAction\<close> are the ones that follow from the steps.
\<close>

theorem Fold_well_formed:
  assumes "Fold blocks evs = Inr s"
  shows "s_Status s \<noteq> StatusUnset \<and> in64 (s_CurrentStep s) \<and> in64 (s_MaxSteps s) \<and> in64 (s_NextSequence s)
    \<and> list_all allResulted (butlast (s_steps s))
    \<and> (\<forall>st \<in> set (s_steps s). sr_order st = tool_use_ids (sr_content st)
        \<and> distinct (map fst (sr_invoked st)) \<and> fst ` set (sr_invoked st) \<subseteq> set (sr_order st)
        \<and> distinct (map fst (sr_results st)) \<and> fst ` set (sr_results st) \<subseteq> fst ` set (sr_invoked st))
    \<and> s_PendingToolCalls s = pending_of s \<and> s_InFlightTool s = in_flight_of s \<and> s_NextAction s = computeNextAction s"
proof -
  have w: "wf_run s" by (rule Fold_wf_run [OF assms])
  have "s_seen s \<noteq> []"
  proof -
    obtain e es where "evs = e # es" using assms by (cases evs) (auto simp: Fold_def)
    then obtain s1 where a: "Apply blocks RunState_zero e = Inr s1" "fold_loop blocks s1 es = Inr s"
      using assms by (auto simp: Fold_def split: sum.splits)
    from Apply_sees [OF a(1)] have "s_seen s1 \<noteq> []" by auto
    then show ?thesis using fold_loop_seen_keys [OF a(2)] by auto
  qed
  with w have d: "derived s" "s_Status s \<noteq> StatusUnset" by (auto simp: wf_run_def isEmpty_iff)
  have "list_all wf_step (s_steps s)" "list_all allResulted (butlast (s_steps s))"
    using w by (simp_all add: wf_run_def wf_steps_def)
  moreover have "in64 (s_NextSequence s)" using w by (simp add: wf_run_def wf_seen_def)
  ultimately show ?thesis using d Fold_in64 [OF assms]
    by (auto simp: derived_def list_all_iff wf_step_def) (metis image_eqI fst_conv list.set_map subsetD)+
qed

section \<open>The configuration\<close>

lemma durationEnv_range:
  assumes "durationEnv getenv name def = Inr d" and "0 < def" and "def \<le> max64" shows "0 < d \<and> d \<le> max64"
  using assms by (auto simp: durationEnv_def Let_def in64_def split: if_splits option.splits dest: ParseDuration_in64)

text \<open>
  C38. An accepted configuration is sound: both durations are positive and fit \<open>int64\<close>; unless the sum of tool timeout,
  stale grace and expiry margin overflows \<open>int64\<close>, a claim lives longer than that sum, so that a key cannot expire while its
  tool may still run; the run to resume, if there is one, has a parsed id, the crash specification parses and the crash
  sequence number fits \<open>int64\<close>.
\<close>

theorem loadConfig_sound:
  assumes "loadConfig uuid_Parse getenv = Inr cfg"
  shows "0 < cf_idemTTL cfg \<and> cf_idemTTL cfg \<le> max64 \<and> 0 < cf_toolTimeout cfg \<and> cf_toolTimeout cfg \<le> max64
    \<and> (cf_toolTimeout cfg + DefaultStaleGrace + ExpiryMargin \<le> max64
        \<longrightarrow> cf_toolTimeout cfg + DefaultStaleGrace + ExpiryMargin < cf_idemTTL cfg)
    \<and> cf_brokers cfg \<noteq> [] \<and> cf_redisAddr cfg \<noteq> [] \<and> cf_ledgerPath cfg \<noteq> []
    \<and> (cf_resumeRunID cfg \<noteq> [] \<longrightarrow> uuid_Parse (cf_resumeRunID cfg) = Inr ())
    \<and> (\<exists>hook. ParseCrashSpec (cf_crashSpec cfg) = Inr hook)
    \<and> (\<forall>n. cf_crashAfterSeq cfg = Some n \<longrightarrow> in64 n)"
proof -
  obtain ttl timeout hook after where p:
    "durationEnv getenv ''DAE_IDEMPOTENCY_TTL'' defaultIdemTTL = Inr ttl"
    "durationEnv getenv ''DAE_TOOL_TIMEOUT'' defaultToolTimeout = Inr timeout"
    "\<not> ttl \<le> minIdemTTL timeout"
    "(if getenv ''DAE_RESUME_RUN_ID'' \<noteq> [] then uuid_Parse (getenv ''DAE_RESUME_RUN_ID'') else Inr ()) = Inr ()"
    "ParseCrashSpec (getenv ''DAE_CRASH_AT'') = Inr hook" "crashAfterSeqEnv (getenv ''DAE_CRASH_AFTER_SEQ'') = Inr after"
    and cfg: "cfg = \<lparr>cf_brokers = splitBrokers (orDefault (getenv ''DAE_KAFKA_BROKERS'') defaultKafkaBrokers),
      cf_redisAddr = orDefault (getenv ''DAE_REDIS_ADDR'') defaultRedisAddr, cf_idemTTL = ttl, cf_toolTimeout = timeout,
      cf_ledgerPath = orDefault (getenv ''DAE_MOCK_LEDGER_PATH'') defaultLedgerPath,
      cf_resumeRunID = getenv ''DAE_RESUME_RUN_ID'', cf_crashSpec = getenv ''DAE_CRASH_AT'', cf_crashAfterSeq = after\<rparr>"
    using assms unfolding loadConfig_def Let_def by (auto split: sum.splits if_splits)
  have "0 < defaultIdemTTL" "defaultIdemTTL \<le> max64" "0 < defaultToolTimeout" "defaultToolTimeout \<le> max64"
    by (simp_all add: defaultIdemTTL_def defaultToolTimeout_def Hour_def Minute_def Second_def max64_def)
  then have r: "0 < ttl \<and> ttl \<le> max64" "0 < timeout \<and> timeout \<le> max64"
    using durationEnv_range [OF p(1)] durationEnv_range [OF p(2)] by simp_all
  have g: "0 < DefaultStaleGrace" "0 < ExpiryMargin"
    by (simp_all add: DefaultStaleGrace_def ExpiryMargin_def Minute_def Second_def)
  have "minIdemTTL timeout = timeout + DefaultStaleGrace + ExpiryMargin"
    if "timeout + DefaultStaleGrace + ExpiryMargin \<le> max64"
    using that r(2) g by (simp add: minIdemTTL_def wrap64_id in64_def min64_def)
  moreover have "in64 n" if "after = Some n" for n
    using p(6) that by (auto simp: crashAfterSeqEnv_def split: if_splits option.splits dest: ParseInt64_in64)
  ultimately show ?thesis using p r unfolding cfg
    by (auto simp: splitBrokers_def orDefault_def defaultRedisAddr_def defaultLedgerPath_def split: if_splits)
qed

text \<open>The sum may overflow: with this tool timeout the default TTL passes the check, although it is far shorter.\<close>

lemma huge_timeout: "ParseDuration ''2562047h47m'' = Some 9223372020000000000"
proof -
  have "parse_part ''2562047h47m'' = Some (2562047 * 3600000000000, ''47m'')"
    "parse_part ''47m'' = Some (47 * 60000000000, '''')"
    by (simp_all add: parse_part_def is_digit_def digit_of_def unit_of_def Let_def)
  then show ?thesis by (simp add: ParseDuration_def)
qed

theorem loadConfig_overflow:
  "map_sum id (\<lambda>cfg. cf_idemTTL cfg < cf_toolTimeout cfg)
    (loadConfig (\<lambda>_. Inr ()) (\<lambda>name. if name = ''DAE_TOOL_TIMEOUT'' then ''2562047h47m'' else [])) = Inr True"
  by (simp add: loadConfig_def durationEnv_def huge_timeout minIdemTTL_def defaultIdemTTL_def DefaultStaleGrace_def ExpiryMargin_def
      Hour_def Minute_def Second_def wrap64_def ParseCrashSpec_def crashAfterSeqEnv_def)

section \<open>How long the retry loops wait\<close>

text \<open>Two clocks that agree on the waits between two bounds.\<close>

definition same_waits :: "duration \<Rightarrow> duration \<Rightarrow> (duration \<Rightarrow> ('s, 'a) prog) \<Rightarrow> (duration \<Rightarrow> ('s, 'a) prog) \<Rightarrow> bool" where
  "same_waits lo hi sleep sleep' \<longleftrightarrow> (\<forall>d. lo \<le> d \<and> d \<le> hi \<longrightarrow> sleep d = sleep' d)"

lemma same_waitsD: "same_waits lo hi sleep sleep' \<Longrightarrow> lo \<le> d \<Longrightarrow> d \<le> hi \<Longrightarrow> sleep d = sleep' d"
  by (simp add: same_waits_def)

text \<open>Doubling with a cap stays between the bounds, and far from the end of \<open>int64\<close>.\<close>

lemma doubled_within:
  "lo \<le> d \<Longrightarrow> d \<le> hi \<Longrightarrow> 0 < lo \<Longrightarrow> lo \<le> (if d * 2 > hi then hi else d * 2) \<and> (if d * 2 > hi then hi else d * 2) \<le> (hi :: int)"
  by auto

lemma apply_retry_waits:
  assumes "same_waits dbRetryInitialBackoff dbRetryMaxBackoff (sleep ctx) (sleep' ctx)"
    and "dbRetryInitialBackoff \<le> d" and "d \<le> dbRetryMaxBackoff"
  shows "apply_retry_loop n (pj\<lparr>pj_rt := (pj_rt pj)\<lparr>rt_Sleep := sleep\<rparr>\<rparr>) ctx env d
    = apply_retry_loop n (pj\<lparr>pj_rt := (pj_rt pj)\<lparr>rt_Sleep := sleep'\<rparr>\<rparr>) ctx env d"
  using assms(2,3)
proof (induction n arbitrary: d)
  case (Suc n)
  have "0 < dbRetryInitialBackoff" by (simp add: dbRetryInitialBackoff_def Millisecond_def)
  note step = Suc.IH [OF conjunct1 conjunct2, OF doubled_within doubled_within, OF Suc.prems this Suc.prems this]
  have fields: "pj_pg (pj\<lparr>pj_rt := rt\<rparr>) = pj_pg pj" "pj_log (pj\<lparr>pj_rt := rt\<rparr>) = pj_log pj" "pj_rt (pj\<lparr>pj_rt := rt\<rparr>) = rt"
    "rt_Sleep ((pj_rt pj)\<lparr>rt_Sleep := f\<rparr>) = f" for rt f by simp_all
  show ?case unfolding apply_retry_loop.simps fields step same_waitsD [OF assms(1) Suc.prems] ..
qed simp

lemma publish_waits:
  assumes "same_waits publishInitialBackoff publishMaxBackoff (sleep ctx) (sleep' ctx)"
    and "publishInitialBackoff \<le> d" and "d \<le> publishMaxBackoff"
  shows "publish_loop (l\<lparr>lp_rt := (lp_rt l)\<lparr>rt_Sleep := sleep\<rparr>\<rparr>) ctx env n d
    = publish_loop (l\<lparr>lp_rt := (lp_rt l)\<lparr>rt_Sleep := sleep'\<rparr>\<rparr>) ctx env n d"
  using assms(2,3)
proof (induction n arbitrary: d)
  case (Suc n)
  have "0 < publishInitialBackoff" by (simp add: publishInitialBackoff_def Millisecond_def)
  note step = Suc.IH [OF conjunct1 conjunct2, OF doubled_within doubled_within, OF Suc.prems this Suc.prems this]
  have fields: "lp_journal (l\<lparr>lp_rt := rt\<rparr>) = lp_journal l" "lp_rt (l\<lparr>lp_rt := rt\<rparr>) = rt"
    "rt_Sleep ((lp_rt l)\<lparr>rt_Sleep := f\<rparr>) = f" for rt f by simp_all
  show ?case unfolding publish_loop.simps fields step same_waitsD [OF assms(1) Suc.prems] ..
qed simp

lemma retry_waits:
  assumes "same_waits retryInitialBackoff retryMaxBackoff (sleep ctx) (sleep' ctx)"
    and "retryInitialBackoff \<le> d" and "d \<le> retryMaxBackoff"
  shows "retry_loop ctx (r\<lparr>r_g := (r_g r)\<lparr>g_Sleep := sleep\<rparr>\<rparr>) operation n d
    = retry_loop ctx (r\<lparr>r_g := (r_g r)\<lparr>g_Sleep := sleep'\<rparr>\<rparr>) operation n d"
proof -
  have fields: "g_rt ((r_g r)\<lparr>g_Sleep := f\<rparr>) = g_rt (r_g r)" "g_Out ((r_g r)\<lparr>g_Sleep := f\<rparr>) = g_Out (r_g r)"
    "g_Sleep ((r_g r)\<lparr>g_Sleep := f\<rparr>) = f" "r_g (r\<lparr>r_g := g\<rparr>) = g" "r_key (r\<lparr>r_g := g\<rparr>) = r_key r"
    "r_tc (r\<lparr>r_g := g\<rparr>) = r_tc r" for f g by simp_all
  show ?thesis
    using assms(2,3)
  proof (induction n arbitrary: d)
  case 0
  show ?case unfolding retry_loop.simps retry_attempt_def Guard.log_def fields ..
next
  case (Suc n)
  have "0 < retryInitialBackoff" by (simp add: retryInitialBackoff_def Millisecond_def)
  note step = Suc.IH [OF conjunct1 conjunct2, OF doubled_within doubled_within, OF Suc.prems this Suc.prems this]
  show ?case unfolding retry_loop.simps retry_attempt_def Guard.log_def fields step same_waitsD [OF assms(1) Suc.prems] ..
  qed
qed


section \<open>When applying is given up\<close>

lemma apply_retry_gives_up:
  assumes "apply_retry_loop n pj ctx env d s = (Done (Inl err), s')"
    and "dbRetryInitialBackoff \<le> d" and "d \<le> dbRetryMaxBackoff"
  shows "errors_Is err SConflictingEvent \<or> IsTransientError err = Some False
    \<or> (\<exists>d t t'. dbRetryInitialBackoff \<le> d \<and> d \<le> dbRetryMaxBackoff \<and> rt_Sleep (pj_rt pj) ctx d t = (Done (Inl err), t'))"
  using assms
proof (induction n arbitrary: d s)
  case (Suc n)
  let ?d = "if d * 2 > dbRetryMaxBackoff then dbRetryMaxBackoff else d * 2"
  have "0 < dbRetryInitialBackoff" by (simp add: dbRetryInitialBackoff_def Millisecond_def)
  note within = doubled_within [OF Suc.prems(2,3) this]
  obtain r s1 where a: "ApplyEvent (pj_pg pj) ctx env s = (Done r, s1)"
    using Suc.prems(1) by (auto dest!: pbind_eq_DoneD)
  show ?case
  proof (cases r)
    case (Inr b)
    with Suc.prems(1) a show ?thesis by (simp add: pbind_def)
  next
    case (Inl e)
    show ?thesis
    proof (cases "errors_Is e SConflictingEvent \<or> IsTransientError e = Some False")
      case True
      with Suc.prems(1) a Inl have "e = err" by (auto simp: pbind_def split: if_splits)
      with True show ?thesis by blast
    next
      case False
      have "IsTransientError e = Some True"
      proof (cases "IsTransientError e")
        case None
        with Suc.prems(1) a Inl False show ?thesis by (simp add: pbind_def phalt_def)
      qed (use False in auto)
      with Suc.prems(1) a Inl False obtain slept s2 s3 where w: "rt_Sleep (pj_rt pj) ctx d s2 = (Done slept, s3)"
        "(case slept of Inl ctxErr \<Rightarrow> preturn (Inl ctxErr) | Inr _ \<Rightarrow> apply_retry_loop n pj ctx env ?d) s3 = (Done (Inl err), s')"
        by (simp add: pbind_def [of "ApplyEvent (pj_pg pj) ctx env"]) (blast dest: pbind_eq_DoneD)
      show ?thesis
      proof (cases slept)
        case (Inl e')
        with w Suc.prems(2,3) show ?thesis by auto
      next
        case (Inr u)
        with w(2) have "apply_retry_loop n pj ctx env ?d s3 = (Done (Inl err), s')" by simp
        from Suc.IH [OF this] within show ?thesis by blast
      qed
    qed
  qed
qed simp


section \<open>Concrete inputs\<close>

theorem Fold_well_formed_witness:
  "in64 (s_MaxSteps (sample_state 4)) \<and> s_NextAction (sample_state 4) = computeNextAction (sample_state 4)"
  using Fold_well_formed [OF sample_fold(2)] by blast

theorem loadConfig_sound_witness:
  "\<exists>cfg. loadConfig (\<lambda>_. Inr ()) (\<lambda>_. []) = Inr cfg \<and> cf_toolTimeout cfg + DefaultStaleGrace + ExpiryMargin < cf_idemTTL cfg"
proof -
  obtain cfg where cfg: "loadConfig (\<lambda>_. Inr ()) (\<lambda>_. []) = Inr cfg" "cf_toolTimeout cfg = defaultToolTimeout"
    by (simp add: loadConfig_def durationEnv_def minIdemTTL_def defaultIdemTTL_def defaultToolTimeout_def DefaultStaleGrace_def
        ExpiryMargin_def Hour_def Minute_def Second_def wrap64_def ParseCrashSpec_def crashAfterSeqEnv_def)
  then have "cf_toolTimeout cfg + DefaultStaleGrace + ExpiryMargin \<le> max64"
    by (simp add: defaultToolTimeout_def DefaultStaleGrace_def ExpiryMargin_def Minute_def Second_def max64_def)
  with loadConfig_sound [OF cfg(1)] cfg(1) show ?thesis by blast
qed

text \<open>A clock that stops the process at any wait that is too short or too long, and one that never does.\<close>

definition strict_sleep :: "duration \<Rightarrow> duration \<Rightarrow> ctx \<Rightarrow> duration \<Rightarrow> ('s, goerror + unit) prog" where
  "strict_sleep lo hi ctx d = (if lo \<le> d \<and> d \<le> hi then preturn (Inr ()) else phalt 1)"


text \<open>A server that answers every \<open>BEGIN\<close> with an error that will not pass.\<close>

definition refusing :: "'s projector \<Rightarrow> 's projector" where
  "refusing pj = pj\<lparr>pj_pg := (pj_pg pj)\<lparr>pg_Begin := \<lambda>ctx. preturn (Inl (GoError ''no such database'' [SPgError ''3D000'']))\<rparr>,
     pj_attempts := 1\<rparr>"


end
