(* ===== verification/Effects_Report.thy ===== *)
theory Effects_Report
  imports Tools
begin

text \<open>
  \<open>scripts/effects\<close>, \<open>main.go\<close>: the report on the ledger, and the exit code that says whether a side effect
  happened twice. The values of the command line's flags are arguments; \<open>Stat\<close> is the operating system's.
\<close>

definition effects_exitOK :: int where "effects_exitOK = 0"
definition effects_exitDuplicates :: int where "effects_exitDuplicates = 1"
definition effects_exitNoLedger :: int where "effects_exitNoLedger = 2"
definition effects_exitReadError :: int where "effects_exitReadError = 3"

lemmas effects_exits = effects_exitOK_def effects_exitDuplicates_def effects_exitNoLedger_def effects_exitReadError_def

record row =
  rw_key :: string
  rw_tool :: string
  rw_count :: int

record totals =
  tt_entries :: int
  tt_distinctKeys :: int
  tt_duplicates :: int

text \<open>The loop over the entries: \<open>index\<close> says where a key's row is.\<close>

fun summarize_loop :: "string \<Rightarrow> LedgerEntry list \<Rightarrow> (string \<Rightarrow> nat option) \<Rightarrow> row list \<Rightarrow> int \<Rightarrow> row list \<times> int" where
  "summarize_loop runID [] index rows n = (rows, n)"
| "summarize_loop runID (e # es) index rows n =
     (if runID \<noteq> [] \<and> le_RunID e \<noteq> runID then summarize_loop runID es index rows n
      else (let key = le_IdempotencyKey e;
          (i, index, rows) = (case index key of
              Some i \<Rightarrow> (i, index, rows)
            | None \<Rightarrow> (length rows, index(key \<mapsto> length rows),
                rows @ [\<lparr>rw_key = key, rw_tool = le_ToolName e, rw_count = 0\<rparr>]))
        in summarize_loop runID es index (rows[i := (rows ! i)\<lparr>rw_count := rw_count (rows ! i) + 1\<rparr>]) (n + 1)))"

definition summarize :: "LedgerEntry list \<Rightarrow> string \<Rightarrow> row list \<times> totals" where
  "summarize entries runID = (let (rows, n) = summarize_loop runID entries (\<lambda>_. None) [] 0; rows = sort_key rw_key rows in
     (rows, \<lparr>tt_entries = n, tt_distinctKeys = int (length rows),
       tt_duplicates = sum_list (map (\<lambda>r. rw_count r - 1) rows)\<rparr>))"

definition Ledger_Exists :: "(string \<Rightarrow> ('s, goerror + unit) prog) \<Rightarrow> string \<Rightarrow> ('s, bool) prog" where
  "Ledger_Exists Stat path = pbind (Stat path) (\<lambda>r. preturn (\<not> isl r))"

definition row_line :: "row \<Rightarrow> string" where
  "row_line r = rw_key r @ ''  '' @ rw_tool r @ ''  '' @ show_int (rw_count r) @ [CHR 0x0A]"

definition totals_line :: "totals \<Rightarrow> string" where
  "totals_line t = ''entries='' @ show_int (tt_entries t) @ '' distinct_keys='' @ show_int (tt_distinctKeys t)
     @ '' duplicates='' @ show_int (tt_duplicates t) @ [CHR 0x0A]"

text \<open>Printing lines one by one.\<close>

fun print_all :: "(string \<Rightarrow> ('s, unit) prog) \<Rightarrow> string list \<Rightarrow> ('s, unit) prog" where
  "print_all out [] = preturn ()"
| "print_all out (x # xs) = pbind (out x) (\<lambda>_. print_all out xs)"

definition run_effects :: "'s runtime \<Rightarrow> (string \<Rightarrow> ('s, goerror + unit) prog) \<Rightarrow> (string \<Rightarrow> ('s, unit) prog)
    \<Rightarrow> (string \<Rightarrow> ('s, unit) prog) \<Rightarrow> ctx \<Rightarrow> string \<Rightarrow> string \<Rightarrow> ('s, int) prog" where
  "run_effects rt Stat stdout stderr ctx ledgerPath runID =
     pbind (Ledger_Exists Stat ledgerPath) (\<lambda>there.
     if \<not> there then pbind (stderr (''ledger '' @ ledgerPath @ '' does not exist'' @ [CHR 0x0A]))
       (\<lambda>_. preturn effects_exitNoLedger)
     else pbind (Entries rt ledgerPath ctx) (\<lambda>r. case r of
       Inl err \<Rightarrow> pbind (stderr (''reading ledger: '' @ err_msg err @ [CHR 0x0A])) (\<lambda>_. preturn effects_exitReadError)
     | Inr entries \<Rightarrow> (case summarize entries runID of (rows, summary) \<Rightarrow>
         pbind (print_all stdout (map row_line rows)) (\<lambda>_.
         pbind (stdout (totals_line summary)) (\<lambda>_.
         preturn (if tt_duplicates summary > 0 then effects_exitDuplicates else effects_exitOK))))))"

definition effects_envOr :: "(string \<Rightarrow> string) \<Rightarrow> string \<Rightarrow> string \<Rightarrow> string" where
  "effects_envOr getenv key def = (let v = getenv key in if v \<noteq> [] then v else def)"

definition effects_defaultLedgerPath :: string where "effects_defaultLedgerPath = ''.dae/mock-ledger.jsonl''"

text \<open>A flag that is not given has its default.\<close>

definition effects_main :: "'s runtime \<Rightarrow> (string \<Rightarrow> ('s, goerror + unit) prog) \<Rightarrow> (string \<Rightarrow> ('s, unit) prog)
    \<Rightarrow> (string \<Rightarrow> ('s, unit) prog) \<Rightarrow> (string \<Rightarrow> string) \<Rightarrow> string option \<Rightarrow> string option \<Rightarrow> ('s, unit) prog" where
  "effects_main rt Stat stdout stderr getenv ledger_flag run_id_flag =
     pbind (run_effects rt Stat stdout stderr Background
       (case ledger_flag of Some p \<Rightarrow> p
          | None \<Rightarrow> effects_envOr getenv ''DAE_MOCK_LEDGER_PATH'' effects_defaultLedgerPath)
       (case run_id_flag of Some r \<Rightarrow> r | None \<Rightarrow> [])) phalt"


section \<open>The report is right\<close>

text \<open>The entries counted, those under a key, and the tool of the first of them.\<close>

definition selected :: "string \<Rightarrow> LedgerEntry list \<Rightarrow> LedgerEntry list" where
  "selected runID es = filter (\<lambda>e. runID = [] \<or> le_RunID e = runID) es"

definition under_key :: "string \<Rightarrow> LedgerEntry list \<Rightarrow> LedgerEntry list" where
  "under_key key es = filter (\<lambda>e. le_IdempotencyKey e = key) es"

definition row_for :: "LedgerEntry list \<Rightarrow> string \<Rightarrow> row" where
  "row_for es key = \<lparr>rw_key = key, rw_tool = le_ToolName (hd (under_key key es)), rw_count = int (length (under_key key es))\<rparr>"

text \<open>After the entries \<open>es\<close>: one row for every key, in the order the keys came.\<close>

definition seen_keys :: "LedgerEntry list \<Rightarrow> string list" where
  "seen_keys es = rev (remdups (rev (map le_IdempotencyKey es)))"

lemma seen_keys_snoc:
  "seen_keys (es @ [e]) = (if le_IdempotencyKey e \<in> set (seen_keys es) then seen_keys es else seen_keys es @ [le_IdempotencyKey e])"
  by (auto simp: seen_keys_def)

lemma seen_keys_facts [simp]: "distinct (seen_keys es)" "set (seen_keys es) = le_IdempotencyKey ` set es"
  by (simp_all add: seen_keys_def)

definition tallied :: "LedgerEntry list \<Rightarrow> (string \<Rightarrow> nat option) \<Rightarrow> row list \<Rightarrow> bool" where
  "tallied es index rows \<longleftrightarrow> rows = map (row_for es) (seen_keys es)
     \<and> (\<forall>k i. index k = Some i \<longleftrightarrow> i < length rows \<and> seen_keys es ! i = k)"

lemma under_key_snoc: "under_key k (es @ [e]) = under_key k es @ (if le_IdempotencyKey e = k then [e] else [])"
  by (simp add: under_key_def)

lemma under_key_nonempty: "k \<in> le_IdempotencyKey ` set es \<Longrightarrow> under_key k es \<noteq> []"
  by (auto simp: under_key_def filter_empty_conv)

lemma row_for_other: "k \<noteq> le_IdempotencyKey e \<Longrightarrow> row_for (es @ [e]) k = row_for es k"
  by (simp add: row_for_def under_key_snoc)

lemma row_for_again:
  "le_IdempotencyKey e \<in> le_IdempotencyKey ` set es
    \<Longrightarrow> row_for (es @ [e]) (le_IdempotencyKey e) = (row_for es (le_IdempotencyKey e))\<lparr>rw_count := rw_count (row_for es (le_IdempotencyKey e)) + 1\<rparr>"
  using under_key_nonempty [of "le_IdempotencyKey e" es] by (simp add: row_for_def under_key_snoc)

lemma row_for_new:
  "le_IdempotencyKey e \<notin> le_IdempotencyKey ` set es
    \<Longrightarrow> row_for (es @ [e]) (le_IdempotencyKey e) = \<lparr>rw_key = le_IdempotencyKey e, rw_tool = le_ToolName e, rw_count = 1\<rparr>"
proof -
  assume "le_IdempotencyKey e \<notin> le_IdempotencyKey ` set es"
  then have "\<forall>x \<in> set es. le_IdempotencyKey x \<noteq> le_IdempotencyKey e" by (metis imageI)
  then have "under_key (le_IdempotencyKey e) es = []" by (simp add: under_key_def)
  then show ?thesis by (simp add: row_for_def under_key_snoc)
qed

lemma tallied_known:
  assumes "tallied es index rows" and "index (le_IdempotencyKey e) = Some i"
  shows "tallied (es @ [e]) index (rows[i := (rows ! i)\<lparr>rw_count := rw_count (rows ! i) + 1\<rparr>])"
proof -
  let ?k = "le_IdempotencyKey e"
  have i: "i < length (seen_keys es)" "seen_keys es ! i = ?k" and r: "rows = map (row_for es) (seen_keys es)"
    using assms by (auto simp: tallied_def)
  have k: "?k \<in> set (seen_keys es)" using i nth_mem by metis
  then have s: "seen_keys (es @ [e]) = seen_keys es" by (simp add: seen_keys_snoc)
  have "rows[i := (rows ! i)\<lparr>rw_count := rw_count (rows ! i) + 1\<rparr>] = map (row_for (es @ [e])) (seen_keys es)"
  proof (rule nth_equalityI)
    fix j assume "j < length (rows[i := (rows ! i)\<lparr>rw_count := rw_count (rows ! i) + 1\<rparr>])"
    then have j: "j < length (seen_keys es)" by (simp add: r)
    show "rows[i := (rows ! i)\<lparr>rw_count := rw_count (rows ! i) + 1\<rparr>] ! j = map (row_for (es @ [e])) (seen_keys es) ! j"
    proof (cases "j = i")
      case True
      with i k row_for_again [of e es] show ?thesis by (simp add: r)
    next
      case False
      with i j have "seen_keys es ! j \<noteq> ?k" by (metis nth_eq_iff_index_eq seen_keys_facts(1))
      with False j show ?thesis by (simp add: r row_for_other)
    qed
  qed (simp add: r)
  with assms(1) show ?thesis by (simp add: tallied_def s)
qed

lemma tallied_fresh:
  assumes "tallied es index rows" and "index (le_IdempotencyKey e) = None"
  shows "tallied (es @ [e]) (index(le_IdempotencyKey e \<mapsto> length rows))
    (rows @ [\<lparr>rw_key = le_IdempotencyKey e, rw_tool = le_ToolName e, rw_count = 1\<rparr>])"
proof -
  let ?k = "le_IdempotencyKey e"
  have r: "rows = map (row_for es) (seen_keys es)" and x: "\<And>k i. index k = Some i \<longleftrightarrow> i < length rows \<and> seen_keys es ! i = k"
    using assms(1) by (simp_all add: tallied_def)
  have n: "?k \<notin> set (seen_keys es)" using assms(2) x r by (metis in_set_conv_nth length_map option.distinct(1))
  then have ne: "seen_keys es ! i = ?k \<Longrightarrow> \<not> i < length (seen_keys es)" for i by (metis nth_mem)
  have s: "seen_keys (es @ [e]) = seen_keys es @ [?k]" using n by (simp add: seen_keys_snoc)
  have "map (row_for (es @ [e])) (seen_keys es) = rows"
    unfolding r by (rule map_cong [OF refl row_for_other]) (use n in metis)
  moreover have "row_for (es @ [e]) ?k = \<lparr>rw_key = ?k, rw_tool = le_ToolName e, rw_count = 1\<rparr>"
    using n by (intro row_for_new) simp
  ultimately show ?thesis
    unfolding tallied_def s using x r assms(2) ne by (auto simp: nth_append less_Suc_eq split: if_splits)
qed

lemma summarize_loop_tallied:
  "tallied done0 index rows \<Longrightarrow> \<exists>index'. tallied (done0 @ selected runID es) index' (fst (summarize_loop runID es index rows n))
    \<and> snd (summarize_loop runID es index rows n) = n + int (length (selected runID es))"
proof (induction es arbitrary: done0 index rows n)
  case Nil
  then show ?case by (auto simp: selected_def)
next
  case (Cons e es)
  let ?k = "le_IdempotencyKey e"
  show ?case
  proof (cases "runID \<noteq> [] \<and> le_RunID e \<noteq> runID")
    case True
    with Cons.IH [OF Cons.prems, of n] show ?thesis by (simp add: selected_def)
  next
    case False
    then have sel: "selected runID (e # es) = e # selected runID es" by (auto simp: selected_def)
    show ?thesis
    proof (cases "index ?k")
      case None
      with False have step: "summarize_loop runID (e # es) index rows n = summarize_loop runID es (index(?k \<mapsto> length rows))
          (rows @ [\<lparr>rw_key = ?k, rw_tool = le_ToolName e, rw_count = 1\<rparr>]) (n + 1)" by (auto simp: Let_def)
      show ?thesis using Cons.IH [OF tallied_fresh [OF Cons.prems None], of "n + 1"] unfolding step sel by (simp add: fun_upd_def)
    next
      case (Some i)
      with False have step: "summarize_loop runID (e # es) index rows n = summarize_loop runID es index
          (rows[i := (rows ! i)\<lparr>rw_count := rw_count (rows ! i) + 1\<rparr>]) (n + 1)" by (auto simp: Let_def)
      show ?thesis using Cons.IH [OF tallied_known [OF Cons.prems Some], of "n + 1"] unfolding step sel by (simp add: fun_upd_def)
    qed
  qed
qed

lemma total_under_key:
  "set es' \<subseteq> set es \<Longrightarrow> sum_list (map (\<lambda>k. int (length (under_key k es'))) (seen_keys es)) = int (length es')"
proof (induction es')
  case (Cons e es')
  have d: "distinct (seen_keys es)" by simp
  have "int (length (under_key k (e # es'))) = int (length (under_key k es')) + (if k = le_IdempotencyKey e then 1 else 0)" for k
    by (simp add: under_key_def)
  then have "sum_list (map (\<lambda>k. int (length (under_key k (e # es')))) (seen_keys es))
      = sum_list (map (\<lambda>k. int (length (under_key k es'))) (seen_keys es))
        + sum_list (map (\<lambda>k. if k = le_IdempotencyKey e then 1 else 0) (seen_keys es))"
    by (simp add: sum_list_addf)
  also have "sum_list (map (\<lambda>k. if k = le_IdempotencyKey e then 1 else 0) (seen_keys es)) = (1 :: int)"
    using d Cons.prems by (simp add: sum_list_distinct_conv_sum_set)
  finally show ?case using Cons by simp
qed (simp add: under_key_def)

lemma insort_key_map: "insort_key f (g x) (map g xs) = map g (insort_key (\<lambda>x. f (g x)) x xs)"
  by (induction xs) simp_all

lemma sort_key_map: "sort_key f (map g xs) = map g (sort_key (\<lambda>x. f (g x)) xs)"
  by (induction xs) (simp_all add: insort_key_map)


end
