(* ===== verification/Connectivity.thy ===== *)
theory Connectivity
  imports Kafka
begin

text \<open>
  \<open>scripts/connectivity\<close>, \<open>main.go\<close>: a program that writes a value to Kafka and to Redis and reads it back.
  The clients it calls are one record; connections, readers and clients are handles.
\<close>

section \<open>The constants and the clients\<close>

definition kafkaBroker :: string where "kafkaBroker = ''localhost:9092''"
definition connectivityTopic :: string where "connectivityTopic = ''phase0-connectivity-test''"
definition connectivityGroupID :: string where "connectivityGroupID = ''phase0-connectivity-group''"
definition redisAddr :: string where "redisAddr = ''localhost:6379''"
definition connectivityRedisKey :: string where "connectivityRedisKey = ''phase0:connectivity:check''"
definition connectivityRedisTTL :: duration where "connectivityRedisTTL = Minute"
definition connectivityWait :: duration where "connectivityWait = 10 * Second"

record check_reader =
  cr_Brokers :: "string list"
  cr_Topic :: string
  cr_GroupID :: string

record 's check_clients =
  cn_rt :: "'s runtime"
  cn_DialContext :: "ctx \<Rightarrow> string \<Rightarrow> ('s, goerror + nat) prog"
  cn_CreateTopics :: "nat \<Rightarrow> topic_config \<Rightarrow> ('s, goerror + unit) prog"
  cn_DialLeader :: "ctx \<Rightarrow> string \<Rightarrow> string \<Rightarrow> nat \<Rightarrow> ('s, goerror + nat) prog"
  cn_SetWriteDeadline :: "nat \<Rightarrow> gotime \<Rightarrow> ('s, goerror + unit) prog"
  cn_WriteMessages :: "nat \<Rightarrow> string \<Rightarrow> ('s, goerror + unit) prog"
  cn_CloseConn :: "nat \<Rightarrow> ('s, goerror + unit) prog"
  cn_NewReader :: "check_reader \<Rightarrow> ('s, nat) prog"
  cn_ReadMessage :: "nat \<Rightarrow> ctx \<Rightarrow> ('s, goerror + string) prog"
  cn_CloseReader :: "nat \<Rightarrow> ('s, goerror + unit) prog"
  cn_NewClient :: "string \<Rightarrow> ('s, nat) prog"
  cn_Set :: "nat \<Rightarrow> ctx \<Rightarrow> string \<Rightarrow> string \<Rightarrow> duration \<Rightarrow> ('s, goerror + unit) prog"
  cn_Get :: "nat \<Rightarrow> ctx \<Rightarrow> string \<Rightarrow> ('s, goerror + string) prog"
  cn_CloseClient :: "nat \<Rightarrow> ('s, goerror + unit) prog"
  cn_Stdout :: "string \<Rightarrow> ('s, unit) prog"
  cn_log :: "string \<Rightarrow> ('s, unit) prog"


section \<open>The check\<close>

definition closeQuietly :: "'s check_clients \<Rightarrow> string \<Rightarrow> ('s, goerror + unit) prog \<Rightarrow> ('s, unit) prog" where
  "closeQuietly cn what close = pbind close (\<lambda>r. case r of
     Inl err \<Rightarrow> cn_log cn (''closing '' @ what @ '': '' @ err_msg err) | Inr _ \<Rightarrow> preturn ())"

definition ensureTopic :: "'s check_clients \<Rightarrow> ctx \<Rightarrow> string \<Rightarrow> ('s, goerror + unit) prog" where
  "ensureTopic cn ctx topic =
     pbind (WithTimeout (cn_rt cn) ctx connectivityWait) (\<lambda>dialCtx.
     pbindM (cn_DialContext cn dialCtx kafkaBroker) (wrapping ''dialing kafka: '') (\<lambda>conn.
     deferring (closeQuietly cn ''kafka dial conn'' (cn_CloseConn cn conn)) (
       pbindM (cn_CreateTopics cn conn
           \<lparr>tp_Topic = topic, tp_NumPartitions = 1, tp_ReplicationFactor = 1, tp_ConfigEntries = []\<rparr>)
         (wrapping ''creating topic: '') (\<lambda>_. preturn (Inr ())))))"

definition produceMessage :: "'s check_clients \<Rightarrow> ctx \<Rightarrow> string \<Rightarrow> ('s, goerror + unit) prog" where
  "produceMessage cn ctx val =
     pbind (WithTimeout (cn_rt cn) ctx connectivityWait) (\<lambda>dialCtx.
     pbindM (cn_DialLeader cn dialCtx kafkaBroker connectivityTopic 0) (wrapping ''dialing partition leader: '') (\<lambda>conn.
     deferring (closeQuietly cn ''kafka leader conn'' (cn_CloseConn cn conn)) (
       pbind (rt_Now (cn_rt cn)) (\<lambda>now.
       pbindM (cn_SetWriteDeadline cn conn (now + connectivityWait)) (wrapping ''setting write deadline: '') (\<lambda>_.
       pbindM (cn_WriteMessages cn conn val) (wrapping ''writing message: '') (\<lambda>_. preturn (Inr ())))))))"

definition consumeMessage :: "'s check_clients \<Rightarrow> ctx \<Rightarrow> string \<Rightarrow> ('s, goerror + unit) prog" where
  "consumeMessage cn ctx want =
     pbind (cn_NewReader cn \<lparr>cr_Brokers = [kafkaBroker], cr_Topic = connectivityTopic, cr_GroupID = connectivityGroupID\<rparr>) (\<lambda>reader.
     deferring (closeQuietly cn ''kafka reader'' (cn_CloseReader cn reader)) (
       pbind (WithTimeout (cn_rt cn) ctx connectivityWait) (\<lambda>readCtx.
       pbindM (cn_ReadMessage cn reader readCtx) (wrapping ''reading message: '') (\<lambda>got.
       if got \<noteq> want
       then preturn (Inl (Errorf (''read message '' @ go_quote got @ '', want '' @ go_quote want
         @ '' (stale record from a previous run?)'')))
       else pbind (cn_Stdout cn (''kafka message received: '' @ got @ [CHR 0x0A])) (\<lambda>_. preturn (Inr ()))))))"

definition checkRedis :: "'s check_clients \<Rightarrow> ctx \<Rightarrow> string \<Rightarrow> ('s, goerror + unit) prog" where
  "checkRedis cn ctx val =
     pbind (cn_NewClient cn redisAddr) (\<lambda>client.
     deferring (closeQuietly cn ''redis client'' (cn_CloseClient cn client)) (
       pbind (WithTimeout (cn_rt cn) ctx connectivityWait) (\<lambda>checkCtx.
       pbindM (cn_Set cn client checkCtx connectivityRedisKey val connectivityRedisTTL) (wrapping ''setting key: '') (\<lambda>_.
       pbindM (cn_Get cn client checkCtx connectivityRedisKey) (wrapping ''getting key: '') (\<lambda>got.
       if got \<noteq> val
       then preturn (Inl (Errorf (''read value '' @ go_quote got @ '', want '' @ go_quote val
         @ '' (stale key from a previous run?)'')))
       else pbind (cn_Stdout cn (''redis value retrieved: '' @ got @ [CHR 0x0A])) (\<lambda>_. preturn (Inr ())))))))"

text \<open>\<open>UnixNano\<close> is an \<open>int64\<close>.\<close>

definition check_value :: "gotime \<Rightarrow> string" where
  "check_value now = ''phase0 connectivity check '' @ show_int (wrap64 now)"

definition run_check :: "'s check_clients \<Rightarrow> ctx \<Rightarrow> ('s, goerror + unit) prog" where
  "run_check cn ctx =
     pbind (rt_Now (cn_rt cn)) (\<lambda>now. let val = check_value now in
     pbindM (ensureTopic cn ctx connectivityTopic) (wrapping ''ensuring kafka topic: '') (\<lambda>_.
     pbindM (produceMessage cn ctx val) (wrapping ''producing kafka message: '') (\<lambda>_.
     pbindM (consumeMessage cn ctx val) (wrapping ''consuming kafka message: '') (\<lambda>_.
     pbindM (checkRedis cn ctx val) (wrapping ''checking redis: '') (\<lambda>_.
     pbind (cn_Stdout cn (''phase 0 connectivity check: OK'' @ [CHR 0x0A])) (\<lambda>_. preturn (Inr ())))))))"

text \<open>\<open>log.Fatalf\<close> ends the process with status 1.\<close>

definition check_main :: "'s check_clients \<Rightarrow> ('s, unit) prog" where
  "check_main cn = pbind (run_check cn Background) (\<lambda>r. case r of
     Inl err \<Rightarrow> pbind (cn_log cn (''connectivity check failed: '' @ err_msg err)) (\<lambda>_. phalt 1)
   | Inr _ \<Rightarrow> phalt 0)"


section \<open>What success means\<close>

lemma bindM_Inr:
  "pbindM m h f s = (Done (Inr b), s') \<Longrightarrow> \<exists>a s1. m s = (Done (Inr a), s1) \<and> f a s1 = (Done (Inr b), s')"
  unfolding pbindM_def by (force dest!: pbind_eq_DoneD split: sum.splits)

lemma deferring_Done: "deferring d m s = (Done r, s') \<Longrightarrow> \<exists>s1. m s = (Done r, s1)"
  unfolding deferring_def by (force dest!: pbind_eq_DoneD)

lemma consumed_own:
  assumes "consumeMessage cn ctx want s = (Done (Inr u), s')"
  shows "\<exists>reader c t t'. cn_ReadMessage cn reader c t = (Done (Inr want), t')"
proof -
  obtain reader s1 s2 where "pbind (WithTimeout (cn_rt cn) ctx connectivityWait) (\<lambda>readCtx.
       pbindM (cn_ReadMessage cn reader readCtx) (wrapping ''reading message: '') (\<lambda>got.
       if got \<noteq> want
       then preturn (Inl (Errorf (''read message '' @ go_quote got @ '', want '' @ go_quote want
         @ '' (stale record from a previous run?)'')))
       else pbind (cn_Stdout cn (''kafka message received: '' @ got @ [CHR 0x0A])) (\<lambda>_. preturn (Inr ())))) s1 = (Done (Inr u), s2)"
    using assms unfolding consumeMessage_def by (blast dest: pbind_eq_DoneD deferring_Done)
  then show ?thesis by (auto dest!: pbind_eq_DoneD bindM_Inr split: if_splits) blast
qed

lemma redis_own:
  assumes "checkRedis cn ctx val s = (Done (Inr u), s')"
  shows "\<exists>client c t t'. cn_Get cn client c connectivityRedisKey t = (Done (Inr val), t')"
proof -
  obtain client checkCtx s1 s2 where "pbindM (cn_Get cn client checkCtx connectivityRedisKey) (wrapping ''getting key: '') (\<lambda>got.
       if got \<noteq> val
       then preturn (Inl (Errorf (''read value '' @ go_quote got @ '', want '' @ go_quote val
         @ '' (stale key from a previous run?)'')))
       else pbind (cn_Stdout cn (''redis value retrieved: '' @ got @ [CHR 0x0A])) (\<lambda>_. preturn (Inr ()))) s1 = (Done (Inr u), s2)"
    using assms unfolding checkRedis_def by (blast dest: pbind_eq_DoneD deferring_Done bindM_Inr)
  then show ?thesis by (auto dest!: bindM_Inr split: if_splits) blast
qed

text \<open>
  The connectivity check is not fooled by what an earlier run left behind: when it succeeds, Kafka and Redis
  have each answered a read with this run's own value, the one made of the clock at its start.
\<close>

theorem connectivity_check_honest:
  assumes "run_check cn ctx s = (Done (Inr u), s')"
  shows "\<exists>now s0 reader client c c' t t' v v'. rt_Now (cn_rt cn) s = (Done now, s0)
    \<and> cn_ReadMessage cn reader c t = (Done (Inr (check_value now)), t')
    \<and> cn_Get cn client c' connectivityRedisKey v = (Done (Inr (check_value now)), v')"
proof -
  obtain now s0 u3 s3 s4 u5 s5 s6 where now: "rt_Now (cn_rt cn) s = (Done now, s0)"
    and k: "consumeMessage cn ctx (check_value now) s3 = (Done (Inr u3), s4)"
    and r: "checkRedis cn ctx (check_value now) s5 = (Done (Inr u5), s6)"
    using assms unfolding run_check_def Let_def by (auto dest!: pbind_eq_DoneD bindM_Inr)
  from now consumed_own [OF k] redis_own [OF r] show ?thesis by blast
qed

text \<open>A cluster that keeps the last message and the last value in its state, with a clock that stands still.\<close>

definition still_runtime :: "'s runtime \<Rightarrow> 's runtime" where
  "still_runtime rt = rt\<lparr>rt_Now := preturn 0\<rparr>"

definition toy_clients :: "(string \<times> string) runtime \<Rightarrow> (string \<times> string) check_clients" where
  "toy_clients rt = \<lparr>cn_rt = still_runtime rt, cn_DialContext = (\<lambda>c a. preturn (Inr 0)), cn_CreateTopics = (\<lambda>n t. preturn (Inr ())),
     cn_DialLeader = (\<lambda>c a t n. preturn (Inr 0)), cn_SetWriteDeadline = (\<lambda>n t. preturn (Inr ())),
     cn_WriteMessages = (\<lambda>n val (k, r). (Done (Inr ()), (val, r))), cn_CloseConn = (\<lambda>n. preturn (Inr ())),
     cn_NewReader = (\<lambda>rc. preturn 0), cn_ReadMessage = (\<lambda>n c (k, r). (Done (Inr k), (k, r))), cn_CloseReader = (\<lambda>n. preturn (Inr ())),
     cn_NewClient = (\<lambda>a. preturn 0), cn_Set = (\<lambda>n c key val ttl (k, r). (Done (Inr ()), (k, val))),
     cn_Get = (\<lambda>n c key (k, r). (Done (Inr r), (k, r))), cn_CloseClient = (\<lambda>n. preturn (Inr ())),
     cn_Stdout = (\<lambda>line. preturn ()), cn_log = (\<lambda>line. preturn ())\<rparr>"

theorem connectivity_check_honest_witness:
  "\<forall>rt. run_check (toy_clients rt) Background ([], []) = (Done (Inr ()), (check_value 0, check_value 0))
    \<and> (\<exists>reader c t t'. cn_ReadMessage (toy_clients rt) reader c t = (Done (Inr (check_value 0)), t'))"
proof
  fix rt
  have r: "run_check (toy_clients rt) Background ([], []) = (Done (Inr ()), (check_value 0, check_value 0))"
    by (simp add: run_check_def ensureTopic_def produceMessage_def consumeMessage_def checkRedis_def closeQuietly_def toy_clients_def
        still_runtime_def WithTimeout_def pbindM_def deferring_def pbind_def Let_def)
  have n: "rt_Now (cn_rt (toy_clients rt)) s = (Done 0, s)" for s by (simp add: toy_clients_def still_runtime_def)
  from connectivity_check_honest [OF r] r show "run_check (toy_clients rt) Background ([], []) = (Done (Inr ()), (check_value 0, check_value 0))
    \<and> (\<exists>reader c t t'. cn_ReadMessage (toy_clients rt) reader c t = (Done (Inr (check_value 0)), t'))"
    by (auto simp: n)
qed

end
