(* ===== verification/State_Heap.thy ===== *)
theory State_Heap
  imports Fold
begin

text \<open>
  \<open>internal/replay\<close>, \<open>state.go\<close>: the copying of a state, with the memory it lives in. Slices, maps and pointers are
  addresses of cells, so that two states can share memory, and \<open>cloneRunState\<close> allocates. \<open>Fold\<close> works on values;
  this theory shows what makes that right: the clone has the value of the original, every cell that can be
  reached from it is new, and the original reads the same whatever is written through the clone.
\<close>

section \<open>Memory\<close>

type_synonym address = nat

text \<open>A tool call, an invocation, a block and a step as they lie in memory; \<open>None\<close> is \<open>nil\<close>.\<close>

record call_ref =
  kr_ToolUseID :: string
  kr_ToolName :: string
  kr_ToolArgs :: "address option"
  kr_HasSideEffect :: bool
  kr_IdempotencyKey :: "address option"
  kr_InvokedAt :: gotime

record invocation_ref =
  vr_hasSideEffect :: bool
  vr_idempotencyKey :: "address option"
  vr_invokedAt :: gotime

text \<open>A \<open>ContentBlockUnion\<close> keeps what only its own variant has; \<open>Input\<close> is the field of its that is a slice.\<close>

datatype block_kind = TextKind string | ToolUseKind string string | OtherKind json

record block_ref =
  br_kind :: block_kind
  br_Input :: "address option"

record step_ref =
  pr_content :: "address option"
  pr_isTerminal :: bool
  pr_stopReason :: string
  pr_invoked :: "address option"
  pr_order :: "address option"
  pr_invokedOrder :: "address option"
  pr_results :: "address option"

record state_ref =
  zr_RunID :: string
  zr_TenantID :: string
  zr_Status :: RunStatus
  zr_CurrentStep :: int
  zr_MaxSteps :: int
  zr_NextSequence :: int
  zr_LastEventID :: string
  zr_LastEventAt :: gotime
  zr_PendingToolCalls :: "address option"
  zr_InFlightTool :: "address option"
  zr_NextAction :: NextAction
  zr_FinalOutput :: string
  zr_Failure :: "address option"
  zr_prompt :: string
  zr_steps :: "address option"
  zr_seen :: "address option"

datatype cell =
    CBytes json
  | CString string
  | CStrings "string list"
  | CCalls "call_ref list"
  | CCall call_ref
  | CFailure RunFailedPayload
  | CBlocks "block_ref list"
  | CInvoked "(string \<times> invocation_ref) list"
  | CResults "(string \<times> ToolResultedPayload) list"
  | CSteps "step_ref list"
  | CSeen "(int \<times> string) list"

record memory =
  mm_cells :: "address \<Rightarrow> cell option"
  mm_next :: address

definition alloc :: "cell \<Rightarrow> memory \<Rightarrow> address \<times> memory" where
  "alloc c h = (mm_next h, h\<lparr>mm_cells := (mm_cells h)(mm_next h \<mapsto> c), mm_next := Suc (mm_next h)\<rparr>)"

text \<open>A memory whose old cells are those of another.\<close>

definition extends :: "memory \<Rightarrow> memory \<Rightarrow> bool" where
  "extends h h' \<longleftrightarrow> mm_next h \<le> mm_next h' \<and> (\<forall>a < mm_next h. mm_cells h' a = mm_cells h a)"

lemma extends_refl [simp]: "extends h h"
  by (simp add: extends_def)

lemma extends_trans: "extends h h1 \<Longrightarrow> extends h1 h2 \<Longrightarrow> extends h h2"
  by (simp add: extends_def)

lemma extends_next: "extends h h' \<Longrightarrow> mm_next h \<le> mm_next h'"
  by (simp add: extends_def)

text \<open>A memory that has what another has at some addresses.\<close>

definition agrees :: "address set \<Rightarrow> memory \<Rightarrow> memory \<Rightarrow> bool" where
  "agrees A h h' \<longleftrightarrow> mm_next h \<le> mm_next h' \<and> (\<forall>a\<in>A. mm_cells h' a = mm_cells h a)"

lemma agrees_Un [simp]: "agrees (A \<union> B) h h' \<longleftrightarrow> agrees A h h' \<and> agrees B h h'"
  by (auto simp: agrees_def)

lemma agrees_next: "agrees A h h' \<Longrightarrow> mm_next h \<le> mm_next h'"
  by (simp add: agrees_def)

lemma extends_agrees: "extends h h' \<Longrightarrow> A \<subseteq> {..<mm_next h} \<Longrightarrow> agrees A h h'"
  by (auto simp: agrees_def extends_def)

lemma alloc_extends: "alloc c h = (a, h') \<Longrightarrow> extends h h'"
  by (auto simp: alloc_def extends_def)


section \<open>What copying is\<close>

text \<open>
  A kind of thing in memory: when it is all there, its value, the addresses reached from it, and how it is copied.
\<close>

locale cloner =
  fixes ok :: "memory \<Rightarrow> 'x \<Rightarrow> bool" and view :: "memory \<Rightarrow> 'x \<Rightarrow> 'v" and reach :: "memory \<Rightarrow> 'x \<Rightarrow> address set"
    and clone :: "'x \<Rightarrow> memory \<Rightarrow> 'x \<times> memory"
  assumes local: "ok h x \<Longrightarrow> agrees (reach h x) h h' \<Longrightarrow> ok h' x \<and> view h' x = view h x \<and> reach h' x = reach h x"
    and inside: "ok h x \<Longrightarrow> reach h x \<subseteq> {..<mm_next h}"
    and clones: "ok h x \<Longrightarrow> clone x h = (x', h') \<Longrightarrow> extends h h' \<and> ok h' x' \<and> view h' x' = view h x
      \<and> reach h' x' \<subseteq> {mm_next h..<mm_next h'}"
begin

lemma framed: "ok h x \<Longrightarrow> extends h h' \<Longrightarrow> ok h' x \<and> view h' x = view h x \<and> reach h' x = reach h x"
  using local extends_agrees inside by blast

text \<open>
  A clone shares no cell with what it is a clone of: whatever is written to the cells of the one, the other
  keeps its value.
\<close>

lemma apart:
  assumes "ok h x" and "clone x h = (x', h')"
  shows "reach h' x' \<inter> reach h' x = {}"
    and "agrees (- reach h' x') h' h'' \<Longrightarrow> view h'' x = view h x"
    and "agrees (- reach h' x) h' h'' \<Longrightarrow> view h'' x' = view h x"
proof -
  have c: "extends h h'" "ok h' x'" "view h' x' = view h x" "reach h' x' \<subseteq> {mm_next h..<mm_next h'}"
    using clones[OF assms] by auto
  have f: "ok h' x" "view h' x = view h x" "reach h' x = reach h x"
    using framed[OF assms(1) c(1)] by auto
  show d: "reach h' x' \<inter> reach h' x = {}"
    using inside[OF assms(1)] c(4) f(3) by fastforce
  show "view h'' x = view h x" if "agrees (- reach h' x') h' h''"
  proof -
    have "agrees (reach h' x) h' h''"
      using that d by (auto simp: agrees_def)
    then show ?thesis
      using local[OF f(1)] f(2) by simp
  qed
  show "view h'' x' = view h x" if "agrees (- reach h' x) h' h''"
  proof -
    have "agrees (reach h' x') h' h''"
      using that d by (auto simp: agrees_def)
    then show ?thesis
      using local[OF c(2)] c(3) by simp
  qed
qed

end

text \<open>Values that hold no address.\<close>

definition keep :: "'x \<Rightarrow> memory \<Rightarrow> 'x \<times> memory" where "keep x h = (x, h)"

interpretation plain: cloner "\<lambda>_ _. True" "\<lambda>_ x. x" "\<lambda>_ _. {}" keep
  by unfold_locales (auto simp: keep_def)

section \<open>Lists, pairs, slices and pointers\<close>

fun clone_list :: "('x \<Rightarrow> memory \<Rightarrow> 'x \<times> memory) \<Rightarrow> 'x list \<Rightarrow> memory \<Rightarrow> 'x list \<times> memory" where
  "clone_list cl [] h = ([], h)"
| "clone_list cl (x # xs) h = (case cl x h of (x', h1) \<Rightarrow> (case clone_list cl xs h1 of (xs', h2) \<Rightarrow> (x' # xs', h2)))"

definition clone_pair :: "('x \<Rightarrow> memory \<Rightarrow> 'x \<times> memory) \<Rightarrow> ('y \<Rightarrow> memory \<Rightarrow> 'y \<times> memory) \<Rightarrow> 'x \<times> 'y \<Rightarrow> memory
    \<Rightarrow> ('x \<times> 'y) \<times> memory" where
  "clone_pair c d = (\<lambda>(x, y) h. case c x h of (x', h1) \<Rightarrow> (case d y h1 of (y', h2) \<Rightarrow> ((x', y'), h2)))"

text \<open>The cell at an address, if it is of the right kind.\<close>

definition read_cell :: "(cell \<Rightarrow> 'x option) \<Rightarrow> memory \<Rightarrow> address option \<Rightarrow> 'x option" where
  "read_cell get h r = Option.bind r (\<lambda>a. Option.bind (mm_cells h a) get)"

definition read_slice :: "(cell \<Rightarrow> 'x list option) \<Rightarrow> memory \<Rightarrow> address option \<Rightarrow> 'x list" where
  "read_slice get h r = (case read_cell get h r of None \<Rightarrow> [] | Some xs \<Rightarrow> xs)"

text \<open>\<open>make\<close> of the same length, filled with clones: never \<open>nil\<close>. So are the maps.\<close>

definition make_slice :: "(cell \<Rightarrow> 'x list option) \<Rightarrow> ('x list \<Rightarrow> cell) \<Rightarrow> ('x \<Rightarrow> memory \<Rightarrow> 'x \<times> memory)
    \<Rightarrow> address option \<Rightarrow> memory \<Rightarrow> address option \<times> memory" where
  "make_slice get put cl r h = (case clone_list cl (read_slice get h r) h of (xs, h1) \<Rightarrow>
     (case alloc (put xs) h1 of (a, h2) \<Rightarrow> (Some a, h2)))"

text \<open>\<open>append\<close> to \<open>nil\<close>: \<open>nil\<close> when there is nothing to append.\<close>

definition append_slice :: "(cell \<Rightarrow> 'x list option) \<Rightarrow> ('x list \<Rightarrow> cell) \<Rightarrow> address option \<Rightarrow> memory
    \<Rightarrow> address option \<times> memory" where
  "append_slice get put r h = (let xs = read_slice get h r in
     if xs = [] then (None, h) else (case alloc (put xs) h of (a, h1) \<Rightarrow> (Some a, h1)))"

text \<open>A pointer to a copy of what it points to. The bytes of a \<open>RawMessage\<close> are copied in the same way.\<close>

definition clone_pointer :: "(cell \<Rightarrow> 'x option) \<Rightarrow> ('x \<Rightarrow> cell) \<Rightarrow> ('x \<Rightarrow> memory \<Rightarrow> 'x \<times> memory)
    \<Rightarrow> address option \<Rightarrow> memory \<Rightarrow> address option \<times> memory" where
  "clone_pointer get put cl r h = (case read_cell get h r of
     None \<Rightarrow> (None, h)
   | Some x \<Rightarrow> (case cl x h of (x', h1) \<Rightarrow> (case alloc (put x') h1 of (a, h2) \<Rightarrow> (Some a, h2))))"

definition ok_cell :: "(cell \<Rightarrow> 'x option) \<Rightarrow> (memory \<Rightarrow> 'x \<Rightarrow> bool) \<Rightarrow> memory \<Rightarrow> address option \<Rightarrow> bool" where
  "ok_cell get ok h r = (case r of None \<Rightarrow> True
     | Some a \<Rightarrow> a < mm_next h \<and> (case read_cell get h r of None \<Rightarrow> False | Some x \<Rightarrow> ok h x))"

lemma ok_cell_iff:
  "ok_cell get ok h r \<longleftrightarrow> (\<forall>a. r = Some a \<longrightarrow> a < mm_next h \<and> (\<exists>x. read_cell get h r = Some x \<and> ok h x))"
  by (auto simp: ok_cell_def split: option.splits)

definition reach_cell :: "(cell \<Rightarrow> 'x option) \<Rightarrow> (memory \<Rightarrow> 'x \<Rightarrow> address set) \<Rightarrow> memory \<Rightarrow> address option \<Rightarrow> address set" where
  "reach_cell get reach h r = set_option r \<union> (case read_cell get h r of None \<Rightarrow> {} | Some x \<Rightarrow> reach h x)"

definition view_slice :: "(cell \<Rightarrow> 'x list option) \<Rightarrow> (memory \<Rightarrow> 'x \<Rightarrow> 'v) \<Rightarrow> memory \<Rightarrow> address option \<Rightarrow> 'v list" where
  "view_slice get view h r = map (view h) (read_slice get h r)"

definition view_pointer :: "(cell \<Rightarrow> 'x option) \<Rightarrow> (memory \<Rightarrow> 'x \<Rightarrow> 'v) \<Rightarrow> memory \<Rightarrow> address option \<Rightarrow> 'v option" where
  "view_pointer get view h r = map_option (view h) (read_cell get h r)"

lemma view_slice_pointer:
  "view_slice get view h r = (case view_pointer get (\<lambda>h. map (view h)) h r of None \<Rightarrow> [] | Some xs \<Rightarrow> xs)"
  by (simp add: view_slice_def view_pointer_def read_slice_def split: option.splits)

lemma read_cell_new: "get (put x) = Some x \<Longrightarrow> alloc (put x) h = (a, h') \<Longrightarrow> read_cell get h' (Some a) = Some x \<and> a < mm_next h' \<and> mm_next h \<le> a"
  by (auto simp: alloc_def read_cell_def)

definition ok_pair :: "(memory \<Rightarrow> 'x \<Rightarrow> bool) \<Rightarrow> (memory \<Rightarrow> 'y \<Rightarrow> bool) \<Rightarrow> memory \<Rightarrow> 'x \<times> 'y \<Rightarrow> bool" where
  "ok_pair okx oky h p \<longleftrightarrow> okx h (fst p) \<and> oky h (snd p)"

definition view_pair :: "(memory \<Rightarrow> 'x \<Rightarrow> 'v) \<Rightarrow> (memory \<Rightarrow> 'y \<Rightarrow> 'w) \<Rightarrow> memory \<Rightarrow> 'x \<times> 'y \<Rightarrow> 'v \<times> 'w" where
  "view_pair viewx viewy h p = (viewx h (fst p), viewy h (snd p))"

definition reach_pair :: "(memory \<Rightarrow> 'x \<Rightarrow> address set) \<Rightarrow> (memory \<Rightarrow> 'y \<Rightarrow> address set) \<Rightarrow> memory \<Rightarrow> 'x \<times> 'y
    \<Rightarrow> address set" where
  "reach_pair reachx reachy h p = reachx h (fst p) \<union> reachy h (snd p)"

definition reach_list :: "(memory \<Rightarrow> 'x \<Rightarrow> address set) \<Rightarrow> memory \<Rightarrow> 'x list \<Rightarrow> address set" where
  "reach_list reach h xs = (\<Union>x\<in>set xs. reach h x)"

lemma alloc_new:
  "alloc c h = (a, h') \<Longrightarrow> a = mm_next h \<and> mm_next h' = Suc a \<and> mm_cells h' a = Some c"
  by (auto simp: alloc_def)

lemma read_slice_new: "get (put xs) = Some xs \<Longrightarrow> alloc (put xs) h = (a, h') \<Longrightarrow> read_slice get h' (Some a) = xs"
  by (auto simp: alloc_def read_cell_def read_slice_def)

lemma ok_cell_slice:
  "ok_cell get (\<lambda>h. list_all (ok h)) h r \<Longrightarrow> list_all (ok h) (read_slice get h r)"
  by (cases r) (auto simp: ok_cell_iff read_slice_def read_cell_def)

context cloner
begin

lemma list_framed: "list_all (ok h) xs \<Longrightarrow> extends h h' \<Longrightarrow>
    list_all (ok h') xs \<and> map (view h') xs = map (view h) xs \<and> reach_list reach h' xs = reach_list reach h xs"
  by (induction xs) (use framed in \<open>auto simp: reach_list_def\<close>)

lemma list_local: "list_all (ok h) xs \<Longrightarrow> agrees (reach_list reach h xs) h h' \<Longrightarrow>
    list_all (ok h') xs \<and> map (view h') xs = map (view h) xs \<and> reach_list reach h' xs = reach_list reach h xs"
  by (induction xs) (use local in \<open>auto simp: reach_list_def\<close>)

lemma list_inside: "list_all (ok h) xs \<Longrightarrow> reach_list reach h xs \<subseteq> {..<mm_next h}"
  using inside by (fastforce simp: reach_list_def list_all_iff)

lemma list_clones: "list_all (ok h) xs \<Longrightarrow> clone_list clone xs h = (xs', h') \<Longrightarrow>
    extends h h' \<and> list_all (ok h') xs' \<and> map (view h') xs' = map (view h) xs
      \<and> reach_list reach h' xs' \<subseteq> {mm_next h..<mm_next h'}"
proof (induction xs arbitrary: h xs' h')
  case Nil
  then show ?case by (auto simp: reach_list_def)
next
  case (Cons x xs)
  obtain y h1 ys where y: "clone x h = (y, h1)" and ys: "clone_list clone xs h1 = (ys, h')" "xs' = y # ys"
    using Cons.prems(2) by (auto split: prod.splits)
  have x: "extends h h1" "ok h1 y" "view h1 y = view h x" "reach h1 y \<subseteq> {mm_next h..<mm_next h1}"
    using clones[OF _ y] Cons.prems(1) by auto
  have all: "list_all (ok h1) xs" "map (view h1) xs = map (view h) xs"
    using list_framed[OF _ x(1)] Cons.prems(1) by auto
  have tail: "extends h1 h'" "list_all (ok h') ys" "map (view h') ys = map (view h) xs"
      "reach_list reach h' ys \<subseteq> {mm_next h1..<mm_next h'}"
    using Cons.IH[OF all(1) ys(1)] all(2) by auto
  have kept: "ok h' y" "view h' y = view h1 y" "reach h' y = reach h1 y"
    using framed[OF x(2) tail(1)] by auto
  have "reach_list reach h' xs' \<subseteq> {mm_next h..<mm_next h'}"
    using x(4) tail(4) kept(3) extends_next[OF x(1)] extends_next[OF tail(1)]
    by (fastforce simp: ys(2) reach_list_def)
  then show ?case
    using x(3) tail kept extends_trans[OF x(1) tail(1)] by (simp add: ys(2))
qed

lemma listed: "cloner (\<lambda>h. list_all (ok h)) (\<lambda>h. map (view h)) (reach_list reach) (clone_list clone)"
  by unfold_locales (use list_local list_inside list_clones in blast)+

text \<open>A new cell with a clone in it.\<close>

lemma boxed:
  assumes put: "\<And>x. get (put x) = Some x" and x: "ok h x" and y: "clone x h = (y, h1)"
    and a: "alloc (put y) h1 = (a, h')"
  shows "extends h h' \<and> ok_cell get ok h' (Some a) \<and> read_cell get h' (Some a) = Some y \<and> view h' y = view h x
    \<and> reach_cell get reach h' (Some a) \<subseteq> {mm_next h..<mm_next h'}"
proof -
  have c: "extends h h1" "ok h1 y" "view h1 y = view h x" "reach h1 y \<subseteq> {mm_next h..<mm_next h1}"
    using clones[OF x y] by auto
  have f: "ok h' y" "view h' y = view h1 y" "reach h' y = reach h1 y"
    using framed[OF c(2) alloc_extends[OF a]] by auto
  have n: "read_cell get h' (Some a) = Some y" "a < mm_next h'" "mm_next h1 \<le> a"
    using read_cell_new[where get=get and put=put and x=y, OF put a] by auto
  show ?thesis
    using c f n extends_trans[OF c(1) alloc_extends[OF a]] extends_next[OF c(1)]
      extends_next[OF alloc_extends[OF a]]
    by (auto simp: ok_cell_iff reach_cell_def subset_iff)
qed

lemma cell_local:
  assumes "ok_cell get ok h r" and "agrees (reach_cell get reach h r) h h'"
  shows "ok_cell get ok h' r \<and> view_pointer get view h' r = view_pointer get view h r
    \<and> reach_cell get reach h' r = reach_cell get reach h r"
proof (cases r)
  case None
  then show ?thesis by (simp add: ok_cell_iff view_pointer_def reach_cell_def read_cell_def)
next
  case (Some a)
  obtain x where x: "read_cell get h r = Some x" "ok h x" "a < mm_next h"
    using assms(1) Some by (auto simp: ok_cell_iff)
  have agree: "agrees {a} h h'" "agrees (reach h x) h h'"
    using assms(2) Some x(1) by (auto simp: reach_cell_def agrees_def)
  have "read_cell get h' r = Some x"
    using x(1) agree(1) Some by (simp add: read_cell_def agrees_def)
  then show ?thesis
    using local[OF x(2) agree(2)] x agrees_next[OF agree(1)] Some
    by (simp add: ok_cell_iff view_pointer_def reach_cell_def)
qed

lemma cell_inside: "ok_cell get ok h r \<Longrightarrow> reach_cell get reach h r \<subseteq> {..<mm_next h}"
  using inside by (cases r) (fastforce simp: ok_cell_iff reach_cell_def read_cell_def)+

lemma pointed:
  assumes put: "\<And>x. get (put x) = Some x"
  shows "cloner (ok_cell get ok) (view_pointer get view) (reach_cell get reach) (clone_pointer get put clone)"
proof
  fix h r h'
  assume "ok_cell get ok h r" and "agrees (reach_cell get reach h r) h h'"
  then show "ok_cell get ok h' r \<and> view_pointer get view h' r = view_pointer get view h r
    \<and> reach_cell get reach h' r = reach_cell get reach h r"
    by (rule cell_local)
next
  fix h r
  assume "ok_cell get ok h r"
  then show "reach_cell get reach h r \<subseteq> {..<mm_next h}"
    by (rule cell_inside)
next
  fix h r r' h'
  assume r: "ok_cell get ok h r" and c: "clone_pointer get put clone r h = (r', h')"
  show "extends h h' \<and> ok_cell get ok h' r' \<and> view_pointer get view h' r' = view_pointer get view h r
    \<and> reach_cell get reach h' r' \<subseteq> {mm_next h..<mm_next h'}"
  proof (cases "read_cell get h r")
    case None
    then show ?thesis
      using c by (auto simp: clone_pointer_def ok_cell_iff view_pointer_def reach_cell_def read_cell_def)
  next
    case (Some x)
    then have x: "ok h x"
      using r by (cases r) (auto simp: ok_cell_iff read_cell_def)
    obtain y h1 a where "clone x h = (y, h1)" "alloc (put y) h1 = (a, h')" "r' = Some a"
      using c Some by (auto simp: clone_pointer_def split: prod.splits)
    then show ?thesis
      using boxed[where get=get and put=put, OF put x] Some by (simp add: view_pointer_def)
  qed
qed

lemma paired:
  assumes "cloner oky viewy reachy cloney"
  shows "cloner (ok_pair ok oky) (view_pair view viewy) (reach_pair reach reachy) (clone_pair clone cloney)"
proof
  fix h p h'
  assume "ok_pair ok oky h p" and "agrees (reach_pair reach reachy h p) h h'"
  then show "ok_pair ok oky h' p \<and> view_pair view viewy h' p = view_pair view viewy h p
    \<and> reach_pair reach reachy h' p = reach_pair reach reachy h p"
    using local[of h "fst p" h'] cloner.local[OF assms, of h "snd p" h']
    by (simp add: ok_pair_def view_pair_def reach_pair_def)
next
  fix h p
  assume "ok_pair ok oky h p"
  then show "reach_pair reach reachy h p \<subseteq> {..<mm_next h}"
    using inside[of h "fst p"] cloner.inside[OF assms, of h "snd p"] by (simp add: ok_pair_def reach_pair_def)
next
  fix h p p' h'
  assume p: "ok_pair ok oky h p" and c: "clone_pair clone cloney p h = (p', h')"
  obtain x y x' h1 y' where xy: "p = (x, y)" "clone x h = (x', h1)" "cloney y h1 = (y', h')" "p' = (x', y')"
    using c by (cases p) (auto simp: clone_pair_def split: prod.splits)
  have x: "extends h h1" "ok h1 x'" "view h1 x' = view h x" "reach h1 x' \<subseteq> {mm_next h..<mm_next h1}"
    using clones[OF _ xy(2)] p by (auto simp: ok_pair_def xy(1))
  have y1: "oky h1 y" "viewy h1 y = viewy h y"
    using cloner.framed[OF assms _ x(1)] p by (auto simp: ok_pair_def xy(1))
  have y: "extends h1 h'" "oky h' y'" "viewy h' y' = viewy h1 y" "reachy h' y' \<subseteq> {mm_next h1..<mm_next h'}"
    using cloner.clones[OF assms y1(1) xy(3)] by auto
  have kept: "ok h' x'" "view h' x' = view h1 x'" "reach h' x' = reach h1 x'"
    using framed[OF x(2) y(1)] by auto
  show "extends h h' \<and> ok_pair ok oky h' p' \<and> view_pair view viewy h' p' = view_pair view viewy h p
    \<and> reach_pair reach reachy h' p' \<subseteq> {mm_next h..<mm_next h'}"
    using x(3,4) y(2-4) y1(2) kept extends_trans[OF x(1) y(1)] extends_next[OF x(1)] extends_next[OF y(1)]
    by (auto simp: ok_pair_def view_pair_def reach_pair_def xy(1,4) subset_iff)
qed

text \<open>A struct whose addresses are in some of its fields: they are copied, and put back in a copy of it.\<close>

lemma embedded:
  assumes "\<And>x y. to (mk x y) = y" and "\<And>x y v. build (mk x y) v = build x v"
  shows "cloner (\<lambda>h x. ok h (to x)) (\<lambda>h x. build x (view h (to x))) (\<lambda>h x. reach h (to x))
    (\<lambda>x h. case clone (to x) h of (y, h1) \<Rightarrow> (mk x y, h1))"
proof
  fix h x h'
  assume "ok h (to x)" and "agrees (reach h (to x)) h h'"
  then show "ok h' (to x) \<and> build x (view h' (to x)) = build x (view h (to x)) \<and> reach h' (to x) = reach h (to x)"
    using local[of h "to x" h'] by simp
next
  fix h x
  assume "ok h (to x)"
  then show "reach h (to x) \<subseteq> {..<mm_next h}"
    by (rule inside)
next
  fix h x x' h'
  assume x: "ok h (to x)" and c: "(case clone (to x) h of (y, h1) \<Rightarrow> (mk x y, h1)) = (x', h')"
  then show "extends h h' \<and> ok h' (to x') \<and> build x' (view h' (to x')) = build x (view h (to x))
    \<and> reach h' (to x') \<subseteq> {mm_next h..<mm_next h'}"
    by (cases "clone (to x) h") (auto simp: assms dest!: clones[OF x])
qed

lemma sliced:
  assumes put: "\<And>xs. get (put xs) = Some xs"
  shows "cloner (ok_cell get (\<lambda>h. list_all (ok h))) (view_slice get view) (reach_cell get (reach_list reach))
    (make_slice get put clone)"
proof
  fix h r h'
  assume "ok_cell get (\<lambda>h. list_all (ok h)) h r" and "agrees (reach_cell get (reach_list reach) h r) h h'"
  then show "ok_cell get (\<lambda>h. list_all (ok h)) h' r \<and> view_slice get view h' r = view_slice get view h r
    \<and> reach_cell get (reach_list reach) h' r = reach_cell get (reach_list reach) h r"
    using cloner.cell_local[OF listed, of get h r h'] by (simp add: view_slice_pointer)
next
  fix h r
  assume "ok_cell get (\<lambda>h. list_all (ok h)) h r"
  then show "reach_cell get (reach_list reach) h r \<subseteq> {..<mm_next h}"
    by (rule cloner.cell_inside[OF listed])
next
  fix h r r' h'
  assume r: "ok_cell get (\<lambda>h. list_all (ok h)) h r" and c: "make_slice get put clone r h = (r', h')"
  obtain ys h1 a where ys: "clone_list clone (read_slice get h r) h = (ys, h1)" "alloc (put ys) h1 = (a, h')" "r' = Some a"
    using c by (auto simp: make_slice_def split: prod.splits)
  have "read_slice get h' (Some a) = ys"
    by (rule read_slice_new[where get=get and put=put and h=h1, OF put ys(2)])
  then show "extends h h' \<and> ok_cell get (\<lambda>h. list_all (ok h)) h' r' \<and> view_slice get view h' r' = view_slice get view h r
    \<and> reach_cell get (reach_list reach) h' r' \<subseteq> {mm_next h..<mm_next h'}"
    using cloner.boxed[where get=get and put=put, OF listed put ok_cell_slice[OF r] ys(1,2)] ys(3)
    by (simp add: view_slice_def)
qed

end

lemma appended:
  assumes put: "\<And>xs. get (put xs) = Some xs"
  shows "cloner (ok_cell get (\<lambda>_ _. True)) (view_slice get (\<lambda>_ x. x)) (reach_cell get (\<lambda>_ _. {})) (append_slice get put)"
proof
  fix h r h'
  assume "ok_cell get (\<lambda>_ _. True) h r" and "agrees (reach_cell get (\<lambda>_ _. {}) h r) h h'"
  then show "ok_cell get (\<lambda>_ _. True) h' r \<and> view_slice get (\<lambda>_ x. x) h' r = view_slice get (\<lambda>_ x. x) h r
    \<and> reach_cell get (\<lambda>_ _. {}) h' r = reach_cell get (\<lambda>_ _. {}) h r"
    using plain.cell_local[of get h r h'] by (simp add: view_slice_pointer)
next
  fix h r
  assume "ok_cell get (\<lambda>_ _. True) h r"
  then show "reach_cell get (\<lambda>_ _. {}) h r \<subseteq> {..<mm_next h}"
    by (rule plain.cell_inside)
next
  fix h r r' h'
  assume r: "ok_cell get (\<lambda>_ _. True) h r" and c: "append_slice get put r h = (r', h')"
  show "extends h h' \<and> ok_cell get (\<lambda>_ _. True) h' r' \<and> view_slice get (\<lambda>_ x. x) h' r' = view_slice get (\<lambda>_ x. x) h r
    \<and> reach_cell get (\<lambda>_ _. {}) h' r' \<subseteq> {mm_next h..<mm_next h'}"
  proof (cases "read_slice get h r = []")
    case True
    then show ?thesis
      using c by (auto simp: append_slice_def ok_cell_iff view_slice_def read_slice_def reach_cell_def read_cell_def)
  next
    case False
    then obtain a where a: "alloc (put (read_slice get h r)) h = (a, h')" "r' = Some a"
      using c by (auto simp: append_slice_def split: prod.splits)
    have "read_slice get h' (Some a) = read_slice get h r"
      by (rule read_slice_new[where get=get and put=put and h=h, OF put a(1)])
    then show ?thesis
      using plain.boxed[where get=get and put=put, OF put TrueI keep_def a(1)] a(2) by (simp add: view_slice_def)
  qed
qed


section \<open>The clones of \<open>state.go\<close>\<close>

definition get_bytes :: "cell \<Rightarrow> json option" where
  "get_bytes c = (case c of CBytes j \<Rightarrow> Some j | _ \<Rightarrow> None)"

definition get_string :: "cell \<Rightarrow> string option" where
  "get_string c = (case c of CString t \<Rightarrow> Some t | _ \<Rightarrow> None)"

definition get_strings :: "cell \<Rightarrow> string list option" where
  "get_strings c = (case c of CStrings ts \<Rightarrow> Some ts | _ \<Rightarrow> None)"

definition get_calls :: "cell \<Rightarrow> call_ref list option" where
  "get_calls c = (case c of CCalls ks \<Rightarrow> Some ks | _ \<Rightarrow> None)"

definition get_call :: "cell \<Rightarrow> call_ref option" where
  "get_call c = (case c of CCall k \<Rightarrow> Some k | _ \<Rightarrow> None)"

definition get_failure :: "cell \<Rightarrow> RunFailedPayload option" where
  "get_failure c = (case c of CFailure p \<Rightarrow> Some p | _ \<Rightarrow> None)"

definition get_blocks :: "cell \<Rightarrow> block_ref list option" where
  "get_blocks c = (case c of CBlocks bs \<Rightarrow> Some bs | _ \<Rightarrow> None)"

definition get_invoked :: "cell \<Rightarrow> (string \<times> invocation_ref) list option" where
  "get_invoked c = (case c of CInvoked m \<Rightarrow> Some m | _ \<Rightarrow> None)"

definition get_results :: "cell \<Rightarrow> (string \<times> ToolResultedPayload) list option" where
  "get_results c = (case c of CResults m \<Rightarrow> Some m | _ \<Rightarrow> None)"

definition get_steps :: "cell \<Rightarrow> step_ref list option" where
  "get_steps c = (case c of CSteps ps \<Rightarrow> Some ps | _ \<Rightarrow> None)"

definition get_seen :: "cell \<Rightarrow> (int \<times> string) list option" where
  "get_seen c = (case c of CSeen m \<Rightarrow> Some m | _ \<Rightarrow> None)"

lemmas get_cell = get_bytes_def get_string_def get_strings_def get_calls_def get_call_def get_failure_def
  get_blocks_def get_invoked_def get_results_def get_steps_def get_seen_def

text \<open>
  The bytes of a \<open>RawMessage\<close>, the string a key points to, and slices and maps of values. A pointer is copied
  only if it is not \<open>nil\<close>; an empty \<open>RawMessage\<close> is \<open>nil\<close> here, so that \<open>append\<close> does the same for its bytes.
\<close>

abbreviation clone_raw :: "address option \<Rightarrow> memory \<Rightarrow> address option \<times> memory" where
  "clone_raw \<equiv> clone_pointer get_bytes CBytes keep"

abbreviation clone_key :: "address option \<Rightarrow> memory \<Rightarrow> address option \<times> memory" where
  "clone_key \<equiv> clone_pointer get_string CString keep"

definition cloneToolCall :: "call_ref \<Rightarrow> memory \<Rightarrow> call_ref \<times> memory" where
  "cloneToolCall tc h = (case clone_raw (kr_ToolArgs tc) h of (args, h) \<Rightarrow>
     (case clone_key (kr_IdempotencyKey tc) h of (key, h) \<Rightarrow>
       (tc\<lparr>kr_ToolArgs := args, kr_IdempotencyKey := key\<rparr>, h)))"

text \<open>The element that \<open>cloneContentBlocks\<close> ranges over, and the loop.\<close>

definition clone_block :: "block_ref \<Rightarrow> memory \<Rightarrow> block_ref \<times> memory" where
  "clone_block b h = (case clone_raw (br_Input b) h of (input, h) \<Rightarrow> (b\<lparr>br_Input := input\<rparr>, h))"

definition cloneContentBlocks :: "address option \<Rightarrow> memory \<Rightarrow> address option \<times> memory" where
  "cloneContentBlocks blocks h = make_slice get_blocks CBlocks clone_block blocks h"

definition clone_invocation :: "invocation_ref \<Rightarrow> memory \<Rightarrow> invocation_ref \<times> memory" where
  "clone_invocation v h = (case clone_key (vr_idempotencyKey v) h of (key, h) \<Rightarrow> (v\<lparr>vr_idempotencyKey := key\<rparr>, h))"

definition cloneStepRecord :: "step_ref \<Rightarrow> memory \<Rightarrow> step_ref \<times> memory" where
  "cloneStepRecord s h =
     (case cloneContentBlocks (pr_content s) h of (content, h) \<Rightarrow>
     (case append_slice get_strings CStrings (pr_order s) h of (order, h) \<Rightarrow>
     (case append_slice get_strings CStrings (pr_invokedOrder s) h of (invokedOrder, h) \<Rightarrow>
     (case make_slice get_invoked CInvoked (clone_pair keep clone_invocation) (pr_invoked s) h of (invoked, h) \<Rightarrow>
     (case make_slice get_results CResults keep (pr_results s) h of (results, h) \<Rightarrow>
       (\<lparr>pr_content = content, pr_isTerminal = pr_isTerminal s, pr_stopReason = pr_stopReason s,
         pr_invoked = invoked, pr_order = order, pr_invokedOrder = invokedOrder, pr_results = results\<rparr>, h))))))"

definition cloneRunState :: "state_ref \<Rightarrow> memory \<Rightarrow> state_ref \<times> memory" where
  "cloneRunState s h =
     (case make_slice get_calls CCalls cloneToolCall (zr_PendingToolCalls s) h of (pending, h) \<Rightarrow>
     (case clone_pointer get_call CCall cloneToolCall (zr_InFlightTool s) h of (inFlight, h) \<Rightarrow>
     (case clone_pointer get_failure CFailure keep (zr_Failure s) h of (failure, h) \<Rightarrow>
     (case make_slice get_steps CSteps cloneStepRecord (zr_steps s) h of (steps, h) \<Rightarrow>
     (case make_slice get_seen CSeen keep (zr_seen s) h of (seen, h) \<Rightarrow>
       (s\<lparr>zr_PendingToolCalls := pending, zr_InFlightTool := inFlight, zr_Failure := failure,
          zr_steps := steps, zr_seen := seen\<rparr>, h))))))"


section \<open>Their values\<close>

text \<open>What is all there, the value it has in \<open>Fold\<close>, and the addresses it reaches.\<close>

abbreviation ok_raw :: "memory \<Rightarrow> address option \<Rightarrow> bool" where
  "ok_raw \<equiv> ok_cell get_bytes (\<lambda>_ _. True)"
abbreviation view_raw :: "memory \<Rightarrow> address option \<Rightarrow> raw" where
  "view_raw \<equiv> view_pointer get_bytes (\<lambda>_ x. x)"
abbreviation reach_raw :: "memory \<Rightarrow> address option \<Rightarrow> address set" where
  "reach_raw \<equiv> reach_cell get_bytes (\<lambda>_ _. {})"

abbreviation ok_key :: "memory \<Rightarrow> address option \<Rightarrow> bool" where
  "ok_key \<equiv> ok_cell get_string (\<lambda>_ _. True)"
abbreviation view_key :: "memory \<Rightarrow> address option \<Rightarrow> string option" where
  "view_key \<equiv> view_pointer get_string (\<lambda>_ x. x)"
abbreviation reach_key :: "memory \<Rightarrow> address option \<Rightarrow> address set" where
  "reach_key \<equiv> reach_cell get_string (\<lambda>_ _. {})"

interpretation raw_bytes: cloner ok_raw view_raw reach_raw clone_raw
  by (rule plain.pointed) (simp add: get_cell)

interpretation key_string: cloner ok_key view_key reach_key clone_key
  by (rule plain.pointed) (simp add: get_cell)

definition call_parts :: "call_ref \<Rightarrow> address option \<times> address option" where
  "call_parts tc = (kr_ToolArgs tc, kr_IdempotencyKey tc)"

definition build_call :: "call_ref \<Rightarrow> raw \<times> string option \<Rightarrow> ToolCall" where
  "build_call tc v = \<lparr>tc_ToolUseID = kr_ToolUseID tc, tc_ToolName = kr_ToolName tc, tc_ToolArgs = fst v,
     tc_HasSideEffect = kr_HasSideEffect tc, tc_IdempotencyKey = snd v, tc_InvokedAt = kr_InvokedAt tc\<rparr>"

definition ok_call :: "memory \<Rightarrow> call_ref \<Rightarrow> bool" where
  "ok_call h tc = ok_pair ok_raw ok_key h (call_parts tc)"
definition view_call :: "memory \<Rightarrow> call_ref \<Rightarrow> ToolCall" where
  "view_call h tc = build_call tc (view_pair view_raw view_key h (call_parts tc))"
definition reach_call :: "memory \<Rightarrow> call_ref \<Rightarrow> address set" where
  "reach_call h tc = reach_pair reach_raw reach_key h (call_parts tc)"

interpretation tool_call: cloner ok_call view_call reach_call cloneToolCall
proof -
  have "cloneToolCall = (\<lambda>tc h. case clone_pair clone_raw clone_key (call_parts tc) h of
      (y, h1) \<Rightarrow> (tc\<lparr>kr_ToolArgs := fst y, kr_IdempotencyKey := snd y\<rparr>, h1))"
    by (simp add: fun_eq_iff cloneToolCall_def clone_pair_def call_parts_def split: prod.splits)
  then show "cloner ok_call view_call reach_call cloneToolCall"
    unfolding ok_call_def view_call_def reach_call_def
    using cloner.embedded[OF raw_bytes.paired[OF key_string.cloner_axioms], of call_parts
        "\<lambda>tc y. tc\<lparr>kr_ToolArgs := fst y, kr_IdempotencyKey := snd y\<rparr>" build_call]
    by (simp add: call_parts_def build_call_def)
qed

text \<open>Blocks.\<close>

definition build_block :: "block_ref \<Rightarrow> raw \<Rightarrow> content_block" where
  "build_block b input = (case br_kind b of
     TextKind t \<Rightarrow> TextBlock t | ToolUseKind tid name \<Rightarrow> ToolUseBlock tid name input | OtherKind j \<Rightarrow> OtherBlock j)"

definition ok_block :: "memory \<Rightarrow> block_ref \<Rightarrow> bool" where
  "ok_block h b = ok_raw h (br_Input b)"
definition view_block :: "memory \<Rightarrow> block_ref \<Rightarrow> content_block" where
  "view_block h b = build_block b (view_raw h (br_Input b))"
definition reach_block :: "memory \<Rightarrow> block_ref \<Rightarrow> address set" where
  "reach_block h b = reach_raw h (br_Input b)"

interpretation content_block: cloner ok_block view_block reach_block clone_block
proof -
  have "clone_block = (\<lambda>b h. case clone_raw (br_Input b) h of (y, h1) \<Rightarrow> (b\<lparr>br_Input := y\<rparr>, h1))"
    by (simp add: fun_eq_iff clone_block_def)
  then show "cloner ok_block view_block reach_block clone_block"
    unfolding ok_block_def view_block_def reach_block_def
    using raw_bytes.embedded[of br_Input "\<lambda>b y. b\<lparr>br_Input := y\<rparr>" build_block] by (simp add: build_block_def)
qed

interpretation block_slice: cloner "ok_cell get_blocks (\<lambda>h. list_all (ok_block h))" "view_slice get_blocks view_block"
    "reach_cell get_blocks (reach_list reach_block)" cloneContentBlocks
  unfolding cloneContentBlocks_def by (rule content_block.sliced) (simp add: get_cell)

text \<open>What a step remembers of an invocation.\<close>

definition build_invocation :: "invocation_ref \<Rightarrow> string option \<Rightarrow> invocation" where
  "build_invocation v key = \<lparr>in_hasSideEffect = vr_hasSideEffect v, in_idempotencyKey = key,
     in_invokedAt = vr_invokedAt v\<rparr>"

definition ok_invocation :: "memory \<Rightarrow> invocation_ref \<Rightarrow> bool" where
  "ok_invocation h v = ok_key h (vr_idempotencyKey v)"
definition view_invocation :: "memory \<Rightarrow> invocation_ref \<Rightarrow> invocation" where
  "view_invocation h v = build_invocation v (view_key h (vr_idempotencyKey v))"
definition reach_invocation :: "memory \<Rightarrow> invocation_ref \<Rightarrow> address set" where
  "reach_invocation h v = reach_key h (vr_idempotencyKey v)"

interpretation invoked_entry: cloner ok_invocation view_invocation reach_invocation clone_invocation
proof -
  have "clone_invocation = (\<lambda>v h. case clone_key (vr_idempotencyKey v) h of (y, h1) \<Rightarrow> (v\<lparr>vr_idempotencyKey := y\<rparr>, h1))"
    by (simp add: fun_eq_iff clone_invocation_def)
  then show "cloner ok_invocation view_invocation reach_invocation clone_invocation"
    unfolding ok_invocation_def view_invocation_def reach_invocation_def
    using key_string.embedded[of vr_idempotencyKey "\<lambda>v y. v\<lparr>vr_idempotencyKey := y\<rparr>" build_invocation]
    by (simp add: build_invocation_def)
qed

text \<open>Slices of strings, and the maps. A map of values is a slice of its entries that nothing is read from by index.\<close>

abbreviation ok_strings :: "memory \<Rightarrow> address option \<Rightarrow> bool" where
  "ok_strings \<equiv> ok_cell get_strings (\<lambda>_ _. True)"
abbreviation view_strings :: "memory \<Rightarrow> address option \<Rightarrow> string list" where
  "view_strings \<equiv> view_slice get_strings (\<lambda>_ x. x)"
abbreviation reach_strings :: "memory \<Rightarrow> address option \<Rightarrow> address set" where
  "reach_strings \<equiv> reach_cell get_strings (\<lambda>_ _. {})"

abbreviation ok_invoked :: "memory \<Rightarrow> address option \<Rightarrow> bool" where
  "ok_invoked \<equiv> ok_cell get_invoked (\<lambda>h. list_all (ok_pair (\<lambda>_ _. True) ok_invocation h))"
abbreviation view_invoked :: "memory \<Rightarrow> address option \<Rightarrow> (string \<times> invocation) list" where
  "view_invoked \<equiv> view_slice get_invoked (view_pair (\<lambda>_ x. x) view_invocation)"
abbreviation reach_invoked :: "memory \<Rightarrow> address option \<Rightarrow> address set" where
  "reach_invoked \<equiv> reach_cell get_invoked (reach_list (reach_pair (\<lambda>_ _. {}) reach_invocation))"

abbreviation ok_results :: "memory \<Rightarrow> address option \<Rightarrow> bool" where
  "ok_results \<equiv> ok_cell get_results (\<lambda>h. list_all (\<lambda>_. True))"
abbreviation view_results :: "memory \<Rightarrow> address option \<Rightarrow> (string \<times> ToolResultedPayload) list" where
  "view_results \<equiv> view_slice get_results (\<lambda>_ x. x)"
abbreviation reach_results :: "memory \<Rightarrow> address option \<Rightarrow> address set" where
  "reach_results \<equiv> reach_cell get_results (reach_list (\<lambda>_ _. {}))"

interpretation string_slice: cloner ok_strings view_strings reach_strings "append_slice get_strings CStrings"
  by (rule appended) (simp add: get_cell)

interpretation invoked_map: cloner ok_invoked view_invoked reach_invoked
    "make_slice get_invoked CInvoked (clone_pair keep clone_invocation)"
  by (rule cloner.sliced[OF plain.paired[OF invoked_entry.cloner_axioms]]) (simp add: get_cell)

interpretation results_map: cloner ok_results view_results reach_results "make_slice get_results CResults keep"
  by (rule plain.sliced) (simp add: get_cell)

text \<open>Steps.\<close>

type_synonym step_addresses =
  "address option \<times> address option \<times> address option \<times> address option \<times> address option"

definition step_parts :: "step_ref \<Rightarrow> step_addresses" where
  "step_parts s = (pr_content s, pr_order s, pr_invokedOrder s, pr_invoked s, pr_results s)"

definition make_step :: "step_ref \<Rightarrow> step_addresses \<Rightarrow> step_ref" where
  "make_step s = (\<lambda>(content, order, invokedOrder, invoked, results).
     \<lparr>pr_content = content, pr_isTerminal = pr_isTerminal s, pr_stopReason = pr_stopReason s,
      pr_invoked = invoked, pr_order = order, pr_invokedOrder = invokedOrder, pr_results = results\<rparr>)"

definition build_step :: "step_ref \<Rightarrow> content_block list \<times> string list \<times> string list \<times> (string \<times> invocation) list
    \<times> (string \<times> ToolResultedPayload) list \<Rightarrow> stepRecord" where
  "build_step s = (\<lambda>(content, order, invokedOrder, invoked, results).
     \<lparr>sr_content = content, sr_isTerminal = pr_isTerminal s, sr_stopReason = pr_stopReason s,
      sr_invoked = invoked, sr_order = order, sr_invokedOrder = invokedOrder, sr_results = results\<rparr>)"

abbreviation ok_blocks :: "memory \<Rightarrow> address option \<Rightarrow> bool" where
  "ok_blocks \<equiv> ok_cell get_blocks (\<lambda>h. list_all (ok_block h))"
abbreviation view_blocks :: "memory \<Rightarrow> address option \<Rightarrow> content_block list" where
  "view_blocks \<equiv> view_slice get_blocks view_block"
abbreviation reach_blocks :: "memory \<Rightarrow> address option \<Rightarrow> address set" where
  "reach_blocks \<equiv> reach_cell get_blocks (reach_list reach_block)"

definition ok_step :: "memory \<Rightarrow> step_ref \<Rightarrow> bool" where
  "ok_step h s = ok_pair ok_blocks (ok_pair ok_strings (ok_pair ok_strings (ok_pair ok_invoked ok_results))) h
     (step_parts s)"
definition view_step :: "memory \<Rightarrow> step_ref \<Rightarrow> stepRecord" where
  "view_step h s = build_step s (view_pair view_blocks
     (view_pair view_strings (view_pair view_strings (view_pair view_invoked view_results))) h (step_parts s))"
definition reach_step :: "memory \<Rightarrow> step_ref \<Rightarrow> address set" where
  "reach_step h s = reach_pair reach_blocks
     (reach_pair reach_strings (reach_pair reach_strings (reach_pair reach_invoked reach_results))) h (step_parts s)"

lemma step_cloner: "cloner ok_step view_step reach_step (\<lambda>s h. case clone_pair cloneContentBlocks
    (clone_pair (append_slice get_strings CStrings) (clone_pair (append_slice get_strings CStrings)
      (clone_pair (make_slice get_invoked CInvoked (clone_pair keep clone_invocation))
        (make_slice get_results CResults keep)))) (step_parts s) h of (y, h1) \<Rightarrow> (make_step s y, h1))"
  unfolding ok_step_def view_step_def reach_step_def
  by (rule cloner.embedded[OF block_slice.paired[OF string_slice.paired[OF string_slice.paired[
        OF invoked_map.paired[OF results_map.cloner_axioms]]]]])
    (auto simp: step_parts_def make_step_def build_step_def)

interpretation step: cloner ok_step view_step reach_step cloneStepRecord
proof -
  have "cloneStepRecord = (\<lambda>s h. case clone_pair cloneContentBlocks
    (clone_pair (append_slice get_strings CStrings) (clone_pair (append_slice get_strings CStrings)
      (clone_pair (make_slice get_invoked CInvoked (clone_pair keep clone_invocation))
        (make_slice get_results CResults keep)))) (step_parts s) h of (y, h1) \<Rightarrow> (make_step s y, h1))"
    by (simp add: fun_eq_iff cloneStepRecord_def clone_pair_def step_parts_def make_step_def split: prod.splits)
  then show "cloner ok_step view_step reach_step cloneStepRecord"
    using step_cloner by simp
qed

text \<open>States.\<close>

abbreviation ok_calls :: "memory \<Rightarrow> address option \<Rightarrow> bool" where
  "ok_calls \<equiv> ok_cell get_calls (\<lambda>h. list_all (ok_call h))"
abbreviation view_calls :: "memory \<Rightarrow> address option \<Rightarrow> ToolCall list" where
  "view_calls \<equiv> view_slice get_calls view_call"
abbreviation reach_calls :: "memory \<Rightarrow> address option \<Rightarrow> address set" where
  "reach_calls \<equiv> reach_cell get_calls (reach_list reach_call)"

abbreviation ok_failure :: "memory \<Rightarrow> address option \<Rightarrow> bool" where
  "ok_failure \<equiv> ok_cell get_failure (\<lambda>_ _. True)"
abbreviation view_failure :: "memory \<Rightarrow> address option \<Rightarrow> RunFailedPayload option" where
  "view_failure \<equiv> view_pointer get_failure (\<lambda>_ x. x)"
abbreviation reach_failure :: "memory \<Rightarrow> address option \<Rightarrow> address set" where
  "reach_failure \<equiv> reach_cell get_failure (\<lambda>_ _. {})"

abbreviation ok_seen :: "memory \<Rightarrow> address option \<Rightarrow> bool" where
  "ok_seen \<equiv> ok_cell get_seen (\<lambda>h. list_all (\<lambda>_. True))"
abbreviation view_seen :: "memory \<Rightarrow> address option \<Rightarrow> (int \<times> string) list" where
  "view_seen \<equiv> view_slice get_seen (\<lambda>_ x. x)"
abbreviation reach_seen :: "memory \<Rightarrow> address option \<Rightarrow> address set" where
  "reach_seen \<equiv> reach_cell get_seen (reach_list (\<lambda>_ _. {}))"

abbreviation ok_steps :: "memory \<Rightarrow> address option \<Rightarrow> bool" where
  "ok_steps \<equiv> ok_cell get_steps (\<lambda>h. list_all (ok_step h))"
abbreviation view_steps :: "memory \<Rightarrow> address option \<Rightarrow> stepRecord list" where
  "view_steps \<equiv> view_slice get_steps view_step"
abbreviation reach_steps :: "memory \<Rightarrow> address option \<Rightarrow> address set" where
  "reach_steps \<equiv> reach_cell get_steps (reach_list reach_step)"

interpretation pending_slice: cloner ok_calls view_calls reach_calls "make_slice get_calls CCalls cloneToolCall"
  by (rule tool_call.sliced) (simp add: get_cell)

interpretation in_flight: cloner "ok_cell get_call ok_call" "view_pointer get_call view_call"
    "reach_cell get_call reach_call" "clone_pointer get_call CCall cloneToolCall"
  by (rule tool_call.pointed) (simp add: get_cell)

interpretation failure: cloner ok_failure view_failure reach_failure "clone_pointer get_failure CFailure keep"
  by (rule plain.pointed) (simp add: get_cell)

interpretation steps_slice: cloner ok_steps view_steps reach_steps "make_slice get_steps CSteps cloneStepRecord"
  by (rule step.sliced) (simp add: get_cell)

interpretation seen_map: cloner ok_seen view_seen reach_seen "make_slice get_seen CSeen keep"
  by (rule plain.sliced) (simp add: get_cell)

definition state_parts :: "state_ref \<Rightarrow> step_addresses" where
  "state_parts s = (zr_PendingToolCalls s, zr_InFlightTool s, zr_Failure s, zr_steps s, zr_seen s)"

definition make_state :: "state_ref \<Rightarrow> step_addresses \<Rightarrow> state_ref" where
  "make_state s = (\<lambda>(pending, inFlight, failure, steps, seen).
     s\<lparr>zr_PendingToolCalls := pending, zr_InFlightTool := inFlight, zr_Failure := failure,
       zr_steps := steps, zr_seen := seen\<rparr>)"

definition build_state :: "state_ref \<Rightarrow> ToolCall list \<times> ToolCall option \<times> RunFailedPayload option \<times> stepRecord list
    \<times> (int \<times> string) list \<Rightarrow> RunState" where
  "build_state s = (\<lambda>(pending, inFlight, failure, steps, seen).
     \<lparr>s_RunID = zr_RunID s, s_TenantID = zr_TenantID s, s_Status = zr_Status s, s_CurrentStep = zr_CurrentStep s,
      s_MaxSteps = zr_MaxSteps s, s_NextSequence = zr_NextSequence s, s_LastEventID = zr_LastEventID s,
      s_LastEventAt = zr_LastEventAt s, s_PendingToolCalls = pending, s_InFlightTool = inFlight,
      s_NextAction = zr_NextAction s, s_FinalOutput = zr_FinalOutput s, s_Failure = failure,
      s_prompt = zr_prompt s, s_steps = steps, s_seen = seen\<rparr>)"

definition ok_state :: "memory \<Rightarrow> state_ref \<Rightarrow> bool" where
  "ok_state h s = ok_pair ok_calls (ok_pair (ok_cell get_call ok_call) (ok_pair ok_failure (ok_pair ok_steps ok_seen)))
     h (state_parts s)"
definition view_state :: "memory \<Rightarrow> state_ref \<Rightarrow> RunState" where
  "view_state h s = build_state s (view_pair view_calls (view_pair (view_pointer get_call view_call)
     (view_pair view_failure (view_pair view_steps view_seen))) h (state_parts s))"
definition reach_state :: "memory \<Rightarrow> state_ref \<Rightarrow> address set" where
  "reach_state h s = reach_pair reach_calls (reach_pair (reach_cell get_call reach_call)
     (reach_pair reach_failure (reach_pair reach_steps reach_seen))) h (state_parts s)"

lemma state_cloner: "cloner ok_state view_state reach_state (\<lambda>s h. case clone_pair
    (make_slice get_calls CCalls cloneToolCall) (clone_pair (clone_pointer get_call CCall cloneToolCall)
      (clone_pair (clone_pointer get_failure CFailure keep) (clone_pair (make_slice get_steps CSteps cloneStepRecord)
        (make_slice get_seen CSeen keep)))) (state_parts s) h of (y, h1) \<Rightarrow> (make_state s y, h1))"
  unfolding ok_state_def view_state_def reach_state_def
  by (rule cloner.embedded[OF pending_slice.paired[OF in_flight.paired[OF failure.paired[
        OF steps_slice.paired[OF seen_map.cloner_axioms]]]]])
    (auto simp: state_parts_def make_state_def build_state_def)

interpretation run_state: cloner ok_state view_state reach_state cloneRunState
proof -
  have "cloneRunState = (\<lambda>s h. case clone_pair
    (make_slice get_calls CCalls cloneToolCall) (clone_pair (clone_pointer get_call CCall cloneToolCall)
      (clone_pair (clone_pointer get_failure CFailure keep) (clone_pair (make_slice get_steps CSteps cloneStepRecord)
        (make_slice get_seen CSeen keep)))) (state_parts s) h of (y, h1) \<Rightarrow> (make_state s y, h1))"
    by (simp add: fun_eq_iff cloneRunState_def clone_pair_def state_parts_def make_state_def split: prod.splits)
  then show "cloner ok_state view_state reach_state cloneRunState"
    using state_cloner by simp
qed

section \<open>The copy is deep\<close>


text \<open>A run with one tool call in flight and one pending.\<close>

definition sample_heap :: memory where
  "sample_heap = \<lparr>mm_cells = map_of [
     (0, CBytes (JObj [(''a'', JNull)])), (1, CString ''key''), (2, CBytes JNull),
     (3, CBlocks [\<lparr>br_kind = TextKind ''on it'', br_Input = None\<rparr>,
        \<lparr>br_kind = ToolUseKind ''t1'' ''charge'', br_Input = Some 0\<rparr>,
        \<lparr>br_kind = ToolUseKind ''t2'' ''mail'', br_Input = Some 2\<rparr>]),
     (4, CStrings [''t1'', ''t2'']), (5, CStrings [''t1'']),
     (6, CInvoked [(''t1'', \<lparr>vr_hasSideEffect = True, vr_idempotencyKey = Some 1, vr_invokedAt = zero_time\<rparr>)]),
     (7, CResults []),
     (8, CSteps [\<lparr>pr_content = Some 3, pr_isTerminal = False, pr_stopReason = ''tool_use'', pr_invoked = Some 6,
        pr_order = Some 4, pr_invokedOrder = Some 5, pr_results = Some 7\<rparr>]),
     (9, CCalls [\<lparr>kr_ToolUseID = ''t2'', kr_ToolName = ''mail'', kr_ToolArgs = Some 2, kr_HasSideEffect = False,
        kr_IdempotencyKey = None, kr_InvokedAt = zero_time\<rparr>]),
     (10, CCall \<lparr>kr_ToolUseID = ''t1'', kr_ToolName = ''charge'', kr_ToolArgs = Some 0, kr_HasSideEffect = True,
        kr_IdempotencyKey = Some 1, kr_InvokedAt = zero_time\<rparr>),
     (11, CSeen [(0, ''e0''), (1, ''e1''), (2, ''e2'')])], mm_next = 12\<rparr>"

definition sample_ref :: state_ref where
  "sample_ref = \<lparr>zr_RunID = ''r'', zr_TenantID = ''t'', zr_Status = StatusRunning, zr_CurrentStep = 1,
     zr_MaxSteps = 5, zr_NextSequence = 3, zr_LastEventID = ''e2'', zr_LastEventAt = zero_time,
     zr_PendingToolCalls = Some 9, zr_InFlightTool = Some 10, zr_NextAction = ActionResolveInFlightTool,
     zr_FinalOutput = [], zr_Failure = None, zr_prompt = ''p'', zr_steps = Some 8, zr_seen = Some 11\<rparr>"

text \<open>The copy, and the memory after the bytes of the copy's call in flight (cell 14) have been overwritten.\<close>

definition sample_copy :: "state_ref \<times> memory" where
  "sample_copy = cloneRunState sample_ref sample_heap"

definition sample_written :: memory where
  "sample_written = (snd sample_copy)\<lparr>mm_cells := (mm_cells (snd sample_copy))(14 \<mapsto> CBytes JNull)\<rparr>"

lemma sample_ref_ok: "ok_state sample_heap sample_ref"
  by code_simp

lemma sample_write_in_copy: "14 \<in> reach_state (snd sample_copy) (fst sample_copy)"
  by code_simp

lemma sample_write_seen:
  "map_option tc_ToolArgs (s_InFlightTool (view_state sample_written (fst sample_copy))) = Some (Some JNull)"
  by code_simp

lemma sample_original:
  "map_option tc_ToolArgs (s_InFlightTool (view_state sample_heap sample_ref)) = Some (Some (JObj [(''a'', JNull)]))"
  by code_simp


end
