(* ===== verification/Spec2Isabelle.thy ===== *)
theory Spec2Isabelle
  imports Sim_Instances Worker_Properties Projector_Properties Replay_Agreement Bounds_Properties Effects_Report Connectivity State_Heap
begin

text \<open>
  A verification library for the durable agent execution runtime: a worker drives an agent run (calls to a
  language model, and tools) by journaling every step to a Kafka topic before acting on it, so that a run
  whose worker dies is resumed by folding the journal; side effects of tools are fenced by idempotency
  records in Redis; a projector copies the journal to Postgres for reading.

  Parts, and the theories that model them.

  \<^item> \<open>Prelude\<close>: programs over a state (\<open>prog\<close>: a result, a halt of the process with its exit status, or out of
    fuel), Go's errors as values with a chain of sentinels, 64-bit integers written out with \<open>wrap64\<close>, the
    rules (\<open>triple\<close>, \<open>finishes\<close>, \<open>leaves\<close>) the proofs about programs use. \<open>Go_Text\<close>, \<open>Go_Time\<close>, \<open>Go_Duration\<close>,
    \<open>Go_Json\<close> and \<open>Go_Sha256\<close> model what the source uses of Go's standard library.
  \<^item> \<open>Events\<close> (\<open>internal/events\<close>): payloads, envelope, codec.
  \<^item> \<open>Run_State\<close> and \<open>Fold\<close> (\<open>internal/replay\<close>, \<open>state.go\<close>, \<open>fold.go\<close>, \<open>replay.go\<close>): the state of a run as the fold
    of its journal, as a value. \<open>State_Heap\<close> models the copying of a state in a memory of cells and shows that it is
    deep. \<open>Fold_Facts\<close> holds its invariant, \<open>Fold_Properties\<close> the theorems; \<open>Messages\<close>
    (\<open>messages.go\<close>, \<open>terminal.go\<close>) the conversation and the terminal event, \<open>Digest\<close> the state digest;
    \<open>Fold_Canon\<close> shows that fold and digest commute with reordering the members of the journal's documents.
  \<^item> \<open>Tools\<close> (\<open>internal/tools\<close>): registry, ledger and mock tools.
  \<^item> \<open>Idem\<close> and \<open>Guard\<close> (\<open>internal/idempotency\<close>): keys, records, the Redis store with its compare-and-set
    script, and the guard. \<open>Fence\<close>, \<open>Fence_Prompt\<close> and \<open>Fence_Bystander\<close> prove, against the laws of a store
    and of tools (locales), that the guard runs an effect at most once, that it comes back after a bounded
    number of polls, and that it leaves other keys alone.
  \<^item> \<open>Agent_Loop\<close> (\<open>internal/agent\<close>): the loop. \<open>Loop_Facts\<close>, \<open>Loop_Contract\<close> and \<open>Loop_Correct\<close> prove, against
    the laws of a journal and a fence, that journal, state and effects stay tied together, and that the
    loop ends.
  \<^item> \<open>Kafka\<close> (\<open>internal/kafka\<close>, \<open>kafka_source.go\<close>) and \<open>Kafka_Log\<close>: publishing and reading back, against the
    laws of a partitioned log.
  \<^item> \<open>Worker\<close> (\<open>cmd/worker\<close>): configuration, starting state, wiring, exit codes.
  \<^item> \<open>Store\<close> (\<open>internal/store\<close>): the two tables and the statements on them, \<open>ApplyEvent\<close> and \<open>EventReader\<close> over a record of
    the calls to Postgres. \<open>Store_Facts\<close> proves, against the laws of transactions (a locale), that an event is applied
    as a whole or not at all; \<open>Projection\<close> what the tables hold after a list of events, refining the fold.
  \<^item> \<open>Projector\<close> (\<open>cmd/projector\<close>): the consumer loop with its retries and the process; \<open>Projector_Facts\<close> proves against the
    laws of a consumer group (a locale, which allows rebalances) that the tables hold what was consumed.
  \<^item> \<open>Effects_Report\<close>, \<open>Replay_Cli\<close> and \<open>Connectivity\<close> (\<open>scripts\<close>): the three command-line programs.
  \<^item> \<open>Sim_World\<close> is a world in which everything above runs: a Redis map with expiry, topic partitions, a
    ledger file, a clock and a schedule by which an adversary refuses calls, performs them without
    answering, delays them, writes twice, or kills the process at any call; \<open>Sim_Store\<close> puts a Postgres server and a
    consumer group beside it, a site. The other \<open>Sim\<close> theories show that they obey the laws of every locale.
  \<^item> \<open>Worker_Properties\<close> states what follows for whole histories of worker processes of one run.
    \<open>Sim_Site\<close> builds histories of a site, in which worker processes of any runs and projector processes follow
    each other and each may be killed at any call; \<open>Sim_Catchup\<close> shows what a projector does that is left alone;
    \<open>Projector_Properties\<close> and \<open>Replay_Agreement\<close> state what readers of Postgres rely on. \<open>Sample_Run\<close> and
    \<open>Sample_Site\<close> hold the concrete inputs of the witnesses. \<open>Bounds_Properties\<close> collects ranges, waits and limits.

  Bounds. Loops that wait for the outside take fuel. With the default timeouts a claim is stale after two
  minutes and thirty seconds, so 151 polls one second apart are enough for a guard to come back. A run of at
  most ten steps takes at most 11275 rounds: an answer of 1024 tokens has at most 1024 tool uses. A partition
  of the simulated topic holds less than \<open>2 ^ 62\<close> messages, so that offsets and sequence numbers do not wrap. A projector
  takes one unit of fuel per message and one per attempt to apply it; when a site is left alone one attempt and one more
  unit than there are messages are enough.

  Assumptions. One process works on a run at a time, a write that was reported as failed is not delivered
  later, the tools registered do not change between processes, and the ledger is not edited by hand. One
  projector runs at a time and nothing is published while it runs (what is published between two of its runs it
  finds); Postgres runs transactions one after the other. Postgres is given documents whose numbers it keeps as
  written: the type \<open>JSONB\<close> orders members and drops duplicates, which is modelled, and rewrites \<open>-0\<close>, which is not.

  Not modelled: bytes below a JSON document (white space, escapes), the parsing of command lines, and the clients of
  Kafka, Redis, Postgres and the model themselves, which are records of calls.
\<close>

end
